(* ===== verification/Go_Prelude.thy ===== *)
theory Go_Prelude
  imports Main "HOL-Library.Word"
begin

text \<open>
  Shared vocabulary of the development: the machine types of the Go sources, the values a
  Go function can end with (a result, an error value, a panic), and the generic lemmas on
  words, maps and lists that the component theories use.

  \<^item> \<^verbatim>\<open>uint64\<close> and \<^verbatim>\<open>byte\<close> are words of 64 and 8 bits; \<^verbatim>\<open>uint256.Int\<close> and \<^verbatim>\<open>common.Hash\<close> are
    256-bit words (a hash is read as the big-endian number of its 32 bytes, so that
    \<^verbatim>\<open>common.Hash{}\<close> is 0); \<^verbatim>\<open>common.Address\<close> is a 160-bit word;
  \<^item> \<^verbatim>\<open>*big.Int\<close> is \<^typ>\<open>int\<close>, and a pointer that may be \<^verbatim>\<open>nil\<close> is an option;
  \<^item> a Go map is a partial function; a slice is a list;
  \<^item> a function that may panic returns an option, \<^const>\<open>None\<close> being the panic.
\<close>

unbundle bit_operations_syntax

type_synonym byte = "8 word"
type_synonym bytes = "byte list"
type_synonym u32 = "32 word"
type_synonym u64 = "64 word"
type_synonym u256 = "256 word"
type_synonym hash = "256 word"
type_synonym address = "160 word"

named_theorems chain_simps "defining equations of the chain configuration"
named_theorems state_simps "defining equations of the state database"
named_theorems vm_simps "defining equations of the virtual machine"

section \<open>Words\<close>

lemma uint_less_2p64: "uint (w :: u64) < 18446744073709551616"
  using uint_lt2p [of w] by simp

lemma uint_word_of_int_id:
  "0 \<le> i \<Longrightarrow> i < 2 ^ LENGTH('a) \<Longrightarrow> uint (word_of_int i :: 'a::len word) = i"
  by (simp add: uint_word_of_int)

lemma uint_minus_one:
  "0 < uint w \<Longrightarrow> uint (w - 1 :: 'a::len word) = uint w - 1"
  by (simp add: uint_minus_simple_alt word_le_def word_less_def uint_sub_if')

text \<open>
  \<^verbatim>\<open>big.Int.Uint64\<close>: the low 64 bits of the absolute value
  (documented as undefined when the value does not fit; the implementation takes the low word).
\<close>

definition big_Uint64 :: "int \<Rightarrow> u64" where
  "big_Uint64 x = word_of_int \<bar>x\<bar>"

lemma uint_big_Uint64 [simp]:
  "0 \<le> x \<Longrightarrow> x < 2 ^ 64 \<Longrightarrow> uint (big_Uint64 x) = x"
  by (simp add: big_Uint64_def uint_word_of_int)

text \<open>\<^verbatim>\<open>big.Int.BitLen\<close>: the number of bits of the absolute value.\<close>

fun bit_len :: "nat \<Rightarrow> nat" where
  "bit_len n = (if n = 0 then 0 else Suc (bit_len (n div 2)))"

declare bit_len.simps [simp del]

lemma bit_len_le: "bit_len n \<le> k \<longleftrightarrow> n < 2 ^ k"
proof (induction n arbitrary: k rule: bit_len.induct)
  case (1 n)
  show ?case
  proof (cases "n = 0")
    case False
    show ?thesis
    proof (cases k)
      case (Suc l)
      then show ?thesis
        using 1 [OF False, of l] False by (simp add: bit_len.simps [of n] div_less_iff_less_mult mult.commute)
    qed (use False in \<open>simp add: bit_len.simps [of n]\<close>)
  qed (simp add: bit_len.simps)
qed

section \<open>Byte strings\<close>

text \<open>
  \<^verbatim>\<open>byte(i >> k)\<close> of a \<^verbatim>\<open>uint64\<close>, the big-endian number of a byte string, and the shortest
  big-endian byte string of a number (\<^verbatim>\<open>big.Int.Bytes\<close> and \<^verbatim>\<open>big.Int.SetBytes\<close>).
\<close>

definition byte_shr :: "u64 \<Rightarrow> nat \<Rightarrow> byte" where
  "byte_shr i k = ucast (drop_bit k i)"

primrec be_nat :: "bytes \<Rightarrow> nat" where
  "be_nat [] = 0"
| "be_nat (b # bs) = unat b * 256 ^ length bs + be_nat bs"

fun be_bytes :: "nat \<Rightarrow> bytes" where
  "be_bytes n = (if n = 0 then [] else be_bytes (n div 256) @ [word_of_nat n])"

declare be_bytes.simps [simp del]

lemma be_bytes_0 [simp]: "be_bytes 0 = []"
  by (simp add: be_bytes.simps)

lemma be_bytes_pos: "0 < n \<Longrightarrow> be_bytes n = be_bytes (n div 256) @ [word_of_nat n]"
  by (simp add: be_bytes.simps)

lemma be_bytes_eq_Nil [simp]: "be_bytes n = [] \<longleftrightarrow> n = 0"
  by (subst be_bytes.simps) simp

lemma unat_byte_less [simp]: "unat (b :: byte) < 256"
  using unsigned_less [of b] by simp

lemma unat_word_of_nat_byte [simp]: "unat (word_of_nat n :: byte) = n mod 256"
  by (simp add: unat_of_nat)

lemma word_256_byte: "(256 :: byte) = 0"
  using word_of_nat_eq_0_iff [of 256, where ?'a = 8] by simp

lemma byte_shr_nat: "byte_shr i k = word_of_nat (unat i div 2 ^ k)"
  by (simp add: byte_shr_def word_unat_eq_iff unat_drop_bit_eq unsigned_ucast_eq,
      simp add: drop_bit_eq_div take_bit_eq_mod)

lemma be_nat_append: "be_nat (xs @ ys) = be_nat xs * 256 ^ length ys + be_nat ys"
  by (induction xs) (simp_all add: power_add algebra_simps)

lemma be_nat_less: "be_nat bs < 256 ^ length bs"
proof (induction bs)
  case (Cons b bs)
  have "unat b * 256 ^ length bs + be_nat bs < (unat b + 1) * 256 ^ length bs"
    using Cons by simp
  also have "\<dots> \<le> 256 * 256 ^ length bs"
    using unat_byte_less [of b] by (intro mult_right_mono) linarith+
  finally show ?case by simp
qed simp

lemma be_nat_be_bytes [simp]: "be_nat (be_bytes n) = n"
proof (induction n rule: be_bytes.induct)
  case (1 n)
  then show ?case by (cases "n = 0") (simp_all add: be_bytes_pos be_nat_append)
qed

lemma be_bytes_be_nat [simp]:
  "bs = [] \<or> hd bs \<noteq> 0 \<Longrightarrow> be_bytes (be_nat bs) = bs"
proof (induction bs rule: rev_induct)
  case (snoc b bs)
  have "be_nat (bs @ [b]) \<noteq> 0"
  proof (cases bs)
    case Nil
    then show ?thesis using snoc.prems by (simp add: be_nat_append unat_eq_0)
  next
    case (Cons a as)
    then show ?thesis using snoc.prems by (simp add: be_nat_append unat_eq_0)
  qed
  then have "be_bytes (be_nat (bs @ [b]))
      = be_bytes (be_nat (bs @ [b]) div 256) @ [word_of_nat (be_nat (bs @ [b]))]"
    by (simp add: be_bytes_pos)
  moreover have "be_nat (bs @ [b]) div 256 = be_nat bs"
    by (simp add: be_nat_append)
  moreover have "word_of_nat (be_nat (bs @ [b])) = b"
    by (simp add: be_nat_append word_256_byte)
  moreover have "be_bytes (be_nat bs) = bs"
    using snoc by (cases bs) simp_all
  ultimately show ?case by simp
qed simp

lemma hd_be_bytes: "0 < n \<Longrightarrow> hd (be_bytes n) \<noteq> 0"
proof (induction n rule: be_bytes.induct)
  case (1 n)
  show ?case
  proof (cases "n div 256 = 0")
    case True
    then show ?thesis using 1(2) by (simp add: be_bytes_pos word_unat_eq_iff div_eq_0_iff)
  next
    case False
    then show ?thesis using 1 be_bytes_pos [of n] by simp
  qed
qed

lemma length_be_bytes_le: "n < 256 ^ k \<longleftrightarrow> length (be_bytes n) \<le> k"
proof (induction n arbitrary: k rule: be_bytes.induct)
  case (1 n)
  show ?case
  proof (cases "n = 0")
    case False
    then show ?thesis
    proof (cases k)
      case (Suc l)
      have "n < 256 ^ k \<longleftrightarrow> n div 256 < 256 ^ l"
        by (simp add: Suc less_mult_imp_div_less div_less_iff_less_mult mult.commute)
      then show ?thesis using 1 [of l] False Suc by (simp add: be_bytes_pos)
    qed (simp add: be_bytes_pos)
  qed simp
qed

text \<open>
  The bytes of a fixed-width value (\<^verbatim>\<open>common.Hash\<close> is 32 bytes, \<^verbatim>\<open>common.Address\<close> 20,
  \<^verbatim>\<open>binary.BigEndian.PutUint64\<close> writes 8), and the value of a byte string, cropped from the left as
  \<^verbatim>\<open>BytesToHash\<close> and \<^verbatim>\<open>BytesToAddress\<close> crop it.
\<close>

primrec word_bytes :: "nat \<Rightarrow> 'a::len word \<Rightarrow> bytes" where
  "word_bytes 0 w = []"
| "word_bytes (Suc k) w = ucast (drop_bit (8 * k) w) # word_bytes k w"

definition bytes_word :: "bytes \<Rightarrow> 'a::len word" where
  "bytes_word bs = word_of_nat (be_nat bs)"

lemma length_word_bytes [simp]: "length (word_bytes k w) = k"
  by (induction k) simp_all

lemma be_nat_word_bytes: "be_nat (word_bytes k w) = unat w mod 256 ^ k"
proof (induction k)
  case (Suc k)
  have "unat (ucast (drop_bit (8 * k) w) :: byte) = unat w div 256 ^ k mod 256"
    by (simp add: unsigned_ucast_eq unat_drop_bit_eq, simp add: drop_bit_eq_div take_bit_eq_mod power_mult)
  then show ?case
    using Suc mod_mult2_eq [of "unat w" "256 ^ k" 256] by (simp add: mult.commute)
qed simp

lemma bytes_word_word_bytes [simp]:
  assumes "LENGTH('a::len) = 8 * k"
  shows "bytes_word (word_bytes k (w :: 'a word)) = w"
proof -
  have "unat w < 256 ^ k"
    using unsigned_less [of w, where ?'a = nat] assms by (simp add: power_mult)
  then show ?thesis by (simp add: bytes_word_def be_nat_word_bytes)
qed

lemma word_bytes_inj:
  "LENGTH('a::len) = 8 * k \<Longrightarrow> word_bytes k (v :: 'a word) = word_bytes k w \<longleftrightarrow> v = w"
  using bytes_word_word_bytes by metis

text \<open>
  Slicing \<^verbatim>\<open>xs[lo:hi]\<close> and \<^verbatim>\<open>copy(out[pos:], src)\<close>; an index out of range is a panic.
\<close>

definition go_slice :: "'a list \<Rightarrow> nat \<Rightarrow> nat \<Rightarrow> 'a list option" where
  "go_slice xs lo hi =
     (if lo \<le> hi \<and> hi \<le> length xs then Some (take (hi - lo) (drop lo xs)) else None)"

definition copy_at :: "'a list \<Rightarrow> nat \<Rightarrow> 'a list \<Rightarrow> (nat \<times> 'a list) option" where
  "copy_at out pos src =
     (if pos \<le> length out
      then (let n = min (length out - pos) (length src)
            in Some (n, take pos out @ take n src @ drop (pos + n) out))
      else None)"

text \<open>Writing bytes one by one into \<^verbatim>\<open>out[pos:]\<close>.\<close>

definition put_at :: "'a list \<Rightarrow> nat \<Rightarrow> 'a list \<Rightarrow> 'a list option" where
  "put_at out pos src =
     (if pos + length src \<le> length out
      then Some (take pos out @ src @ drop (pos + length src) out)
      else None)"

end
