(* ===== verification/Chain_Params.thy ===== *)
theory Chain_Params
  imports Go_Prelude
begin

text \<open>
  The chain configuration of \<^verbatim>\<open>params/config.go\<close>: the fork schedule of a network, the
  predicates that say which forks are active at a block, the check that a new configuration
  does not rewrite the rules of blocks already imported (\<^verbatim>\<open>CheckCompatible\<close>), the check of the
  fork order, and the configurations of the networks. A \<^verbatim>\<open>*big.Int\<close> that may be \<^verbatim>\<open>nil\<close>
  (a fork that is not scheduled) is an \<^typ>\<open>int option\<close>.

  The lemmas show that the compatibility loop terminates and rewinds below every conflict,
  that compatible configurations agree on the rules of every imported block, and that an
  accepted fork order makes the forks nested.
\<close>

section \<open>Data\<close>

record CliqueConfig =
  Period :: u64
  Epoch :: u64

record ChainConfig =
  ChainID :: "int option"
  HomesteadBlock :: "int option"
  DAOForkBlock :: "int option"
  DAOForkSupport :: bool
  EIP150Block :: "int option"
  EIP150Hash :: hash
  EIP155Block :: "int option"
  EIP158Block :: "int option"
  ByzantiumBlock :: "int option"
  ConstantinopleBlock :: "int option"
  PetersburgBlock :: "int option"
  IstanbulBlock :: "int option"
  MuirGlacierBlock :: "int option"
  YoloV3Block :: "int option"
  EWASMBlock :: "int option"
  QuicheBlock :: "int option"
  MicheBlock :: "int option"
  RuskBlock :: "int option"
  CelestiaBlock :: "int option"
  MafuyuBlock :: "int option"
  KipfelBlock :: "int option"
  LuminaBlock :: "int option"
  Ethash :: "unit option"
  Clique :: "CliqueConfig option"

record ConfigCompatError =
  What :: string
  StoredConfig :: "int option"
  NewConfig :: "int option"
  RewindTo :: u64

record Rules =
  rChainID :: int
  rIsHomestead :: bool
  rIsEIP150 :: bool
  rIsEIP155 :: bool
  rIsEIP158 :: bool
  rIsByzantium :: bool
  rIsConstantinople :: bool
  rIsPetersburg :: bool
  rIsIstanbul :: bool
  rIsYoloV3 :: bool

section \<open>Fork predicates\<close>

definition isForked :: "int option \<Rightarrow> int option \<Rightarrow> bool" where
  "isForked s head = (case (s, head) of (Some b, Some h) \<Rightarrow> b \<le> h | _ \<Rightarrow> False)"

definition configNumEqual :: "int option \<Rightarrow> int option \<Rightarrow> bool" where
  "configNumEqual x y = (case x of None \<Rightarrow> y = None
     | Some a \<Rightarrow> (case y of None \<Rightarrow> False | Some b \<Rightarrow> a = b))"

definition isForkIncompatible :: "int option \<Rightarrow> int option \<Rightarrow> int option \<Rightarrow> bool" where
  "isForkIncompatible s1 s2 head =
     ((isForked s1 head \<or> isForked s2 head) \<and> \<not> configNumEqual s1 s2)"

definition IsHomestead :: "ChainConfig \<Rightarrow> int option \<Rightarrow> bool" where
  "IsHomestead c num = isForked (HomesteadBlock c) num"

definition IsDAOFork :: "ChainConfig \<Rightarrow> int option \<Rightarrow> bool" where
  "IsDAOFork c num = isForked (DAOForkBlock c) num"

definition IsEIP150 :: "ChainConfig \<Rightarrow> int option \<Rightarrow> bool" where
  "IsEIP150 c num = isForked (EIP150Block c) num"

definition IsEIP155 :: "ChainConfig \<Rightarrow> int option \<Rightarrow> bool" where
  "IsEIP155 c num = isForked (EIP155Block c) num"

definition IsEIP158 :: "ChainConfig \<Rightarrow> int option \<Rightarrow> bool" where
  "IsEIP158 c num = isForked (EIP158Block c) num"

definition IsByzantium :: "ChainConfig \<Rightarrow> int option \<Rightarrow> bool" where
  "IsByzantium c num = isForked (ByzantiumBlock c) num"

definition IsConstantinople :: "ChainConfig \<Rightarrow> int option \<Rightarrow> bool" where
  "IsConstantinople c num = isForked (ConstantinopleBlock c) num"

definition IsMuirGlacier :: "ChainConfig \<Rightarrow> int option \<Rightarrow> bool" where
  "IsMuirGlacier c num = isForked (MuirGlacierBlock c) num"

definition IsPetersburg :: "ChainConfig \<Rightarrow> int option \<Rightarrow> bool" where
  "IsPetersburg c num =
     (isForked (PetersburgBlock c) num \<or>
      PetersburgBlock c = None \<and> isForked (ConstantinopleBlock c) num)"

definition IsIstanbul :: "ChainConfig \<Rightarrow> int option \<Rightarrow> bool" where
  "IsIstanbul c num = isForked (IstanbulBlock c) num"

definition IsYoloV3 :: "ChainConfig \<Rightarrow> int option \<Rightarrow> bool" where
  "IsYoloV3 c num = isForked (YoloV3Block c) num"

definition IsEWASM :: "ChainConfig \<Rightarrow> int option \<Rightarrow> bool" where
  "IsEWASM c num = isForked (EWASMBlock c) num"

definition config_Rules :: "ChainConfig \<Rightarrow> int option \<Rightarrow> Rules" where
  "config_Rules c num =
     \<lparr>rChainID = (case ChainID c of None \<Rightarrow> 0 | Some i \<Rightarrow> i),
      rIsHomestead = IsHomestead c num,
      rIsEIP150 = IsEIP150 c num,
      rIsEIP155 = IsEIP155 c num,
      rIsEIP158 = IsEIP158 c num,
      rIsByzantium = IsByzantium c num,
      rIsConstantinople = IsConstantinople c num,
      rIsPetersburg = IsPetersburg c num,
      rIsIstanbul = IsIstanbul c num,
      rIsYoloV3 = IsYoloV3 c num\<rparr>"

lemmas fork_defs [chain_simps] =
  IsHomestead_def IsDAOFork_def IsEIP150_def IsEIP155_def IsEIP158_def IsByzantium_def
  IsConstantinople_def IsMuirGlacier_def IsPetersburg_def IsIstanbul_def IsYoloV3_def
  IsEWASM_def

section \<open>Compatibility of two configurations\<close>

definition newCompatError :: "string \<Rightarrow> int option \<Rightarrow> int option \<Rightarrow> ConfigCompatError" where
  "newCompatError what storedblock newblock =
     (let rew = (case storedblock of
                   None \<Rightarrow> newblock
                 | Some s \<Rightarrow> (case newblock of
                       None \<Rightarrow> storedblock
                     | Some n \<Rightarrow> if s < n then storedblock else newblock));
          rewindTo = (case rew of
                   None \<Rightarrow> 0
                 | Some r \<Rightarrow> if r > 0 then big_Uint64 r - 1 else 0)
      in \<lparr>What = what, StoredConfig = storedblock, NewConfig = newblock, RewindTo = rewindTo\<rparr>)"

definition checkCompatible ::
  "ChainConfig \<Rightarrow> ChainConfig \<Rightarrow> int option \<Rightarrow> ConfigCompatError option" where
  "checkCompatible c newcfg head =
    (if isForkIncompatible (HomesteadBlock c) (HomesteadBlock newcfg) head
     then Some (newCompatError ''Homestead fork block'' (HomesteadBlock c) (HomesteadBlock newcfg))
     else if isForkIncompatible (DAOForkBlock c) (DAOForkBlock newcfg) head
     then Some (newCompatError ''DAO fork block'' (DAOForkBlock c) (DAOForkBlock newcfg))
     else if IsDAOFork c head \<and> DAOForkSupport c \<noteq> DAOForkSupport newcfg
     then Some (newCompatError ''DAO fork support flag'' (DAOForkBlock c) (DAOForkBlock newcfg))
     else if isForkIncompatible (EIP150Block c) (EIP150Block newcfg) head
     then Some (newCompatError ''EIP150 fork block'' (EIP150Block c) (EIP150Block newcfg))
     else if isForkIncompatible (EIP155Block c) (EIP155Block newcfg) head
     then Some (newCompatError ''EIP155 fork block'' (EIP155Block c) (EIP155Block newcfg))
     else if isForkIncompatible (EIP158Block c) (EIP158Block newcfg) head
     then Some (newCompatError ''EIP158 fork block'' (EIP158Block c) (EIP158Block newcfg))
     else if IsEIP158 c head \<and> \<not> configNumEqual (ChainID c) (ChainID newcfg)
     then Some (newCompatError ''EIP158 chain ID'' (EIP158Block c) (EIP158Block newcfg))
     else if isForkIncompatible (ByzantiumBlock c) (ByzantiumBlock newcfg) head
     then Some (newCompatError ''Byzantium fork block'' (ByzantiumBlock c) (ByzantiumBlock newcfg))
     else if isForkIncompatible (ConstantinopleBlock c) (ConstantinopleBlock newcfg) head
     then Some (newCompatError ''Constantinople fork block''
                  (ConstantinopleBlock c) (ConstantinopleBlock newcfg))
     else if isForkIncompatible (PetersburgBlock c) (PetersburgBlock newcfg) head
             \<and> isForkIncompatible (ConstantinopleBlock c) (PetersburgBlock newcfg) head
     then Some (newCompatError ''Petersburg fork block'' (PetersburgBlock c) (PetersburgBlock newcfg))
     else if isForkIncompatible (IstanbulBlock c) (IstanbulBlock newcfg) head
     then Some (newCompatError ''Istanbul fork block'' (IstanbulBlock c) (IstanbulBlock newcfg))
     else if isForkIncompatible (MuirGlacierBlock c) (MuirGlacierBlock newcfg) head
     then Some (newCompatError ''Muir Glacier fork block''
                  (MuirGlacierBlock c) (MuirGlacierBlock newcfg))
     else if isForkIncompatible (YoloV3Block c) (YoloV3Block newcfg) head
     then Some (newCompatError ''YOLOv3 fork block'' (YoloV3Block c) (YoloV3Block newcfg))
     else if isForkIncompatible (EWASMBlock c) (EWASMBlock newcfg) head
     then Some (newCompatError ''ewasm fork block'' (EWASMBlock c) (EWASMBlock newcfg))
     else None)"

text \<open>
  Every error names two blocks of which one is active at the head, so its rewind target lies
  below the head (or is 0): what makes the loop of \<^verbatim>\<open>CheckCompatible\<close> stop.
\<close>

lemma newCompatError_rewinds:
  assumes "isForked s (Some (uint h)) \<or> isForked n (Some (uint h))"
  shows "RewindTo (newCompatError w s n) < h \<or> RewindTo (newCompatError w s n) = 0"
proof -
  have less: "big_Uint64 r - 1 < h" if "0 < r" "r \<le> uint h" for r
  proof -
    have "r < 2 ^ 64" using that(2) uint_lt2p [of h] by simp
    with that have "uint (big_Uint64 r) = r" by simp
    with that have "uint (big_Uint64 r - 1) = r - 1" by (simp add: uint_minus_one)
    with that show ?thesis by (simp add: word_less_def)
  qed
  show ?thesis using assms
    by (auto simp: newCompatError_def isForked_def Let_def intro!: less split: option.splits)
qed

lemma isForkIncompatible_forked:
  "isForkIncompatible s n h \<Longrightarrow> isForked s h \<or> isForked n h"
  by (simp add: isForkIncompatible_def)

lemma checkCompatible_rewinds:
  assumes "checkCompatible c newcfg (Some (uint h)) = Some err"
  shows "RewindTo err < h \<or> RewindTo err = 0"
  using assms unfolding checkCompatible_def
  by (auto simp: fork_defs split: if_splits
        intro!: newCompatError_rewinds dest!: isForkIncompatible_forked)

function CheckCompatible_loop ::
  "ChainConfig \<Rightarrow> ChainConfig \<Rightarrow> u64 \<Rightarrow> ConfigCompatError option \<Rightarrow> ConfigCompatError option" where
  "CheckCompatible_loop c newcfg bhead lasterr =
     (case checkCompatible c newcfg (Some (uint bhead)) of
        None \<Rightarrow> lasterr
      | Some err \<Rightarrow>
          if (case lasterr of None \<Rightarrow> False | Some l \<Rightarrow> RewindTo err = RewindTo l)
          then lasterr
          else CheckCompatible_loop c newcfg (RewindTo err) (Some err))"
  by pat_completeness auto
termination
proof (relation "measure (\<lambda>(c, newcfg, bhead, lasterr). 2 * unat bhead +
    (case lasterr of None \<Rightarrow> 1 | Some l \<Rightarrow> if RewindTo l = bhead then 0 else 1))", goal_cases)
  case 1
  then show ?case by simp
next
  case (2 c newcfg bhead lasterr err)
  from checkCompatible_rewinds [OF 2(1)] show ?case
    using 2(2) by (auto simp: word_less_nat_alt unat_gt_0 split: option.splits)
qed

declare CheckCompatible_loop.simps [simp del]

definition CheckCompatible ::
  "ChainConfig \<Rightarrow> ChainConfig \<Rightarrow> u64 \<Rightarrow> ConfigCompatError option" where
  "CheckCompatible c newcfg height = CheckCompatible_loop c newcfg height None"

section \<open>What compatibility means\<close>

text \<open>
  The loop stops at an error whose rewind target has no conflict left, unless the target is
  already the genesis block.
\<close>

lemma CheckCompatible_loop_result:
  assumes "case lasterr of None \<Rightarrow> True | Some l \<Rightarrow> RewindTo l = bhead"
  shows "CheckCompatible_loop c newcfg bhead lasterr = None \<longleftrightarrow>
           lasterr = None \<and> checkCompatible c newcfg (Some (uint bhead)) = None"
    and "CheckCompatible_loop c newcfg bhead lasterr = Some e \<Longrightarrow>
           RewindTo e \<le> bhead \<and>
           (checkCompatible c newcfg (Some (uint (RewindTo e))) = None \<or> RewindTo e = 0)"
  using assms
proof (induction c newcfg bhead lasterr rule: CheckCompatible_loop.induct)
  case (1 c newcfg bhead lasterr)
  note unfold = CheckCompatible_loop.simps [of c newcfg bhead lasterr]
  {
    case 1
    then show ?case using "1.IH"(1) unfold
      by (auto split: option.splits if_splits)
  next
    case 2
    show ?case
    proof (cases "checkCompatible c newcfg (Some (uint bhead))")
      case None
      with 2 unfold show ?thesis by (auto split: option.splits)
    next
      case (Some err)
      note rew = checkCompatible_rewinds [OF Some]
      show ?thesis
      proof (cases "case lasterr of None \<Rightarrow> False | Some l \<Rightarrow> RewindTo err = RewindTo l")
        case True
        with 2 Some unfold rew show ?thesis by (auto split: option.splits)
      next
        case False
        with Some unfold 2 have
          "CheckCompatible_loop c newcfg (RewindTo err) (Some err) = Some e" by simp
        with "1.IH"(2) [OF Some False] have e: "RewindTo e \<le> RewindTo err"
          "checkCompatible c newcfg (Some (uint (RewindTo e))) = None \<or> RewindTo e = 0" by auto
        from rew have "RewindTo err \<le> bhead" by auto
        with e show ?thesis by auto
      qed
    qed
  }
qed

lemma isForkIncompatible_agree:
  assumes "\<not> isForkIncompatible s1 s2 (Some h)" and "n \<le> h"
  shows "isForked s1 (Some n) = isForked s2 (Some n)"
  using assms
  by (auto simp: isForkIncompatible_def isForked_def configNumEqual_def split: option.splits)

section \<open>Order of the forks\<close>

record fork =
  fk_name :: string
  fk_block :: "int option"
  fk_optional :: bool

datatype fork_order_error =
    ForkNotEnabled string string int
  | ForkBefore string int string int

definition config_forks :: "ChainConfig \<Rightarrow> fork list" where
  "config_forks c =
     [\<lparr>fk_name = ''homesteadBlock'', fk_block = HomesteadBlock c, fk_optional = False\<rparr>,
      \<lparr>fk_name = ''daoForkBlock'', fk_block = DAOForkBlock c, fk_optional = True\<rparr>,
      \<lparr>fk_name = ''eip150Block'', fk_block = EIP150Block c, fk_optional = False\<rparr>,
      \<lparr>fk_name = ''eip155Block'', fk_block = EIP155Block c, fk_optional = False\<rparr>,
      \<lparr>fk_name = ''eip158Block'', fk_block = EIP158Block c, fk_optional = False\<rparr>,
      \<lparr>fk_name = ''byzantiumBlock'', fk_block = ByzantiumBlock c, fk_optional = False\<rparr>,
      \<lparr>fk_name = ''constantinopleBlock'', fk_block = ConstantinopleBlock c, fk_optional = False\<rparr>,
      \<lparr>fk_name = ''petersburgBlock'', fk_block = PetersburgBlock c, fk_optional = False\<rparr>,
      \<lparr>fk_name = ''istanbulBlock'', fk_block = IstanbulBlock c, fk_optional = False\<rparr>,
      \<lparr>fk_name = ''muirGlacierBlock'', fk_block = MuirGlacierBlock c, fk_optional = True\<rparr>,
      \<lparr>fk_name = ''yoloV3Block'', fk_block = YoloV3Block c, fk_optional = False\<rparr>]"

fun checkForkOrder_loop :: "fork \<Rightarrow> fork list \<Rightarrow> fork_order_error option" where
  "checkForkOrder_loop lastFork [] = None"
| "checkForkOrder_loop lastFork (cur # rest) =
     (let keep = (if \<not> fk_optional cur \<or> fk_block cur \<noteq> None then cur else lastFork)
      in if fk_name lastFork = [] then checkForkOrder_loop keep rest
      else (case (fk_block lastFork, fk_block cur) of
              (None, Some b) \<Rightarrow> Some (ForkNotEnabled (fk_name lastFork) (fk_name cur) b)
            | (Some a, Some b) \<Rightarrow>
                if a > b then Some (ForkBefore (fk_name lastFork) a (fk_name cur) b)
                else checkForkOrder_loop keep rest
            | _ \<Rightarrow> checkForkOrder_loop keep rest))"

definition CheckConfigForkOrder :: "ChainConfig \<Rightarrow> fork_order_error option" where
  "CheckConfigForkOrder c =
     checkForkOrder_loop \<lparr>fk_name = [], fk_block = None, fk_optional = False\<rparr> (config_forks c)"

text \<open>\<open>fork_le s t\<close>: the fork \<open>t\<close> is only scheduled once \<open>s\<close> is, and not before it.\<close>

definition fork_le :: "int option \<Rightarrow> int option \<Rightarrow> bool" where
  "fork_le s t = (case t of None \<Rightarrow> True | Some b \<Rightarrow> (case s of None \<Rightarrow> False | Some a \<Rightarrow> a \<le> b))"

lemma fork_le_trans: "fork_le s t \<Longrightarrow> fork_le t u \<Longrightarrow> fork_le s u"
  by (auto simp: fork_le_def split: option.splits)

lemma fork_le_isForked: "fork_le s t \<Longrightarrow> isForked t n \<Longrightarrow> isForked s n"
  by (auto simp: fork_le_def isForked_def split: option.splits)

text \<open>
  Once a fork has been seen the loop compares each fork with the last one it kept; an optional fork that is not set is not
  kept.
\<close>

lemma checkForkOrder_loop_Cons:
  assumes "fk_name l \<noteq> []"
  shows "checkForkOrder_loop l (cur # rest) = None \<longleftrightarrow>
    fork_le (fk_block l) (fk_block cur)
    \<and> checkForkOrder_loop (if \<not> fk_optional cur \<or> fk_block cur \<noteq> None then cur else l) rest = None"
  using assms by (auto simp: fork_le_def Let_def not_less split: option.splits)

lemma checkForkOrder_loop_first:
  "fk_name l = [] \<Longrightarrow> \<not> fk_optional cur \<Longrightarrow> checkForkOrder_loop l (cur # rest) = checkForkOrder_loop cur rest"
  by (simp add: Let_def)

lemma CheckConfigForkOrder_iff:
  "CheckConfigForkOrder c = None \<longleftrightarrow>
     fork_le (HomesteadBlock c) (DAOForkBlock c)
     \<and> fork_le (if DAOForkBlock c = None then HomesteadBlock c else DAOForkBlock c) (EIP150Block c)
     \<and> fork_le (EIP150Block c) (EIP155Block c) \<and> fork_le (EIP155Block c) (EIP158Block c)
     \<and> fork_le (EIP158Block c) (ByzantiumBlock c) \<and> fork_le (ByzantiumBlock c) (ConstantinopleBlock c)
     \<and> fork_le (ConstantinopleBlock c) (PetersburgBlock c) \<and> fork_le (PetersburgBlock c) (IstanbulBlock c)
     \<and> fork_le (IstanbulBlock c) (MuirGlacierBlock c)
     \<and> fork_le (if MuirGlacierBlock c = None then IstanbulBlock c else MuirGlacierBlock c) (YoloV3Block c)"
  by (simp add: CheckConfigForkOrder_def config_forks_def checkForkOrder_loop_first checkForkOrder_loop_Cons
      del: checkForkOrder_loop.simps(2))

section \<open>Networks\<close>

definition MainnetChainConfig :: ChainConfig where
  "MainnetChainConfig =
     \<lparr>ChainID = Some 329, HomesteadBlock = Some 0, DAOForkBlock = None, DAOForkSupport = True,
      EIP150Block = Some 0, EIP150Hash = 0, EIP155Block = Some 0, EIP158Block = Some 0,
      ByzantiumBlock = Some 0, ConstantinopleBlock = Some 0,
      PetersburgBlock = Some 100000000, IstanbulBlock = Some 500000000,
      MuirGlacierBlock = None, YoloV3Block = None, EWASMBlock = None,
      QuicheBlock = Some 4200000, MicheBlock = Some 6300000, RuskBlock = Some 8400000,
      CelestiaBlock = Some 10500000, MafuyuBlock = Some 12600000, KipfelBlock = Some 14700000,
      LuminaBlock = Some 16800000, Ethash = Some (), Clique = None\<rparr>"

definition RopstenChainConfig :: ChainConfig where
  "RopstenChainConfig =
     \<lparr>ChainID = Some 3329, HomesteadBlock = Some 0, DAOForkBlock = None, DAOForkSupport = True,
      EIP150Block = Some 0,
      EIP150Hash = 0x41941023680923e0fe4d74a34bdac8141f2540e3ae90623718e47d66d1ca4a2d,
      EIP155Block = Some 10, EIP158Block = Some 10,
      ByzantiumBlock = Some 1700000, ConstantinopleBlock = Some 4230000,
      PetersburgBlock = Some 4939394, IstanbulBlock = Some 6485846,
      MuirGlacierBlock = Some 7117117, YoloV3Block = None, EWASMBlock = None,
      QuicheBlock = None, MicheBlock = None, RuskBlock = None, CelestiaBlock = None,
      MafuyuBlock = None, KipfelBlock = None, LuminaBlock = None,
      Ethash = Some (), Clique = None\<rparr>"

definition RinkebyChainConfig :: ChainConfig where
  "RinkebyChainConfig =
     \<lparr>ChainID = Some 4329, HomesteadBlock = Some 1, DAOForkBlock = None, DAOForkSupport = True,
      EIP150Block = Some 2,
      EIP150Hash = 0x9b095b36c15eaf13044373aef8ee0bd3a382a5abb92e402afa44b8249c3a90e9,
      EIP155Block = Some 3, EIP158Block = Some 3,
      ByzantiumBlock = Some 1035301, ConstantinopleBlock = Some 3660663,
      PetersburgBlock = Some 4321234, IstanbulBlock = Some 5435345,
      MuirGlacierBlock = None, YoloV3Block = None, EWASMBlock = None,
      QuicheBlock = None, MicheBlock = None, RuskBlock = None, CelestiaBlock = None,
      MafuyuBlock = None, KipfelBlock = None, LuminaBlock = None,
      Ethash = None, Clique = Some \<lparr>Period = 15, Epoch = 30000\<rparr>\<rparr>"

definition GoerliChainConfig :: ChainConfig where
  "GoerliChainConfig =
     \<lparr>ChainID = Some 5329, HomesteadBlock = Some 0, DAOForkBlock = None, DAOForkSupport = True,
      EIP150Block = Some 0, EIP150Hash = 0, EIP155Block = Some 0, EIP158Block = Some 0,
      ByzantiumBlock = Some 0, ConstantinopleBlock = Some 0,
      PetersburgBlock = Some 0, IstanbulBlock = Some 1561651,
      MuirGlacierBlock = None, YoloV3Block = None, EWASMBlock = None,
      QuicheBlock = None, MicheBlock = None, RuskBlock = None, CelestiaBlock = None,
      MafuyuBlock = None, KipfelBlock = None, LuminaBlock = None,
      Ethash = None, Clique = Some \<lparr>Period = 15, Epoch = 30000\<rparr>\<rparr>"

definition YoloV3ChainConfig :: ChainConfig where
  "YoloV3ChainConfig =
     \<lparr>ChainID = Some 133519467574834, HomesteadBlock = Some 0, DAOForkBlock = None,
      DAOForkSupport = True,
      EIP150Block = Some 0, EIP150Hash = 0, EIP155Block = Some 0, EIP158Block = Some 0,
      ByzantiumBlock = Some 0, ConstantinopleBlock = Some 0,
      PetersburgBlock = Some 0, IstanbulBlock = Some 0,
      MuirGlacierBlock = None, YoloV3Block = Some 0, EWASMBlock = None,
      QuicheBlock = None, MicheBlock = None, RuskBlock = None, CelestiaBlock = None,
      MafuyuBlock = None, KipfelBlock = None, LuminaBlock = None,
      Ethash = None, Clique = Some \<lparr>Period = 15, Epoch = 30000\<rparr>\<rparr>"

section \<open>Properties\<close>

text \<open>
  C15. \<^verbatim>\<open>CheckCompatible\<close> reports a conflict exactly when the two configurations conflict at the
  given height; the reported block to rewind to is not above that height, and at that block no
  conflict is left (or the block is genesis).
\<close>

theorem CheckCompatible_lowest_conflict:
  "case CheckCompatible c newcfg h of
     None \<Rightarrow> checkCompatible c newcfg (Some (uint h)) = None
   | Some e \<Rightarrow> checkCompatible c newcfg (Some (uint h)) \<noteq> None \<and> RewindTo e \<le> h \<and>
       (checkCompatible c newcfg (Some (uint (RewindTo e))) = None \<or> RewindTo e = 0)"
  using CheckCompatible_loop_result [where lasterr = None and bhead = h and c = c and newcfg = newcfg]
  by (auto simp: CheckCompatible_def split: option.splits)

text \<open>
  C16. Configurations that \<^verbatim>\<open>checkCompatible\<close> accepts at a head block give the same fork rules to
  every block up to that head (all rules but Petersburg in general, Petersburg too when the
  two configurations schedule it at the same block).
\<close>

theorem checkCompatible_same_rules:
  assumes ok: "checkCompatible c newcfg (Some h) = None" and n: "n \<le> h"
  shows "IsHomestead c (Some n) = IsHomestead newcfg (Some n)
    \<and> IsDAOFork c (Some n) = IsDAOFork newcfg (Some n)
    \<and> IsEIP150 c (Some n) = IsEIP150 newcfg (Some n)
    \<and> IsEIP155 c (Some n) = IsEIP155 newcfg (Some n)
    \<and> IsEIP158 c (Some n) = IsEIP158 newcfg (Some n)
    \<and> IsByzantium c (Some n) = IsByzantium newcfg (Some n)
    \<and> IsConstantinople c (Some n) = IsConstantinople newcfg (Some n)
    \<and> IsIstanbul c (Some n) = IsIstanbul newcfg (Some n)
    \<and> IsMuirGlacier c (Some n) = IsMuirGlacier newcfg (Some n)
    \<and> IsYoloV3 c (Some n) = IsYoloV3 newcfg (Some n)
    \<and> IsEWASM c (Some n) = IsEWASM newcfg (Some n)
    \<and> (PetersburgBlock c = PetersburgBlock newcfg \<longrightarrow>
         IsPetersburg c (Some n) = IsPetersburg newcfg (Some n))"
proof -
  have agree: "isForked s1 (Some n) = isForked s2 (Some n)"
    if "\<not> isForkIncompatible s1 s2 (Some h)" for s1 s2
    using isForkIncompatible_agree [OF that n] .
  have "\<not> isForkIncompatible (HomesteadBlock c) (HomesteadBlock newcfg) (Some h)"
    "\<not> isForkIncompatible (DAOForkBlock c) (DAOForkBlock newcfg) (Some h)"
    "\<not> isForkIncompatible (EIP150Block c) (EIP150Block newcfg) (Some h)"
    "\<not> isForkIncompatible (EIP155Block c) (EIP155Block newcfg) (Some h)"
    "\<not> isForkIncompatible (EIP158Block c) (EIP158Block newcfg) (Some h)"
    "\<not> isForkIncompatible (ByzantiumBlock c) (ByzantiumBlock newcfg) (Some h)"
    "\<not> isForkIncompatible (ConstantinopleBlock c) (ConstantinopleBlock newcfg) (Some h)"
    "\<not> isForkIncompatible (IstanbulBlock c) (IstanbulBlock newcfg) (Some h)"
    "\<not> isForkIncompatible (MuirGlacierBlock c) (MuirGlacierBlock newcfg) (Some h)"
    "\<not> isForkIncompatible (YoloV3Block c) (YoloV3Block newcfg) (Some h)"
    "\<not> isForkIncompatible (EWASMBlock c) (EWASMBlock newcfg) (Some h)"
    using ok unfolding checkCompatible_def by (auto split: if_splits)
  note compat = this [THEN agree]
  then show ?thesis by (simp add: fork_defs)
qed

theorem checkCompatible_same_rules_witness:
  "IsByzantium RopstenChainConfig (Some 1800000)
     = IsByzantium (RopstenChainConfig\<lparr>IstanbulBlock := Some 9000000\<rparr>) (Some 1800000)"
proof -
  have ok: "checkCompatible RopstenChainConfig (RopstenChainConfig\<lparr>IstanbulBlock := Some 9000000\<rparr>)
      (Some 6000000) = None"
    by (simp add: checkCompatible_def RopstenChainConfig_def isForkIncompatible_def isForked_def
        configNumEqual_def fork_defs)
  show ?thesis using checkCompatible_same_rules [OF ok, of 1800000] by simp
qed

text \<open>
  C17. The compatibility check does not protect the Petersburg rules: on the mainnet
  configuration, dropping the Petersburg block (so that Petersburg follows Constantinople) is
  accepted at height 5000000, although it changes the rules of every imported block.
\<close>

theorem CheckCompatible_misses_Petersburg:
  "CheckCompatible MainnetChainConfig (MainnetChainConfig\<lparr>PetersburgBlock := None\<rparr>) 5000000 = None
   \<and> \<not> IsPetersburg MainnetChainConfig (Some 1)
   \<and> IsPetersburg (MainnetChainConfig\<lparr>PetersburgBlock := None\<rparr>) (Some 1)"
proof -
  have "checkCompatible MainnetChainConfig (MainnetChainConfig\<lparr>PetersburgBlock := None\<rparr>)
      (Some (uint (5000000 :: u64))) = None"
    by (simp add: checkCompatible_def MainnetChainConfig_def isForkIncompatible_def isForked_def
        configNumEqual_def fork_defs)
  then have "CheckCompatible MainnetChainConfig (MainnetChainConfig\<lparr>PetersburgBlock := None\<rparr>) 5000000
      = None"
    by (simp only: CheckCompatible_def CheckCompatible_loop_result(1) [where lasterr = None] option.case)
  then show ?thesis
    by (simp add: MainnetChainConfig_def IsPetersburg_def isForked_def)
qed

text \<open>
  C18. A fork order is accepted exactly if every fork from Homestead to YoloV3 is set only if the one before it in the list is
  set, and not to an earlier block, where the optional DAO and Muir Glacier forks are passed over if they are not set. The
  forks of an accepted configuration are nested: a mandatory fork that is active at a block has all earlier mandatory ones
  active there, the DAO fork has Homestead active and Muir Glacier has Istanbul active, and an optional fork that is set is
  active wherever the mandatory fork after it (EIP150, YoloV3) is.
\<close>

theorem CheckConfigForkOrder_nested:
  "(CheckConfigForkOrder c = None \<longleftrightarrow>
     fork_le (HomesteadBlock c) (DAOForkBlock c)
     \<and> fork_le (if DAOForkBlock c = None then HomesteadBlock c else DAOForkBlock c) (EIP150Block c)
     \<and> fork_le (EIP150Block c) (EIP155Block c) \<and> fork_le (EIP155Block c) (EIP158Block c)
     \<and> fork_le (EIP158Block c) (ByzantiumBlock c) \<and> fork_le (ByzantiumBlock c) (ConstantinopleBlock c)
     \<and> fork_le (ConstantinopleBlock c) (PetersburgBlock c) \<and> fork_le (PetersburgBlock c) (IstanbulBlock c)
     \<and> fork_le (IstanbulBlock c) (MuirGlacierBlock c)
     \<and> fork_le (if MuirGlacierBlock c = None then IstanbulBlock c else MuirGlacierBlock c) (YoloV3Block c))
   \<and> (CheckConfigForkOrder c = None \<longrightarrow>
     (IsYoloV3 c n \<longrightarrow> IsIstanbul c n) \<and> (IsIstanbul c n \<longrightarrow> IsPetersburg c n)
     \<and> (IsPetersburg c n \<longrightarrow> IsConstantinople c n) \<and> (IsConstantinople c n \<longrightarrow> IsByzantium c n)
     \<and> (IsByzantium c n \<longrightarrow> IsEIP158 c n) \<and> (IsEIP158 c n \<longrightarrow> IsEIP155 c n)
     \<and> (IsEIP155 c n \<longrightarrow> IsEIP150 c n) \<and> (IsEIP150 c n \<longrightarrow> IsHomestead c n)
     \<and> (IsDAOFork c n \<longrightarrow> IsHomestead c n) \<and> (DAOForkBlock c \<noteq> None \<longrightarrow> IsEIP150 c n \<longrightarrow> IsDAOFork c n)
     \<and> (IsMuirGlacier c n \<longrightarrow> IsIstanbul c n) \<and> (MuirGlacierBlock c \<noteq> None \<longrightarrow> IsYoloV3 c n \<longrightarrow> IsMuirGlacier c n))"
  (is "?accepted \<and> ?nested")
proof
  show ?accepted by (rule CheckConfigForkOrder_iff)
  show ?nested
    unfolding CheckConfigForkOrder_iff fork_defs
    by (auto dest: fork_le_isForked split: if_splits)
qed

theorem CheckConfigForkOrder_nested_witness:
  "CheckConfigForkOrder MainnetChainConfig = None
   \<and> IsByzantium MainnetChainConfig (Some 7) \<and> IsEIP158 MainnetChainConfig (Some 7)
   \<and> CheckConfigForkOrder (MainnetChainConfig\<lparr>MuirGlacierBlock := Some 5\<rparr>) \<noteq> None"
proof -
  have ok: "CheckConfigForkOrder MainnetChainConfig = None"
    by (simp add: CheckConfigForkOrder_def config_forks_def MainnetChainConfig_def)
  moreover have "IsByzantium MainnetChainConfig (Some 7)"
    by (simp add: IsByzantium_def isForked_def MainnetChainConfig_def)
  moreover have "\<not> fork_le (IstanbulBlock (MainnetChainConfig\<lparr>MuirGlacierBlock := Some 5\<rparr>)) (Some 5)"
    by (simp add: MainnetChainConfig_def fork_le_def)
  ultimately show ?thesis
    using CheckConfigForkOrder_nested [of MainnetChainConfig "Some 7"]
      CheckConfigForkOrder_nested [of "MainnetChainConfig\<lparr>MuirGlacierBlock := Some 5\<rparr>" None] by auto
qed

end
