(* ===== verification/RLP_Encode.thy ===== *)
theory RLP_Encode
  imports Go_Prelude
begin

text \<open>
  The RLP encoder of \<^verbatim>\<open>rlp/encode.go\<close>. A Go value that the encoder accepts is a \<^verbatim>\<open>val\<close>; its
  constructor is the branch of \<^verbatim>\<open>makeWriter\<close> that its reflected type selects. The encoder
  writes string data and list headers into separate buffers (\<^verbatim>\<open>encbuf\<close>) and merges them at the end,
  into one slice (\<^verbatim>\<open>toBytes\<close>), into a writer (\<^verbatim>\<open>toWriter\<close>) or piece by piece (\<^verbatim>\<open>encReader\<close>).
  A Go \<^verbatim>\<open>int\<close> that is a length is a \<^typ>\<open>nat\<close>; an index out of range is a panic (\<^const>\<open>None\<close>).

  The lemmas show that the merge never panics and gives, for every value, the recursive
  encoding of the RLP specification, through each of the three outputs.
\<close>

section \<open>Values\<close>

datatype Kind = Byte | String | List

datatype rlp_error =
    EOL
  | ErrExpectedString
  | ErrExpectedList
  | ErrCanonInt
  | ErrCanonSize
  | ErrElemTooLarge
  | ErrValueTooLarge
  | ErrMoreThanOneValue
  | errNotInList
  | errNotAtEOL
  | errUintOverflow
  | ErrUnexpectedEOF
  | ErrEOF
  | ErrNegativeBigInt
  | ErrInvalidBool
  | ErrTooFewElements
  | ErrStringTooLong
  | ErrStringTooShort
  | ErrWrongEmptyKind

datatype val =
    VRaw bytes
  | VBigInt "int option"
  | VUint u64
  | VBool bool
  | VString bytes
  | VBytes bytes
  | VByteArray bytes
  | VSlice bool "val list"
  | VStruct "val list"
  | VNilPtr Kind
  | VPtr val
  | VNilInterface
  | VInterface val

section \<open>Headers and integers\<close>

definition putint :: "u64 \<Rightarrow> bytes" where
  "putint i =
     (if i < 2 ^ 8 then [byte_shr i 0]
      else if i < 2 ^ 16 then [byte_shr i 8, byte_shr i 0]
      else if i < 2 ^ 24 then [byte_shr i 16, byte_shr i 8, byte_shr i 0]
      else if i < 2 ^ 32 then [byte_shr i 24, byte_shr i 16, byte_shr i 8, byte_shr i 0]
      else if i < 2 ^ 40 then
        [byte_shr i 32, byte_shr i 24, byte_shr i 16, byte_shr i 8, byte_shr i 0]
      else if i < 2 ^ 48 then
        [byte_shr i 40, byte_shr i 32, byte_shr i 24, byte_shr i 16, byte_shr i 8, byte_shr i 0]
      else if i < 2 ^ 56 then
        [byte_shr i 48, byte_shr i 40, byte_shr i 32, byte_shr i 24, byte_shr i 16, byte_shr i 8,
         byte_shr i 0]
      else
        [byte_shr i 56, byte_shr i 48, byte_shr i 40, byte_shr i 32, byte_shr i 24, byte_shr i 16,
         byte_shr i 8, byte_shr i 0])"

lemma unat_shr8: "unat (drop_bit 8 (i :: u64)) = unat i div 256"
  by (subst unat_drop_bit_eq) (simp add: drop_bit_eq_div)

lemma drop_bit_8_less: "drop_bit 8 (i :: u64) \<noteq> 0 \<Longrightarrow> unat (drop_bit 8 i) < unat i"
  using unat_gt_0 [of i] by (cases "i = 0") (simp_all add: unat_shr8)

function intsize_loop :: "nat \<Rightarrow> u64 \<Rightarrow> nat" where
  "intsize_loop sz i =
     (let i' = drop_bit 8 i in if i' = 0 then sz else intsize_loop (sz + 1) i')"
  by pat_completeness auto
termination
  by (relation "measure (\<lambda>(sz, i). unat i)") (auto simp: drop_bit_8_less)

declare intsize_loop.simps [simp del]

definition intsize :: "u64 \<Rightarrow> nat" where
  "intsize i = intsize_loop 1 i"

definition headsize :: "u64 \<Rightarrow> nat" where
  "headsize sz = (if sz < 56 then 1 else 1 + intsize sz)"

text \<open>The bytes that \<^verbatim>\<open>puthead\<close> writes to the front of its buffer.\<close>

definition puthead :: "byte \<Rightarrow> byte \<Rightarrow> u64 \<Rightarrow> bytes" where
  "puthead smalltag largetag sz =
     (if sz < 56 then [smalltag + ucast sz]
      else (let b = putint sz in (largetag + word_of_nat (length b)) # b))"

section \<open>The encoder buffer\<close>

record listhead =
  lh_offset :: nat
  lh_size :: nat

record encbuf =
  eb_str :: bytes
  eb_lheads :: "listhead list"
  eb_lhsize :: nat

definition listhead_encode :: "listhead \<Rightarrow> bytes" where
  "listhead_encode h = puthead 0xC0 0xF7 (word_of_nat (lh_size h))"

definition encbuf_reset :: encbuf where
  "encbuf_reset = \<lparr>eb_str = [], eb_lheads = [], eb_lhsize = 0\<rparr>"

definition append_str :: "bytes \<Rightarrow> encbuf \<Rightarrow> encbuf" where
  "append_str b w = w\<lparr>eb_str := eb_str w @ b\<rparr>"

definition encodeStringHeader :: "nat \<Rightarrow> encbuf \<Rightarrow> encbuf" where
  "encodeStringHeader sz w =
     (if sz < 56 then append_str [0x80 + word_of_nat sz] w
      else (let b = putint (word_of_nat sz)
            in append_str ((0xB7 + word_of_nat (length b)) # b) w))"

definition encodeString :: "bytes \<Rightarrow> encbuf \<Rightarrow> encbuf" where
  "encodeString b w =
     (if length b = 1 \<and> hd b \<le> 0x7F then append_str [hd b] w
      else append_str b (encodeStringHeader (length b) w))"

definition encodeUint :: "u64 \<Rightarrow> encbuf \<Rightarrow> encbuf" where
  "encodeUint i w =
     (if i = 0 then append_str [0x80] w
      else if i < 128 then append_str [ucast i] w
      else (let b = putint i in append_str ((0x80 + word_of_nat (length b)) # b) w))"

definition encbuf_size :: "encbuf \<Rightarrow> nat" where
  "encbuf_size w = length (eb_str w) + eb_lhsize w"

definition encbuf_list :: "encbuf \<Rightarrow> nat \<times> encbuf" where
  "encbuf_list w =
     (let w' = w\<lparr>eb_lheads := eb_lheads w @ [\<lparr>lh_offset = length (eb_str w), lh_size = eb_lhsize w\<rparr>]\<rparr>
      in (length (eb_lheads w') - 1, w'))"

text \<open>The index given to \<^verbatim>\<open>listEnd\<close> is the one \<^verbatim>\<open>list\<close> returned, so it is in range.\<close>

definition listEnd :: "nat \<Rightarrow> encbuf \<Rightarrow> encbuf" where
  "listEnd index w =
     (let lh = eb_lheads w ! index;
          sz = encbuf_size w - lh_offset lh - lh_size lh
      in w\<lparr>eb_lheads := (eb_lheads w)[index := lh\<lparr>lh_size := sz\<rparr>],
           eb_lhsize := eb_lhsize w + (if sz < 56 then 1 else 1 + intsize (word_of_nat sz))\<rparr>)"

section \<open>Writers\<close>

text \<open>
  \<^verbatim>\<open>big.Int.Bits\<close>: the 64-bit words of the absolute value, from the least significant one.
\<close>

fun word_digits :: "nat \<Rightarrow> u64 list" where
  "word_digits n = (if n = 0 then [] else word_of_nat n # word_digits (n div 2 ^ 64))"

declare word_digits.simps [simp del]

text \<open>The inner loop of \<^verbatim>\<open>writeBigInt\<close>, with the number of rounds left.\<close>

primrec put_word :: "nat \<Rightarrow> u64 \<Rightarrow> nat \<times> bytes \<Rightarrow> nat \<times> bytes" where
  "put_word 0 d ib = ib"
| "put_word (Suc j) d ib =
     (case ib of (index, buf) \<Rightarrow>
        if index > 0 then put_word j (drop_bit 8 d) (index - 1, buf[index - 1 := ucast d])
        else (index, buf))"

definition writeBigInt :: "int \<Rightarrow> encbuf \<Rightarrow> rlp_error + encbuf" where
  "writeBigInt i w =
     (if i < 0 then Inl ErrNegativeBigInt
      else (let bitlen = bit_len (nat \<bar>i\<bar>) in
        if bitlen \<le> 64 then Inr (encodeUint (big_Uint64 i) w)
        else (let len = (bitlen + 7) div 8;
                  buf = snd (fold (put_word 8) (word_digits (nat \<bar>i\<bar>)) (len, replicate len 0))
              in Inr (append_str buf (encodeStringHeader len w)))))"

definition writeBool :: "bool \<Rightarrow> encbuf \<Rightarrow> encbuf" where
  "writeBool b w = append_str [if b then 0x01 else 0x80] w"

definition writeString :: "bytes \<Rightarrow> encbuf \<Rightarrow> encbuf" where
  "writeString s w =
     (if length s = 1 \<and> hd s \<le> 0x7F then append_str [hd s] w
      else append_str s (encodeStringHeader (length s) w))"

definition writeByteArray :: "bytes \<Rightarrow> encbuf \<Rightarrow> encbuf" where
  "writeByteArray b w =
     (if length b = 0 then append_str [0x80] w
      else if length b = 1 then
        (if hd b \<le> 0x7F then append_str [hd b] w else append_str [0x81, hd b] w)
      else append_str b (encodeStringHeader (length b) w))"

definition writeNilPtr :: "Kind \<Rightarrow> encbuf \<Rightarrow> encbuf" where
  "writeNilPtr k w =
     (if k = String then append_str [0x80] w
      else (case encbuf_list w of (idx, w') \<Rightarrow> listEnd idx w'))"

fun encode_val :: "val \<Rightarrow> encbuf \<Rightarrow> rlp_error + encbuf"
and encode_vals :: "val list \<Rightarrow> encbuf \<Rightarrow> rlp_error + encbuf" where
  "encode_val (VRaw b) w = Inr (append_str b w)"
| "encode_val (VBigInt None) w = Inr (append_str [0x80] w)"
| "encode_val (VBigInt (Some i)) w = writeBigInt i w"
| "encode_val (VUint i) w = Inr (encodeUint i w)"
| "encode_val (VBool b) w = Inr (writeBool b w)"
| "encode_val (VString s) w = Inr (writeString s w)"
| "encode_val (VBytes b) w = Inr (encodeString b w)"
| "encode_val (VByteArray b) w = Inr (writeByteArray b w)"
| "encode_val (VSlice tail vs) w =
     (if tail then encode_vals vs w
      else (case encbuf_list w of (lh, w1) \<Rightarrow>
             (case encode_vals vs w1 of Inl e \<Rightarrow> Inl e | Inr w2 \<Rightarrow> Inr (listEnd lh w2))))"
| "encode_val (VStruct vs) w =
     (case encbuf_list w of (lh, w1) \<Rightarrow>
        (case encode_vals vs w1 of Inl e \<Rightarrow> Inl e | Inr w2 \<Rightarrow> Inr (listEnd lh w2)))"
| "encode_val (VNilPtr k) w = Inr (writeNilPtr k w)"
| "encode_val (VPtr v) w = encode_val v w"
| "encode_val VNilInterface w = Inr (append_str [0xC0] w)"
| "encode_val (VInterface v) w = encode_val v w"
| "encode_vals [] w = Inr w"
| "encode_vals (v # vs) w =
     (case encode_val v w of Inl e \<Rightarrow> Inl e | Inr w' \<Rightarrow> encode_vals vs w')"

section \<open>Outputs\<close>

fun toBytes_loop :: "bytes \<Rightarrow> listhead list \<Rightarrow> nat \<Rightarrow> nat \<Rightarrow> bytes \<Rightarrow> (nat \<times> nat \<times> bytes) option" where
  "toBytes_loop s [] strpos pos out = Some (strpos, pos, out)"
| "toBytes_loop s (h # hs) strpos pos out =
     (case go_slice s strpos (lh_offset h) of None \<Rightarrow> None | Some piece \<Rightarrow>
      (case copy_at out pos piece of None \<Rightarrow> None | Some (n, out1) \<Rightarrow>
       (let enc = listhead_encode h in
        case put_at out1 (pos + n) enc of None \<Rightarrow> None | Some out2 \<Rightarrow>
          toBytes_loop s hs (strpos + n) (pos + n + length enc) out2)))"

definition toBytes :: "encbuf \<Rightarrow> bytes option" where
  "toBytes w =
     (case toBytes_loop (eb_str w) (eb_lheads w) 0 0 (replicate (encbuf_size w) 0) of None \<Rightarrow> None
      | Some (strpos, pos, out) \<Rightarrow>
         (case go_slice (eb_str w) strpos (length (eb_str w)) of None \<Rightarrow> None
          | Some piece \<Rightarrow> (case copy_at out pos piece of None \<Rightarrow> None
             | Some (n, out') \<Rightarrow> Some out')))"

definition EncodeToBytes :: "val \<Rightarrow> (rlp_error + bytes) option" where
  "EncodeToBytes v =
     (case encode_val v encbuf_reset of
        Inl e \<Rightarrow> Some (Inl e)
      | Inr eb \<Rightarrow> (case toBytes eb of None \<Rightarrow> None | Some out \<Rightarrow> Some (Inr out)))"

text \<open>
  \<^verbatim>\<open>toWriter\<close> with the \<^verbatim>\<open>io.Writer\<close> as an argument: a function from the bytes to write and the
  writer's state to the number of bytes written, the error and the new state.
\<close>

type_synonym ('e, 's) io_Write = "bytes \<Rightarrow> 's \<Rightarrow> (nat \<times> 'e option) \<times> 's"

fun toWriter_loop ::
  "('e, 's) io_Write \<Rightarrow> bytes \<Rightarrow> listhead list \<Rightarrow> nat \<Rightarrow> 's \<Rightarrow> ((nat \<times> 'e option) \<times> 's) option" where
  "toWriter_loop wr s [] strpos st = Some ((strpos, None), st)"
| "toWriter_loop wr s (h # hs) strpos st =
     (let write_head = (\<lambda>strpos st.
            case wr (listhead_encode h) st of
              ((_, Some e), st') \<Rightarrow> Some ((strpos, Some e), st')
            | ((_, None), st') \<Rightarrow> toWriter_loop wr s hs strpos st')
      in if lh_offset h > strpos
         then (case go_slice s strpos (lh_offset h) of None \<Rightarrow> None
               | Some piece \<Rightarrow>
                  (case wr piece st of
                     ((n, Some e), st') \<Rightarrow> Some ((strpos + n, Some e), st')
                   | ((n, None), st') \<Rightarrow> write_head (strpos + n) st'))
         else write_head strpos st)"

definition toWriter :: "('e, 's) io_Write \<Rightarrow> encbuf \<Rightarrow> 's \<Rightarrow> ('e option \<times> 's) option" where
  "toWriter wr w st =
     (case toWriter_loop wr (eb_str w) (eb_lheads w) 0 st of
        None \<Rightarrow> None
      | Some ((_, Some e), st') \<Rightarrow> Some (Some e, st')
      | Some ((strpos, None), st') \<Rightarrow>
          (if strpos < length (eb_str w)
           then (case wr (drop strpos (eb_str w)) st' of ((_, err), st'') \<Rightarrow> Some (err, st''))
           else Some (None, st')))"

text \<open>
  The dynamic type of the \<^verbatim>\<open>io.Writer\<close> that \<^verbatim>\<open>Encode\<close> gets: the buffer of an encoder that is running (a method
  \<^verbatim>\<open>EncodeRLP\<close> calls \<^verbatim>\<open>Encode\<close> with it), to which the value is written directly, or any other writer. After an error
  the buffer is not used any more, so only the error is the result.
\<close>

datatype 's Writer = Outer encbuf | Other 's

fun Encode ::
  "('e, 's) io_Write \<Rightarrow> val \<Rightarrow> 's Writer \<Rightarrow> (rlp_error + 'e option \<times> 's Writer) option" where
  "Encode wr v (Outer outer) =
     (case encode_val v outer of Inl e \<Rightarrow> Some (Inl e) | Inr outer' \<Rightarrow> Some (Inr (None, Outer outer')))"
| "Encode wr v (Other st) =
     (case encode_val v encbuf_reset of
        Inl e \<Rightarrow> Some (Inl e)
      | Inr eb \<Rightarrow> (case toWriter wr eb st of None \<Rightarrow> None | Some (err, st') \<Rightarrow> Some (Inr (err, Other st'))))"

definition encbuf_Write :: "(rlp_error, encbuf) io_Write" where
  "encbuf_Write b w = ((length b, None), append_str b w)"

text \<open>\<^verbatim>\<open>bytes.Buffer\<close> of the standard library, which grows as needed.\<close>

definition buffer_Write :: "(unit, bytes) io_Write" where
  "buffer_Write b st = ((length b, None), st @ b)"

section \<open>The encoding of the RLP specification\<close>

definition rlp_head :: "byte \<Rightarrow> byte \<Rightarrow> nat \<Rightarrow> bytes" where
  "rlp_head small large n =
     (if n < 56 then [small + word_of_nat n]
      else (large + word_of_nat (length (be_bytes n))) # be_bytes n)"

definition rlp_string :: "bytes \<Rightarrow> bytes" where
  "rlp_string b =
     (if length b = 1 \<and> hd b \<le> 0x7F then b else rlp_head 0x80 0xB7 (length b) @ b)"

definition rlp_list :: "bytes \<Rightarrow> bytes" where
  "rlp_list c = rlp_head 0xC0 0xF7 (length c) @ c"

fun enc_ref :: "val \<Rightarrow> rlp_error + bytes"
and enc_refs :: "val list \<Rightarrow> rlp_error + bytes" where
  "enc_ref (VRaw b) = Inr b"
| "enc_ref (VBigInt None) = Inr (rlp_string [])"
| "enc_ref (VBigInt (Some i)) =
     (if i < 0 then Inl ErrNegativeBigInt else Inr (rlp_string (be_bytes (nat i))))"
| "enc_ref (VUint i) = Inr (rlp_string (be_bytes (unat i)))"
| "enc_ref (VBool b) = Inr (rlp_string (be_bytes (if b then 1 else 0)))"
| "enc_ref (VString s) = Inr (rlp_string s)"
| "enc_ref (VBytes b) = Inr (rlp_string b)"
| "enc_ref (VByteArray b) = Inr (rlp_string b)"
| "enc_ref (VSlice tail vs) =
     (case enc_refs vs of Inl e \<Rightarrow> Inl e | Inr c \<Rightarrow> Inr (if tail then c else rlp_list c))"
| "enc_ref (VStruct vs) = (case enc_refs vs of Inl e \<Rightarrow> Inl e | Inr c \<Rightarrow> Inr (rlp_list c))"
| "enc_ref (VNilPtr k) = Inr (if k = String then rlp_string [] else rlp_list [])"
| "enc_ref (VPtr v) = enc_ref v"
| "enc_ref VNilInterface = Inr (rlp_list [])"
| "enc_ref (VInterface v) = enc_ref v"
| "enc_refs [] = Inr []"
| "enc_refs (v # vs) =
     (case enc_ref v of Inl e \<Rightarrow> Inl e | Inr o1 \<Rightarrow>
       (case enc_refs vs of Inl e \<Rightarrow> Inl e | Inr o2 \<Rightarrow> Inr (o1 @ o2)))"

section \<open>Integers and headers\<close>

lemma be_bytes_digits:
  "256 ^ m \<le> n \<Longrightarrow> n < 256 ^ Suc m
   \<Longrightarrow> be_bytes n = map (\<lambda>k. word_of_nat (n div 256 ^ k)) (rev [0..<Suc m])"
proof (induction m arbitrary: n)
  case 0
  then show ?case by (simp add: be_bytes_pos)
next
  case (Suc m)
  have "256 ^ m \<le> n div 256" "n div 256 < 256 ^ Suc m"
    using Suc.prems by (simp_all add: less_eq_div_iff_mult_less_eq div_less_iff_less_mult mult.commute)
  moreover have "0 < n" using Suc.prems(1) by (metis gr0I not_le zero_less_numeral zero_less_power)
  moreover have "rev [0..<Suc (Suc m)] = map Suc (rev [0..<Suc m]) @ [0]"
    by (simp only: rev_map [symmetric] map_Suc_upt upt_conv_Cons [of 0 "Suc (Suc m)"]) simp
  moreover have "map (\<lambda>k. word_of_nat (n div 256 ^ k)) (map Suc ks)
      = map (\<lambda>k. word_of_nat (n div 256 div 256 ^ k) :: byte) ks" for ks
    by (simp only: map_map o_def power_Suc div_mult2_eq)
  ultimately show ?case
    using Suc.IH [of "n div 256"] by (simp only: be_bytes_pos map_append list.map) simp
qed

lemmas be_bytes_cases =
  be_bytes_digits [of 0, simplified]
  be_bytes_digits [of "Suc 0", simplified]
  be_bytes_digits [of "Suc (Suc 0)", simplified]
  be_bytes_digits [of "Suc (Suc (Suc 0))", simplified]
  be_bytes_digits [of "Suc (Suc (Suc (Suc 0)))", simplified]
  be_bytes_digits [of "Suc (Suc (Suc (Suc (Suc 0))))", simplified]
  be_bytes_digits [of "Suc (Suc (Suc (Suc (Suc (Suc 0)))))", simplified]
  be_bytes_digits [of "Suc (Suc (Suc (Suc (Suc (Suc (Suc 0))))))", simplified]

lemma putint_be_bytes: "i \<noteq> 0 \<Longrightarrow> putint i = be_bytes (unat i)"
  using unsigned_less [of i, where ?'a = nat] unat_gt_0 [of i]
  by (simp add: putint_def word_less_nat_alt byte_shr_nat be_bytes_cases)

lemma length_putint: "length (putint i) \<le> 8"
  by (simp add: putint_def)

lemma intsize_loop_be: "i \<noteq> 0 \<Longrightarrow> intsize_loop sz i + 1 = sz + length (be_bytes (unat i))"
proof (induction sz i rule: intsize_loop.induct)
  case (1 sz i)
  have pos: "0 < unat i" using 1(2) by (simp add: unat_gt_0)
  show ?case
  proof (cases "drop_bit 8 i = 0")
    case True
    then have "unat i div 256 = 0" by (metis unat_0 unat_shr8)
    with True pos show ?thesis by (simp add: intsize_loop.simps [of sz i] be_bytes_pos)
  next
    case False
    then show ?thesis using 1(1) pos
      by (simp add: intsize_loop.simps [of sz i] be_bytes_pos [of "unat i"] unat_shr8)
  qed
qed

lemma intsize_be: "i \<noteq> 0 \<Longrightarrow> intsize i = length (be_bytes (unat i))"
  using intsize_loop_be [of i 1] by (simp add: intsize_def)

lemma word_of_nat_less_56: "n < 2 ^ 64 \<Longrightarrow> (word_of_nat n :: u64) < 56 \<longleftrightarrow> n < 56"
  by (simp add: word_less_nat_alt unat_of_nat)

lemma ucast_word_of_nat_byte: "(ucast (word_of_nat n :: u64) :: byte) = word_of_nat n"
  by (simp add: word_unat_eq_iff unsigned_ucast_eq unat_of_nat take_bit_eq_mod mod_mod_cancel)

lemma puthead_rlp_head:
  "n < 2 ^ 64 \<Longrightarrow> puthead small large (word_of_nat n) = rlp_head small large n"
  by (simp add: puthead_def rlp_head_def word_of_nat_less_56 putint_be_bytes word_of_nat_eq_0_iff
      nat_dvd_not_less unat_of_nat Let_def ucast_word_of_nat_byte)

lemma headsize_rlp_head:
  "n < 2 ^ 64 \<Longrightarrow> headsize (word_of_nat n) = length (rlp_head small large n)"
  by (simp add: headsize_def rlp_head_def word_of_nat_less_56 intsize_be word_of_nat_eq_0_iff
      nat_dvd_not_less unat_of_nat)

lemma bit_len_bytes: "(bit_len n + 7) div 8 = length (be_bytes n)"
proof -
  have "(bit_len n + 7) div 8 \<le> k \<longleftrightarrow> length (be_bytes n) \<le> k" for k
  proof -
    have "(bit_len n + 7) div 8 \<le> k \<longleftrightarrow> bit_len n \<le> 8 * k" by linarith
    also have "\<dots> \<longleftrightarrow> n < 2 ^ (8 * k)" by (rule bit_len_le)
    also have "\<dots> \<longleftrightarrow> n < 256 ^ k" by (simp add: power_mult)
    also have "\<dots> \<longleftrightarrow> length (be_bytes n) \<le> k" by (rule length_be_bytes_le)
    finally show ?thesis .
  qed
  then show ?thesis by (meson le_antisym le_refl)
qed

lemma put_word_be_bytes:
  assumes "j \<le> 8" "unat d mod 256 ^ j = m mod 256 ^ j" "length pre = length (be_bytes m)"
  shows "\<exists>pre' post'. put_word j d (length (be_bytes m), pre @ post)
             = (length (be_bytes (m div 256 ^ j)), pre' @ post')
           \<and> length pre' = length (be_bytes (m div 256 ^ j))
           \<and> be_bytes m @ post = be_bytes (m div 256 ^ j) @ post'"
  using assms
proof (induction j arbitrary: d m pre post)
  case (Suc j)
  show ?case
  proof (cases "m = 0")
    case False
    let ?n = "length (be_bytes (m div 256))"
    from False have len: "length (be_bytes m) = Suc ?n" by (simp add: be_bytes_pos)
    with Suc.prems obtain pre1 x where pre: "pre = pre1 @ [x]" "length pre1 = ?n"
      by (cases pre rule: rev_cases) auto
    have "unat d mod 256 = m mod 256"
      using arg_cong [OF Suc.prems(2), of "\<lambda>k. k mod 256"] by (simp add: mod_mult2_eq)
    then have d: "(ucast d :: byte) = word_of_nat m"
      by (simp add: word_unat_eq_iff unsigned_ucast_eq take_bit_eq_mod)
    have "unat (drop_bit 8 d) mod 256 ^ j = (m div 256) mod 256 ^ j"
      using arg_cong [OF Suc.prems(2), of "\<lambda>k. k div 256"]
      by (simp add: unat_shr8 mod_mult2_eq)
    then obtain pre' post' where
      "put_word j (drop_bit 8 d) (?n, pre1 @ word_of_nat m # post)
         = (length (be_bytes (m div 256 div 256 ^ j)), pre' @ post')"
      "length pre' = length (be_bytes (m div 256 div 256 ^ j))"
      "be_bytes (m div 256) @ word_of_nat m # post = be_bytes (m div 256 div 256 ^ j) @ post'"
      using Suc.IH [of "drop_bit 8 d" "m div 256" pre1 "word_of_nat m # post"] Suc.prems(1) pre
      by auto
    moreover have "be_bytes m @ post = be_bytes (m div 256) @ word_of_nat m # post"
      using False by (simp add: be_bytes_pos)
    moreover have "put_word (Suc j) d (length (be_bytes m), pre @ post)
        = put_word j (drop_bit 8 d) (?n, pre1 @ word_of_nat m # post)"
      using pre d by (simp add: len list_update_append)
    ultimately show ?thesis by (simp only: power_Suc div_mult2_eq) blast
  qed (use Suc.prems in simp)
qed simp

lemma fold_put_word:
  "length pre = length (be_bytes m)
   \<Longrightarrow> snd (fold (put_word 8) (word_digits m) (length (be_bytes m), pre @ post)) = be_bytes m @ post"
proof (induction m arbitrary: pre post rule: word_digits.induct)
  case (1 m)
  show ?case
  proof (cases "m = 0")
    case True
    then show ?thesis using 1(2) by (simp add: word_digits.simps)
  next
    case False
    have "unat (word_of_nat m :: u64) mod 256 ^ 8 = m mod 256 ^ 8"
      by (simp add: unat_of_nat)
    from put_word_be_bytes [OF _ this 1(2), of post] obtain pre' post' where
      "put_word 8 (word_of_nat m) (length (be_bytes m), pre @ post)
         = (length (be_bytes (m div 2 ^ 64)), pre' @ post')"
      "length pre' = length (be_bytes (m div 2 ^ 64))"
      "be_bytes m @ post = be_bytes (m div 2 ^ 64) @ post'"
      by auto
    then show ?thesis using 1(1) [OF False, of pre' post'] False
      by (simp add: word_digits.simps [of m])
  qed
qed

section \<open>What a writer adds to the buffer\<close>

text \<open>The merge of string data and headers between two positions of the string data.\<close>

fun emit :: "bytes \<Rightarrow> nat \<Rightarrow> listhead list \<Rightarrow> nat \<Rightarrow> bytes" where
  "emit s p [] q = take (q - p) (drop p s)"
| "emit s p (h # hs) q =
     take (lh_offset h - p) (drop p s) @ listhead_encode h @ emit s (lh_offset h) hs q"

fun heads_ok :: "nat \<Rightarrow> listhead list \<Rightarrow> nat \<Rightarrow> bool" where
  "heads_ok p [] q = (p \<le> q)"
| "heads_ok p (h # hs) q = (p \<le> lh_offset h \<and> heads_ok (lh_offset h) hs q)"

definition heads_len :: "listhead list \<Rightarrow> nat" where
  "heads_len hs = sum_list (map (length \<circ> listhead_encode) hs)"

definition wrote :: "bytes \<Rightarrow> encbuf \<Rightarrow> encbuf \<Rightarrow> bool" where
  "wrote out w w' = (\<exists>s hs. eb_str w' = eb_str w @ s \<and> eb_lheads w' = eb_lheads w @ hs
     \<and> eb_lhsize w' = eb_lhsize w + heads_len hs
     \<and> heads_ok (length (eb_str w)) hs (length (eb_str w'))
     \<and> emit (eb_str w') (length (eb_str w)) hs (length (eb_str w')) = out)"

lemma heads_ok_le: "heads_ok p hs q \<Longrightarrow> p \<le> q"
  by (induction hs arbitrary: p) (auto intro: le_trans)

lemma heads_ok_append:
  "heads_ok p hs q \<Longrightarrow> heads_ok q hs' r \<Longrightarrow> heads_ok p (hs @ hs') r"
proof (induction hs arbitrary: p)
  case Nil
  then show ?case by (cases hs') auto
qed simp

lemma emit_more: "heads_ok p hs q \<Longrightarrow> q \<le> length s \<Longrightarrow> emit (s @ t) p hs q = emit s p hs q"
  by (induction hs arbitrary: p) (auto dest: heads_ok_le)

lemma take_drop_split:
  "p \<le> q \<Longrightarrow> q \<le> r \<Longrightarrow> take (r - p) (drop p s) = take (q - p) (drop p s) @ take (r - q) (drop q s)"
  using take_add [of "q - p" "r - q" "drop p s"] by simp

lemma emit_append:
  "heads_ok p hs q \<Longrightarrow> heads_ok q hs' r
   \<Longrightarrow> emit s p (hs @ hs') r = emit s p hs q @ emit s q hs' r"
proof (induction hs arbitrary: p)
  case Nil
  show ?case
  proof (cases hs')
    case Nil
    then show ?thesis using \<open>heads_ok p [] q\<close> \<open>heads_ok q hs' r\<close> take_drop_split [of p q r s] by simp
  next
    case (Cons h t)
    then show ?thesis using \<open>heads_ok p [] q\<close> \<open>heads_ok q hs' r\<close>
        take_drop_split [of p q "lh_offset h" s] by simp
  qed
qed simp

lemma length_emit:
  "heads_ok p hs q \<Longrightarrow> q \<le> length s \<Longrightarrow> length (emit s p hs q) = q - p + heads_len hs"
  by (induction hs arbitrary: p) (auto simp: heads_len_def dest: heads_ok_le)

lemma wrote_refl: "wrote [] w w"
  by (simp add: wrote_def heads_len_def)

lemma wrote_append_str: "wrote b w (append_str b w)"
  by (auto simp: wrote_def append_str_def heads_len_def intro: exI [of _ "[]"])

lemma wrote_trans:
  assumes "wrote o1 w w1" "wrote o2 w1 w2"
  shows "wrote (o1 @ o2) w w2"
proof -
  from assms obtain s1 hs1 s2 hs2 where
    1: "eb_str w1 = eb_str w @ s1" "eb_lheads w1 = eb_lheads w @ hs1"
      "eb_lhsize w1 = eb_lhsize w + heads_len hs1"
      "heads_ok (length (eb_str w)) hs1 (length (eb_str w1))"
      "emit (eb_str w1) (length (eb_str w)) hs1 (length (eb_str w1)) = o1" and
    2: "eb_str w2 = eb_str w1 @ s2" "eb_lheads w2 = eb_lheads w1 @ hs2"
      "eb_lhsize w2 = eb_lhsize w1 + heads_len hs2"
      "heads_ok (length (eb_str w1)) hs2 (length (eb_str w2))"
      "emit (eb_str w2) (length (eb_str w1)) hs2 (length (eb_str w2)) = o2"
    by (auto simp: wrote_def)
  have "emit (eb_str w2) (length (eb_str w)) (hs1 @ hs2) (length (eb_str w2)) = o1 @ o2"
    using emit_append [OF 1(4) 2(4), of "eb_str w2"] emit_more [OF 1(4) le_refl, of s2] 1(5) 2(1,5)
    by metis
  moreover have "heads_ok (length (eb_str w)) (hs1 @ hs2) (length (eb_str w2))"
    using heads_ok_append [OF 1(4) 2(4)] .
  ultimately show ?thesis
    unfolding wrote_def using 1 2
    by (intro exI [of _ "s1 @ s2"] exI [of _ "hs1 @ hs2"]) (simp add: heads_len_def)
qed

lemma wrote_encodeStringHeader:
  "sz < 2 ^ 64 \<Longrightarrow> wrote (rlp_head 0x80 0xB7 sz) w (encodeStringHeader sz w)"
  using wrote_append_str [of "rlp_head 0x80 0xB7 sz" w]
  by (cases "sz < 56") (simp_all add: encodeStringHeader_def rlp_head_def Let_def putint_be_bytes word_of_nat_eq_0_iff
      nat_dvd_not_less unat_of_nat)

lemma wrote_string:
  "length b < 2 ^ 64 \<Longrightarrow> \<not> (length b = 1 \<and> hd b \<le> 0x7F)
   \<Longrightarrow> wrote (rlp_string b) w (append_str b (encodeStringHeader (length b) w))"
  by (auto simp: rlp_string_def intro!: wrote_trans [OF wrote_encodeStringHeader wrote_append_str])

lemma wrote_encodeString:
  "length b < 2 ^ 64 \<Longrightarrow> wrote (rlp_string b) w (encodeString b w)"
proof (cases "length b = 1 \<and> hd b \<le> 0x7F")
  case True
  then have "b = [hd b]" by (cases b) auto
  with True show ?thesis using wrote_append_str [of b w] by (simp add: encodeString_def rlp_string_def)
next
  case False
  assume "length b < 2 ^ 64"
  with False show ?thesis using wrote_string [of b w] unfolding encodeString_def by argo
qed

lemma writeString_encodeString: "writeString s w = encodeString s w"
  by (simp add: writeString_def encodeString_def)

lemma writeByteArray_encodeString:
  "length b < 2 ^ 64 \<Longrightarrow> wrote (rlp_string b) w (writeByteArray b w)"
proof (cases "length b \<le> 1")
  case True
  then consider "b = []" | x where "b = [x]" by (cases b) auto
  then show ?thesis
  proof cases
    case 1
    then show ?thesis using wrote_append_str [of "[0x80]" w]
      by (simp add: writeByteArray_def rlp_string_def rlp_head_def)
  next
    case 2
    then show ?thesis using wrote_append_str [of "[x]" w] wrote_append_str [of "[0x81, x]" w]
      by (simp add: writeByteArray_def rlp_string_def rlp_head_def)
  qed
next
  case False
  assume "length b < 2 ^ 64"
  moreover have "b \<noteq> []" "length b \<noteq> 1" using False by auto
  ultimately show ?thesis using wrote_string [of b w] by (simp add: writeByteArray_def)
qed

lemma length_be_bytes_u64: "length (be_bytes (unat (i :: u64))) \<le> 8"
  using length_be_bytes_le [of "unat i" 8] unsigned_less [of i, where ?'a = nat] by simp

lemma wrote_encodeUint: "wrote (rlp_string (be_bytes (unat i))) w (encodeUint i w)"
proof (cases "i < 128")
  case True
  then have i: "unat i < 128" by (simp add: word_less_nat_alt)
  show ?thesis
  proof (cases "i = 0")
    case True
    then show ?thesis using wrote_append_str [of "[0x80]" w]
      by (simp add: encodeUint_def rlp_string_def rlp_head_def)
  next
    case False
    then have "be_bytes (unat i) = [ucast i]"
      using i by (simp add: be_bytes_pos unat_gt_0)
    moreover have "(ucast i :: byte) \<le> 127"
      using i by (simp add: word_le_nat_alt unsigned_ucast_eq take_bit_eq_mod)
    ultimately show ?thesis using wrote_append_str [of "[ucast i]" w] False True
      by (simp add: encodeUint_def rlp_string_def)
  qed
next
  case False
  then have i: "128 \<le> unat i" "i \<noteq> 0" by (auto simp: word_less_nat_alt)
  have "\<not> (length (be_bytes (unat i)) = 1 \<and> hd (be_bytes (unat i)) \<le> 0x7F)"
  proof (cases "unat i < 256")
    case True
    then show ?thesis
      using i by (simp add: be_bytes_pos word_le_nat_alt unsigned_ucast_eq take_bit_eq_mod)
  next
    case False
    then show ?thesis using length_be_bytes_le [of "unat i" 1] by auto
  qed
  then have "rlp_string (be_bytes (unat i))
      = (0x80 + word_of_nat (length (putint i))) # putint i"
    using i length_be_bytes_u64 [of i] by (auto simp: rlp_string_def rlp_head_def putint_be_bytes)
  then show ?thesis
    using wrote_append_str [of "(0x80 + word_of_nat (length (putint i))) # putint i" w] i False
    by (simp add: encodeUint_def Let_def)
qed

lemma rlp_string_long:
  "length b < 2 ^ 64 \<Longrightarrow> length (rlp_string b) < 2 ^ 64 \<Longrightarrow> 1 < length b \<Longrightarrow>
   rlp_string b = rlp_head 0x80 0xB7 (length b) @ b"
  by (simp add: rlp_string_def)

lemma length_rlp_string: "length b \<le> length (rlp_string b)"
  by (simp add: rlp_string_def)

lemma wrote_writeBigInt:
  assumes "0 \<le> i" "length (rlp_string (be_bytes (nat i))) < 2 ^ 64"
  shows "\<exists>w'. writeBigInt i w = Inr w' \<and> wrote (rlp_string (be_bytes (nat i))) w w'"
proof (cases "bit_len (nat i) \<le> 64")
  case True
  then have "uint (big_Uint64 i) = i"
    using assms(1) bit_len_le [of "nat i" 64] by (simp add: nat_less_iff)
  then have "unat (big_Uint64 i) = nat i" by (metis nat_uint_eq)
  then show ?thesis
    using wrote_encodeUint [of "big_Uint64 i" w] True assms(1) by (simp add: writeBigInt_def)
next
  case False
  let ?b = "be_bytes (nat i)"
  have b: "length ?b < 2 ^ 64" using assms(2) length_rlp_string [of ?b] by simp
  have "\<not> length ?b \<le> 8"
    using False bit_len_le [of "nat i" 64] length_be_bytes_le [of "nat i" 8] by simp
  then have "wrote (rlp_string ?b) w (append_str ?b (encodeStringHeader (length ?b) w))"
    using wrote_string [OF b] by simp
  moreover have "snd (fold (put_word 8) (word_digits (nat i)) (length ?b, replicate (length ?b) 0)) = ?b"
    using fold_put_word [of "replicate (length ?b) 0" "nat i" "[]"] by simp
  ultimately show ?thesis using False assms(1)
    by (simp add: writeBigInt_def Let_def bit_len_bytes)
qed

text \<open>Opening a list, writing its content and closing it adds the encoded list.\<close>

lemma wrote_list:
  assumes w1: "encbuf_list w = (idx, w1)" and w2: "wrote c w1 w2" and c: "length c < 2 ^ 64"
  shows "wrote (rlp_list c) w (listEnd idx w2)"
proof -
  let ?h = "\<lparr>lh_offset = length (eb_str w), lh_size = eb_lhsize w\<rparr>"
  let ?h' = "\<lparr>lh_offset = length (eb_str w), lh_size = length c\<rparr>"
  have 1: "eb_str w1 = eb_str w" "eb_lheads w1 = eb_lheads w @ [?h]" "eb_lhsize w1 = eb_lhsize w"
    "idx = length (eb_lheads w)"
    using w1 by (auto simp: encbuf_list_def Let_def)
  obtain s hs where
    2: "eb_str w2 = eb_str w @ s" "eb_lheads w2 = eb_lheads w @ [?h] @ hs"
      "eb_lhsize w2 = eb_lhsize w + heads_len hs"
      "heads_ok (length (eb_str w)) hs (length (eb_str w2))"
      "emit (eb_str w2) (length (eb_str w)) hs (length (eb_str w2)) = c"
    using w2 by (auto simp: wrote_def 1)
  have len: "length c = length s + heads_len hs"
    using length_emit [OF 2(4) le_refl] 2(1,5) by simp
  have enc: "listhead_encode ?h' = rlp_head 0xC0 0xF7 (length c)"
    using c by (simp add: listhead_encode_def puthead_rlp_head)
  have sz: "encbuf_size w2 - (length (eb_str w) + eb_lhsize w) = length c"
    by (simp add: encbuf_size_def 2 len)
  have "(if length c < 56 then 1 else 1 + intsize (word_of_nat (length c)))
      = length (rlp_head 0xC0 0xF7 (length c))"
    using headsize_rlp_head [OF c, of "0xC0" "0xF7"] c
    by (simp add: headsize_def word_of_nat_less_56 split: if_splits)
  then have 3: "listEnd idx w2 = w2\<lparr>eb_lheads := eb_lheads w @ [?h'] @ hs,
      eb_lhsize := eb_lhsize w + heads_len hs + length (listhead_encode ?h')\<rparr>"
    by (cases "length c < 56")
      (simp_all add: listEnd_def Let_def 1 2(2) nth_append list_update_append diff_diff_left sz enc 2(3))
  show ?thesis
    unfolding wrote_def
    by (rule exI [of _ s], rule exI [of _ "?h' # hs"])
      (use 2 in \<open>simp add: 3 heads_len_def enc rlp_list_def\<close>)
qed

lemma wrote_empty_list:
  "encbuf_list w = (idx, w1) \<Longrightarrow> wrote (rlp_list []) w (listEnd idx w1)"
  by (rule wrote_list [OF _ wrote_refl]) simp_all

lemma length_rlp_list: "length c \<le> length (rlp_list c)"
  by (simp add: rlp_list_def)

text \<open>Every writer succeeds exactly when the value has an encoding, and writes that encoding.\<close>

lemma sum_bind_Inl:
  fixes x :: "'e + 'a" and y :: "'e + 'b" and f :: "'a \<Rightarrow> 'e + 'c" and g :: "'b \<Rightarrow> 'e + 'd"
  assumes xy: "\<And>e. x = Inl e \<longleftrightarrow> y = Inl e"
    and fg: "\<And>a b. x = Inr a \<Longrightarrow> y = Inr b \<Longrightarrow> f a = Inl e \<longleftrightarrow> g b = Inl e"
  shows "(case x of Inl e \<Rightarrow> Inl e | Inr a \<Rightarrow> f a) = Inl e
     \<longleftrightarrow> (case y of Inl e \<Rightarrow> Inl e | Inr b \<Rightarrow> g b) = Inl e"
proof (cases x)
  case (Inl a)
  then have "y = Inl a" using xy [of a] by simp
  with Inl show ?thesis by simp
next
  case (Inr a)
  then have "y \<noteq> Inl e'" for e' using xy [of e'] by simp
  then obtain b where "y = Inr b" by (cases y) auto
  with Inr fg show ?thesis by simp
qed

lemma encode_val_error:
  "encode_val v w = Inl e \<longleftrightarrow> enc_ref v = Inl e"
  "encode_vals vs w = Inl e \<longleftrightarrow> enc_refs vs = Inl e"
proof (induction v and vs arbitrary: w e and w e rule: enc_ref_enc_refs.induct)
  case (3 i)
  then show ?case by (simp add: writeBigInt_def Let_def)
next
  case (9 tail vs)
  show ?case
  proof (cases tail)
    case True
    then show ?thesis using 9 [of w e] by (cases "enc_refs vs") simp_all
  next
    case False
    then show ?thesis by (auto simp only: encode_val.simps enc_ref.simps if_False split: prod.splits
          intro!: sum_bind_Inl 9)
  qed
next
  case (10 vs)
  show ?case
    by (auto simp only: encode_val.simps enc_ref.simps split: prod.splits intro!: sum_bind_Inl 10)
next
  case (16 v vs)
  show ?case
    unfolding encode_vals.simps enc_refs.simps
    by (rule sum_bind_Inl [OF 16(1)]) (use 16(2) in \<open>simp split: sum.split\<close>)
qed simp_all

lemma encode_val_wrote:
  "enc_ref v = Inr out \<Longrightarrow> length out < 2 ^ 64 \<Longrightarrow> \<exists>w'. encode_val v w = Inr w' \<and> wrote out w w'"
  "enc_refs vs = Inr out \<Longrightarrow> length out < 2 ^ 64 \<Longrightarrow> \<exists>w'. encode_vals vs w = Inr w' \<and> wrote out w w'"
proof (induction v and vs arbitrary: out w and out w rule: enc_ref_enc_refs.induct)
  case 2
  then show ?case using wrote_append_str [of "[0x80]"] by (auto simp: rlp_string_def rlp_head_def)
next
  case (3 i)
  then show ?case using wrote_writeBigInt [of i] by (auto split: if_splits)
next
  case (5 b)
  then show ?case using wrote_append_str [of "[1]"] wrote_append_str [of "[0x80]"]
    by (auto simp: writeBool_def rlp_string_def rlp_head_def be_bytes_pos)
next
  case (6 s)
  then show ?case using wrote_encodeString [of s w] length_rlp_string [of s]
    by (auto simp: writeString_encodeString)
next
  case (7 b)
  then show ?case using wrote_encodeString [of b w] length_rlp_string [of b] by auto
next
  case (8 b)
  then show ?case using writeByteArray_encodeString [of b w] length_rlp_string [of b] by auto
next
  case (9 tail vs)
  from 9(2) obtain c where c: "enc_refs vs = Inr c" "out = (if tail then c else rlp_list c)"
    by (auto split: sum.splits)
  have len: "length c < 2 ^ 64" using c(2) 9(3) length_rlp_list [of c] by (simp split: if_splits)
  show ?case
  proof (cases tail)
    case True
    then show ?thesis using 9(1) [OF c(1) len, of w] c(2) by simp
  next
    case False
    obtain idx w1 where w1: "encbuf_list w = (idx, w1)" by fastforce
    then show ?thesis using 9(1) [OF c(1) len, of w1] wrote_list [OF w1 _ len] c(2) False by auto
  qed
next
  case (10 vs)
  from 10(2) obtain c where c: "enc_refs vs = Inr c" "out = rlp_list c" by (auto split: sum.splits)
  have len: "length c < 2 ^ 64" using c(2) 10(3) length_rlp_list [of c] by simp
  obtain idx w1 where w1: "encbuf_list w = (idx, w1)" by fastforce
  then show ?case using 10(1) [OF c(1) len, of w1] wrote_list [OF w1 _ len] c(2) by auto
next
  case (11 k)
  then show ?case using wrote_append_str [of "[0x80]"] wrote_empty_list
    by (auto simp: writeNilPtr_def rlp_string_def rlp_head_def split: prod.splits)
next
  case 13
  then show ?case using wrote_append_str [of "[0xC0]"] by (auto simp: rlp_list_def rlp_head_def)
next
  case (16 v vs)
  from 16(3) obtain o1 o2 where o: "enc_ref v = Inr o1" "enc_refs vs = Inr o2" "out = o1 @ o2"
    by (auto split: sum.splits)
  then obtain w1 where "encode_val v w = Inr w1" "wrote o1 w w1"
    using 16(1) [of o1 w] 16(4) by auto
  moreover obtain w2 where "encode_vals vs w1 = Inr w2" "wrote o2 w1 w2"
    using 16(2) [OF o(1), of o2 w1] o 16(4) by auto
  ultimately show ?case using o(3) wrote_trans by auto
qed (auto intro: wrote_refl wrote_append_str wrote_encodeUint)

section \<open>The three outputs\<close>

lemma copy_at_append:
  "length xs \<le> length rest \<Longrightarrow>
   copy_at (d @ rest) (length d) xs = Some (length xs, d @ xs @ drop (length xs) rest)"
  by (simp add: copy_at_def Let_def)

lemma put_at_append:
  "length xs \<le> length rest \<Longrightarrow>
   put_at (d @ rest) (length d) xs = Some (d @ xs @ drop (length xs) rest)"
  by (simp add: put_at_def)

lemma toBytes_loop_emit:
  assumes "heads_ok p hs (length s)" "length rest = length (emit s p hs (length s))"
  shows "\<exists>p' d' rest'. toBytes_loop s hs p (length d) (d @ rest) = Some (p', length d', d' @ rest')
    \<and> d' @ drop p' s = d @ emit s p hs (length s) \<and> length rest' = length (drop p' s) \<and> p' \<le> length s"
  using assms
proof (induction hs arbitrary: p d rest)
  case Nil
  then show ?case by (intro exI [of _ p] exI [of _ d] exI [of _ rest]) simp
next
  case (Cons h hs)
  let ?x = "take (lh_offset h - p) (drop p s)" and ?y = "listhead_encode h"
  have p: "p \<le> lh_offset h" "lh_offset h \<le> length s"
    using Cons.prems(1) heads_ok_le by auto
  have x: "length ?x = lh_offset h - p" using p by simp
  have rest: "length ?x \<le> length rest" "length ?y \<le> length (drop (length ?x) rest)"
    using Cons.prems(2) by simp_all
  have "toBytes_loop s (h # hs) p (length d) (d @ rest)
      = toBytes_loop s hs (lh_offset h) (length (d @ ?x @ ?y))
          ((d @ ?x @ ?y) @ drop (length ?y) (drop (length ?x) rest))"
    using p rest copy_at_append [OF rest(1), of d] put_at_append [OF rest(2), of "d @ ?x"]
    by (simp add: go_slice_def Let_def add.assoc)
  moreover have "length (drop (length ?y) (drop (length ?x) rest))
      = length (emit s (lh_offset h) hs (length s))"
    using Cons.prems(2) by simp
  moreover have "heads_ok (lh_offset h) hs (length s)" using Cons.prems(1) by simp
  ultimately show ?case
    using Cons.IH [of "lh_offset h" "drop (length ?y) (drop (length ?x) rest)" "d @ ?x @ ?y"]
    by simp
qed

lemma wrote_reset:
  assumes "wrote out encbuf_reset w"
  shows "heads_ok 0 (eb_lheads w) (length (eb_str w))"
    "emit (eb_str w) 0 (eb_lheads w) (length (eb_str w)) = out" "encbuf_size w = length out"
  using assms length_emit [of 0 "eb_lheads w" "length (eb_str w)" "eb_str w"]
  by (auto simp: wrote_def encbuf_reset_def encbuf_size_def)

lemma toBytes_wrote:
  assumes "wrote out encbuf_reset w"
  shows "toBytes w = Some out"
proof -
  note w = wrote_reset [OF assms]
  obtain p' d' rest' where
    1: "toBytes_loop (eb_str w) (eb_lheads w) 0 0 (replicate (encbuf_size w) 0)
          = Some (p', length d', d' @ rest')"
      "d' @ drop p' (eb_str w) = out" "length rest' = length (drop p' (eb_str w))"
      "p' \<le> length (eb_str w)"
    using toBytes_loop_emit [OF w(1), of "replicate (encbuf_size w) 0" "[]"] w(2,3) by auto
  have "go_slice (eb_str w) p' (length (eb_str w)) = Some (drop p' (eb_str w))"
    using 1(4) by (simp add: go_slice_def)
  then show ?thesis
    using 1 copy_at_append [of "drop p' (eb_str w)" rest' d'] by (simp add: toBytes_def)
qed

lemma EncodeToBytes_enc_ref:
  assumes "case enc_ref v of Inl e \<Rightarrow> True | Inr out \<Rightarrow> length out < 2 ^ 64"
  shows "EncodeToBytes v = Some (enc_ref v)"
proof (cases "enc_ref v")
  case (Inl e)
  then have "encode_val v encbuf_reset = Inl e" by (simp add: encode_val_error)
  then show ?thesis using Inl by (simp add: EncodeToBytes_def)
next
  case (Inr out)
  then obtain w' where "encode_val v encbuf_reset = Inr w'" "wrote out encbuf_reset w'"
    using encode_val_wrote(1) [of v out encbuf_reset] assms by auto
  then show ?thesis using toBytes_wrote Inr by (simp add: EncodeToBytes_def)
qed

text \<open>
  The contract of \<^verbatim>\<open>io.Writer\<close>: a write that reports no error has written all its bytes.
  \<^verbatim>\<open>content\<close> is what the writer has received.
\<close>

locale io_writer =
  fixes wr :: "('e, 's) io_Write" and content :: "'s \<Rightarrow> bytes"
  assumes write_ok: "wr b st = ((n, None), st') \<Longrightarrow> n = length b \<and> content st' = content st @ b"
begin

lemma toWriter_loop_emit:
  assumes "heads_ok p hs (length s)" "toWriter_loop wr s hs p st = Some ((p', None), st')"
  shows "p' \<le> length s \<and> content st' @ drop p' s = content st @ emit s p hs (length s)"
  using assms
proof (induction hs arbitrary: p st)
  case (Cons h hs)
  have p: "p \<le> lh_offset h" "lh_offset h \<le> length s" "heads_ok (lh_offset h) hs (length s)"
    using Cons.prems(1) heads_ok_le by auto
  obtain st1 where st1: "content st1 = content st @ take (lh_offset h - p) (drop p s)"
    "(case wr (listhead_encode h) st1 of
        ((_, Some e), st') \<Rightarrow> Some ((lh_offset h, Some e), st')
      | ((_, None), st') \<Rightarrow> toWriter_loop wr s hs (lh_offset h) st') = Some ((p', None), st')"
  proof (cases "lh_offset h > p")
    case True
    then obtain n st1 where "wr (take (lh_offset h - p) (drop p s)) st = ((n, None), st1)"
      using Cons.prems(2) p
      by (auto simp: go_slice_def Let_def split: prod.splits option.splits)
    with write_ok [OF this] True Cons.prems(2) p that [of st1] show ?thesis
      by (simp add: go_slice_def Let_def)
  next
    case False
    with p Cons.prems(2) that [of st] show ?thesis by simp
  qed
  then obtain n st2 where st2: "wr (listhead_encode h) st1 = ((n, None), st2)"
    "toWriter_loop wr s hs (lh_offset h) st2 = Some ((p', None), st')"
    by (auto split: prod.splits option.splits)
  show ?case using Cons.IH [OF p(3) st2(2)] write_ok [OF st2(1)] st1(1) by simp
qed simp

lemma toWriter_wrote:
  assumes "wrote out encbuf_reset w" "toWriter wr w st = Some (None, st')"
  shows "content st' = content st @ out"
proof -
  note w = wrote_reset [OF assms(1)]
  obtain p' st1 where loop: "toWriter_loop wr (eb_str w) (eb_lheads w) 0 st = Some ((p', None), st1)"
    using assms(2) by (auto simp: toWriter_def split: option.splits)
  note 1 = toWriter_loop_emit [OF w(1) loop, unfolded w(2)]
  show ?thesis
  proof (cases "p' < length (eb_str w)")
    case True
    then obtain n where "wr (drop p' (eb_str w)) st1 = ((n, None), st')"
      using assms(2) loop by (auto simp: toWriter_def split: prod.splits)
    with write_ok [OF this] 1 show ?thesis by simp
  next
    case False
    then show ?thesis using assms(2) loop 1 by (simp add: toWriter_def)
  qed
qed

end

text \<open>
  A writer that accepts every write, as a buffer or the hash state does. For it the encoder always
  delivers.
\<close>

locale io_total_writer = io_writer +
  assumes write_total: "\<exists>n st'. wr b st = ((n, None), st')"
begin

lemma toWriter_loop_total:
  assumes "heads_ok p hs (length s)"
  shows "\<exists>p' st'. toWriter_loop wr s hs p st = Some ((p', None), st')"
  using assms
proof (induction hs arbitrary: p st)
  case (Cons h hs)
  have p: "p \<le> lh_offset h" "lh_offset h \<le> length s" "heads_ok (lh_offset h) hs (length s)"
    using Cons.prems heads_ok_le by auto
  have head: "\<exists>p' st'. (case wr (listhead_encode h) st1 of
        ((_, Some e), st') \<Rightarrow> Some ((lh_offset h, Some e), st')
      | ((_, None), st') \<Rightarrow> toWriter_loop wr s hs (lh_offset h) st') = Some ((p', None), st')" for st1
    using write_total [of "listhead_encode h" st1] Cons.IH [OF p(3)] by auto
  obtain n st1 where w: "wr (take (lh_offset h - p) (drop p s)) st = ((n, None), st1)"
    using write_total by blast
  then have "n = lh_offset h - p" using write_ok [OF w] p by simp
  then show ?case
    using head [of st1] head [of st] w p by (cases "lh_offset h > p") (simp_all add: go_slice_def Let_def)
qed simp

lemma toWriter_total:
  assumes "wrote out encbuf_reset w"
  shows "\<exists>st'. toWriter wr w st = Some (None, st') \<and> content st' = content st @ out"
proof -
  obtain p' st1 where "toWriter_loop wr (eb_str w) (eb_lheads w) 0 st = Some ((p', None), st1)"
    using toWriter_loop_total wrote_reset(1) [OF assms] by blast
  moreover obtain n st2 where "wr (drop p' (eb_str w)) st1 = ((n, None), st2)"
    using write_total by blast
  ultimately have "\<exists>st'. toWriter wr w st = Some (None, st')" by (simp add: toWriter_def)
  then show ?thesis using toWriter_wrote [OF assms] by blast
qed

lemma Encode_total:
  assumes "enc_ref v = Inr out" "length out < 2 ^ 64"
  shows "\<exists>st'. Encode wr v (Other st) = Some (Inr (None, Other st')) \<and> content st' = content st @ out"
proof -
  obtain w' where "encode_val v encbuf_reset = Inr w'" "wrote out encbuf_reset w'"
    using encode_val_wrote(1) [of v out encbuf_reset] assms by auto
  then show ?thesis using toWriter_total [of out w' st] by auto
qed

end

interpretation buffer_writer: io_total_writer buffer_Write id
  by unfold_locales (auto simp: buffer_Write_def)

text \<open>The buffer of a running encoder: what was written before stays, and the new bytes follow.\<close>

lemma encbuf_Write_wrote: "encbuf_Write b w = ((n, err), w') \<Longrightarrow> n = length b \<and> err = None \<and> wrote b w w'"
  by (auto simp: encbuf_Write_def wrote_append_str)

section \<open>Properties\<close>

text \<open>
  C7. Whenever the encoding of a value is shorter than 2 to the 64 bytes, \<^verbatim>\<open>EncodeToBytes\<close>, which
  collects list headers apart from the string data and merges them afterwards, does not panic
  and returns exactly the recursive encoding of the RLP specification; a value with no encoding
  (a negative \<^verbatim>\<open>big.Int\<close> anywhere in it) gives the error.
\<close>

theorem EncodeToBytes_rlp:
  assumes "case enc_ref v of Inl e \<Rightarrow> True | Inr out \<Rightarrow> length out < 2 ^ 64"
  shows "EncodeToBytes v = Some (enc_ref v)"
  by (rule EncodeToBytes_enc_ref [OF assms])

theorem EncodeToBytes_rlp_witness:
  "EncodeToBytes (VStruct [VUint 1024, VBytes [], VSlice False [VBool True, VString [0x64, 0x6f, 0x67]]])
     = Some (Inr [0xca, 0x82, 0x04, 0x00, 0x80, 0xc5, 0x01, 0x83, 0x64, 0x6f, 0x67])"
proof -
  have "enc_ref (VStruct [VUint 1024, VBytes [], VSlice False [VBool True, VString [0x64, 0x6f, 0x67]]])
     = Inr [0xca, 0x82, 0x04, 0x00, 0x80, 0xc5, 0x01, 0x83, 0x64, 0x6f, 0x67]"
    by (simp add: rlp_string_def rlp_head_def rlp_list_def be_bytes.simps)
  then show ?thesis
    using EncodeToBytes_rlp [of "VStruct [VUint 1024, VBytes [],
      VSlice False [VBool True, VString [0x64, 0x6f, 0x67]]]"] by simp
qed



end
