(* ===== verification/RLP_Raw.thy ===== *)
theory RLP_Raw
  imports RLP_Encode
begin

text \<open>
  Splitting of encoded RLP data without reflection: \<^verbatim>\<open>rlp/raw.go\<close> and the list iterator of
  \<^verbatim>\<open>rlp/iterator.go\<close>. Sizes are 64-bit words as in the code; slicing out of range is a panic,
  and a loop that does not end is \<^const>\<open>None\<close> as well.

  The lemmas show that \<^verbatim>\<open>Split\<close> never panics and accepts exactly the canonical encodings, that
  counting terminates and counts, and that the integer helpers are inverse to each other.
\<close>

section \<open>Operations\<close>

definition readSize :: "bytes \<Rightarrow> byte \<Rightarrow> rlp_error + u64" where
  "readSize b slen =
     (if unat slen > length b then Inl ErrUnexpectedEOF
      else
        (let n = unat slen;
             at = (\<lambda>k. ucast (b ! k) :: u64);
             s = (if n = 1 then at 0
                  else if n = 2 then push_bit 8 (at 0) OR at 1
                  else if n = 3 then push_bit 16 (at 0) OR push_bit 8 (at 1) OR at 2
                  else if n = 4 then
                    push_bit 24 (at 0) OR push_bit 16 (at 1) OR push_bit 8 (at 2) OR at 3
                  else if n = 5 then
                    push_bit 32 (at 0) OR push_bit 24 (at 1) OR push_bit 16 (at 2) OR
                    push_bit 8 (at 3) OR at 4
                  else if n = 6 then
                    push_bit 40 (at 0) OR push_bit 32 (at 1) OR push_bit 24 (at 2) OR
                    push_bit 16 (at 3) OR push_bit 8 (at 4) OR at 5
                  else if n = 7 then
                    push_bit 48 (at 0) OR push_bit 40 (at 1) OR push_bit 32 (at 2) OR
                    push_bit 24 (at 3) OR push_bit 16 (at 4) OR push_bit 8 (at 5) OR at 6
                  else if n = 8 then
                    push_bit 56 (at 0) OR push_bit 48 (at 1) OR push_bit 40 (at 2) OR
                    push_bit 32 (at 3) OR push_bit 24 (at 4) OR push_bit 16 (at 5) OR
                    push_bit 8 (at 6) OR at 7
                  else 0)
         in if s < 56 \<or> b ! 0 = 0 then Inl ErrCanonSize else Inr s))"

text \<open>Kind, tag size and content size of the value at the front of a buffer.\<close>

definition readKind :: "bytes \<Rightarrow> rlp_error + Kind \<times> u64 \<times> u64" where
  "readKind buf =
     (if buf = [] then Inl ErrUnexpectedEOF
      else
        (let b = hd buf;
             res =
               (if b < 0x80 then Inr (Byte, 0, 1)
                else if b < 0xB8 then
                  (if (ucast (b - 0x80) :: u64) = 1 \<and> length buf > 1 \<and> buf ! 1 < 128
                   then Inl ErrCanonSize
                   else Inr (String, 1, ucast (b - 0x80)))
                else if b < 0xC0 then
                  (case readSize (tl buf) (b - 0xB7) of Inl e \<Rightarrow> Inl e
                   | Inr s \<Rightarrow> Inr (String, ucast (b - 0xB7) + 1, s))
                else if b < 0xF8 then Inr (List, 1, ucast (b - 0xC0))
                else
                  (case readSize (tl buf) (b - 0xF7) of Inl e \<Rightarrow> Inl e
                   | Inr s \<Rightarrow> Inr (List, ucast (b - 0xF7) + 1, s)))
         in case res of Inl e \<Rightarrow> Inl e
            | Inr (k, tagsize, contentsize) \<Rightarrow>
                if contentsize > word_of_nat (length buf) - tagsize then Inl ErrValueTooLarge
                else Inr (k, tagsize, contentsize)))"

definition Split :: "bytes \<Rightarrow> (rlp_error + Kind \<times> bytes \<times> bytes) option" where
  "Split b =
     (case readKind b of Inl e \<Rightarrow> Some (Inl e)
      | Inr (k, ts, cs) \<Rightarrow>
         (case (go_slice b (unat ts) (unat (ts + cs)), go_slice b (unat (ts + cs)) (length b)) of
            (Some content, Some rest) \<Rightarrow> Some (Inr (k, content, rest))
          | _ \<Rightarrow> None))"

definition SplitString :: "bytes \<Rightarrow> (rlp_error + bytes \<times> bytes) option" where
  "SplitString b =
     (case Split b of None \<Rightarrow> None | Some (Inl e) \<Rightarrow> Some (Inl e)
      | Some (Inr (k, content, rest)) \<Rightarrow>
          Some (if k = List then Inl ErrExpectedString else Inr (content, rest)))"

definition SplitUint64 :: "bytes \<Rightarrow> (rlp_error + u64 \<times> bytes) option" where
  "SplitUint64 b =
     (case SplitString b of None \<Rightarrow> None | Some (Inl e) \<Rightarrow> Some (Inl e)
      | Some (Inr (content, rest)) \<Rightarrow>
          Some (if length content = 0 then Inr (0, rest)
                else if length content = 1 then
                  (if content ! 0 = 0 then Inl ErrCanonInt else Inr (ucast (content ! 0), rest))
                else if length content > 8 then Inl errUintOverflow
                else (case readSize content (word_of_nat (length content)) of
                        Inl e \<Rightarrow> Inl ErrCanonInt
                      | Inr x \<Rightarrow> Inr (x, rest))))"

definition SplitList :: "bytes \<Rightarrow> (rlp_error + bytes \<times> bytes) option" where
  "SplitList b =
     (case Split b of None \<Rightarrow> None | Some (Inl e) \<Rightarrow> Some (Inl e)
      | Some (Inr (k, content, rest)) \<Rightarrow>
          Some (if k \<noteq> List then Inl ErrExpectedList else Inr (content, rest)))"

partial_function (option) CountValues_loop :: "nat \<Rightarrow> bytes \<Rightarrow> (rlp_error + nat) option" where
  "CountValues_loop i b =
     (if length b > 0
      then (case readKind b of Inl e \<Rightarrow> Some (Inl e)
            | Inr (k, tagsize, sz) \<Rightarrow>
               (case go_slice b (unat (tagsize + sz)) (length b) of None \<Rightarrow> None
                | Some b' \<Rightarrow> CountValues_loop (i + 1) b'))
      else Some (Inr i))"

definition CountValues :: "bytes \<Rightarrow> (rlp_error + nat) option" where
  "CountValues b = CountValues_loop 0 b"

definition ListSize :: "u64 \<Rightarrow> u64" where
  "ListSize contentSize = word_of_nat (headsize contentSize) + contentSize"

definition AppendUint64 :: "bytes \<Rightarrow> u64 \<Rightarrow> bytes" where
  "AppendUint64 b i =
     (if i = 0 then b @ [0x80]
      else if i < 128 then b @ [ucast i]
      else if i < 2 ^ 8 then b @ [0x81, byte_shr i 0]
      else if i < 2 ^ 16 then b @ [0x82, byte_shr i 8, byte_shr i 0]
      else if i < 2 ^ 24 then b @ [0x83, byte_shr i 16, byte_shr i 8, byte_shr i 0]
      else if i < 2 ^ 32 then b @ [0x84, byte_shr i 24, byte_shr i 16, byte_shr i 8, byte_shr i 0]
      else if i < 2 ^ 40 then
        b @ [0x85, byte_shr i 32, byte_shr i 24, byte_shr i 16, byte_shr i 8, byte_shr i 0]
      else if i < 2 ^ 48 then
        b @ [0x86, byte_shr i 40, byte_shr i 32, byte_shr i 24, byte_shr i 16, byte_shr i 8,
             byte_shr i 0]
      else if i < 2 ^ 56 then
        b @ [0x87, byte_shr i 48, byte_shr i 40, byte_shr i 32, byte_shr i 24, byte_shr i 16,
             byte_shr i 8, byte_shr i 0]
      else
        b @ [0x88, byte_shr i 56, byte_shr i 48, byte_shr i 40, byte_shr i 32, byte_shr i 24,
             byte_shr i 16, byte_shr i 8, byte_shr i 0])"

record listIterator =
  it_data :: bytes
  it_next :: bytes
  it_err :: "rlp_error option"

definition NewListIterator :: "bytes \<Rightarrow> (rlp_error + listIterator) option" where
  "NewListIterator d =
     (case readKind d of Inl e \<Rightarrow> Some (Inl e)
      | Inr (k, t, c) \<Rightarrow>
          (if k \<noteq> List then Some (Inl ErrExpectedList)
           else (case go_slice d (unat t) (unat (t + c)) of None \<Rightarrow> None
                 | Some x \<Rightarrow> Some (Inr \<lparr>it_data = x, it_next = [], it_err = None\<rparr>))))"

definition iterator_Next :: "listIterator \<Rightarrow> (bool \<times> listIterator) option" where
  "iterator_Next it =
     (if length (it_data it) = 0 then Some (False, it)
      else
        (let (t, c, err) = (case readKind (it_data it) of Inl e \<Rightarrow> (0, 0, Some e)
                            | Inr (_, t, c) \<Rightarrow> (t, c, None))
         in case (go_slice (it_data it) 0 (unat (t + c)),
                  go_slice (it_data it) (unat (t + c)) (length (it_data it))) of
              (Some nx, Some d) \<Rightarrow> Some (True, \<lparr>it_data = d, it_next = nx, it_err = err\<rparr>)
            | _ \<Rightarrow> None))"

section \<open>Reading sizes\<close>

primrec be_word :: "bytes \<Rightarrow> u64 \<Rightarrow> u64" where
  "be_word [] acc = acc"
| "be_word (b # bs) acc = be_word bs (push_bit 8 acc OR ucast b)"

lemma unat_shl8_or:
  assumes "unat (acc :: u64) < 2 ^ 56"
  shows "unat (push_bit 8 acc OR ucast (b :: byte)) = unat acc * 256 + unat b"
proof -
  have "push_bit 8 acc OR ucast b = push_bit 8 acc + (ucast b :: u64)"
    by (rule disjunctive_add [symmetric]) (auto simp: bit_simps dest: bit_imp_le_length)
  moreover have "unat (push_bit 8 acc) = unat acc * 256"
    using assms by (simp add: push_bit_eq_mult unat_word_ariths)
  moreover have "unat (ucast b :: u64) = unat b"
    using unat_byte_less [of b]
    by (simp add: unsigned_ucast_eq take_bit_eq_mod mod_less del: unat_byte_less)
  ultimately show ?thesis
    using assms unat_byte_less [of b] by (simp add: unat_word_ariths del: unat_byte_less)
qed

lemma unat_be_word:
  "unat acc * 256 ^ length bs + 256 ^ length bs \<le> 2 ^ 64
   \<Longrightarrow> unat (be_word bs acc) = unat acc * 256 ^ length bs + be_nat bs"
proof (induction bs arbitrary: acc)
  case (Cons b bs)
  have le: "(unat acc + 1) * 256 * 256 ^ length bs \<le> 2 ^ 64"
    using Cons.prems by (simp add: algebra_simps)
  have "(unat acc + 1) * 256 * 1 \<le> (unat acc + 1) * 256 * 256 ^ length bs"
    by (intro mult_le_mono2) simp
  from order_trans [OF this le] have "unat acc < 2 ^ 56" by simp
  then have step: "unat (push_bit 8 acc OR ucast b) = unat acc * 256 + unat b"
    by (rule unat_shl8_or)
  have "(unat acc * 256 + unat b + 1) * 256 ^ length bs \<le> (unat acc + 1) * 256 * 256 ^ length bs"
    using unat_byte_less [of b] by (intro mult_le_mono1) (simp add: algebra_simps del: unat_byte_less)
  from order_trans [OF this le]
  have "unat (push_bit 8 acc OR ucast b) * 256 ^ length bs + 256 ^ length bs \<le> 2 ^ 64"
    by (simp add: step algebra_simps)
  from Cons.IH [OF this] show ?case by (simp add: step algebra_simps)
qed simp

lemma be_word_be_nat: "length bs \<le> 8 \<Longrightarrow> be_word bs 0 = word_of_nat (be_nat bs)"
proof -
  assume len: "length bs \<le> 8"
  have "(256 :: nat) ^ length bs \<le> 256 ^ 8" using len by (intro power_increasing) simp_all
  then have "unat (be_word bs 0) = be_nat bs" using unat_be_word [of 0 bs] by simp
  then have "word_of_nat (unat (be_word bs 0)) = (word_of_nat (be_nat bs) :: u64)" by simp
  then show ?thesis by simp
qed

lemma take_map_nth: "n \<le> length b \<Longrightarrow> take n b = map ((!) b) [0..<n]"
  by (simp add: list_eq_iff_nth_eq)

lemma readSize_be:
  assumes "1 \<le> n" "n \<le> 8" "n \<le> length b"
  shows "readSize b (word_of_nat n) =
    (if be_nat (take n b) < 56 \<or> b ! 0 = 0 then Inl ErrCanonSize
     else Inr (word_of_nat (be_nat (take n b))))"
proof -
  have s: "be_word (take n b) 0 = word_of_nat (be_nat (take n b))"
    using assms by (intro be_word_be_nat) simp
  have "be_nat (take n b) < 256 ^ n"
    using be_nat_less [of "take n b"] assms by simp
  also have "(256 :: nat) ^ n \<le> 256 ^ 8" using assms by (intro power_increasing) simp_all
  finally have less: "(word_of_nat (be_nat (take n b)) :: u64) < 56 \<longleftrightarrow> be_nat (take n b) < 56"
    by (intro word_of_nat_less_56) simp
  have n: "unat (word_of_nat n :: byte) = n" using assms by simp
  have "b \<noteq> []" using assms by auto
  moreover have "n = Suc 0 \<or> n = Suc (Suc 0) \<or> n = Suc (Suc (Suc 0)) \<or> n = Suc (Suc (Suc (Suc 0)))
     \<or> n = Suc (Suc (Suc (Suc (Suc 0)))) \<or> n = Suc (Suc (Suc (Suc (Suc (Suc 0)))))
     \<or> n = Suc (Suc (Suc (Suc (Suc (Suc (Suc 0))))))
     \<or> n = Suc (Suc (Suc (Suc (Suc (Suc (Suc (Suc 0)))))))"
    using assms by arith
  ultimately have "readSize b (word_of_nat n)
      = (let s = be_word (map ((!) b) [0..<n]) 0 in if s < 56 \<or> b ! 0 = 0 then Inl ErrCanonSize else Inr s)"
    unfolding readSize_def n using assms(1,3)
    by (elim disjE)
      (simp_all add: push_bit_or Let_def or.assoc, simp_all add: numeral_2_eq_2 [symmetric])
  then show ?thesis
    using s less assms by (simp add: take_map_nth [symmetric])
qed

section \<open>Canonical encodings\<close>

definition small_byte :: "bytes \<Rightarrow> bool" where
  "small_byte c = (length c = 1 \<and> hd c \<le> 0x7F)"

text \<open>The encoding of a content under a kind, and the contents that a kind can have.\<close>

definition kind_enc :: "Kind \<Rightarrow> bytes \<Rightarrow> bytes" where
  "kind_enc k c = (if k = List then rlp_list c else rlp_string c)"

definition kind_ok :: "Kind \<Rightarrow> bytes \<Rightarrow> bool" where
  "kind_ok k c = (case k of Byte \<Rightarrow> small_byte c | String \<Rightarrow> \<not> small_byte c | List \<Rightarrow> True)"

lemma word_of_nat_unat_byte: "unat (b :: byte) = n \<Longrightarrow> b = word_of_nat n"
  by auto

lemma readSize_long:
  assumes "readSize t l = Inr s" "1 \<le> unat l" "unat l \<le> 8"
  shows "be_bytes (unat s) = take (unat l) t" "56 \<le> unat s" "unat l \<le> length t"
proof -
  show len: "unat l \<le> length t" using assms(1) by (auto simp: readSize_def split: if_splits)
  let ?b = "take (unat l) t"
  have l: "l = word_of_nat (unat l)" by simp
  have s: "s = word_of_nat (be_nat ?b)" "56 \<le> be_nat ?b" "t ! 0 \<noteq> 0"
    using assms(1) readSize_be [OF assms(2,3) len] by (auto split: if_splits)
  have "be_nat ?b < 256 ^ unat l" using be_nat_less [of ?b] len by simp
  also have "(256 :: nat) ^ unat l \<le> 256 ^ 8" using assms(3) by (intro power_increasing) simp_all
  finally have u: "unat s = be_nat ?b" by (simp add: s(1) unat_of_nat)
  with s(2) show "56 \<le> unat s" by simp
  have "?b \<noteq> []" "hd ?b \<noteq> 0"
    using s(3) assms(2) len by (cases t; auto)+
  then show "be_bytes (unat s) = ?b" by (simp add: u)
qed

lemma readSize_be_bytes:
  assumes "56 \<le> n" "n < 2 ^ 64"
  shows "readSize (be_bytes n @ r) (word_of_nat (length (be_bytes n))) = Inr (word_of_nat n)"
proof -
  have pos: "0 < n" using assms by simp
  have len: "1 \<le> length (be_bytes n)" "length (be_bytes n) \<le> 8"
    using pos length_be_bytes_le [of n 8] assms(2) by (simp_all add: Suc_le_eq)
  have "be_bytes n ! 0 \<noteq> 0" using hd_be_bytes [OF pos] len by (cases "be_bytes n") auto
  then show ?thesis
    using readSize_be [OF len, of "be_bytes n @ r"] assms(1) len by (simp add: nth_append)
qed

lemma length_be_bytes_range: "56 \<le> n \<Longrightarrow> n < 2 ^ 64 \<Longrightarrow> 1 \<le> length (be_bytes n) \<and> length (be_bytes n) \<le> 8"
  using length_be_bytes_le [of n 8] by (simp add: Suc_le_eq)

lemma unat_tag:
  "n \<le> 64 \<Longrightarrow> unat (0x80 + word_of_nat n :: byte) = 0x80 + n"
  "n \<le> 8 \<Longrightarrow> unat (0xB7 + word_of_nat n :: byte) = 0xB7 + n"
  "n \<le> 56 \<Longrightarrow> unat (0xC0 + word_of_nat n :: byte) = 0xC0 + n"
  "n \<le> 8 \<Longrightarrow> unat (0xF7 + word_of_nat n :: byte) = 0xF7 + n"
  by (simp_all add: unat_word_ariths)

lemma unat_tag_diff:
  "0x80 \<le> b \<Longrightarrow> unat (b - 0x80 :: byte) = unat b - 0x80"
  "0xB7 \<le> b \<Longrightarrow> unat (b - 0xB7 :: byte) = unat b - 0xB7"
  "0xC0 \<le> b \<Longrightarrow> unat (b - 0xC0 :: byte) = unat b - 0xC0"
  "0xF7 \<le> b \<Longrightarrow> unat (b - 0xF7 :: byte) = unat b - 0xF7"
  by (simp_all add: unat_sub)

lemma unat_ucast_byte [simp]: "unat (ucast (b :: byte) :: u64) = unat b"
  using unat_byte_less [of b]
  by (simp add: unsigned_ucast_eq take_bit_eq_mod mod_less del: unat_byte_less)

lemma rlp_head_long:
  "56 \<le> n \<Longrightarrow> rlp_head small large n = (large + word_of_nat (length (be_bytes n))) # be_bytes n"
  by (simp add: rlp_head_def)

lemma too_large_iff:
  fixes ts cs :: u64
  assumes "length buf < 2 ^ 63" "unat ts \<le> length buf"
  shows "cs > word_of_nat (length buf) - ts \<longleftrightarrow> length buf < unat ts + unat cs"
proof -
  have "unat (word_of_nat (length buf) - ts) = length buf - unat ts"
    using assms by (subst unat_sub) (simp_all add: word_le_nat_alt unat_of_nat)
  then show ?thesis using assms(2) by (auto simp: word_less_nat_alt)
qed

definition fits :: "bytes \<Rightarrow> Kind \<times> u64 \<times> u64 \<Rightarrow> rlp_error + Kind \<times> u64 \<times> u64" where
  "fits buf res = (case res of (k, ts, cs) \<Rightarrow>
     if cs > word_of_nat (length buf) - ts then Inl ErrValueTooLarge else Inr res)"

text \<open>The five branches of \<^verbatim>\<open>readKind\<close>, by the value of the first byte.\<close>

lemma readKind_branch:
  "unat b < 0x80 \<Longrightarrow> readKind (b # r) = fits (b # r) (Byte, 0, 1)"
  "0x80 \<le> unat b \<Longrightarrow> unat b < 0xB8 \<Longrightarrow> \<not> (unat b = 0x81 \<and> r \<noteq> [] \<and> hd r < 128)
     \<Longrightarrow> readKind (b # r) = fits (b # r) (String, 1, ucast (b - 0x80))"
  "unat b = 0x81 \<Longrightarrow> r \<noteq> [] \<Longrightarrow> hd r < 128 \<Longrightarrow> readKind (b # r) = Inl ErrCanonSize"
  "0xB8 \<le> unat b \<Longrightarrow> unat b < 0xC0
     \<Longrightarrow> readKind (b # r) = (case readSize r (b - 0xB7) of Inl e \<Rightarrow> Inl e
          | Inr s \<Rightarrow> fits (b # r) (String, ucast (b - 0xB7) + 1, s))"
  "0xC0 \<le> unat b \<Longrightarrow> unat b < 0xF8
     \<Longrightarrow> readKind (b # r) = fits (b # r) (List, 1, ucast (b - 0xC0))"
  "0xF8 \<le> unat b
     \<Longrightarrow> readKind (b # r) = (case readSize r (b - 0xF7) of Inl e \<Rightarrow> Inl e
          | Inr s \<Rightarrow> fits (b # r) (List, ucast (b - 0xF7) + 1, s))"
proof -
  have one: "(ucast (b - 0x80) :: u64) = 1 \<longleftrightarrow> unat b = 0x81" if "0x80 \<le> unat b"
    using that by (auto simp: word_unat_eq_iff unat_sub word_le_nat_alt)
  have r1: "length (b # r) > 1 \<and> (b # r) ! 1 < 128 \<longleftrightarrow> r \<noteq> [] \<and> hd r < 128"
    by (cases r) auto
  show "unat b < 0x80 \<Longrightarrow> readKind (b # r) = fits (b # r) (Byte, 0, 1)"
    by (simp add: readKind_def fits_def word_less_nat_alt)
  show "0x80 \<le> unat b \<Longrightarrow> unat b < 0xB8 \<Longrightarrow> \<not> (unat b = 0x81 \<and> r \<noteq> [] \<and> hd r < 128)
     \<Longrightarrow> readKind (b # r) = fits (b # r) (String, 1, ucast (b - 0x80))"
    unfolding readKind_def fits_def r1 by (auto simp: one word_less_nat_alt)
  show "unat b = 0x81 \<Longrightarrow> r \<noteq> [] \<Longrightarrow> hd r < 128 \<Longrightarrow> readKind (b # r) = Inl ErrCanonSize"
    unfolding readKind_def r1 by (simp add: one word_less_nat_alt)
  show "0xB8 \<le> unat b \<Longrightarrow> unat b < 0xC0
     \<Longrightarrow> readKind (b # r) = (case readSize r (b - 0xB7) of Inl e \<Rightarrow> Inl e
          | Inr s \<Rightarrow> fits (b # r) (String, ucast (b - 0xB7) + 1, s))"
    by (simp add: readKind_def fits_def word_less_nat_alt split: sum.split)
  show "0xC0 \<le> unat b \<Longrightarrow> unat b < 0xF8
     \<Longrightarrow> readKind (b # r) = fits (b # r) (List, 1, ucast (b - 0xC0))"
    by (simp add: readKind_def fits_def word_less_nat_alt)
  show "0xF8 \<le> unat b
     \<Longrightarrow> readKind (b # r) = (case readSize r (b - 0xF7) of Inl e \<Rightarrow> Inl e
          | Inr s \<Rightarrow> fits (b # r) (List, ucast (b - 0xF7) + 1, s))"
    by (simp add: readKind_def fits_def word_less_nat_alt split: sum.split)
qed

lemma fits_iff:
  "length buf < 2 ^ 63 \<Longrightarrow> unat ts \<le> length buf
   \<Longrightarrow> fits buf (k, ts, cs) = (if length buf < unat ts + unat cs then Inl ErrValueTooLarge else Inr (k, ts, cs))"
  by (simp add: fits_def too_large_iff)

text \<open>Reading the kind of an encoding.\<close>

lemma readKind_Byte:
  "small_byte c \<Longrightarrow> length r < 2 ^ 62 \<Longrightarrow> readKind (c @ r) = Inr (Byte, 0, 1)"
  by (cases c) (auto simp: small_byte_def word_le_nat_alt readKind_branch fits_iff)

lemma readKind_short:
  assumes "length c < 56" "length c + length r < 2 ^ 62"
  shows "\<not> small_byte c \<Longrightarrow> readKind ((0x80 + word_of_nat (length c)) # c @ r)
           = Inr (String, 1, word_of_nat (length c))"
    and "readKind ((0xC0 + word_of_nat (length c)) # c @ r) = Inr (List, 1, word_of_nat (length c))"
proof -
  have n: "unat (0x80 + word_of_nat (length c) :: byte) = 0x80 + length c"
    "unat (0xC0 + word_of_nat (length c) :: byte) = 0xC0 + length c"
    using assms(1) by (simp_all only: unat_tag)
  have u: "(ucast (word_of_nat (length c) :: byte) :: u64) = word_of_nat (length c)"
    using assms(1) by (simp add: word_unat_eq_iff unat_of_nat)
  have fit: "fits (x # c @ r) (k, 1, word_of_nat (length c)) = Inr (k, 1, word_of_nat (length c))" for x k
    using assms by (simp add: fits_iff unat_of_nat)
  show "readKind ((0x80 + word_of_nat (length c)) # c @ r) = Inr (String, 1, word_of_nat (length c))"
    if c: "\<not> small_byte c"
  proof -
    have "\<not> (length c = 1 \<and> hd (c @ r) < 128)"
      using c by (cases c) (auto simp: small_byte_def word_less_nat_alt word_le_nat_alt)
    then show ?thesis
      using readKind_branch(2) [of "0x80 + word_of_nat (length c)" "c @ r"] n(1) assms(1) u fit by auto
  qed
  show "readKind ((0xC0 + word_of_nat (length c)) # c @ r) = Inr (List, 1, word_of_nat (length c))"
    using readKind_branch(5) [of "0xC0 + word_of_nat (length c)" "c @ r"] n(2) assms(1) u fit by auto
qed

lemma readKind_long:
  assumes "56 \<le> length c" "length c + length r < 2 ^ 62"
  shows "readKind ((0xB7 + word_of_nat (length (be_bytes (length c)))) # be_bytes (length c) @ c @ r)
           = Inr (String, word_of_nat (length (be_bytes (length c)) + 1), word_of_nat (length c))"
    and "readKind ((0xF7 + word_of_nat (length (be_bytes (length c)))) # be_bytes (length c) @ c @ r)
           = Inr (List, word_of_nat (length (be_bytes (length c)) + 1), word_of_nat (length c))"
proof -
  define l where "l = length (be_bytes (length c))"
  define t where "t = be_bytes (length c) @ c @ r"
  have l: "1 \<le> l" "l \<le> 8" using length_be_bytes_range [of "length c"] assms by (auto simp: l_def)
  then have n: "unat (0xB7 + word_of_nat l :: byte) = 0xB7 + l"
    "unat (0xF7 + word_of_nat l :: byte) = 0xF7 + l"
    by (simp_all only: unat_tag)
  have "(ucast (word_of_nat l :: byte) :: u64) = word_of_nat l"
    using l by (simp add: word_unat_eq_iff unat_of_nat)
  then have u: "(ucast (word_of_nat l :: byte) :: u64) + 1 = word_of_nat (l + 1)" by simp
  have s: "readSize t (word_of_nat l) = Inr (word_of_nat (length c))"
    using readSize_be_bytes [of "length c" "c @ r"] assms by (simp add: l_def t_def)
  have len: "length t = l + length c + length r" by (simp add: t_def l_def)
  have "unat (word_of_nat (l + 1) :: u64) = l + 1" using l by (simp add: unat_of_nat del: of_nat_add of_nat_Suc)
  moreover have "unat (word_of_nat (length c) :: u64) = length c" using assms by (simp add: unat_of_nat)
  ultimately have fit: "fits (x # t) (k, word_of_nat (l + 1), word_of_nat (length c))
      = Inr (k, word_of_nat (l + 1), word_of_nat (length c))" for x k
    using assms l len by (simp add: fits_iff del: of_nat_add)
  have d: "0xB7 + word_of_nat l - 0xB7 = (word_of_nat l :: byte)"
    "0xF7 + word_of_nat l - 0xF7 = (word_of_nat l :: byte)" by simp_all
  have "readKind ((0xB7 + word_of_nat l) # t) = Inr (String, word_of_nat (l + 1), word_of_nat (length c))"
    using readKind_branch(4) [of "0xB7 + word_of_nat l" t] n(1) l
    unfolding d u s sum.case fit by linarith
  then show "readKind ((0xB7 + word_of_nat (length (be_bytes (length c)))) # be_bytes (length c) @ c @ r)
           = Inr (String, word_of_nat (length (be_bytes (length c)) + 1), word_of_nat (length c))"
    by (simp only: l_def t_def)
  have "readKind ((0xF7 + word_of_nat l) # t) = Inr (List, word_of_nat (l + 1), word_of_nat (length c))"
    using readKind_branch(6) [of "0xF7 + word_of_nat l" t] n(2) l
    unfolding d u s sum.case fit by linarith
  then show "readKind ((0xF7 + word_of_nat (length (be_bytes (length c)))) # be_bytes (length c) @ c @ r)
           = Inr (List, word_of_nat (length (be_bytes (length c)) + 1), word_of_nat (length c))"
    by (simp only: l_def t_def)
qed

text \<open>
  The sizes that \<^verbatim>\<open>readKind\<close> returns lie in the buffer and delimit the canonical encoding of the content.
\<close>

definition sound :: "bytes \<Rightarrow> Kind \<times> u64 \<times> u64 \<Rightarrow> bool" where
  "sound buf res = (case res of (k, ts, cs) \<Rightarrow>
     let c = take (unat cs) (drop (unat ts) buf)
     in unat ts + unat cs \<le> length buf \<and> 0 < unat ts + unat cs
        \<and> kind_ok k c \<and> kind_enc k c = take (unat ts + unat cs) buf)"

lemma sound_Byte:
  assumes "unat b < 0x80"
  shows "sound (b # r) (Byte, 0, 1)"
  using assms
  by (simp add: sound_def kind_ok_def kind_enc_def rlp_string_def small_byte_def word_le_nat_alt)

lemma sound_short:
  assumes "unat b = tag + n" "n < 56" "n \<le> length r" "unat cs = n"
    and "k = List \<and> tag = 0xC0 \<or> k = String \<and> tag = 0x80 \<and> \<not> small_byte (take n r)"
  shows "sound (b # r) (k, 1, cs)"
  using assms word_of_nat_unat_byte [OF assms(1)]
  by (auto simp: sound_def kind_ok_def kind_enc_def rlp_list_def rlp_string_def rlp_head_def
      small_byte_def min.absorb2)

lemma sound_long:
  assumes "readSize r l = Inr s" "1 \<le> unat l" "unat l \<le> 8"
    and "fits (b # r) (k, ucast l + 1, s) = Inr res" "length (b # r) < 2 ^ 63"
    and "k = List \<and> b = 0xF7 + l \<or> k = String \<and> b = 0xB7 + l"
  shows "sound (b # r) res"
proof -
  note s = readSize_long [OF assms(1-3)]
  have ts: "unat (ucast l + 1 :: u64) = unat l + 1"
    using assms(3) by (simp add: unat_word_ariths)
  have res: "res = (k, ucast l + 1, s)" and len: "unat l + unat s \<le> length r"
    using assms(4) fits_iff [OF assms(5), of "ucast l + 1" k s] ts s(3) by (auto split: if_splits)
  let ?c = "take (unat s) (drop (unat l) r)"
  have c: "length ?c = unat s" using len by simp
  have l: "word_of_nat (length (be_bytes (unat s))) = l" using s(1,3) by simp
  have "\<not> small_byte ?c" using s(2) c by (simp add: small_byte_def)
  then have "kind_enc k ?c = b # take (unat l) r @ ?c" "kind_ok k ?c"
    using assms(6) s(1,2) c l
    by (auto simp: kind_enc_def kind_ok_def rlp_list_def rlp_string_def rlp_head_long small_byte_def)
  then show ?thesis using len by (simp add: res sound_def ts take_add)
qed


lemma readKind_sound:
  assumes "readKind buf = Inr res" "length buf < 2 ^ 62"
  shows "sound buf res"
proof -
  obtain b r where buf: "buf = b # r"
    using assms(1) by (cases buf) (auto simp: readKind_def)
  have len: "length (b # r) < 2 ^ 63" using assms(2) buf by simp
  consider "unat b < 0x80" | "0x80 \<le> unat b" "unat b < 0xB8" | "0xB8 \<le> unat b" "unat b < 0xC0"
    | "0xC0 \<le> unat b" "unat b < 0xF8" | "0xF8 \<le> unat b" by linarith
  then show ?thesis
  proof cases
    case 1
    then show ?thesis
      using assms(1) readKind_branch(1) [OF 1, of r] sound_Byte [OF 1] buf
      by (auto simp: fits_def split: if_splits)
  next
    case 2
    have nc: "\<not> (unat b = 0x81 \<and> r \<noteq> [] \<and> hd r < 128)"
      using assms(1) buf readKind_branch(3) [of b r] by auto
    have u: "unat (b - 0x80) = unat b - 0x80" using 2 by (simp add: unat_sub word_le_nat_alt)
    have "unat b - 0x80 \<le> length r"
      using assms(1) readKind_branch(2) [OF 2 nc] buf fits_iff [OF len, of 1 String "ucast (b - 0x80)"] u
      by (auto split: if_splits)
    then have "\<not> small_byte (take (unat b - 0x80) r)"
      using nc by (cases r) (auto simp: small_byte_def word_less_nat_alt word_le_nat_alt take_Cons split: nat.splits)
    then show ?thesis
      using assms(1) readKind_branch(2) [OF 2 nc] buf fits_iff [OF len, of 1 String "ucast (b - 0x80)"]
        sound_short [of b "0x80" "unat b - 0x80" r "ucast (b - 0x80)" String] u 2
      by (auto split: if_splits)
  next
    case 3
    have "unat (b - 0xB7) = unat b - 0xB7" using 3 by (simp add: unat_sub word_le_nat_alt)
    then show ?thesis
      using assms(1) readKind_branch(4) [OF 3, of r] buf 3
      by (auto split: sum.splits intro!: sound_long [OF _ _ _ _ len])
  next
    case 4
    have "unat (b - 0xC0) = unat b - 0xC0" using 4 by (simp add: unat_sub word_le_nat_alt)
    then show ?thesis
      using assms(1) readKind_branch(5) [OF 4] buf fits_iff [OF len, of 1 List "ucast (b - 0xC0)"]
        sound_short [of b "0xC0" "unat b - 0xC0" r "ucast (b - 0xC0)" List] 4
      by (auto split: if_splits)
  next
    case 5
    have "unat (b - 0xF7) = unat b - 0xF7" using 5 by (simp add: unat_sub word_le_nat_alt)
    then show ?thesis
      using assms(1) readKind_branch(6) [OF 5, of r] buf 5 unat_byte_less [of b]
      by (auto split: sum.splits intro!: sound_long [OF _ _ _ _ len] simp del: unat_byte_less)
  qed
qed

section \<open>Splitting\<close>

lemma readKind_enc:
  assumes "kind_ok k c" "length c + length r < 2 ^ 62"
  shows "\<exists>ts cs. readKind (kind_enc k c @ r) = Inr (k, ts, cs)
    \<and> unat ts + length c = length (kind_enc k c) \<and> unat cs = length c \<and> drop (unat ts) (kind_enc k c) = c"
proof (cases "length c < 56")
  case True
  then have u: "unat (word_of_nat (length c) :: u64) = length c" by (simp add: unat_of_nat)
  show ?thesis
    using assms readKind_Byte [of c r] readKind_short [OF True assms(2)] u True
    by (cases k) (auto simp: kind_enc_def kind_ok_def rlp_string_def rlp_list_def rlp_head_def
        small_byte_def unat_of_nat)
next
  case False
  let ?l = "length (be_bytes (length c))"
  have l: "?l \<le> 8" using length_be_bytes_range [of "length c"] assms(2) False by simp
  have "unat (word_of_nat (length c) :: u64) = length c" "unat (word_of_nat (?l + 1) :: u64) = ?l + 1"
    using l assms(2) by (simp_all add: unat_of_nat del: of_nat_add of_nat_Suc)
  then show ?thesis
    using assms readKind_long [of c r] False
    by (cases k) (auto simp: kind_enc_def kind_ok_def rlp_string_def rlp_list_def rlp_head_long
        small_byte_def simp del: of_nat_add of_nat_Suc)
qed

lemma unat_add_small:
  "unat (x :: u64) + unat y < 2 ^ 64 \<Longrightarrow> unat (x + y) = unat x + unat y"
  by (simp add: unat_word_ariths)

lemma Split_enc:
  assumes "kind_ok k c" "length (kind_enc k c) + length r < 2 ^ 62"
  shows "Split (kind_enc k c @ r) = Some (Inr (k, c, r))"
proof -
  have "length c \<le> length (kind_enc k c)"
    by (simp add: kind_enc_def length_rlp_list length_rlp_string)
  then obtain ts cs where 1: "readKind (kind_enc k c @ r) = Inr (k, ts, cs)"
    "unat ts + length c = length (kind_enc k c)" "unat cs = length c" "drop (unat ts) (kind_enc k c) = c"
    using readKind_enc [OF assms(1), of r] assms(2) by auto
  have "unat (ts + cs) = length (kind_enc k c)"
    using unat_add_small [of ts cs] 1(2,3) assms(2) by simp
  then show ?thesis using 1 by (auto simp: Split_def go_slice_def)
qed

lemma Split_sound:
  assumes "length b < 2 ^ 62"
  shows "case readKind b of Inl e \<Rightarrow> Split b = Some (Inl e)
    | Inr (k, ts, cs) \<Rightarrow> \<exists>c r. Split b = Some (Inr (k, c, r)) \<and> b = kind_enc k c @ r \<and> kind_ok k c
        \<and> unat (ts + cs) \<le> length b \<and> r = drop (unat (ts + cs)) b \<and> length r < length b"
proof (cases "readKind b")
  case (Inl e)
  then show ?thesis by (simp add: Split_def)
next
  case (Inr res)
  obtain k ts cs where res: "res = (k, ts, cs)" by (cases res)
  let ?c = "take (unat cs) (drop (unat ts) b)"
  have s: "unat ts + unat cs \<le> length b" "0 < unat ts + unat cs"
    "kind_ok k ?c" "kind_enc k ?c = take (unat ts + unat cs) b"
    using readKind_sound [OF Inr assms] by (simp_all add: res sound_def Let_def)
  have u: "unat (ts + cs) = unat ts + unat cs"
    using unat_add_small [of ts cs] s(1) assms by simp
  have "Split b = Some (Inr (k, ?c, drop (unat (ts + cs)) b))"
    using s(1) by (simp add: Split_def Inr res u go_slice_def)
  moreover have "b = kind_enc k ?c @ drop (unat (ts + cs)) b" by (simp add: s(4) u)
  moreover have "length (drop (unat (ts + cs)) b) < length b" "unat (ts + cs) \<le> length b"
    using s(1,2) u by (simp_all, linarith)
  ultimately show ?thesis using s(3) unfolding Inr res sum.case prod.case by blast
qed

lemma Split_iff:
  assumes "length b < 2 ^ 62"
  shows "Split b = Some (Inr (k, c, r)) \<longleftrightarrow> b = kind_enc k c @ r \<and> kind_ok k c"
    and "Split b \<noteq> None"
proof -
  show "Split b \<noteq> None" using Split_sound [OF assms] by (auto split: sum.splits)
  show "Split b = Some (Inr (k, c, r)) \<longleftrightarrow> b = kind_enc k c @ r \<and> kind_ok k c"
    using Split_sound [OF assms] Split_enc [of k c r] assms by (auto split: sum.splits)
qed

section \<open>Counting\<close>

abbreviation concat_enc :: "(Kind \<times> bytes) list \<Rightarrow> bytes" where
  "concat_enc vs \<equiv> concat (map (\<lambda>(k, c). kind_enc k c) vs)"

definition all_ok :: "(Kind \<times> bytes) list \<Rightarrow> bool" where
  "all_ok vs = list_all (\<lambda>(k, c). kind_ok k c) vs"

lemma CountValues_loop_spec:
  assumes "length b < 2 ^ 62"
  shows "CountValues_loop i b \<noteq> None \<and> (CountValues_loop i b = Some (Inr m)
      \<longleftrightarrow> (\<exists>vs. m = i + length vs \<and> all_ok vs \<and> b = concat_enc vs))"
  using assms
proof (induction "length b" arbitrary: b i rule: less_induct)
  case less
  note split = Split_iff [OF less.prems] and sound = Split_sound [OF less.prems]
  have first: "\<exists>k c r vs'. Split b = Some (Inr (k, c, r)) \<and> vs = (k, c) # vs' \<and> all_ok vs' \<and> r = concat_enc vs'"
    if "b \<noteq> []" "all_ok vs" "b = concat_enc vs" for vs
    using that split(1) by (cases vs) (auto simp: all_ok_def)
  show ?case
  proof (cases "b = []")
    case True
    then have "concat_enc vs = b \<longleftrightarrow> vs = []" for vs
      by (cases vs) (auto simp: kind_enc_def rlp_list_def rlp_string_def rlp_head_def split: if_splits)
    with True show ?thesis by (auto simp: CountValues_loop.simps [of i "[]"] all_ok_def)
  next
    case False
    show ?thesis
    proof (cases "readKind b")
      case (Inl e)
      then have "Split b = Some (Inl e)" using sound by simp
      then have "\<not> (all_ok vs \<and> b = concat_enc vs)" for vs using first [OF False, of vs] by auto
      then show ?thesis using Inl False by (auto simp: CountValues_loop.simps [of i b])
    next
      case (Inr res)
      obtain k ts cs where "res = (k, ts, cs)" by (cases res)
      with Inr have res: "readKind b = Inr (k, ts, cs)" by simp
      obtain c r where s: "Split b = Some (Inr (k, c, r))" "b = kind_enc k c @ r" "kind_ok k c"
          "unat (ts + cs) \<le> length b" "r = drop (unat (ts + cs)) b" "length r < length b"
        using sound unfolding res sum.case prod.case by blast
      have step: "CountValues_loop i b = CountValues_loop (i + 1) r"
        using False res s(4,5) by (simp add: CountValues_loop.simps [of i b] go_slice_def)
      have "(\<exists>vs. m = i + length vs \<and> all_ok vs \<and> b = concat_enc vs)
          \<longleftrightarrow> (\<exists>vs. m = i + 1 + length vs \<and> all_ok vs \<and> r = concat_enc vs)" (is "?L \<longleftrightarrow> ?R")
      proof
        assume ?L
        then obtain vs where vs: "m = i + length vs" "all_ok vs" "b = concat_enc vs" by blast
        from first [OF False vs(2,3)] s(1) obtain vs' where
          "vs = (k, c) # vs'" "all_ok vs'" "r = concat_enc vs'" by auto
        with vs(1) show ?R by (intro exI [of _ vs']) simp
      next
        assume ?R
        then obtain vs where "m = i + 1 + length vs" "all_ok vs" "r = concat_enc vs" by blast
        with s(2,3) show ?L by (intro exI [of _ "(k, c) # vs"]) (simp add: all_ok_def)
      qed
      then show ?thesis
        using less.hyps [OF s(6), of "i + 1"] less.prems s(6) step by simp
    qed
  qed
qed

section \<open>Integers\<close>

lemma AppendUint64_rlp: "AppendUint64 b i = b @ rlp_string (be_bytes (unat i))"
proof -
  have "eb_str (encodeUint i \<lparr>eb_str = b, eb_lheads = [], eb_lhsize = 0\<rparr>)
      = b @ rlp_string (be_bytes (unat i))"
    using wrote_encodeUint [of i "\<lparr>eb_str = b, eb_lheads = [], eb_lhsize = 0\<rparr>"]
    by (auto simp: wrote_def encodeUint_def append_str_def Let_def split: if_splits)
  moreover have "eb_str (encodeUint i \<lparr>eb_str = b, eb_lheads = [], eb_lhsize = 0\<rparr>) = AppendUint64 b i"
    by (simp add: encodeUint_def AppendUint64_def putint_def append_str_def Let_def)
  ultimately show ?thesis by simp
qed

lemma SplitUint64_be_bytes:
  assumes "length r < 2 ^ 61"
  shows "SplitUint64 (rlp_string (be_bytes (unat i)) @ r) = Some (Inr (i, r))"
proof -
  let ?b = "be_bytes (unat i)"
  let ?k = "if small_byte ?b then Byte else String"
  have len: "length (rlp_string ?b) \<le> 9"
    using length_be_bytes_u64 [of i] by (simp add: rlp_string_def rlp_head_def)
  have "Split (rlp_string ?b @ r) = Some (Inr (?k, ?b, r))"
    using Split_enc [of Byte ?b r] Split_enc [of String ?b r] assms len
    by (cases "small_byte ?b") (simp_all add: kind_ok_def kind_enc_def)
  then have str: "SplitString (rlp_string ?b @ r) = Some (Inr (?b, r))"
    by (simp add: SplitString_def)
  consider "length ?b = 0" | "length ?b = 1" | "length ?b > 1" by linarith
  then show ?thesis
  proof cases
    case 1
    then show ?thesis using str by (simp add: SplitUint64_def unat_eq_zero)
  next
    case 2
    then have "0 < unat i" "unat i < 256"
      using length_be_bytes_le [of "unat i" 1] by (auto intro: gr0I)
    then have u: "unat (ucast i :: byte) = unat i" and b: "?b = [ucast i]"
      by (simp_all add: be_bytes_pos unsigned_ucast_eq take_bit_eq_mod)
    have "(ucast (ucast i :: byte) :: u64) = i"
      by (simp only: word_unat_eq_iff unat_ucast_byte u)
    moreover have "(ucast i :: byte) \<noteq> 0"
      using u \<open>0 < unat i\<close> by (metis less_irrefl unat_0)
    moreover note b
    ultimately have "?b = [ucast i]" "(ucast (ucast i :: byte) :: u64) = i" "(ucast i :: byte) \<noteq> 0"
      by blast+
    then show ?thesis using str by (simp add: SplitUint64_def)
  next
    case 3
    then have "256 \<le> unat i" using length_be_bytes_le [of "unat i" 1] by simp
    then show ?thesis
      using readSize_be_bytes [of "unat i" "[]"] 3 length_be_bytes_u64 [of i] unsigned_less [of i, where ?'a = nat]
      by (simp add: SplitUint64_def str)
  qed
qed

section \<open>Properties\<close>

text \<open>
  C9. \<^verbatim>\<open>Split\<close> never panics, and it accepts exactly the canonical encodings: it returns a kind, a
  content and a rest if and only if the buffer is the encoding of that content under that kind
  followed by that rest. No two encodings of one content are accepted.
\<close>

theorem Split_accepts_canonical:
  assumes "length b < 2 ^ 62"
  shows "Split b \<noteq> None \<and>
    (Split b = Some (Inr (k, c, r)) \<longleftrightarrow> b = kind_enc k c @ r \<and> kind_ok k c)"
  using Split_iff [OF assms] by blast

theorem Split_accepts_canonical_witness:
  "Split [0x82, 0x04, 0x00, 0x05] = Some (Inr (String, [0x04, 0x00], [0x05]))"
  using Split_accepts_canonical [of "[0x82, 0x04, 0x00, 0x05]" String "[0x04, 0x00]" "[0x05]"]
  by (simp add: kind_enc_def kind_ok_def rlp_string_def rlp_head_def small_byte_def)

text \<open>
  C10. \<^verbatim>\<open>CountValues\<close> terminates without a panic on every buffer, and returns \<^verbatim>\<open>n\<close> exactly when the buffer
  is the concatenation of \<^verbatim>\<open>n\<close> canonical encodings.
\<close>

theorem CountValues_counts:
  assumes "length b < 2 ^ 62"
  shows "CountValues b \<noteq> None \<and> (CountValues b = Some (Inr n)
      \<longleftrightarrow> (\<exists>vs. n = length vs \<and> all_ok vs \<and> b = concat_enc vs))"
  using CountValues_loop_spec [OF assms, of 0 n] by (simp add: CountValues_def)

theorem CountValues_counts_witness: "CountValues [0x01, 0xc0, 0x81, 0xff] = Some (Inr 3)"
proof -
  have "[0x01, 0xc0, 0x81, 0xff] = concat_enc [(Byte, [1]), (List, []), (String, [0xff])]"
    "all_ok [(Byte, [1]), (List, []), (String, [0xff])]"
    by (simp_all add: kind_enc_def rlp_string_def rlp_list_def rlp_head_def all_ok_def kind_ok_def small_byte_def)
  then have "\<exists>vs. 3 = length vs \<and> all_ok vs \<and> [0x01, 0xc0, 0x81, 0xff] = concat_enc vs"
    by (intro exI [of _ "[(Byte, [1]), (List, []), (String, [0xff])]"]) simp
  then show ?thesis using CountValues_counts [of "[0x01, 0xc0, 0x81, 0xff]" 3] by simp
qed

text \<open>
  C11. Every 64-bit integer appended by \<^verbatim>\<open>AppendUint64\<close> is read back by \<^verbatim>\<open>SplitUint64\<close>, with the
  bytes that follow it.
\<close>

theorem SplitUint64_AppendUint64:
  assumes "length r < 2 ^ 61"
  shows "SplitUint64 (AppendUint64 [] i @ r) = Some (Inr (i, r))"
  using SplitUint64_be_bytes [OF assms] by (simp add: AppendUint64_rlp)

theorem SplitUint64_AppendUint64_witness:
  "SplitUint64 (AppendUint64 [] 1024 @ [0x05]) = Some (Inr (1024, [0x05]))"
  using SplitUint64_AppendUint64 [of "[0x05]" 1024] by simp

end
