(* ===== verification/RLP_Decode.thy ===== *)
theory RLP_Decode
  imports RLP_Raw
begin

text \<open>
  The stream decoder of \<^verbatim>\<open>rlp/decode.go\<close>, reading from a \<^verbatim>\<open>bytes.Reader\<close> (the bytes not yet read are
  the field \<^verbatim>\<open>s_r\<close>). Stream methods take the stream and return their result with the new stream; the
  stack of open lists has its top at the front; \<^verbatim>\<open>kind\<close> is \<^const>\<open>None\<close> where the code has -1.
  A \<^verbatim>\<open>gotype\<close> is a Go type as \<^verbatim>\<open>makeDecoder\<close> distinguishes them (a slice with the tail tag is \<^verbatim>\<open>TTail\<close>, a pointer
  with a nil tag is \<^verbatim>\<open>TNilPtr\<close>). The decoders recurse with fuel; \<^const>\<open>None\<close> means the fuel ran out.
  Error values are the sentinel errors; the type and the path that \<^verbatim>\<open>wrapStreamError\<close> and
  \<^verbatim>\<open>addErrorContext\<close> add to the message are left out.

  The lemmas show that decoding terminates, accepts exactly the canonical encodings of the
  type and inverts the encoder, for all types that have no one-byte array in them; for a
  one-byte array the decoder loses track of the stream.
\<close>

section \<open>The stream\<close>

record Stream =
  s_r :: bytes
  s_remaining :: u64
  s_limited :: bool
  s_kind :: "Kind option"
  s_size :: u64
  s_byteval :: byte
  s_kinderr :: "rlp_error option"
  s_stack :: "(u64 \<times> u64) list"

definition NewStream :: "bytes \<Rightarrow> u64 \<Rightarrow> Stream" where
  "NewStream r inputLimit =
     \<lparr>s_r = r,
      s_remaining = (if inputLimit > 0 then inputLimit else word_of_nat (length r)),
      s_limited = True,
      s_kind = None, s_size = 0, s_byteval = 0, s_kinderr = None, s_stack = []\<rparr>"

definition willRead :: "u64 \<Rightarrow> Stream \<Rightarrow> rlp_error option \<times> Stream" where
  "willRead n s0 =
     (let s = s0\<lparr>s_kind := None\<rparr>;
          limit = (\<lambda>s. if s_limited s
             then (if n > s_remaining s then (Some ErrValueTooLarge, s)
                   else (None, s\<lparr>s_remaining := s_remaining s - n\<rparr>))
             else (None, s))
      in case s_stack s of
           [] \<Rightarrow> limit s
         | (pos, sz) # st \<Rightarrow>
             (if n > sz - pos then (Some ErrElemTooLarge, s)
              else limit (s\<lparr>s_stack := (pos + n, sz) # st\<rparr>)))"

definition readByte :: "Stream \<Rightarrow> (rlp_error + byte) \<times> Stream" where
  "readByte s0 =
     (case willRead 1 s0 of
        (Some e, s) \<Rightarrow> (Inl e, s)
      | (None, s) \<Rightarrow> (case s_r s of
            [] \<Rightarrow> (Inl ErrUnexpectedEOF, s)
          | b # r \<Rightarrow> (Inr b, s\<lparr>s_r := r\<rparr>)))"

definition readFull :: "nat \<Rightarrow> Stream \<Rightarrow> (rlp_error + bytes) \<times> Stream" where
  "readFull n s0 =
     (case willRead (word_of_nat n) s0 of
        (Some e, s) \<Rightarrow> (Inl e, s)
      | (None, s) \<Rightarrow>
          (if n \<le> length (s_r s) then (Inr (take n (s_r s)), s\<lparr>s_r := drop n (s_r s)\<rparr>)
           else (Inl ErrUnexpectedEOF, s\<lparr>s_r := []\<rparr>)))"

definition readUint :: "byte \<Rightarrow> Stream \<Rightarrow> (rlp_error + u64) \<times> Stream" where
  "readUint sz s =
     (if sz = 0 then (Inr 0, s\<lparr>s_kind := None\<rparr>)
      else if sz = 1 then
        (case readByte s of (Inl e, s') \<Rightarrow> (Inl e, s') | (Inr b, s') \<Rightarrow> (Inr (ucast b), s'))
      else
        (case readFull (unat sz) s of
           (Inl e, s') \<Rightarrow> (Inl e, s')
         | (Inr buf, s') \<Rightarrow>
             (if buf ! 0 = 0 then (Inl ErrCanonSize, s')
              else (Inr (word_of_nat (be_nat buf)), s'))))"

text \<open>The result of \<^verbatim>\<open>Stream.readKind\<close>: kind, size and error, all three used by \<^verbatim>\<open>Kind\<close>.\<close>

definition stream_readKind :: "Stream \<Rightarrow> (Kind \<times> u64 \<times> rlp_error option) \<times> Stream" where
  "stream_readKind s0 =
     (let long = (\<lambda>k l s. case readUint l s of
            (Inl e, s') \<Rightarrow> ((k, 0, Some e), s')
          | (Inr sz, s') \<Rightarrow> ((k, sz, if sz < 56 then Some ErrCanonSize else None), s'))
      in case readByte s0 of
        (Inl e, s) \<Rightarrow>
          ((Byte, 0, Some (if s_stack s = [] \<and> (e = ErrUnexpectedEOF \<or> e = ErrValueTooLarge)
                           then ErrEOF else e)), s)
      | (Inr b, s1) \<Rightarrow>
          (let s = s1\<lparr>s_byteval := 0\<rparr> in
           if b < 0x80 then ((Byte, 0, None), s\<lparr>s_byteval := b\<rparr>)
           else if b < 0xB8 then ((String, ucast (b - 0x80), None), s)
           else if b < 0xC0 then long String (b - 0xB7) s
           else if b < 0xF8 then ((List, ucast (b - 0xC0), None), s)
           else long List (b - 0xF7) s))"

definition stream_Kind :: "Stream \<Rightarrow> (rlp_error + Kind \<times> u64) \<times> Stream" where
  "stream_Kind s0 =
     (let ret = (\<lambda>s. case s_kinderr s of
            Some e \<Rightarrow> (Inl e, s)
          | None \<Rightarrow> (Inr (the (s_kind s), s_size s), s))
      in case s_kind s0 of
        Some _ \<Rightarrow> ret s0
      | None \<Rightarrow>
          (let s = s0\<lparr>s_kinderr := None\<rparr> in
           if (case s_stack s of [] \<Rightarrow> False | (pos, sz) # _ \<Rightarrow> pos = sz) then (Inl EOL, s)
           else
             (case stream_readKind s of ((k, sz, err), s1) \<Rightarrow>
                (let s2 = s1\<lparr>s_kind := Some k, s_size := sz, s_kinderr := err\<rparr>
                 in if err = None then
                      (case s_stack s2 of
                         [] \<Rightarrow> (if s_limited s2 \<and> sz > s_remaining s2
                               then ret (s2\<lparr>s_kinderr := Some ErrValueTooLarge\<rparr>) else ret s2)
                       | (pos, size') # _ \<Rightarrow>
                           (if sz > size' - pos
                            then ret (s2\<lparr>s_kinderr := Some ErrElemTooLarge\<rparr>) else ret s2))
                    else ret s2))))"

definition stream_Bytes :: "Stream \<Rightarrow> (rlp_error + bytes) \<times> Stream" where
  "stream_Bytes s0 =
     (case stream_Kind s0 of
        (Inl e, s) \<Rightarrow> (Inl e, s)
      | (Inr (k, sz), s) \<Rightarrow>
          (case k of
             Byte \<Rightarrow> (Inr [s_byteval s], s\<lparr>s_kind := None\<rparr>)
           | String \<Rightarrow>
               (case readFull (unat sz) s of
                  (Inl e, s') \<Rightarrow> (Inl e, s')
                | (Inr b, s') \<Rightarrow>
                    (if sz = 1 \<and> b ! 0 < 128 then (Inl ErrCanonSize, s') else (Inr b, s')))
           | List \<Rightarrow> (Inl ErrExpectedString, s)))"

definition stream_Raw :: "Stream \<Rightarrow> (rlp_error + bytes) \<times> Stream" where
  "stream_Raw s0 =
     (case stream_Kind s0 of
        (Inl e, s) \<Rightarrow> (Inl e, s)
      | (Inr (k, sz), s) \<Rightarrow>
          (if k = Byte then (Inr [s_byteval s], s\<lparr>s_kind := None\<rparr>)
           else
             (case readFull (unat sz) s of
                (Inl e, s') \<Rightarrow> (Inl e, s')
              | (Inr b, s') \<Rightarrow>
                  (Inr ((if k = String then puthead 0x80 0xB7 sz else puthead 0xC0 0xF7 sz) @ b), s'))))"

definition stream_uint :: "nat \<Rightarrow> Stream \<Rightarrow> (rlp_error + u64) \<times> Stream" where
  "stream_uint maxbits s0 =
     (case stream_Kind s0 of
        (Inl e, s) \<Rightarrow> (Inl e, s)
      | (Inr (k, sz), s) \<Rightarrow>
          (case k of
             Byte \<Rightarrow> (if s_byteval s = 0 then (Inl ErrCanonInt, s)
                      else (Inr (ucast (s_byteval s)), s\<lparr>s_kind := None\<rparr>))
           | String \<Rightarrow>
               (if sz > word_of_nat (maxbits div 8) then (Inl errUintOverflow, s)
                else
                  (case readUint (ucast sz) s of
                     (Inl e, s') \<Rightarrow> (Inl (if e = ErrCanonSize then ErrCanonInt else e), s')
                   | (Inr v, s') \<Rightarrow>
                       (if sz > 0 \<and> v < 128 then (Inl ErrCanonSize, s') else (Inr v, s'))))
           | List \<Rightarrow> (Inl ErrExpectedString, s)))"

definition stream_Bool :: "Stream \<Rightarrow> (rlp_error + bool) \<times> Stream" where
  "stream_Bool s0 =
     (case stream_uint 8 s0 of
        (Inl e, s) \<Rightarrow> (Inl e, s)
      | (Inr num, s) \<Rightarrow>
          (if num = 0 then (Inr False, s) else if num = 1 then (Inr True, s)
           else (Inl ErrInvalidBool, s)))"

definition stream_List :: "Stream \<Rightarrow> (rlp_error + u64) \<times> Stream" where
  "stream_List s0 =
     (case stream_Kind s0 of
        (Inl e, s) \<Rightarrow> (Inl e, s)
      | (Inr (k, sz), s) \<Rightarrow>
          (if k \<noteq> List then (Inl ErrExpectedList, s)
           else (Inr sz, s\<lparr>s_stack := (0, sz) # s_stack s, s_kind := None, s_size := 0\<rparr>)))"

definition stream_ListEnd :: "Stream \<Rightarrow> rlp_error option \<times> Stream" where
  "stream_ListEnd s =
     (case s_stack s of
        [] \<Rightarrow> (Some errNotInList, s)
      | (pos, sz) # st \<Rightarrow>
          (if pos \<noteq> sz then (Some errNotAtEOL, s)
           else
             (let st' = (case st of [] \<Rightarrow> [] | (p, z) # st'' \<Rightarrow> (p + sz, z) # st'')
              in (None, s\<lparr>s_stack := st', s_kind := None, s_size := 0\<rparr>))))"

section \<open>Decoders\<close>

datatype gotype =
    TRaw
  | TBigInt
  | TUint nat
  | TBool
  | TString
  | TByteSlice
  | TByteArray nat
  | TSlice gotype
  | TTail gotype
  | TArray nat gotype
  | TStruct "gotype list"
  | TPtr gotype
  | TNilPtr Kind gotype
  | TInterface

definition map_res :: "('a \<Rightarrow> 'b) \<Rightarrow> (rlp_error + 'a) \<times> Stream \<Rightarrow> (rlp_error + 'b) \<times> Stream" where
  "map_res f r = (case r of (Inl e, s) \<Rightarrow> (Inl e, s) | (Inr a, s) \<Rightarrow> (Inr (f a), s))"

definition decodeBigInt :: "Stream \<Rightarrow> (rlp_error + val) \<times> Stream" where
  "decodeBigInt s0 =
     (case stream_Bytes s0 of
        (Inl e, s) \<Rightarrow> (Inl e, s)
      | (Inr b, s) \<Rightarrow>
          (if length b > 0 \<and> b ! 0 = 0 then (Inl ErrCanonInt, s)
           else (Inr (VBigInt (Some (int (be_nat b)))), s)))"

text \<open>
  In the branch for a single byte the error of \<^verbatim>\<open>s.Uint()\<close> is dropped and the value it returns with
  the error, 0, is stored.
\<close>

definition decodeByteArray :: "nat \<Rightarrow> Stream \<Rightarrow> (rlp_error + val) \<times> Stream" where
  "decodeByteArray vlen s0 =
     (case stream_Kind s0 of
        (Inl e, s) \<Rightarrow> (Inl e, s)
      | (Inr (k, sz), s) \<Rightarrow>
          (case k of
             Byte \<Rightarrow>
               (if vlen = 0 then (Inl ErrStringTooLong, s)
                else if vlen > 1 then (Inl ErrStringTooShort, s)
                else (case stream_uint 64 s of
                        (Inl _, s') \<Rightarrow> (Inr (VByteArray [0]), s')
                      | (Inr bv, s') \<Rightarrow> (Inr (VByteArray [ucast bv]), s')))
           | String \<Rightarrow>
               (if word_of_nat vlen < sz then (Inl ErrStringTooLong, s)
                else if word_of_nat vlen > sz then (Inl ErrStringTooShort, s)
                else
                  (case readFull vlen s of
                     (Inl e, s') \<Rightarrow> (Inl e, s')
                   | (Inr b, s') \<Rightarrow>
                       (if sz = 1 \<and> b ! 0 < 128 then (Inl ErrCanonSize, s')
                        else (Inr (VByteArray b), s'))))
           | List \<Rightarrow> (Inl ErrExpectedString, s)))"

definition end_list :: "('a \<Rightarrow> val) \<Rightarrow> (rlp_error + 'a) \<times> Stream \<Rightarrow> (rlp_error + val) \<times> Stream" where
  "end_list f r =
     (case r of
        (Inl e, s) \<Rightarrow> (Inl e, s)
      | (Inr a, s) \<Rightarrow>
          (case stream_ListEnd s of (Some e, s') \<Rightarrow> (Inl e, s') | (None, s') \<Rightarrow> (Inr (f a), s')))"

fun dec :: "nat \<Rightarrow> gotype \<Rightarrow> Stream \<Rightarrow> ((rlp_error + val) \<times> Stream) option"
and decodeSliceElems :: "nat \<Rightarrow> gotype \<Rightarrow> Stream \<Rightarrow> ((rlp_error + val list) \<times> Stream) option"
and dec_array :: "nat \<Rightarrow> nat \<Rightarrow> gotype \<Rightarrow> Stream \<Rightarrow> ((rlp_error + val list) \<times> Stream) option"
and dec_fields :: "nat \<Rightarrow> gotype list \<Rightarrow> Stream \<Rightarrow> ((rlp_error + val list) \<times> Stream) option"
and decodeListSlice :: "nat \<Rightarrow> gotype \<Rightarrow> Stream \<Rightarrow> ((rlp_error + val) \<times> Stream) option" where
  "dec 0 t s = None"
| "dec (Suc n) TRaw s = Some (map_res VRaw (stream_Raw s))"
| "dec (Suc n) TBigInt s = Some (decodeBigInt s)"
| "dec (Suc n) (TUint bits) s = Some (map_res VUint (stream_uint bits s))"
| "dec (Suc n) TBool s = Some (map_res VBool (stream_Bool s))"
| "dec (Suc n) TString s = Some (map_res VString (stream_Bytes s))"
| "dec (Suc n) TByteSlice s = Some (map_res VBytes (stream_Bytes s))"
| "dec (Suc n) (TByteArray len) s = Some (decodeByteArray len s)"
| "dec (Suc n) (TSlice t) s = decodeListSlice n t s"
| "dec (Suc n) (TTail t) s = map_option (map_res (VSlice True)) (decodeSliceElems n t s)"
| "dec (Suc n) (TArray len t) s =
     (case stream_List s of
        (Inl e, s') \<Rightarrow> Some (Inl e, s')
      | (Inr _, s') \<Rightarrow> map_option (end_list (VSlice False)) (dec_array n len t s'))"
| "dec (Suc n) (TStruct ts) s =
     (case stream_List s of
        (Inl e, s') \<Rightarrow> Some (Inl e, s')
      | (Inr _, s') \<Rightarrow> map_option (end_list VStruct) (dec_fields n ts s'))"
| "dec (Suc n) (TPtr t) s = map_option (map_res VPtr) (dec n t s)"
| "dec (Suc n) (TNilPtr nilKind t) s =
     (case stream_Kind s of
        (Inl e, s') \<Rightarrow> Some (Inl e, s')
      | (Inr (k, sz), s') \<Rightarrow>
          (if k \<noteq> Byte \<and> sz = 0
           then (if k \<noteq> nilKind then Some (Inl ErrWrongEmptyKind, s')
                 else Some (Inr (VNilPtr nilKind), s'\<lparr>s_kind := None\<rparr>))
           else map_option (map_res VPtr) (dec n t s')))"
| "dec (Suc n) TInterface s =
     (case stream_Kind s of
        (Inl e, s') \<Rightarrow> Some (Inl e, s')
      | (Inr (k, sz), s') \<Rightarrow>
          (if k = List then map_option (map_res VInterface) (decodeListSlice n TInterface s')
           else Some (map_res (VInterface \<circ> VBytes) (stream_Bytes s'))))"
| "decodeListSlice 0 t s = None"
| "decodeListSlice (Suc n) t s =
     (case stream_List s of
        (Inl e, s') \<Rightarrow> Some (Inl e, s')
      | (Inr sz, s') \<Rightarrow>
          (if sz = 0 then Some (end_list (VSlice False) (Inr [], s'))
           else map_option (end_list (VSlice False)) (decodeSliceElems n t s')))"
| "decodeSliceElems 0 t s = None"
| "decodeSliceElems (Suc n) t s =
     (case dec n t s of
        None \<Rightarrow> None
      | Some (Inl e, s') \<Rightarrow> (if e = EOL then Some (Inr [], s') else Some (Inl e, s'))
      | Some (Inr v, s') \<Rightarrow> map_option (map_res ((#) v)) (decodeSliceElems n t s'))"
| "dec_array 0 len t s = None"
| "dec_array (Suc n) 0 t s = Some (Inr [], s)"
| "dec_array (Suc n) (Suc len) t s =
     (case dec n t s of
        None \<Rightarrow> None
      | Some (Inl e, s') \<Rightarrow> Some (Inl (if e = EOL then ErrTooFewElements else e), s')
      | Some (Inr v, s') \<Rightarrow> map_option (map_res ((#) v)) (dec_array n len t s'))"
| "dec_fields 0 ts s = None"
| "dec_fields (Suc n) [] s = Some (Inr [], s)"
| "dec_fields (Suc n) (t # ts) s =
     (case dec n t s of
        None \<Rightarrow> None
      | Some (Inl e, s') \<Rightarrow> Some (Inl (if e = EOL then ErrTooFewElements else e), s')
      | Some (Inr v, s') \<Rightarrow> map_option (map_res ((#) v)) (dec_fields n ts s'))"

text \<open>
  The fuel of \<^verbatim>\<open>DecodeBytes\<close>: the size of the type, and three rounds for every byte of input.
\<close>

fun typ_size :: "gotype \<Rightarrow> nat" and typs_size :: "gotype list \<Rightarrow> nat" where
  "typ_size TRaw = 1"
| "typ_size TBigInt = 1"
| "typ_size (TUint n) = 1"
| "typ_size TBool = 1"
| "typ_size TString = 1"
| "typ_size TByteSlice = 1"
| "typ_size (TByteArray n) = 1"
| "typ_size (TSlice t) = typ_size t + 3"
| "typ_size (TTail t) = typ_size t + 3"
| "typ_size (TArray n t) = typ_size t + n + 3"
| "typ_size (TStruct ts) = typs_size ts + 3"
| "typ_size (TPtr t) = typ_size t + 1"
| "typ_size (TNilPtr k t) = typ_size t + 1"
| "typ_size TInterface = 3"
| "typs_size [] = 0"
| "typs_size (t # ts) = typ_size t + typs_size ts + 1"

definition dec_fuel :: "gotype \<Rightarrow> bytes \<Rightarrow> nat" where
  "dec_fuel t b = typ_size t + 3 * length b"

definition DecodeBytes :: "bytes \<Rightarrow> gotype \<Rightarrow> (rlp_error + val) option" where
  "DecodeBytes b t =
     (case dec (dec_fuel t b) t (NewStream b (word_of_nat (length b))) of
        None \<Rightarrow> None
      | Some (Inl e, _) \<Rightarrow> Some (Inl e)
      | Some (Inr v, s) \<Rightarrow> Some (if length (s_r s) > 0 then Inl ErrMoreThanOneValue else Inr v))"

section \<open>What a stream operation consumes\<close>

text \<open>
  Once \<^verbatim>\<open>Kind\<close> has read the head of a value, the head is gone from the reader but not from the
  logical input; \<^verbatim>\<open>vin\<close> is the input with the head put back.
\<close>

definition head_of :: "Stream \<Rightarrow> bytes" where
  "head_of s = (case s_kind s of None \<Rightarrow> []
     | Some k \<Rightarrow> (case k of Byte \<Rightarrow> [s_byteval s]
         | String \<Rightarrow> rlp_head 0x80 0xB7 (unat (s_size s))
         | List \<Rightarrow> rlp_head 0xC0 0xF7 (unat (s_size s))))"

definition vin :: "Stream \<Rightarrow> bytes" where
  "vin s = head_of s @ s_r s"

definition stack_adv :: "nat \<Rightarrow> (u64 \<times> u64) list \<Rightarrow> (u64 \<times> u64) list \<Rightarrow> bool" where
  "stack_adv n st st' = (case st of [] \<Rightarrow> st' = []
     | (p, z) # r \<Rightarrow> (\<exists>p'. st' = (p', z) # r \<and> unat p' = unat p + n \<and> unat p' \<le> unat z))"

definition stack_ok :: "(u64 \<times> u64) list \<Rightarrow> nat \<Rightarrow> bool" where
  "stack_ok st n = (case st of [] \<Rightarrow> True | (p, z) # _ \<Rightarrow> unat p + n \<le> unat z)"

definition stream_inv :: "Stream \<Rightarrow> bool" where
  "stream_inv s = (stack_ok (s_stack s) 0 \<and>
     (s_kind s \<noteq> None \<and> s_kinderr s = None \<longrightarrow>
        (s_kind s = Some Byte \<longrightarrow> s_byteval s \<le> 0x7F \<and> s_size s = 0)
        \<and> stack_ok (s_stack s) (unat (s_size s))))"

definition moved :: "bytes \<Rightarrow> Stream \<Rightarrow> Stream \<Rightarrow> bool" where
  "moved out s s' = (vin s = out @ vin s' \<and>
     (case s_stack s of [] \<Rightarrow> s_stack s' = []
      | (p, z) # r \<Rightarrow> (\<exists>p'. s_stack s' = (p', z) # r
          \<and> unat p' + length (head_of s) = unat p + length out + length (head_of s'))))"

lemma moved_trans: "moved o1 s s1 \<Longrightarrow> moved o2 s1 s2 \<Longrightarrow> moved (o1 @ o2) s s2"
  by (auto simp: moved_def split: list.splits prod.splits)

lemma moved_refl: "moved [] s s"
  by (auto simp: moved_def split: list.splits prod.splits)

lemma stack_adv_trans: "stack_adv m st st1 \<Longrightarrow> stack_adv n st1 st2 \<Longrightarrow> stack_adv (m + n) st st2"
  by (auto simp: stack_adv_def split: list.splits)

lemma stack_adv_0: "stack_ok st 0 \<Longrightarrow> stack_adv 0 st st"
  by (auto simp: stack_adv_def stack_ok_def split: list.splits)

lemma stack_adv_ok: "stack_adv n st st' \<Longrightarrow> stack_ok st' 0"
  by (auto simp: stack_adv_def stack_ok_def split: list.splits)

lemma unat_add_le:
  fixes p n z :: u64
  assumes "unat p \<le> unat z" "\<not> n > z - p"
  shows "unat (p + n) = unat p + unat n" "unat p + unat n \<le> unat z"
proof -
  have "unat n \<le> unat z - unat p"
    using assms by (simp add: word_less_nat_alt unat_sub word_le_nat_alt)
  with assms(1) show 1: "unat p + unat n \<le> unat z" by simp
  then show "unat (p + n) = unat p + unat n"
    using unsigned_less [of z, where ?'a = nat] by (simp add: unat_word_ariths)
qed

lemma willRead_ok:
  assumes "willRead n s = (None, s1)" "stack_ok (s_stack s) 0"
  shows "s_r s1 = s_r s" "s_kind s1 = None" "s_byteval s1 = s_byteval s"
    "stack_adv (unat n) (s_stack s) (s_stack s1)"
  using assms unat_add_le
  by (auto simp: willRead_def Let_def stack_adv_def stack_ok_def split: list.splits if_splits prod.splits)

lemma readByte_ok:
  assumes "readByte s = (Inr b, s1)" "stack_ok (s_stack s) 0"
  shows "s_r s = b # s_r s1" "s_kind s1 = None" "stack_adv 1 (s_stack s) (s_stack s1)"
  using assms willRead_ok [of 1 s]
  by (auto simp: readByte_def split: prod.splits option.splits list.splits)

lemma readFull_ok:
  assumes "readFull n s = (Inr b, s1)" "stack_ok (s_stack s) 0" "n < 2 ^ 64"
  shows "s_r s = b @ s_r s1" "length b = n" "s_kind s1 = None" "stack_adv n (s_stack s) (s_stack s1)"
  using assms willRead_ok [of "word_of_nat n" s]
  by (auto simp: readFull_def unat_of_nat split: prod.splits option.splits if_splits)

lemma readUint_ok:
  assumes "readUint l s = (Inr v, s1)" "stack_ok (s_stack s) 0"
  shows "s_kind s1 = None \<and> (\<exists>b. length b = unat l \<and> s_r s = b @ s_r s1 \<and> v = word_of_nat (be_nat b)
    \<and> (unat l > 1 \<longrightarrow> b ! 0 \<noteq> 0) \<and> stack_adv (unat l) (s_stack s) (s_stack s1))"
proof -
  consider "l = 0" | "l = 1" | "l \<noteq> 0" "l \<noteq> 1" by blast
  then show ?thesis
  proof cases
    case 1
    then show ?thesis using assms stack_adv_0 by (auto simp: readUint_def)
  next
    case 2
    with assms(1) obtain b where "readByte s = (Inr b, s1)" "v = ucast b"
      by (auto simp: readUint_def split: prod.splits sum.splits)
    then show ?thesis using readByte_ok [of s b s1] assms(2) 2
      by (intro conjI exI [of _ "[b]"]) simp_all
  next
    case 3
    with assms(1) obtain b where b: "readFull (unat l) s = (Inr b, s1)" "v = word_of_nat (be_nat b)" "b ! 0 \<noteq> 0"
      by (auto simp: readUint_def split: prod.splits sum.splits if_splits)
    have "unat l < 2 ^ 64" using unat_byte_less [of l] by (rule less_trans) simp
    then show ?thesis using readFull_ok [OF b(1) assms(2)] b(2,3) by auto
  qed
qed

text \<open>A long head: the bytes of the size are canonical.\<close>

lemma long_size_canonical:
  assumes "length b = unat l" "1 \<le> unat (l :: byte)" "unat l \<le> 8" "unat l > 1 \<longrightarrow> b ! 0 \<noteq> 0"
    and "\<not> (word_of_nat (be_nat b) :: u64) < 56"
  shows "rlp_head small tag (unat (word_of_nat (be_nat b) :: u64)) = (tag + l) # b"
proof -
  have "be_nat b < 256 ^ unat l" using be_nat_less [of b] assms(1) by simp
  also have "(256 :: nat) ^ unat l \<le> 256 ^ 8" using assms(3) by (intro power_increasing) simp_all
  finally have u: "unat (word_of_nat (be_nat b) :: u64) = be_nat b" by (simp add: unat_of_nat)
  then have ge: "56 \<le> be_nat b" using assms(5) by (simp add: word_less_nat_alt)
  have "b \<noteq> [] \<and> hd b \<noteq> 0"
  proof (cases "unat l > 1")
    case True
    then show ?thesis using assms(1,4) by (cases b) auto
  next
    case False
    then have "length b = 1" using assms(1,2) by linarith
    then show ?thesis using ge by (auto simp: length_Suc_conv)
  qed
  then have "be_bytes (be_nat b) = b" by simp
  then show ?thesis using ge assms(1) by (simp add: u rlp_head_long)
qed

lemma short_head:
  "0x80 \<le> unat b \<Longrightarrow> unat b < 0xB8 \<Longrightarrow> rlp_head 0x80 0xB7 (unat (ucast (b - 0x80) :: u64)) = [b :: byte]"
  "0xC0 \<le> unat b \<Longrightarrow> unat b < 0xF8 \<Longrightarrow> rlp_head 0xC0 0xF7 (unat (ucast (b - 0xC0) :: u64)) = [b :: byte]"
  by (simp_all add: rlp_head_def unat_sub word_le_nat_alt word_unat_eq_iff unat_word_ariths, linarith+)

lemma stream_readKind_ok:
  assumes "stream_readKind s = ((k, sz, None), s1)" "stack_ok (s_stack s) 0"
  defines "s2 \<equiv> s1\<lparr>s_kind := Some k, s_size := sz, s_kinderr := None\<rparr>"
  shows "s_r s = head_of s2 @ s_r s1 \<and> stack_adv (length (head_of s2)) (s_stack s) (s_stack s1)
    \<and> (k = Byte \<longrightarrow> s_byteval s1 \<le> 0x7F \<and> sz = 0)"
proof -
  obtain b s0 where b: "readByte s = (Inr b, s0)"
    using assms(1) by (auto simp: stream_readKind_def Let_def split: prod.splits sum.splits)
  note rb = readByte_ok [OF b assms(2)]
  let ?s = "s0\<lparr>s_byteval := 0\<rparr>"
  have ok: "stack_ok (s_stack ?s) 0" using stack_adv_ok [OF rb(3)] by simp
  have long: ?thesis
    if l: "readUint (b - tag) ?s = (Inr sz, s1)" "\<not> sz < 56" "1 \<le> unat (b - tag)" "unat (b - tag) \<le> 8"
      and k: "k = String \<and> tag = 0xB7 \<or> k = List \<and> tag = 0xF7" for tag
  proof -
    obtain c where c: "length c = unat (b - tag)" "s_r ?s = c @ s_r s1" "sz = word_of_nat (be_nat c)"
      "unat (b - tag) > 1 \<longrightarrow> c ! 0 \<noteq> 0" "stack_adv (unat (b - tag)) (s_stack ?s) (s_stack s1)"
      using readUint_ok [OF l(1) ok] by blast
    have "head_of s2 = b # c"
      using long_size_canonical [OF c(1) l(3,4) c(4), of "if k = String then 0x80 else 0xC0" tag] l(2) k c(3)
      by (auto simp: head_of_def s2_def)
    then show ?thesis
      using rb c k stack_adv_trans [OF rb(3), of "unat (b - tag)" "s_stack s1"] by auto
  qed
  consider "unat b < 0x80" | "0x80 \<le> unat b" "unat b < 0xB8" | "0xB8 \<le> unat b" "unat b < 0xC0"
    | "0xC0 \<le> unat b" "unat b < 0xF8" | "0xF8 \<le> unat b" by linarith
  then show ?thesis
  proof cases
    case 3
    then have "readUint (b - 0xB7) ?s = (Inr sz, s1) \<and> \<not> sz < 56 \<and> k = String"
      using assms(1) b
      by (auto simp: stream_readKind_def Let_def word_less_nat_alt split: prod.splits sum.splits if_splits)
    then show ?thesis using long [of "0xB7"] 3 by (simp add: unat_sub word_le_nat_alt)
  next
    case 5
    then have "readUint (b - 0xF7) ?s = (Inr sz, s1) \<and> \<not> sz < 56 \<and> k = List"
      using assms(1) b
      by (auto simp: stream_readKind_def Let_def word_less_nat_alt split: prod.splits sum.splits if_splits)
    then show ?thesis using long [of "0xF7"] 5 unat_byte_less [of b]
      by (simp add: unat_sub word_le_nat_alt del: unat_byte_less)
  next
    case 1
    then show ?thesis using assms(1) b rb
      by (auto simp: stream_readKind_def Let_def word_less_nat_alt word_le_nat_alt head_of_def s2_def)
  next
    case 2
    then show ?thesis using assms(1) b rb short_head(1) [OF 2]
      by (auto simp: stream_readKind_def Let_def word_less_nat_alt head_of_def s2_def)
  next
    case 4
    then show ?thesis using assms(1) b rb short_head(2) [OF 4]
      by (auto simp: stream_readKind_def Let_def word_less_nat_alt head_of_def s2_def)
  qed
qed

lemma stream_Kind_ok:
  assumes "stream_Kind s = (Inr (k, sz), s')" "stream_inv s"
  shows "s_kind s' = Some k" "s_size s' = sz" "s_kinderr s' = None" "stream_inv s'" "moved [] s s'"
proof -
  have "s_kind s' = Some k \<and> s_size s' = sz \<and> s_kinderr s' = None \<and> stream_inv s' \<and> moved [] s s'"
  proof (cases "s_kind s")
    case (Some k')
    then show ?thesis
      using assms moved_refl by (auto simp: stream_Kind_def Let_def split: option.splits)
  next
    case None
    let ?s = "s\<lparr>s_kinderr := None\<rparr>"
    obtain k' sz' err s1 where rk: "stream_readKind ?s = ((k', sz', err), s1)"
      by (metis prod_cases3 surj_pair)
    have err: "err = None" and s': "s' = s1\<lparr>s_kind := Some k', s_size := sz', s_kinderr := None\<rparr>"
      and k: "k = k'" "sz = sz'"
      and fit: "case s_stack s1 of [] \<Rightarrow> True | (p, z) # _ \<Rightarrow> \<not> sz' > z - p"
      using assms(1) None rk
      by (auto simp: stream_Kind_def Let_def split: if_splits list.splits option.splits prod.splits)
    have ok: "stack_ok (s_stack ?s) 0" using assms(2) by (simp add: stream_inv_def)
    have rk': "stream_readKind ?s = ((k', sz', None), s1)" using rk err by simp
    note r = stream_readKind_ok [OF rk' ok, folded s']
    have "stack_ok (s_stack s1) 0" using r stack_adv_ok by blast
    then have "stack_ok (s_stack s1) (unat sz')"
      using fit unat_add_le(2) by (cases "s_stack s1") (auto simp: stack_ok_def)
    then have "stream_inv s'"
      using r stack_adv_ok by (auto simp: stream_inv_def s')
    moreover have "moved [] s s'"
      using r None by (auto simp: moved_def vin_def stack_adv_def head_of_def [of s] s' split: list.splits)
    ultimately show ?thesis by (simp add: s' k)
  qed
  then show "s_kind s' = Some k" "s_size s' = sz" "s_kinderr s' = None" "stream_inv s'" "moved [] s s'"
    by blast+
qed

text \<open>Reading the content after the head.\<close>

lemma moved_content:
  assumes "s_kind s = Some k" "k \<noteq> Byte" "s_r s = b @ s_r s1" "s_kind s1 = None"
    and "stack_adv (length b) (s_stack s) (s_stack s1)"
  shows "moved (head_of s @ b) s s1" "stream_inv s1"
  using assms stack_adv_ok [OF assms(5)]
  by (auto simp: moved_def vin_def head_of_def [of s1] stack_adv_def stream_inv_def split: list.splits prod.splits)

lemma moved_Byte:
  assumes "s_kind s = Some Byte" "stream_inv s"
  shows "moved [s_byteval s] s (s\<lparr>s_kind := None\<rparr>)" "stream_inv (s\<lparr>s_kind := None\<rparr>)"
  using assms
  by (auto simp: moved_def vin_def head_of_def stream_inv_def split: list.splits prod.splits)

lemma stream_Bytes_ok:
  assumes "stream_Bytes s = (Inr b, s')" "stream_inv s"
  shows "moved (rlp_string b) s s'" "stream_inv s'" "s_kind s' = None"
proof -
  obtain k sz s1 where k: "stream_Kind s = (Inr (k, sz), s1)"
    using assms(1) by (auto simp: stream_Bytes_def split: prod.splits sum.splits)
  note K = stream_Kind_ok [OF k assms(2)]
  have "moved (rlp_string b) s1 s' \<and> stream_inv s' \<and> s_kind s' = None"
  proof (cases k)
    case Byte
    then have "b = [s_byteval s1]" "s' = s1\<lparr>s_kind := None\<rparr>" "s_byteval s1 \<le> 0x7F"
      using assms(1) k K by (auto simp: stream_Bytes_def stream_inv_def)
    then show ?thesis using moved_Byte [of s1] K Byte by (simp add: rlp_string_def)
  next
    case String
    then have rf: "readFull (unat sz) s1 = (Inr b, s')" and c: "\<not> (sz = 1 \<and> b ! 0 < 128)"
      using assms(1) k by (auto simp: stream_Bytes_def split: prod.splits sum.splits if_splits)
    have ok: "stack_ok (s_stack s1) 0" "unat sz < 2 ^ 64"
      using K(4) unsigned_less [of sz, where ?'a = nat] by (simp_all add: stream_inv_def)
    note f = readFull_ok [OF rf ok]
    have "\<not> (length b = 1 \<and> hd b \<le> 0x7F)"
    proof
      assume "length b = 1 \<and> hd b \<le> 0x7F"
      moreover from this have "sz = 1" using f(2) by (simp add: word_unat_eq_iff)
      ultimately show False using c by (cases b) (auto simp: word_le_nat_alt word_less_nat_alt)
    qed
    then have "rlp_string b = head_of s1 @ b"
      using K(1,2) String f(2) by (auto simp: rlp_string_def head_of_def)
    then show ?thesis using moved_content [OF K(1) _ f(1,3)] f(2,3,4) String by simp
  next
    case List
    then show ?thesis using assms(1) k by (auto simp: stream_Bytes_def)
  qed
  then show "moved (rlp_string b) s s'" "stream_inv s'" "s_kind s' = None"
    using moved_trans [OF K(5)] by auto
qed

lemma stream_Raw_ok:
  assumes "stream_Raw s = (Inr b, s')" "stream_inv s"
  shows "moved b s s'" "stream_inv s'" "s_kind s' = None"
proof -
  obtain k sz s1 where k: "stream_Kind s = (Inr (k, sz), s1)"
    using assms(1) by (auto simp: stream_Raw_def split: prod.splits sum.splits)
  note K = stream_Kind_ok [OF k assms(2)]
  have "moved b s1 s' \<and> stream_inv s' \<and> s_kind s' = None"
  proof (cases "k = Byte")
    case True
    then have "b = [s_byteval s1]" "s' = s1\<lparr>s_kind := None\<rparr>"
      using assms(1) k by (auto simp: stream_Raw_def)
    then show ?thesis using moved_Byte [of s1] K True by simp
  next
    case False
    then obtain c where rf: "readFull (unat sz) s1 = (Inr c, s')"
      and b: "b = (if k = String then puthead 0x80 0xB7 sz else puthead 0xC0 0xF7 sz) @ c"
      using assms(1) k by (auto simp: stream_Raw_def split: prod.splits sum.splits)
    have ok: "stack_ok (s_stack s1) 0" "unat sz < 2 ^ 64"
      using K(4) unsigned_less [of sz, where ?'a = nat] by (simp_all add: stream_inv_def)
    note f = readFull_ok [OF rf ok]
    have "b = head_of s1 @ c"
      using K(1,2) False b puthead_rlp_head [OF ok(2)] by (cases k) (auto simp: head_of_def)
    then show ?thesis using moved_content [OF K(1) False f(1,3)] f(2,3,4) by simp
  qed
  then show "moved b s s'" "stream_inv s'" "s_kind s' = None"
    using moved_trans [OF K(5)] by auto
qed

text \<open>The content of an integer: the shortest big-endian bytes, and never a small single byte.\<close>

lemma uint_content:
  assumes "length b \<le> 8" "length b > 1 \<longrightarrow> b ! 0 \<noteq> 0" "v = (word_of_nat (be_nat b) :: u64)"
    and "b \<noteq> [] \<longrightarrow> \<not> v < 128"
  shows "be_bytes (unat v) = b" "\<not> (length b = 1 \<and> hd b \<le> 0x7F)"
proof -
  have "be_nat b < 256 ^ length b" by (rule be_nat_less)
  also have "(256 :: nat) ^ length b \<le> 256 ^ 8" using assms(1) by (intro power_increasing) simp_all
  finally have u: "unat v = be_nat b" by (simp add: assms(3) unat_of_nat)
  have "b = [] \<or> hd b \<noteq> 0"
    using assms(2,4) u by (cases b rule: remdups_adj.cases) (auto simp: word_less_nat_alt)
  then show "be_bytes (unat v) = b" using u by simp
  show "\<not> (length b = 1 \<and> hd b \<le> 0x7F)"
    using assms(4) u by (auto simp: word_less_nat_alt word_le_nat_alt length_Suc_conv)
qed

lemma stream_uint_ok:
  assumes "stream_uint bits s = (Inr v, s')" "stream_inv s" "bits \<le> 64"
  shows "moved (rlp_string (be_bytes (unat v))) s s'" "stream_inv s'" "s_kind s' = None"
proof -
  obtain k sz s1 where k: "stream_Kind s = (Inr (k, sz), s1)"
    using assms(1) by (auto simp: stream_uint_def split: prod.splits sum.splits)
  note K = stream_Kind_ok [OF k assms(2)]
  have "moved (rlp_string (be_bytes (unat v))) s1 s' \<and> stream_inv s' \<and> s_kind s' = None"
  proof (cases k)
    case Byte
    then have v: "v = ucast (s_byteval s1)" "s' = s1\<lparr>s_kind := None\<rparr>" "s_byteval s1 \<le> 0x7F" "s_byteval s1 \<noteq> 0"
      using assms(1) k K by (auto simp: stream_uint_def stream_inv_def split: if_splits)
    have "be_bytes (unat v) = [s_byteval s1]"
      using v by (simp add: be_bytes_pos unat_gt_0)
    then show ?thesis using moved_Byte [of s1] K Byte v by (simp add: rlp_string_def)
  next
    case String
    then have ru: "readUint (ucast sz) s1 = (Inr v, s')" and c: "\<not> (sz > 0 \<and> v < 128)"
      and le: "\<not> sz > word_of_nat (bits div 8)"
      using assms(1) k by (auto simp: stream_uint_def split: prod.splits sum.splits if_splits)
    have "unat sz \<le> bits div 8"
      using le assms(3) by (simp add: word_less_nat_alt unat_of_nat)
    then have sz: "unat sz \<le> 8" using assms(3) by simp
    then have l: "unat (ucast sz :: byte) = unat sz"
      by (simp add: unsigned_ucast_eq take_bit_eq_mod)
    obtain b where b: "length b = unat sz" "s_r s1 = b @ s_r s'" "v = word_of_nat (be_nat b)"
      "unat sz > 1 \<longrightarrow> b ! 0 \<noteq> 0" "stack_adv (unat sz) (s_stack s1) (s_stack s')" "s_kind s' = None"
      using readUint_ok [OF ru] K(4) unfolding stream_inv_def l by blast
    have "b \<noteq> [] \<longrightarrow> sz > 0" using b(1) by (cases "sz = 0") (auto simp: word_neq_0_conv)
    then have "be_bytes (unat v) = b" "\<not> (length b = 1 \<and> hd b \<le> 0x7F)"
      using uint_content [of b v] sz b(1,3,4) c by auto
    then have "rlp_string (be_bytes (unat v)) = head_of s1 @ b"
      using K(1,2) String b(1) by (auto simp: rlp_string_def head_of_def)
    then show ?thesis using moved_content [OF K(1) _ b(2,6)] b(1,5,6) String by simp
  next
    case List
    then show ?thesis using assms(1) k by (auto simp: stream_uint_def)
  qed
  then show "moved (rlp_string (be_bytes (unat v))) s s'" "stream_inv s'" "s_kind s' = None"
    using moved_trans [OF K(5)] by auto
qed

lemma stream_Bool_ok:
  assumes "stream_Bool s = (Inr v, s')" "stream_inv s"
  shows "moved (rlp_string (be_bytes (if v then 1 else 0))) s s'" "stream_inv s'" "s_kind s' = None"
proof -
  obtain num where num: "stream_uint 8 s = (Inr num, s')" "num = (if v then 1 else 0)"
    using assms(1) by (auto simp: stream_Bool_def split: prod.splits sum.splits if_splits)
  then show "moved (rlp_string (be_bytes (if v then 1 else 0))) s s'" "stream_inv s'" "s_kind s' = None"
    using stream_uint_ok [OF num(1) assms(2)] by (auto split: if_splits)
qed

lemma decodeBigInt_ok:
  assumes "decodeBigInt s = (Inr v, s')" "stream_inv s"
  shows "\<exists>out. enc_ref v = Inr out \<and> moved out s s' \<and> stream_inv s' \<and> s_kind s' = None"
proof -
  obtain b where b: "stream_Bytes s = (Inr b, s')" "\<not> (length b > 0 \<and> b ! 0 = 0)"
    "v = VBigInt (Some (int (be_nat b)))"
    using assms(1) by (auto simp: decodeBigInt_def split: prod.splits sum.splits if_splits)
  have "b = [] \<or> hd b \<noteq> 0" using b(2) by (cases b) auto
  then have "be_bytes (be_nat b) = b" by simp
  then show ?thesis using stream_Bytes_ok [OF b(1) assms(2)] b(3) by simp
qed

lemma decodeByteArray_ok:
  assumes "decodeByteArray n s = (Inr v, s')" "stream_inv s" "n \<noteq> 1" "n < 2 ^ 64"
  shows "\<exists>out. enc_ref v = Inr out \<and> moved out s s' \<and> stream_inv s' \<and> s_kind s' = None"
proof -
  obtain k sz s1 where k: "stream_Kind s = (Inr (k, sz), s1)"
    using assms(1) by (auto simp: decodeByteArray_def split: prod.splits sum.splits)
  note K = stream_Kind_ok [OF k assms(2)]
  have ks: "k = String" "word_of_nat n = sz"
    using assms(1,3) k by (auto simp: decodeByteArray_def split: Kind.splits if_splits)
  then obtain b where b: "readFull n s1 = (Inr b, s')" "v = VByteArray b"
    using assms(1) k by (auto simp: decodeByteArray_def split: prod.splits sum.splits if_splits)
  have "stack_ok (s_stack s1) 0" using K(4) by (simp add: stream_inv_def)
  note f = readFull_ok [OF b(1) this assms(4)]
  have "unat sz = n" using ks(2) assms(4) by (auto simp: unat_of_nat)
  then have "rlp_string b = head_of s1 @ b"
    using K(1,2) ks(1) f(2) assms(3) by (auto simp: rlp_string_def head_of_def)
  then show ?thesis
    using moved_content [OF K(1) _ f(1,3)] f(2,3,4) ks(1) b(2) moved_trans [OF K(5)] by simp
qed

text \<open>Opening a list, consuming its content, and closing it.\<close>

lemma stream_List_ok:
  assumes "stream_List s = (Inr sz, s1)" "stream_inv s"
  shows "\<exists>s0. s1 = s0\<lparr>s_stack := (0, sz) # s_stack s0, s_kind := None, s_size := 0\<rparr>
    \<and> s_kind s0 = Some List \<and> s_size s0 = sz \<and> stream_inv s0 \<and> s_kinderr s0 = None \<and> moved [] s s0"
    "stream_inv s1" "s_kind s1 = None"
proof -
  obtain s0 where s0: "stream_Kind s = (Inr (List, sz), s0)"
    "s1 = s0\<lparr>s_stack := (0, sz) # s_stack s0, s_kind := None, s_size := 0\<rparr>"
    using assms(1) by (auto simp: stream_List_def split: prod.splits sum.splits if_splits)
  note K = stream_Kind_ok [OF s0(1) assms(2)]
  then show "\<exists>s0. s1 = s0\<lparr>s_stack := (0, sz) # s_stack s0, s_kind := None, s_size := 0\<rparr>
      \<and> s_kind s0 = Some List \<and> s_size s0 = sz \<and> stream_inv s0 \<and> s_kinderr s0 = None \<and> moved [] s s0"
    using s0(2) by blast
  show "stream_inv s1" "s_kind s1 = None" by (simp_all add: s0(2) stream_inv_def stack_ok_def)
qed

lemma list_ok:
  assumes "stream_List s = (Inr sz, s1)" "stream_inv s" "moved c s1 s2" "s_kind s2 = None"
    and "stream_ListEnd s2 = (None, s3)"
  shows "moved (rlp_list c) s s3" "stream_inv s3" "s_kind s3 = None"
proof -
  obtain s0 where s0: "s1 = s0\<lparr>s_stack := (0, sz) # s_stack s0, s_kind := None, s_size := 0\<rparr>"
    "s_kind s0 = Some List" "s_size s0 = sz" "stream_inv s0" "s_kinderr s0 = None" "moved [] s s0"
    using stream_List_ok [OF assms(1,2)] by blast
  have v: "s_r s0 = c @ s_r s2" and st: "s_stack s2 = (word_of_nat (length c), sz) # s_stack s0"
    and len: "length c = unat sz"
    using assms(3,4,5) s0(1)
    by (auto simp: moved_def vin_def head_of_def stream_ListEnd_def word_unat_eq_iff split: if_splits)
  have s3: "s3 = s2\<lparr>s_stack := (case s_stack s0 of [] \<Rightarrow> [] | (p, z) # r \<Rightarrow> (p + sz, z) # r),
      s_kind := None, s_size := 0\<rparr>"
    using assms(5) st by (auto simp: stream_ListEnd_def Let_def split: if_splits)
  have "stack_adv (length c) (s_stack s0) (s_stack s3)"
    using s0(2-5) len unsigned_less [of "snd (hd (s_stack s0))", where ?'a = nat]
    by (auto simp: s3 stack_adv_def stream_inv_def stack_ok_def unat_word_ariths split: list.splits prod.splits)
  moreover have "s_kind s3 = None" "s_r s3 = s_r s2" by (simp_all add: s3)
  ultimately have "moved (head_of s0 @ c) s0 s3" "stream_inv s3"
    using moved_content [OF s0(2), of c s3] v by simp_all
  moreover have "head_of s0 @ c = rlp_list c" using s0(2,3) len by (simp add: head_of_def rlp_list_def)
  ultimately show "moved (rlp_list c) s s3" "stream_inv s3" "s_kind s3 = None"
    using moved_trans [OF s0(6)] by (auto simp: s3)
qed

section \<open>Types\<close>

text \<open>
  The types for which the decoder is correct: integers of at most 64 bits, and no array of exactly one
  byte. A tail slice can only be the last field of a struct (\<^verbatim>\<open>structFields\<close> refuses it elsewhere).
\<close>

fun no_byte1 :: "gotype \<Rightarrow> bool" where
  "no_byte1 (TUint bits) = (bits \<le> 64)"
| "no_byte1 (TByteArray n) = (n \<noteq> 1 \<and> n < 2 ^ 64)"
| "no_byte1 (TSlice t) = no_byte1 t"
| "no_byte1 (TTail t) = no_byte1 t"
| "no_byte1 (TArray n t) = no_byte1 t"
| "no_byte1 (TStruct ts) = list_all no_byte1 ts"
| "no_byte1 (TPtr t) = no_byte1 t"
| "no_byte1 (TNilPtr k t) = no_byte1 t"
| "no_byte1 _ = True"

fun tails_last :: "gotype \<Rightarrow> bool" and tails_last_fields :: "gotype list \<Rightarrow> bool" where
  "tails_last (TTail t) = False"
| "tails_last (TSlice t) = tails_last t"
| "tails_last (TArray n t) = tails_last t"
| "tails_last (TStruct ts) = tails_last_fields ts"
| "tails_last (TPtr t) = tails_last t"
| "tails_last (TNilPtr k t) = tails_last t"
| "tails_last _ = True"
| "tails_last_fields [] = True"
| "tails_last_fields [TTail t] = tails_last t"
| "tails_last_fields (t # ts) = (tails_last t \<and> tails_last_fields ts)"

section \<open>The end of a list\<close>

definition clean :: "Stream \<Rightarrow> bool" where
  "clean s = (s_kind s = None \<or> s_kinderr s = None)"

definition eol_at :: "Stream \<Rightarrow> Stream \<Rightarrow> bool" where
  "eol_at s s' = (s_kind s = None \<and> s' = s\<lparr>s_kinderr := None\<rparr>)"

lemma willRead_no_EOL: "willRead n s \<noteq> (Some EOL, s')"
  by (auto simp: willRead_def Let_def split: list.splits if_splits)

lemma readByte_no_EOL: "readByte s \<noteq> (Inl EOL, s')"
  using willRead_no_EOL [of 1 s] by (auto simp: readByte_def split: prod.splits option.splits list.splits)

lemma readFull_no_EOL: "readFull n s \<noteq> (Inl EOL, s')"
  using willRead_no_EOL [of "word_of_nat n" s]
  by (auto simp: readFull_def split: prod.splits option.splits if_splits)

lemma readUint_no_EOL: "readUint l s \<noteq> (Inl EOL, s')"
  using readFull_no_EOL [of "unat l" s] readByte_no_EOL [of s]
  by (auto simp: readUint_def split: prod.splits sum.splits if_splits)

lemma stream_readKind_no_EOL: "stream_readKind s \<noteq> ((k, sz, Some EOL), s')"
  using readByte_no_EOL [of s] readUint_no_EOL
  by (auto simp: stream_readKind_def Let_def split: prod.splits sum.splits if_splits)

lemma stream_Kind_EOL: "clean s \<Longrightarrow> stream_Kind s = (Inl EOL, s') \<Longrightarrow> eol_at s s'"
  using stream_readKind_no_EOL [of "s\<lparr>s_kinderr := None\<rparr>"]
  by (auto simp: stream_Kind_def clean_def eol_at_def Let_def
      split: option.splits if_splits prod.splits list.splits)

lemma stream_Kind_clean: "stream_Kind s = (Inr x, s') \<Longrightarrow> clean s'"
  by (auto simp: stream_Kind_def clean_def Let_def split: option.splits if_splits prod.splits list.splits)

lemma not_eol_after_Kind: "stream_Kind s = (Inr x, s1) \<Longrightarrow> \<not> eol_at s1 s'"
  by (auto simp: stream_Kind_def eol_at_def Let_def split: option.splits if_splits prod.splits list.splits)

lemma stream_Bytes_EOL: "clean s \<Longrightarrow> stream_Bytes s = (Inl EOL, s') \<Longrightarrow> eol_at s s'"
  using stream_Kind_EOL [of s] readFull_no_EOL
  by (fastforce simp: stream_Bytes_def split: prod.splits sum.splits Kind.splits if_splits)

lemma stream_Raw_EOL: "clean s \<Longrightarrow> stream_Raw s = (Inl EOL, s') \<Longrightarrow> eol_at s s'"
  using stream_Kind_EOL [of s] readFull_no_EOL
  by (fastforce simp: stream_Raw_def split: prod.splits sum.splits if_splits)

lemma stream_uint_EOL: "clean s \<Longrightarrow> stream_uint bits s = (Inl EOL, s') \<Longrightarrow> eol_at s s'"
  using stream_Kind_EOL [of s] readUint_no_EOL
  by (fastforce simp: stream_uint_def split: prod.splits sum.splits Kind.splits if_splits)

lemma stream_Bool_EOL: "clean s \<Longrightarrow> stream_Bool s = (Inl EOL, s') \<Longrightarrow> eol_at s s'"
  using stream_uint_EOL [of s 8] by (auto simp: stream_Bool_def split: prod.splits sum.splits if_splits)

lemma stream_List_EOL: "clean s \<Longrightarrow> stream_List s = (Inl EOL, s') \<Longrightarrow> eol_at s s'"
  using stream_Kind_EOL [of s] by (auto simp: stream_List_def split: prod.splits sum.splits if_splits)

lemma decodeBigInt_EOL: "clean s \<Longrightarrow> decodeBigInt s = (Inl EOL, s') \<Longrightarrow> eol_at s s'"
  using stream_Bytes_EOL [of s] by (auto simp: decodeBigInt_def split: prod.splits sum.splits if_splits)

lemma decodeByteArray_EOL: "clean s \<Longrightarrow> decodeByteArray n s = (Inl EOL, s') \<Longrightarrow> eol_at s s'"
  using stream_Kind_EOL [of s] readFull_no_EOL
  by (fastforce simp: decodeByteArray_def split: prod.splits sum.splits Kind.splits if_splits)

lemma stream_ListEnd_no_EOL: "stream_ListEnd s \<noteq> (Some EOL, s')"
  by (auto simp: stream_ListEnd_def Let_def split: list.splits if_splits)

lemma map_res_Inl: "map_res f r = (Inl e, s) \<longleftrightarrow> r = (Inl e, s)"
  by (auto simp: map_res_def split: prod.splits sum.splits)

lemma map_res_Inr: "map_res f r = (Inr y, s) \<longleftrightarrow> (\<exists>x. r = (Inr x, s) \<and> y = f x)"
  by (auto simp: map_res_def split: prod.splits sum.splits)

lemma end_list_Inl_EOL: "end_list f r = (Inl EOL, s) \<longleftrightarrow> r = (Inl EOL, s)"
  using stream_ListEnd_no_EOL by (auto simp: end_list_def split: prod.splits sum.splits option.splits)

lemma end_list_Inr:
  "end_list f r = (Inr y, s) \<longleftrightarrow> (\<exists>x s1. r = (Inr x, s1) \<and> y = f x \<and> stream_ListEnd s1 = (None, s))"
  by (auto simp: end_list_def split: prod.splits sum.splits option.splits)

lemma dec_EOL:
  "dec n t s = Some (Inl EOL, s') \<Longrightarrow> clean s \<Longrightarrow> eol_at s s'"
  "decodeSliceElems n t s \<noteq> Some (Inl EOL, s')"
  "dec_array n len t s \<noteq> Some (Inl EOL, s')"
  "dec_fields n ts s \<noteq> Some (Inl EOL, s')"
  "decodeListSlice n t s = Some (Inl EOL, s') \<Longrightarrow> clean s \<Longrightarrow> eol_at s s'"
proof (induction n t s and n t s and n len t s and n ts s and n t s arbitrary: s' and s' and s' and s' and s'
    rule: dec_decodeSliceElems_dec_array_dec_fields_decodeListSlice.induct)
qed (auto simp: map_res_Inl end_list_Inl_EOL split: prod.splits sum.splits if_splits option.splits
    dest: stream_Bytes_EOL stream_Raw_EOL stream_uint_EOL stream_Bool_EOL stream_List_EOL decodeBigInt_EOL
      decodeByteArray_EOL stream_Kind_EOL,
    (metis stream_Kind_clean not_eol_after_Kind stream_Bytes_EOL)+)

section \<open>Decoding is canonical\<close>

lemma eol_at_moved: "eol_at s s' \<Longrightarrow> stream_inv s \<Longrightarrow> moved [] s s' \<and> stream_inv s' \<and> s_kind s' = None"
  by (auto simp: eol_at_def moved_def vin_def head_of_def stream_inv_def split: list.splits prod.splits)

definition took :: "(rlp_error + bytes) \<Rightarrow> Stream \<Rightarrow> Stream \<Rightarrow> bool" where
  "took enc s s' = (\<exists>out. enc = Inr out \<and> moved out s s' \<and> stream_inv s' \<and> s_kind s' = None)"

lemma took_Cons:
  "took (enc_ref v) s s1 \<Longrightarrow> took (enc_refs vs) s1 s2 \<Longrightarrow> took (enc_refs (v # vs)) s s2"
  by (auto simp: took_def intro: moved_trans)

lemma took_clean: "took enc s s' \<Longrightarrow> clean s' \<and> stream_inv s'"
  by (auto simp: took_def clean_def)

lemma took_list:
  assumes "stream_List s = (Inr sz, s1)" "stream_inv s" "took (enc_refs vs) s1 s2"
    and "stream_ListEnd s2 = (None, s3)"
  shows "took (enc_ref (VSlice False vs)) s s3" "took (enc_ref (VStruct vs)) s s3"
  using assms list_ok [OF assms(1,2) _ _ assms(4)] by (auto simp: took_def)

lemma took_Kind:
  assumes "stream_Kind s = (Inr x, s1)" "stream_inv s" "took e s1 s2"
  shows "took e s s2"
  using assms stream_Kind_ok(5) [of s "fst x" "snd x" s1] moved_trans [of "[]" s s1]
  by (auto simp: took_def)

lemma took_base:
  "stream_Raw s = (Inr b, s') \<Longrightarrow> stream_inv s \<Longrightarrow> took (enc_ref (VRaw b)) s s'"
  "stream_uint bits s = (Inr i, s') \<Longrightarrow> stream_inv s \<Longrightarrow> bits \<le> 64 \<Longrightarrow> took (enc_ref (VUint i)) s s'"
  "stream_Bool s = (Inr c, s') \<Longrightarrow> stream_inv s \<Longrightarrow> took (enc_ref (VBool c)) s s'"
  "stream_Bytes s = (Inr b, s') \<Longrightarrow> stream_inv s \<Longrightarrow> took (Inr (rlp_string b)) s s'"
  "decodeBigInt s = (Inr v, s') \<Longrightarrow> stream_inv s \<Longrightarrow> took (enc_ref v) s s'"
  "decodeByteArray n s = (Inr v, s') \<Longrightarrow> stream_inv s \<Longrightarrow> n \<noteq> 1 \<Longrightarrow> n < 2 ^ 64 \<Longrightarrow> took (enc_ref v) s s'"
  using stream_Raw_ok [of s b s'] stream_uint_ok [of bits s i s'] stream_Bool_ok [of s c s']
    stream_Bytes_ok [of s b s'] decodeBigInt_ok [of s v s'] decodeByteArray_ok [of n s v s']
  by (simp_all add: took_def)

lemma took_nil:
  assumes "stream_Kind s = (Inr (k, 0), s1)" "stream_inv s" "k \<noteq> Byte"
  shows "took (enc_ref (VNilPtr k)) s (s1\<lparr>s_kind := None\<rparr>)"
proof -
  note K = stream_Kind_ok [OF assms(1,2)]
  have "moved (head_of s1 @ []) s1 (s1\<lparr>s_kind := None\<rparr>)" "stream_inv (s1\<lparr>s_kind := None\<rparr>)"
    using moved_content [OF K(1) assms(3), of "[]" "s1\<lparr>s_kind := None\<rparr>"] K(4) stack_adv_0
    by (simp_all add: stream_inv_def)
  moreover have "Inr (head_of s1) = enc_ref (VNilPtr k)"
    using K(1,2) assms(3) by (cases k) (simp_all add: head_of_def rlp_string_def rlp_list_def)
  ultimately have "took (enc_ref (VNilPtr k)) s1 (s1\<lparr>s_kind := None\<rparr>)"
    unfolding took_def by (metis append_Nil2 ext_inject select_convs(4) surjective update_convs(4))
  then show ?thesis using took_Kind [OF assms(1,2)] by blast
qed

lemma took_Nil: "stream_inv s \<Longrightarrow> s_kind s = None \<Longrightarrow> took (enc_refs []) s s"
  by (simp add: took_def moved_refl)

lemma took_tail:
  "took (case e of Inl x \<Rightarrow> Inl x | Inr c \<Rightarrow> Inr (if True then c else f c)) s s' = took e s s'"
  by (cases e) simp_all

lemma dec_sound:
  "dec n t s = Some (Inr v, s') \<Longrightarrow> no_byte1 t \<Longrightarrow> stream_inv s \<Longrightarrow> clean s \<Longrightarrow> took (enc_ref v) s s'"
  "decodeSliceElems n t s = Some (Inr vs, s') \<Longrightarrow> no_byte1 t \<Longrightarrow> stream_inv s \<Longrightarrow> clean s
     \<Longrightarrow> took (enc_refs vs) s s'"
  "dec_array n len t s = Some (Inr vs, s') \<Longrightarrow> no_byte1 t \<Longrightarrow> stream_inv s \<Longrightarrow> s_kind s = None
     \<Longrightarrow> took (enc_refs vs) s s'"
  "dec_fields n ts s = Some (Inr vs, s') \<Longrightarrow> list_all no_byte1 ts \<Longrightarrow> stream_inv s \<Longrightarrow> s_kind s = None
     \<Longrightarrow> took (enc_refs vs) s s'"
  "decodeListSlice n t s = Some (Inr v, s') \<Longrightarrow> no_byte1 t \<Longrightarrow> stream_inv s \<Longrightarrow> clean s
     \<Longrightarrow> took (enc_ref v) s s'"
proof (induction n t s and n t s and n len t s and n ts s and n t s
    arbitrary: v s' and vs s' and vs s' and vs s' and v s'
    rule: dec_decodeSliceElems_dec_array_dec_fields_decodeListSlice.induct)
  case (11 n len t s)
  then obtain sz s1 vs s2 where l: "stream_List s = (Inr sz, s1)" "dec_array n len t s1 = Some (Inr vs, s2)"
    "v = VSlice False vs" "stream_ListEnd s2 = (None, s')"
    by (auto simp: end_list_Inr split: prod.splits sum.splits)
  have "took (enc_refs vs) s1 s2"
    using 11 l stream_List_ok(2,3) [OF l(1)] by auto
  then show ?case using took_list(1) [OF l(1) _ _ l(4)] 11(4) l(3) by simp
next
  case (12 n ts s)
  then obtain sz s1 vs s2 where l: "stream_List s = (Inr sz, s1)" "dec_fields n ts s1 = Some (Inr vs, s2)"
    "v = VStruct vs" "stream_ListEnd s2 = (None, s')"
    by (auto simp: end_list_Inr split: prod.splits sum.splits)
  have "took (enc_refs vs) s1 s2"
    using 12 l stream_List_ok(2,3) [OF l(1)] by auto
  then show ?case using took_list(2) [OF l(1) _ _ l(4)] 12(4) l(3) by simp
next
  case (14 n nilKind t s)
  then obtain k sz s1 where k: "stream_Kind s = (Inr (k, sz), s1)"
    by (auto split: prod.splits sum.splits)
  note K = stream_Kind_ok [OF k 14(4)] and c = stream_Kind_clean [OF k]
  show ?case
  proof (cases "k \<noteq> Byte \<and> sz = 0")
    case True
    then show ?thesis using 14(2) k took_nil [of s k s1] 14(4) by (auto split: if_splits)
  next
    case False
    then obtain v' where "dec n t s1 = Some (Inr v', s')" "v = VPtr v'"
      using 14(2) k by (auto simp: map_res_Inr split: if_splits)
    then show ?thesis using 14(1) [OF k [symmetric] refl refl False] 14(3) K(4) c took_Kind [OF k 14(4)]
      by (auto simp: k)
  qed
next
  case (15 n s)
  then obtain k sz s1 where k: "stream_Kind s = (Inr (k, sz), s1)"
    by (auto split: prod.splits sum.splits)
  note K = stream_Kind_ok [OF k 15(4)] and c = stream_Kind_clean [OF k]
  show ?case
  proof (cases "k = List")
    case True
    then obtain v' where "decodeListSlice n TInterface s1 = Some (Inr v', s')" "v = VInterface v'"
      using 15(2) k by (auto simp: map_res_Inr)
    then show ?thesis using 15(1) [OF k [symmetric] refl refl True] K(4) c took_Kind [OF k 15(4)]
      by auto
  next
    case False
    then obtain b where "stream_Bytes s1 = (Inr b, s')" "v = VInterface (VBytes b)"
      using 15(2) k by (auto simp: map_res_Inr)
    then show ?thesis using took_base(4) K(4) took_Kind [OF k 15(4)] by auto
  qed
next
  case (17 n t s)
  then obtain sz s1 where l: "stream_List s = (Inr sz, s1)" by (auto split: prod.splits sum.splits)
  note L = stream_List_ok(2,3) [OF l 17(4)]
  have "\<exists>vs s2. v = VSlice False vs \<and> stream_ListEnd s2 = (None, s') \<and> took (enc_refs vs) s1 s2"
  proof (cases "sz = 0")
    case True
    then show ?thesis using 17(2) l took_Nil [OF L] by (auto simp: end_list_Inr)
  next
    case False
    then obtain vs s2 where vs: "decodeSliceElems n t s1 = Some (Inr vs, s2)" "v = VSlice False vs"
      "stream_ListEnd s2 = (None, s')"
      using 17(2) l by (auto simp: end_list_Inr)
    have "took (enc_refs vs) s1 s2" using 17 l False vs L by (auto simp: clean_def)
    then show ?thesis using vs by blast
  qed
  then show ?case using took_list(1) [OF l 17(4)] by auto
next
  case (19 n t s)
  then obtain res s1 where d: "dec n t s = Some (res, s1)" by (auto split: option.splits)
  show ?case
  proof (cases res)
    case (Inl e)
    then have "e = EOL" "vs = []" "s' = s1" using 19(3) d by (auto split: if_splits)
    then show ?thesis
      using eol_at_moved dec_EOL(1) [of n t s s1] 19(5,6) d Inl by (auto simp: took_def)
  next
    case (Inr v)
    then obtain vs' where "decodeSliceElems n t s1 = Some (Inr vs', s')" "vs = v # vs'"
      using 19(3) d by (auto simp: map_res_Inr)
    moreover have "took (enc_ref v) s s1" using 19 d Inr by auto
    ultimately show ?thesis
      using took_Cons took_clean 19(2) [OF d [unfolded Inr] refl refl] 19(4) d Inr by blast
  qed
next
  case (22 n len t s)
  then obtain v s1 vs' where d: "dec n t s = Some (Inr v, s1)" "dec_array n len t s1 = Some (Inr vs', s')"
    "vs = v # vs'"
    by (auto simp: map_res_Inr split: option.splits sum.splits)
  then have 1: "took (enc_ref v) s s1" using 22 by (auto simp: clean_def)
  then have "took (enc_refs vs') s1 s'" using 22 d by (auto simp: took_def)
  with 1 show ?case using took_Cons d(3) by blast
next
  case (25 n t ts s)
  then obtain v s1 vs' where d: "dec n t s = Some (Inr v, s1)" "dec_fields n ts s1 = Some (Inr vs', s')"
    "vs = v # vs'"
    by (auto simp: map_res_Inr split: option.splits sum.splits)
  then have 1: "took (enc_ref v) s s1" using 25 by (auto simp: clean_def)
  then have "took (enc_refs vs') s1 s'" using 25 d by (auto simp: took_def)
  with 1 show ?case using took_Cons d(3) by blast
qed (auto simp: map_res_Inr took_tail intro: took_base took_Nil [simplified])

section \<open>Decoding ends\<close>

definition field_ok :: "gotype \<Rightarrow> bool" where
  "field_ok t = (tails_last t \<or> (\<exists>t'. t = TTail t' \<and> tails_last t'))"

lemma tails_last_fields_Cons:
  "tails_last_fields (t # ts) \<Longrightarrow> field_ok t \<and> tails_last_fields ts"
  by (cases t; cases ts) (auto simp: field_ok_def)

lemma rlp_nonempty [simp]: "rlp_string b \<noteq> []" "rlp_list b \<noteq> []" "rlp_head x y n \<noteq> []"
  by (auto simp: rlp_string_def rlp_list_def rlp_head_def)

lemma stream_Raw_nonempty: "stream_Raw s = (Inr b, s') \<Longrightarrow> b \<noteq> []"
  by (auto simp: stream_Raw_def puthead_def Let_def split: prod.splits sum.splits if_splits)

lemma dec_nonempty:
  "dec n t s = Some (Inr v, s') \<Longrightarrow> tails_last t \<Longrightarrow> enc_ref v \<noteq> Inr []"
proof (induction n t s arbitrary: v s' rule: dec_decodeSliceElems_dec_array_dec_fields_decodeListSlice.induct(1)
    [where ?P2.0 = "\<lambda>_ _ _. True" and ?P3.0 = "\<lambda>_ _ _ _. True" and ?P4.0 = "\<lambda>_ _ _. True"
      and ?P5.0 = "\<lambda>n t s. \<forall>v s'. decodeListSlice n t s = Some (Inr v, s') \<longrightarrow> enc_ref v \<noteq> Inr []"])
qed (auto simp: map_res_Inr end_list_Inr decodeBigInt_def decodeByteArray_def
    split: prod.splits sum.splits if_splits option.splits Kind.splits dest: stream_Raw_nonempty)

lemma took_shorter:
  "took (enc_ref v) s s' \<Longrightarrow> enc_ref v \<noteq> Inr [] \<Longrightarrow> length (vin s') < length (vin s)"
  "took e s s' \<Longrightarrow> length (vin s') \<le> length (vin s)"
  by (auto simp: took_def moved_def)

lemma stream_List_shorter:
  assumes "stream_List s = (Inr sz, s1)" "stream_inv s"
  shows "length (vin s1) < length (vin s)"
proof -
  obtain s0 where s0: "s1 = s0\<lparr>s_stack := (0, sz) # s_stack s0, s_kind := None, s_size := 0\<rparr>"
    "s_kind s0 = Some List" "moved [] s s0"
    using stream_List_ok(1) [OF assms] by blast
  then have "length (vin s1) < length (vin s0)" by (simp add: vin_def head_of_def)
  then show ?thesis using s0(3) by (simp add: moved_def)
qed

lemma dec_returns:
  "typ_size t + 3 * length (vin s) \<le> n \<Longrightarrow> no_byte1 t \<Longrightarrow> field_ok t \<Longrightarrow> stream_inv s \<Longrightarrow> clean s
     \<Longrightarrow> dec n t s \<noteq> None"
  "typ_size t + 1 + 3 * length (vin s) \<le> n \<Longrightarrow> no_byte1 t \<Longrightarrow> tails_last t \<Longrightarrow> stream_inv s \<Longrightarrow> clean s
     \<Longrightarrow> decodeSliceElems n t s \<noteq> None"
  "typ_size t + len + 1 + 3 * length (vin s) \<le> n \<Longrightarrow> no_byte1 t \<Longrightarrow> tails_last t \<Longrightarrow> stream_inv s
     \<Longrightarrow> s_kind s = None \<Longrightarrow> dec_array n len t s \<noteq> None"
  "typs_size ts + 1 + 3 * length (vin s) \<le> n \<Longrightarrow> list_all no_byte1 ts \<Longrightarrow> tails_last_fields ts \<Longrightarrow> stream_inv s
     \<Longrightarrow> s_kind s = None \<Longrightarrow> dec_fields n ts s \<noteq> None"
  "typ_size t + 2 + 3 * (length (vin s) - 1) \<le> n \<Longrightarrow> no_byte1 t \<Longrightarrow> tails_last t \<Longrightarrow> stream_inv s \<Longrightarrow> clean s
     \<Longrightarrow> decodeListSlice n t s \<noteq> None"
proof (induction n t s and n t s and n len t s and n ts s and n t s
    rule: dec_decodeSliceElems_dec_array_dec_fields_decodeListSlice.induct)
  case (1 t s)
  have "0 < typ_size t" by (cases t) simp_all
  with 1 show ?case by simp
next
  case (11 n len t s)
  show ?case
  proof (cases "stream_List s")
    case (Pair res s1)
    then show ?thesis
      using 11 stream_List_ok(2,3) [of s _ s1] stream_List_shorter [of s _ s1]
      by (cases res) (auto simp: field_ok_def)
  qed
next
  case (12 n ts s)
  show ?case
  proof (cases "stream_List s")
    case (Pair res s1)
    then show ?thesis
      using 12 stream_List_ok(2,3) [of s _ s1] stream_List_shorter [of s _ s1]
      by (cases res) (auto simp: field_ok_def)
  qed
next
  case (14 n k t s)
  show ?case
  proof (cases "stream_Kind s")
    case (Pair res s1)
    show ?thesis
    proof (cases res)
      case (Inr kz)
      obtain k' sz where kz: "kz = (k', sz)" by (cases kz)
      have k: "stream_Kind s = (Inr (k', sz), s1)" using Pair Inr kz by simp
      have "vin s1 = vin s" using stream_Kind_ok(5) [OF k 14(5)] by (simp add: moved_def)
      then have "dec n t s1 \<noteq> None" if "\<not> (k' \<noteq> Byte \<and> sz = 0)"
        using 14 that k stream_Kind_ok(4) [OF k 14(5)] stream_Kind_clean [OF k] by (simp add: field_ok_def)
      then show ?thesis using k by (auto simp del: not_None_eq)
    qed (use Pair in simp)
  qed
next
  case (15 n s)
  show ?case
  proof (cases "stream_Kind s")
    case (Pair res s1)
    show ?thesis
    proof (cases res)
      case (Inr kz)
      obtain k' sz where kz: "kz = (k', sz)" by (cases kz)
      have k: "stream_Kind s = (Inr (k', sz), s1)" using Pair Inr kz by simp
      have v: "vin s1 = vin s" using stream_Kind_ok(5) [OF k 15(5)] by (simp add: moved_def)
      have "decodeListSlice n TInterface s1 \<noteq> None" if "k' = List"
      proof -
        have "0 < length (vin s1)"
          using that stream_Kind_ok(1) [OF k 15(5)] by (simp add: vin_def head_of_def)
        then obtain m where "length (vin s1) = Suc m" by (metis gr0_implies_Suc)
        then show ?thesis
          using 15 that k v stream_Kind_ok(4) [OF k 15(5)] stream_Kind_clean [OF k] by simp
      qed
      then show ?thesis using k by (auto simp del: not_None_eq)
    qed (use Pair in simp)
  qed
next
  case (17 n t s)
  show ?case
  proof (cases "stream_List s")
    case (Pair res s1)
    show ?thesis
    proof (cases res)
      case (Inr sz)
      then have l: "stream_List s = (Inr sz, s1)" using Pair by simp
      have "3 * length (vin s1) \<le> 3 * (length (vin s) - 1)"
        using stream_List_shorter [OF l 17(5)] by simp
      then have "sz \<noteq> 0 \<Longrightarrow> decodeSliceElems n t s1 \<noteq> None"
        using 17 l stream_List_ok(2,3) [OF l 17(5)] by (simp add: clean_def)
      then show ?thesis using l by (auto simp del: not_None_eq)
    qed (use Pair in simp)
  qed
next
  case (19 n t s)
  have "dec n t s \<noteq> None" using 19 by (auto simp: field_ok_def)
  then obtain res s1 where d: "dec n t s = Some (res, s1)" by auto
  show ?case
  proof (cases res)
    case (Inr v)
    have "took (enc_ref v) s s1" using dec_sound(1) d Inr 19 by blast
    moreover from this have "length (vin s1) < length (vin s)"
      using took_shorter(1) dec_nonempty d Inr 19(5) by blast
    ultimately show ?thesis using 19 d Inr took_clean by fastforce
  qed (use d in auto)
next
  case (22 n len t s)
  have "dec n t s \<noteq> None" using 22 by (auto simp: field_ok_def clean_def)
  then obtain res s1 where d: "dec n t s = Some (res, s1)" by auto
  show ?case
  proof (cases res)
    case (Inr v)
    have tk: "took (enc_ref v) s s1" using dec_sound(1) [of n t s v s1] d Inr 22 by (auto simp: clean_def)
    then show ?thesis using 22 d Inr took_shorter(2) [OF tk] by (auto simp: took_def)
  qed (use d in auto)
next
  case (25 n t ts s)
  have f: "field_ok t" "tails_last_fields ts" using tails_last_fields_Cons 25(5) by blast+
  then have "dec n t s \<noteq> None" using 25 by (auto simp: clean_def)
  then obtain res s1 where d: "dec n t s = Some (res, s1)" by auto
  show ?case
  proof (cases res)
    case (Inr v)
    have tk: "took (enc_ref v) s s1" using dec_sound(1) [of n t s v s1] d Inr 25 by (auto simp: clean_def)
    then show ?thesis using 25 f d Inr took_shorter(2) [OF tk] by (auto simp: took_def)
  qed (use d in auto)
qed (auto simp: field_ok_def)

lemma NewStream_ok:
  "stream_inv (NewStream b n)" "clean (NewStream b n)" "vin (NewStream b n) = b" "s_kind (NewStream b n) = None"
  by (simp_all add: NewStream_def stream_inv_def stack_ok_def clean_def vin_def head_of_def)

lemma DecodeBytes_sound:
  assumes "DecodeBytes b t = Some (Inr v)" "no_byte1 t"
  shows "enc_ref v = Inr b"
proof -
  obtain s' where "dec (dec_fuel t b) t (NewStream b (word_of_nat (length b))) = Some (Inr v, s')" "s_r s' = []"
    using assms(1) by (auto simp: DecodeBytes_def split: option.splits sum.splits if_splits)
  then have "took (enc_ref v) (NewStream b (word_of_nat (length b))) s'" "s_r s' = []"
    using dec_sound(1) assms(2) NewStream_ok by blast+
  then show ?thesis by (auto simp: took_def moved_def NewStream_ok(3) vin_def [of s'] head_of_def [of s'])
qed

lemma DecodeBytes_returns:
  assumes "no_byte1 t" "tails_last t"
  shows "DecodeBytes b t \<noteq> None"
  using dec_returns(1) [of t "NewStream b (word_of_nat (length b))" "dec_fuel t b"] assms NewStream_ok
  by (auto simp: DecodeBytes_def dec_fuel_def field_ok_def split: option.splits sum.splits)

end
