(* ===== verification/RLP_Roundtrip.thy ===== *)
theory RLP_Roundtrip
  imports RLP_Decode
begin

text \<open>
  The decoder of \<^verbatim>\<open>rlp/decode.go\<close> inverts the encoder of \<^verbatim>\<open>rlp/encode.go\<close> exactly on the canonical values of a
  type: which values these are (\<^verbatim>\<open>canonical\<close>), that every stream operation succeeds in front of the encoding it expects, and the
  properties of the codec as a whole.
\<close>

section \<open>Decoding inverts encoding\<close>

text \<open>
  The canonical values of a type, with an encoding of their own. A type has others, which are encoded like a
  canonical value: a \<^verbatim>\<open>nil\<close> \<^verbatim>\<open>*big.Int\<close>, a \<^verbatim>\<open>nil\<close> pointer without a nil tag, a \<^verbatim>\<open>nil\<close> interface, an interface that holds something else
  than bytes or a list of interfaces, and a pointer with a nil tag to a value with an empty encoding. A raw value is
  canonical if it is one encoded value.
\<close>

fun canonical :: "val \<Rightarrow> gotype \<Rightarrow> bool" and canonicals :: "val list \<Rightarrow> gotype list \<Rightarrow> bool" where
  "canonical (VRaw b) t =
     (t = TRaw \<and> (case Split b of Some (Inr (k, c, r)) \<Rightarrow> r = [] | _ \<Rightarrow> False))"
| "canonical (VBigInt i) t = (t = TBigInt \<and> (case i of None \<Rightarrow> False | Some i \<Rightarrow> 0 \<le> i))"
| "canonical (VUint i) t = (case t of TUint bits \<Rightarrow> unat i < 256 ^ (bits div 8) | _ \<Rightarrow> False)"
| "canonical (VBool b) t = (t = TBool)"
| "canonical (VString s) t = (t = TString)"
| "canonical (VBytes b) t = (t = TByteSlice)"
| "canonical (VByteArray b) t = (case t of TByteArray n \<Rightarrow> length b = n | _ \<Rightarrow> False)"
| "canonical (VSlice tail vs) t =
     (case t of TSlice t' \<Rightarrow> \<not> tail \<and> list_all (\<lambda>v. canonical v t') vs
      | TTail t' \<Rightarrow> tail \<and> list_all (\<lambda>v. canonical v t') vs
      | TArray n t' \<Rightarrow> \<not> tail \<and> length vs = n \<and> list_all (\<lambda>v. canonical v t') vs
      | _ \<Rightarrow> False)"
| "canonical (VStruct vs) t = (case t of TStruct ts \<Rightarrow> canonicals vs ts | _ \<Rightarrow> False)"
| "canonical (VNilPtr k) t = (case t of TNilPtr k' _ \<Rightarrow> k = k' \<and> k \<noteq> Byte | _ \<Rightarrow> False)"
| "canonical (VPtr v) t =
     (case t of TPtr t' \<Rightarrow> canonical v t'
      | TNilPtr k t' \<Rightarrow> canonical v t' \<and> enc_ref v \<noteq> Inr [0x80] \<and> enc_ref v \<noteq> Inr [0xC0]
      | _ \<Rightarrow> False)"
| "canonical VNilInterface t = False"
| "canonical (VInterface v) t =
     (t = TInterface \<and> (case v of VBytes b \<Rightarrow> True
        | VSlice tail vs \<Rightarrow> \<not> tail \<and> list_all (\<lambda>v. canonical v TInterface) vs
        | _ \<Rightarrow> False))"
| "canonicals [] ts = (ts = [])"
| "canonicals (v # vs) ts =
     (case ts of [] \<Rightarrow> False | t # ts' \<Rightarrow> canonical v t \<and> canonicals vs ts')"

text \<open>A stream in front of a value: its head is still in the reader, or \<^verbatim>\<open>Kind\<close> has read it.\<close>

definition lim_ok :: "Stream \<Rightarrow> bool" where
  "lim_ok s = (s_limited s \<longrightarrow> length (s_r s) \<le> unat (s_remaining s))"

definition cached :: "Stream \<Rightarrow> Kind \<Rightarrow> bytes \<Rightarrow> bytes \<Rightarrow> bool" where
  "cached s k c rest = (s_kind s = Some k \<and> s_kinderr s = None
     \<and> s_size s = (if k = Byte then 0 else word_of_nat (length c))
     \<and> (k = Byte \<longrightarrow> s_byteval s = hd c)
     \<and> s_r s = (if k = Byte then rest else c @ rest)
     \<and> stack_ok (s_stack s) (if k = Byte then 0 else length c))"

definition ready :: "Stream \<Rightarrow> Kind \<Rightarrow> bytes \<Rightarrow> bytes \<Rightarrow> bool" where
  "ready s k c rest = (lim_ok s \<and> stream_inv s \<and> kind_ok k c \<and> length c < 2 ^ 62
     \<and> (s_kind s = None \<and> s_r s = kind_enc k c @ rest \<and> stack_ok (s_stack s) (length (kind_enc k c))
        \<or> cached s k c rest))"

lemma willRead_complete:
  assumes "lim_ok s" "stack_ok (s_stack s) (unat n)" "unat n \<le> length (s_r s)"
  shows "\<exists>s1. willRead n s = (None, s1) \<and> s_r s1 = s_r s \<and> s_limited s1 = s_limited s
    \<and> (s_limited s \<longrightarrow> unat (s_remaining s1) = unat (s_remaining s) - unat n)"
proof -
  have "s_limited s \<longrightarrow> \<not> n > s_remaining s"
    using assms(1,3) by (auto simp: lim_ok_def word_less_nat_alt)
  moreover have "\<not> n > z - p" if "s_stack s = (p, z) # st" for p z st
    using assms(2) that by (auto simp: stack_ok_def word_less_nat_alt unat_sub word_le_nat_alt)
  ultimately show ?thesis
    by (auto simp: willRead_def Let_def unat_sub not_less split: list.splits)
qed

lemma readByte_complete:
  assumes "lim_ok s" "stack_ok (s_stack s) 1" "s_r s = b # r"
  shows "\<exists>s1. readByte s = (Inr b, s1) \<and> lim_ok s1"
  using willRead_complete [of s 1] assms by (auto simp: readByte_def lim_ok_def)

lemma readFull_complete:
  assumes "lim_ok s" "stack_ok (s_stack s) (length b)" "s_r s = b @ r" "length b < 2 ^ 64"
  shows "\<exists>s1. readFull (length b) s = (Inr b, s1) \<and> lim_ok s1"
  using willRead_complete [of s "word_of_nat (length b)"] assms
  by (auto simp: readFull_def lim_ok_def unat_of_nat)

lemma readUint_complete:
  assumes "lim_ok s" "stack_ok (s_stack s) (length b)" "s_r s = b @ r" "length b = unat (l :: byte)"
    and "unat l \<le> 8" "unat l > 1 \<longrightarrow> b ! 0 \<noteq> 0"
  shows "\<exists>s1. readUint l s = (Inr (word_of_nat (be_nat b)), s1) \<and> lim_ok s1"
proof -
  consider "l = 0" | "l = 1" | "l \<noteq> 0" "l \<noteq> 1" by blast
  then show ?thesis
  proof cases
    case 1
    then show ?thesis using assms(1,4) by (simp add: readUint_def lim_ok_def)
  next
    case 2
    then obtain x where "b = [x]" using assms(4) by (cases b) auto
    then show ?thesis using readByte_complete [of s x r] assms 2 by (auto simp: readUint_def)
  next
    case 3
    then have "unat l \<noteq> 0" "unat l \<noteq> 1"
      using word_unat_eq_iff [of l 0] word_unat_eq_iff [of l 1] by simp_all
    then have "b ! 0 \<noteq> 0" using assms(6) by simp
    then show ?thesis using readFull_complete [OF assms(1-3)] assms(4,5) 3
      by (auto simp: readUint_def)
  qed
qed

lemma stack_ok_mono: "stack_ok st n \<Longrightarrow> m \<le> n \<Longrightarrow> stack_ok st m"
  by (auto simp: stack_ok_def split: list.splits)

lemma stack_ok_adv: "stack_adv m st st' \<Longrightarrow> stack_ok st (m + n) \<Longrightarrow> stack_ok st' n"
  by (auto simp: stack_ok_def stack_adv_def split: list.splits)

lemma lim_ok_byteval [simp]: "lim_ok (s\<lparr>s_byteval := b\<rparr>) = lim_ok s"
  by (simp add: lim_ok_def)

text \<open>The branch for long heads of \<^verbatim>\<open>readKind\<close>, on the encoding of a long content.\<close>

lemma readUint_size:
  assumes "lim_ok s" "stack_ok (s_stack s) (length (be_bytes n))" "s_r s = be_bytes n @ r"
    and "56 \<le> n" "n < 2 ^ 64"
  shows "\<exists>s1. readUint (word_of_nat (length (be_bytes n))) s = (Inr (word_of_nat n), s1) \<and> lim_ok s1"
proof -
  have l: "1 \<le> length (be_bytes n)" "length (be_bytes n) \<le> 8"
    using length_be_bytes_range [OF assms(4,5)] by auto
  have "hd (be_bytes n) \<noteq> 0" using hd_be_bytes assms(4) by simp
  then have "be_bytes n ! 0 \<noteq> 0" using l by (cases "be_bytes n") auto
  moreover have "unat (word_of_nat (length (be_bytes n)) :: byte) = length (be_bytes n)" using l by simp
  ultimately show ?thesis
    using readUint_complete [OF assms(1-3), of "word_of_nat (length (be_bytes n))"] l by simp
qed

lemma stream_readKind_head:
  assumes "readByte s = (Inr b, s0)"
  defines "s1 \<equiv> s0\<lparr>s_byteval := 0\<rparr>"
  shows "unat b < 0x80 \<Longrightarrow> stream_readKind s = ((Byte, 0, None), s1\<lparr>s_byteval := b\<rparr>)"
    and "0x80 \<le> unat b \<Longrightarrow> unat b < 0xB8 \<Longrightarrow> stream_readKind s = ((String, ucast (b - 0x80), None), s1)"
    and "0xC0 \<le> unat b \<Longrightarrow> unat b < 0xF8 \<Longrightarrow> stream_readKind s = ((List, ucast (b - 0xC0), None), s1)"
    and "0xB8 \<le> unat b \<Longrightarrow> unat b < 0xC0 \<Longrightarrow> readUint (b - 0xB7) s1 = (Inr z, s2) \<Longrightarrow> \<not> z < 56
      \<Longrightarrow> stream_readKind s = ((String, z, None), s2)"
    and "0xF8 \<le> unat b \<Longrightarrow> readUint (b - 0xF7) s1 = (Inr z, s2) \<Longrightarrow> \<not> z < 56
      \<Longrightarrow> stream_readKind s = ((List, z, None), s2)"
  by (simp_all add: stream_readKind_def assms(1) s1_def word_less_nat_alt)

lemma ucast_small: "n < 256 \<Longrightarrow> (ucast (word_of_nat n :: byte) :: u64) = word_of_nat n"
  by (simp add: word_unat_eq_iff unat_of_nat)

lemma readKind_complete_short:
  assumes "lim_ok s" "s_r s = kind_enc k c @ rest" "kind_ok k c" "k \<noteq> Byte" "length c < 56"
    and "stack_ok (s_stack s) (length (kind_enc k c))"
  shows "\<exists>s1. stream_readKind s = ((k, word_of_nat (length c), None), s1) \<and> lim_ok s1"
proof -
  define tag :: byte where "tag = (if k = List then 0xC0 else 0x80)"
  define b where "b = tag + word_of_nat (length c)"
  have enc: "kind_enc k c = b # c"
    using assms(3-5) by (cases k) (auto simp: kind_enc_def kind_ok_def small_byte_def rlp_list_def
        rlp_string_def rlp_head_def b_def tag_def)
  have d: "b - tag = word_of_nat (length c)" by (simp add: b_def)
  have u: "unat b = unat tag + length c"
    using unat_tag(1,3) [of "length c"] assms(5) by (auto simp: b_def tag_def)
  obtain s0 where s0: "readByte s = (Inr b, s0)" "lim_ok s0"
    using readByte_complete [of s b "c @ rest"] assms(1,2,6) stack_ok_mono by (fastforce simp: enc)
  show ?thesis
  proof (cases k)
    case String
    then show ?thesis
      using stream_readKind_head(2) [OF s0(1)] u d assms(5) s0(2) by (simp add: tag_def ucast_small)
  next
    case List
    then show ?thesis
      using stream_readKind_head(3) [OF s0(1)] u d assms(5) s0(2) by (simp add: tag_def ucast_small)
  qed (use assms(4) in simp)
qed

lemma readKind_complete_long:
  assumes "lim_ok s" "s_r s = kind_enc k c @ rest" "kind_ok k c" "k \<noteq> Byte" "56 \<le> length c"
    and "length c < 2 ^ 62" "stack_ok (s_stack s) (length (kind_enc k c))"
  shows "\<exists>s1. stream_readKind s = ((k, word_of_nat (length c), None), s1) \<and> lim_ok s1"
proof -
  define tag :: byte where "tag = (if k = List then 0xF7 else 0xB7)"
  define l where "l = length (be_bytes (length c))"
  define b where "b = tag + word_of_nat l"
  have enc: "kind_enc k c = b # be_bytes (length c) @ c"
    using assms(3-5) by (cases k) (auto simp: kind_enc_def kind_ok_def small_byte_def rlp_list_def
        rlp_string_def rlp_head_long b_def tag_def l_def)
  have l: "1 \<le> l" "l \<le> 8" using length_be_bytes_range [of "length c"] assms(5,6) by (auto simp: l_def)
  have d: "b - tag = word_of_nat l" by (simp add: b_def)
  have u: "unat b = unat tag + l" using unat_tag(2,4) [OF l(2)] by (auto simp: b_def tag_def)
  have ok: "stack_ok (s_stack s) 0" using stack_ok_mono [OF assms(7)] by simp
  obtain s0 where s0: "readByte s = (Inr b, s0)" "lim_ok s0"
    using readByte_complete [of s b] assms(1,2,7) stack_ok_mono by (fastforce simp: enc)
  note r = readByte_ok [OF s0(1) ok]
  let ?s1 = "s0\<lparr>s_byteval := 0\<rparr>"
  have "s_r ?s1 = be_bytes (length c) @ c @ rest" using r(1) assms(2) by (simp add: enc)
  moreover have "stack_ok (s_stack ?s1) l"
    using stack_ok_adv [OF r(3), of l] stack_ok_mono [OF assms(7), of "1 + l"] by (simp add: enc l_def)
  ultimately obtain s2 where s2: "readUint (word_of_nat l) ?s1 = (Inr (word_of_nat (length c)), s2)" "lim_ok s2"
    using readUint_size [of ?s1 "length c" "c @ rest"] s0(2) assms(5,6) by (auto simp: l_def)
  have big: "\<not> (word_of_nat (length c) :: u64) < 56"
    using word_of_nat_less_56 [of "length c"] assms(5,6) by simp
  show ?thesis
  proof (cases k)
    case String
    then show ?thesis
      using stream_readKind_head(4) [OF s0(1)] u d l s2 big by (simp add: tag_def)
  next
    case List
    then show ?thesis
      using stream_readKind_head(5) [OF s0(1)] u d l s2 big by (simp add: tag_def)
  qed (use assms(4) in simp)
qed

definition kind_size :: "Kind \<Rightarrow> bytes \<Rightarrow> u64" where
  "kind_size k c = (if k = Byte then 0 else word_of_nat (length c))"

lemma kind_enc_head:
  "kind_ok k c \<Longrightarrow> length c < 2 ^ 64 \<Longrightarrow> k \<noteq> Byte \<Longrightarrow>
   kind_enc k c = (if k = String then rlp_head 0x80 0xB7 (unat (kind_size k c))
                   else rlp_head 0xC0 0xF7 (unat (kind_size k c))) @ c"
  by (cases k) (auto simp: kind_enc_def kind_ok_def small_byte_def rlp_list_def rlp_string_def
      kind_size_def unat_of_nat)

lemma kind_enc_Byte: "kind_ok Byte c \<Longrightarrow> kind_enc Byte c = [hd c] \<and> c = [hd c] \<and> unat (hd c) < 0x80"
  by (cases c) (auto simp: kind_enc_def kind_ok_def small_byte_def rlp_string_def word_le_nat_alt)

lemma readKind_complete:
  assumes "lim_ok s" "s_r s = kind_enc k c @ rest" "kind_ok k c" "length c < 2 ^ 62"
    and "stack_ok (s_stack s) (length (kind_enc k c))"
  shows "\<exists>s1. stream_readKind s = ((k, kind_size k c, None), s1) \<and> lim_ok s1 \<and> (k = Byte \<longrightarrow> s_byteval s1 = hd c)"
proof (cases "k = Byte")
  case True
  then have c: "kind_enc k c = [hd c]" "unat (hd c) < 0x80" using kind_enc_Byte assms(3) by auto
  then obtain s0 where "readByte s = (Inr (hd c), s0)" "lim_ok s0"
    using readByte_complete [of s "hd c" rest] assms(1,2,5) by auto
  then show ?thesis using stream_readKind_head(1) [of s "hd c" s0] c True by (simp add: kind_size_def)
next
  case False
  then show ?thesis
    using readKind_complete_short [OF assms(1-3) False] readKind_complete_long [OF assms(1-3) False] assms(4,5)
    by (cases "length c < 56") (auto simp: kind_size_def)
qed

lemma cached_ready:
  "cached s k c rest \<Longrightarrow> lim_ok s \<Longrightarrow> stream_inv s \<Longrightarrow> kind_ok k c \<Longrightarrow> length c < 2 ^ 62 \<Longrightarrow> ready s k c rest"
  by (simp add: ready_def)

lemma Kind_ready:
  assumes "ready s k c rest"
  shows "\<exists>s'. stream_Kind s = (Inr (k, kind_size k c), s') \<and> cached s' k c rest \<and> lim_ok s'"
proof (cases "s_kind s")
  case (Some k')
  then have "cached s k c rest" "lim_ok s" using assms by (auto simp: ready_def)
  then show ?thesis by (auto simp: stream_Kind_def cached_def kind_size_def)
next
  case None
  let ?s = "s\<lparr>s_kinderr := None\<rparr>"
  have s: "s_r s = kind_enc k c @ rest" "stack_ok (s_stack s) (length (kind_enc k c))" "lim_ok s"
    "kind_ok k c" "length c < 2 ^ 62" "stack_ok (s_stack s) 0"
    using assms None by (auto simp: ready_def cached_def stream_inv_def)
  obtain s1 where s1: "stream_readKind ?s = ((k, kind_size k c, None), s1)" "lim_ok s1"
    "k = Byte \<longrightarrow> s_byteval s1 = hd c"
    using readKind_complete [of ?s k c rest] s by (auto simp: lim_ok_def)
  let ?s2 = "s1\<lparr>s_kind := Some k, s_size := kind_size k c, s_kinderr := None\<rparr>"
  have r: "s_r s = head_of ?s2 @ s_r s1" "stack_adv (length (head_of ?s2)) (s_stack s) (s_stack s1)"
    using stream_readKind_ok [OF s1(1)] s(6) by simp_all
  have enc: "kind_enc k c = head_of ?s2 @ (if k = Byte then [] else c)"
    using s1(3) s(4,5) kind_enc_Byte [of c] kind_enc_head [of k c]
    by (cases k) (auto simp: head_of_def)
  have c: "cached ?s2 k c rest"
    using r s(1,2) s1(3) stack_ok_adv [OF r(2), of "if k = Byte then 0 else length c"]
    by (auto simp: cached_def kind_size_def enc)
  have ne: "\<not> (case s_stack ?s of [] \<Rightarrow> False | (pos, sz) # _ \<Rightarrow> pos = sz)"
    using s(2) by (cases "s_stack s") (auto simp: stack_ok_def kind_enc_def split: if_splits)
  have u: "unat (kind_size k c) = (if k = Byte then 0 else length c)"
    using s(5) by (simp add: kind_size_def unat_of_nat)
  have lim: "\<not> (s_limited ?s2 \<and> kind_size k c > s_remaining ?s2)"
    using s1(2) c u by (auto simp: lim_ok_def cached_def word_less_nat_alt split: if_splits)
  have fit: "\<not> kind_size k c > z - p" if "s_stack s1 = (p, z) # st" for p z st
    using c that u by (auto simp: cached_def stack_ok_def word_less_nat_alt unat_sub word_le_nat_alt)
  have "stream_Kind s = (Inr (k, kind_size k c), ?s2)"
    using None ne s1(1) lim fit by (auto simp: stream_Kind_def Let_def split: list.splits)
  then show ?thesis using c s1(2) by (auto simp: lim_ok_def)
qed

lemma ready_inv: "ready s k c rest \<Longrightarrow> stream_inv s \<and> clean s"
  by (auto simp: ready_def clean_def cached_def)

lemma Kind_ready':
  assumes "ready s k c rest"
  shows "\<exists>s'. stream_Kind s = (Inr (k, kind_size k c), s') \<and> ready s' k c rest \<and> cached s' k c rest"
proof -
  obtain s' where s': "stream_Kind s = (Inr (k, kind_size k c), s')" "cached s' k c rest" "lim_ok s'"
    using Kind_ready [OF assms] by blast
  have "stream_inv s'" using stream_Kind_ok(4) [OF s'(1)] ready_inv [OF assms] by blast
  then show ?thesis using s' assms by (auto simp: ready_def)
qed

text \<open>Reading the content of a value in front of the stream.\<close>

lemma readFull_cached:
  assumes "cached s k c rest" "lim_ok s" "k \<noteq> Byte" "length c < 2 ^ 62"
  shows "\<exists>s'. readFull (length c) s = (Inr c, s') \<and> lim_ok s'"
  using readFull_complete [of s c rest] assms by (simp add: cached_def)

lemma Bytes_ready:
  assumes "ready s k c rest" "k \<noteq> List"
  shows "\<exists>s'. stream_Bytes s = (Inr c, s') \<and> lim_ok s'"
proof -
  obtain s1 where s1: "stream_Kind s = (Inr (k, kind_size k c), s1)" "ready s1 k c rest" "cached s1 k c rest"
    using Kind_ready' [OF assms(1)] by blast
  have ok: "kind_ok k c" "lim_ok s1" "length c < 2 ^ 62" using s1(2) by (auto simp: ready_def)
  show ?thesis
  proof (cases k)
    case Byte
    then have "c = [s_byteval s1]" using kind_enc_Byte [of c] ok(1) s1(3) by (auto simp: cached_def)
    then show ?thesis using s1(1) Byte ok(2) by (simp add: stream_Bytes_def lim_ok_def)
  next
    case String
    have u: "unat (kind_size k c) = length c" using String ok(3) by (simp add: kind_size_def unat_of_nat)
    have "\<not> (kind_size k c = 1 \<and> c ! 0 < 128)"
    proof
      assume a: "kind_size k c = 1 \<and> c ! 0 < 128"
      then have "length c = 1" using u by simp
      then show False using a ok(1) String
        by (cases c) (auto simp: kind_ok_def small_byte_def word_less_nat_alt word_le_nat_alt)
    qed
    then show ?thesis
      using readFull_cached [OF s1(3) ok(2) _ ok(3)] s1(1) String u by (auto simp: stream_Bytes_def)
  qed (use assms(2) in simp)
qed

lemma Raw_ready:
  assumes "ready s k c rest"
  shows "\<exists>s'. stream_Raw s = (Inr (kind_enc k c), s') \<and> lim_ok s'"
proof -
  obtain s1 where s1: "stream_Kind s = (Inr (k, kind_size k c), s1)" "ready s1 k c rest" "cached s1 k c rest"
    using Kind_ready' [OF assms(1)] by blast
  have ok: "kind_ok k c" "lim_ok s1" "length c < 2 ^ 62" using s1(2) by (auto simp: ready_def)
  show ?thesis
  proof (cases "k = Byte")
    case True
    then show ?thesis using s1 kind_enc_Byte [of c] ok by (simp add: stream_Raw_def lim_ok_def cached_def)
  next
    case False
    have u: "unat (kind_size k c) = length c" using False ok(3) by (simp add: kind_size_def unat_of_nat)
    have "puthead x y (kind_size k c) = rlp_head x y (unat (kind_size k c))" for x y
      using puthead_rlp_head [of "length c" x y] ok(3) False u by (simp add: kind_size_def)
    then show ?thesis
      using readFull_cached [OF s1(3) ok(2) False ok(3)] s1(1) False u kind_enc_head [OF ok(1) _ False] ok(3)
      by (auto simp: stream_Raw_def)
  qed
qed

lemma word_of_nat_unat: "word_of_nat (unat (i :: u64)) = i"
  by simp

lemma be_bytes_small:
  "small_byte (be_bytes n) \<longleftrightarrow> 0 < n \<and> n < 128"
proof (cases "n < 256")
  case True
  then show ?thesis
    by (cases "n = 0") (auto simp: small_byte_def be_bytes_pos word_le_nat_alt unat_of_nat)
next
  case False
  then show ?thesis using length_be_bytes_le [of n 1] by (auto simp: small_byte_def)
qed

lemma uint_ready:
  assumes "ready s k (be_bytes (unat i)) rest" "k \<noteq> List" "unat i < 256 ^ (bits div 8)" "bits \<le> 64"
  shows "\<exists>s'. stream_uint bits s = (Inr i, s') \<and> lim_ok s'"
proof -
  let ?c = "be_bytes (unat i)"
  obtain s1 where s1: "stream_Kind s = (Inr (k, kind_size k ?c), s1)" "ready s1 k ?c rest" "cached s1 k ?c rest"
    using Kind_ready' [OF assms(1)] by blast
  have ok: "kind_ok k ?c" "lim_ok s1" using s1(2) by (auto simp: ready_def)
  show ?thesis
  proof (cases k)
    case Byte
    then have i: "0 < unat i" "unat i < 128" using ok(1) be_bytes_small by (auto simp: kind_ok_def)
    then have c: "?c = [ucast i]" by (simp add: be_bytes_pos)
    have u: "unat (ucast i :: byte) = unat i" using i by (simp add: unsigned_ucast_eq take_bit_eq_mod)
    have "(ucast (ucast i :: byte) :: u64) = i" by (simp only: word_unat_eq_iff unat_ucast_byte u)
    moreover have "(ucast i :: byte) \<noteq> 0" using u i by (metis less_irrefl unat_0)
    ultimately show ?thesis
      using s1(1,3) Byte c ok(2) by (simp add: stream_uint_def cached_def lim_ok_def)
  next
    case String
    have len: "length ?c \<le> bits div 8" using length_be_bytes_le assms(3) by blast
    then have len8: "length ?c \<le> 8" using assms(4) by simp
    have sz: "kind_size k ?c = word_of_nat (length ?c)" using String by (simp add: kind_size_def)
    have u: "unat (kind_size k ?c) = length ?c" using len8 by (simp add: sz unat_of_nat)
    have "unat (ucast (kind_size k ?c) :: byte) = unat (kind_size k ?c) mod 256"
      by (simp add: unsigned_ucast_eq take_bit_eq_mod)
    then have l: "unat (ucast (kind_size k ?c) :: byte) = length ?c" using len8 u by simp
    have h: "unat (ucast (kind_size k ?c) :: byte) > 1 \<longrightarrow> ?c ! 0 \<noteq> 0"
      using hd_be_bytes [of "unat i"] l by (cases "unat i = 0"; cases ?c) auto
    have st: "stack_ok (s_stack s1) (length ?c)" "s_r s1 = ?c @ rest"
      using s1(3) String by (simp_all add: cached_def)
    have "unat (ucast (kind_size k ?c) :: byte) \<le> 8" using l len8 by linarith
    then obtain s' where "readUint (ucast (kind_size k ?c)) s1 = (Inr i, s')" "lim_ok s'"
      using readUint_complete [OF ok(2) st l [symmetric] _ h] by (metis be_nat_be_bytes word_of_nat_unat)
    moreover have "\<not> kind_size k ?c > word_of_nat (bits div 8)"
      using len u assms(4) by (simp add: word_less_nat_alt unat_of_nat)
    moreover have "\<not> (kind_size k ?c > 0 \<and> i < 128)"
      using ok(1) String be_bytes_small [of "unat i"] u
      by (auto simp: kind_ok_def word_less_nat_alt)
    ultimately show ?thesis using s1(1) String by (auto simp: stream_uint_def)
  qed (use assms(2) in simp)
qed

lemma Bool_ready:
  assumes "ready s k (be_bytes (if v then 1 else 0)) rest" "k \<noteq> List"
  shows "\<exists>s'. stream_Bool s = (Inr v, s') \<and> lim_ok s'"
  using uint_ready [of s k "if v then 1 else 0" rest 8] assms by (cases v) (auto simp: stream_Bool_def)

lemma BigInt_ready:
  assumes "ready s k (be_bytes (nat i)) rest" "k \<noteq> List" "0 \<le> i"
  shows "\<exists>s'. decodeBigInt s = (Inr (VBigInt (Some i)), s') \<and> lim_ok s'"
proof -
  have "\<not> (length (be_bytes (nat i)) > 0 \<and> be_bytes (nat i) ! 0 = 0)"
    using hd_be_bytes [of "nat i"] by (cases "nat i = 0"; cases "be_bytes (nat i)") auto
  then show ?thesis using Bytes_ready [OF assms(1,2)] assms(3) by (auto simp: decodeBigInt_def)
qed

lemma ByteArray_ready:
  assumes "ready s k c rest" "k \<noteq> List" "length c = n" "n \<noteq> 1"
  shows "\<exists>s'. decodeByteArray n s = (Inr (VByteArray c), s') \<and> lim_ok s'"
proof -
  obtain s1 where s1: "stream_Kind s = (Inr (k, kind_size k c), s1)" "ready s1 k c rest" "cached s1 k c rest"
    using Kind_ready' [OF assms(1)] by blast
  have ok: "kind_ok k c" "lim_ok s1" "length c < 2 ^ 62" using s1(2) by (auto simp: ready_def)
  have k: "k = String" using assms(2-4) ok(1) by (cases k) (auto simp: kind_ok_def small_byte_def)
  then have sz: "kind_size k c = word_of_nat n" using assms(3) by (simp add: kind_size_def)
  have "(word_of_nat n :: u64) \<noteq> 1"
  proof
    assume "(word_of_nat n :: u64) = 1"
    then have "unat (word_of_nat n :: u64) = 1" by simp
    then show False using assms(3,4) ok(3) by (simp add: unat_of_nat)
  qed
  then show ?thesis
    using readFull_cached [OF s1(3) ok(2) _ ok(3)] s1(1) k sz assms(3) by (auto simp: decodeByteArray_def)
qed

text \<open>A stream inside a list, in front of the rest of its content.\<close>

definition in_list :: "Stream \<Rightarrow> bytes \<Rightarrow> bytes \<Rightarrow> bool" where
  "in_list s c rest = (s_kind s = None \<and> s_r s = c @ rest \<and> lim_ok s \<and> stream_inv s
     \<and> (\<exists>p z st. s_stack s = (p, z) # st \<and> unat p + length c = unat z))"

lemma List_ready:
  assumes "ready s List c rest"
  shows "\<exists>s'. stream_List s = (Inr (word_of_nat (length c)), s') \<and> in_list s' c rest"
proof -
  obtain s1 where s1: "stream_Kind s = (Inr (List, kind_size List c), s1)" "ready s1 List c rest" "cached s1 List c rest"
    using Kind_ready' [OF assms(1)] by blast
  then show ?thesis
    by (auto simp: stream_List_def in_list_def cached_def ready_def kind_size_def lim_ok_def stream_inv_def
        stack_ok_def unat_of_nat)
qed

lemma in_list_ready:
  assumes "in_list s (kind_enc k c @ c') rest" "kind_ok k c" "length c < 2 ^ 62"
  shows "ready s k c (c' @ rest)"
  using assms by (auto simp: in_list_def ready_def stack_ok_def)

lemma in_list_took:
  assumes "in_list s (out @ c') rest" "took (Inr out) s s'" "lim_ok s'"
  shows "in_list s' c' rest"
  using assms by (auto simp: in_list_def took_def moved_def vin_def head_of_def)

lemma in_list_end: "in_list s [] rest \<Longrightarrow> \<exists>s'. stream_ListEnd s = (None, s') \<and> lim_ok s'"
  by (auto simp: in_list_def stream_ListEnd_def lim_ok_def word_unat_eq_iff Let_def)

lemma in_list_EOL: "in_list s [] rest \<Longrightarrow> stream_Kind s = (Inl EOL, s\<lparr>s_kinderr := None\<rparr>)"
  by (auto simp: in_list_def stream_Kind_def word_unat_eq_iff)

section \<open>A value in front of the stream\<close>

definition front :: "Stream \<Rightarrow> bytes \<Rightarrow> bytes \<Rightarrow> bool" where
  "front s out rest = (length out < 2 ^ 62 \<and> (\<exists>k c. out = kind_enc k c \<and> ready s k c rest))"

definition str_kind :: "bytes \<Rightarrow> Kind" where
  "str_kind c = (if small_byte c then Byte else String)"

lemma str_kind [simp]: "str_kind c \<noteq> List" "kind_ok (str_kind c) c" "kind_enc (str_kind c) c = rlp_string c"
  by (simp_all add: str_kind_def kind_ok_def kind_enc_def)

lemma kind_enc_inj:
  assumes "kind_enc k c = kind_enc k' c'" "kind_ok k c" "kind_ok k' c'" "length (kind_enc k c) < 2 ^ 62"
  shows "k = k'" "c = c'"
proof -
  have "Some (Inr (k, c, [])) = (Some (Inr (k', c', [])) :: (rlp_error + Kind \<times> bytes \<times> bytes) option)"
    using Split_enc [of k c "[]"] Split_enc [of k' c' "[]"] assms by simp
  then show "k = k'" "c = c'" by simp_all
qed

lemma front_kind:
  "front s (kind_enc k c) rest \<Longrightarrow> kind_ok k c \<Longrightarrow> ready s k c rest"
  unfolding front_def by (metis kind_enc_inj ready_def)

lemma front_string: "front s (rlp_string b) rest \<Longrightarrow> ready s (str_kind b) b rest"
  using front_kind [of s "str_kind b" b rest] by simp

lemma front_list: "front s (rlp_list c) rest \<Longrightarrow> ready s List c rest"
  using front_kind [of s List c rest] by (simp add: kind_enc_def kind_ok_def)

lemma front_Kind:
  assumes "front s out rest"
  shows "\<exists>k c s'. stream_Kind s = (Inr (k, kind_size k c), s') \<and> front s' out rest \<and> out = kind_enc k c
    \<and> kind_ok k c \<and> length c < 2 ^ 62"
proof -
  obtain k c where "out = kind_enc k c" "ready s k c rest" "length out < 2 ^ 62"
    using assms by (auto simp: front_def)
  then show ?thesis using Kind_ready' [of s k c rest] by (force simp: front_def ready_def)
qed

lemma front_inv: "front s out rest \<Longrightarrow> stream_inv s \<and> clean s"
  by (auto simp: front_def dest: ready_inv)

lemma kind_encs:
  "\<exists>k c. rlp_string b = kind_enc k c \<and> kind_ok k c" "\<exists>k c. rlp_list b = kind_enc k c \<and> kind_ok k c"
  by (metis str_kind(2,3)) (auto simp: kind_enc_def kind_ok_def intro: exI [of _ List])

lemma canonical_kind:
  "canonical v t \<Longrightarrow> tails_last t \<Longrightarrow> enc_ref v = Inr out \<Longrightarrow> length out < 2 ^ 62
   \<Longrightarrow> \<exists>k c. out = kind_enc k c \<and> kind_ok k c"
proof (induction v arbitrary: t)
  case (VRaw b)
  then obtain k c where "Split b = Some (Inr (k, c, []))"
    by (auto split: option.splits sum.splits prod.splits)
  then show ?case using Split_iff(1) [of b k c "[]"] VRaw.prems by auto
qed (auto split: gotype.splits if_splits sum.splits val.splits option.splits intro: kind_encs)

lemma canonical_nonempty: "canonical v t \<Longrightarrow> tails_last t \<Longrightarrow> enc_ref v \<noteq> Inr []"
proof
  assume "canonical v t" "tails_last t" "enc_ref v = Inr []"
  then obtain k c where "[] = kind_enc k c" using canonical_kind [of v t "[]"] by auto
  then have "kind_enc k c = []" by simp
  then show False by (auto simp: kind_enc_def split: if_splits)
qed

lemma dec_at_end:
  "dec n t s = Some r \<Longrightarrow> stream_Kind s = (Inl EOL, s1) \<Longrightarrow> tails_last t \<Longrightarrow> r = (Inl EOL, s1)"
proof (induction n t s arbitrary: r rule: dec_decodeSliceElems_dec_array_dec_fields_decodeListSlice.induct(1)
    [where ?P2.0 = "\<lambda>_ _ _. True" and ?P3.0 = "\<lambda>_ _ _ _. True" and ?P4.0 = "\<lambda>_ _ _. True"
      and ?P5.0 = "\<lambda>n t s. \<forall>r. decodeListSlice n t s = Some r \<longrightarrow> stream_Kind s = (Inl EOL, s1)
        \<longrightarrow> r = (Inl EOL, s1)"])
qed (auto simp: map_res_def stream_Raw_def stream_uint_def stream_Bool_def stream_Bytes_def decodeBigInt_def
    decodeByteArray_def stream_List_def)

lemma slice_enc: "enc_ref (VSlice False vs) = Inr out \<longleftrightarrow> (\<exists>c. enc_refs vs = Inr c \<and> out = rlp_list c)"
  by (auto split: sum.splits)

lemma enc_refs_Cons: "enc_refs (v # vs) = Inr c \<longleftrightarrow>
  (\<exists>o1 o2. enc_ref v = Inr o1 \<and> enc_refs vs = Inr o2 \<and> c = o1 @ o2)"
  by (auto split: sum.splits)

text \<open>One element of a list: it is decoded, and the stream is then in front of the others.\<close>

lemma elem_complete:
  assumes "dec n t s = Some (Inr v, s')" "lim_ok s'" "no_byte1 t" "enc_ref v = Inr o1"
    and "in_list s (o1 @ o2) rest"
  shows "in_list s' o2 rest"
proof -
  have "stream_inv s" "clean s" using assms(5) by (auto simp: in_list_def clean_def)
  then have "took (Inr o1) s s'" using dec_sound(1) [OF assms(1,3)] assms(4) by simp
  then show ?thesis using in_list_took [OF assms(5)] assms(2) by blast
qed

lemma elem_front:
  assumes "in_list s (o1 @ o2) rest" "canonical v t" "tails_last t" "enc_ref v = Inr o1" "length (o1 @ o2) < 2 ^ 62"
  shows "front s o1 (o2 @ rest)"
proof -
  obtain k c where k: "o1 = kind_enc k c" "kind_ok k c"
    using canonical_kind [OF assms(2-4)] assms(5) by auto
  moreover have "length c \<le> length o1"
    by (simp add: k(1) kind_enc_def length_rlp_list length_rlp_string)
  ultimately show ?thesis using in_list_ready [of s k c o2 rest] assms(1,5) by (auto simp: front_def)
qed

lemma end_list_complete:
  "in_list s [] rest \<Longrightarrow> \<exists>s'. end_list f (Inr vs, s) = (Inr (f vs), s') \<and> lim_ok s'"
  using in_list_end [of s rest] by (auto simp: end_list_def)

lemma dec_base_complete:
  assumes "front s out rest" "enc_ref v = Inr out" "canonical v t" "no_byte1 t"
    and "t \<in> {TRaw, TBigInt, TBool, TString, TByteSlice} \<or> (\<exists>n. t = TUint n \<or> t = TByteArray n)"
  shows "\<exists>s'. dec (Suc n) t s = Some (Inr v, s') \<and> lim_ok s'"
proof -
  have raw: "\<exists>s'. stream_Raw s = (Inr out, s') \<and> lim_ok s'"
    using assms(1) Raw_ready by (auto simp: front_def)
  show ?thesis
  proof (cases v)
    case (VBigInt i)
    then show ?thesis using assms BigInt_ready [of s "str_kind (be_bytes (nat (the i)))" "the i" rest] front_string
      by (auto split: option.splits if_splits)
  next
    case (VUint i)
    then show ?thesis using assms uint_ready [of s "str_kind (be_bytes (unat i))" i rest] front_string
      by (auto simp: map_res_def split: gotype.splits) force
  next
    case (VBool b)
    then show ?thesis using assms Bool_ready [of s "str_kind (be_bytes (if b then 1 else 0))" b rest] front_string
      by (fastforce simp: map_res_def)
  next
    case (VByteArray b)
    then show ?thesis using assms ByteArray_ready [of s "str_kind b" b rest "length b"] front_string
      by (auto split: gotype.splits)
  next
    case (VRaw b)
    then show ?thesis using assms raw by (auto simp: map_res_def)
  next
    case (VString b)
    then show ?thesis using assms Bytes_ready [of s "str_kind b" b rest] front_string
      by (auto simp: map_res_def)
  next
    case (VBytes b)
    then show ?thesis using assms Bytes_ready [of s "str_kind b" b rest] front_string
      by (auto simp: map_res_def)
  qed (use assms(3,5) in \<open>auto split: gotype.splits\<close>)
qed

lemma nil_complete:
  assumes "front s out rest" "enc_ref (VNilPtr k) = Inr out" "k \<noteq> Byte"
  shows "\<exists>s1. stream_Kind s = (Inr (k, 0), s1) \<and> lim_ok (s1\<lparr>s_kind := None\<rparr>)"
proof -
  have "front s (kind_enc k []) rest" "kind_ok k []"
    using assms by (cases k; simp add: kind_enc_def kind_ok_def small_byte_def)+
  then have "ready s k [] rest" by (rule front_kind)
  then show ?thesis using Kind_ready [of s k "[]" rest] by (auto simp: kind_size_def lim_ok_def)
qed

lemma not_nil_complete:
  assumes "front s out rest" "out \<noteq> [0x80]" "out \<noteq> [0xC0]"
  shows "\<exists>k z s1. stream_Kind s = (Inr (k, z), s1) \<and> front s1 out rest \<and> \<not> (k \<noteq> Byte \<and> z = 0)"
proof -
  obtain k c s' where k: "stream_Kind s = (Inr (k, kind_size k c), s')" "front s' out rest" "out = kind_enc k c"
    "kind_ok k c" "length c < 2 ^ 62"
    using front_Kind [OF assms(1)] by blast
  have "kind_size k c \<noteq> 0" if "k \<noteq> Byte"
  proof
    assume "kind_size k c = 0"
    then have "unat (kind_size k c) = 0" by simp
    then have "c = []" using that k(5) by (simp add: kind_size_def unat_of_nat)
    then show False using assms(2,3) k(3) that
      by (cases k) (simp_all add: kind_enc_def rlp_string_def rlp_list_def rlp_head_def)
  qed
  then show ?thesis using k by blast
qed

definition good :: "gotype \<Rightarrow> Stream \<Rightarrow> bytes \<Rightarrow> bytes \<Rightarrow> bool" where
  "good t s out rest = (tails_last t \<and> front s out rest
     \<or> (\<exists>t'. t = TTail t' \<and> tails_last t') \<and> in_list s out rest \<and> length out < 2 ^ 62)"

lemma dec_complete:
  "dec n t s = Some r \<Longrightarrow> canonical v t \<Longrightarrow> no_byte1 t \<Longrightarrow> enc_ref v = Inr out
     \<Longrightarrow> good t s out rest \<Longrightarrow> \<exists>s'. r = (Inr v, s') \<and> lim_ok s'"
  "decodeSliceElems n t s = Some rs \<Longrightarrow> list_all (\<lambda>v. canonical v t) vs \<Longrightarrow> no_byte1 t \<Longrightarrow> tails_last t
     \<Longrightarrow> enc_refs vs = Inr c \<Longrightarrow> in_list s c rest \<Longrightarrow> length c < 2 ^ 62 \<Longrightarrow> \<exists>s'. rs = (Inr vs, s') \<and> in_list s' [] rest"
  "dec_array n len t s = Some rs \<Longrightarrow> list_all (\<lambda>v. canonical v t) vs \<Longrightarrow> length vs = len \<Longrightarrow> no_byte1 t \<Longrightarrow> tails_last t
     \<Longrightarrow> enc_refs vs = Inr c \<Longrightarrow> in_list s c rest \<Longrightarrow> length c < 2 ^ 62 \<Longrightarrow> \<exists>s'. rs = (Inr vs, s') \<and> in_list s' [] rest"
  "dec_fields n ts s = Some rs \<Longrightarrow> canonicals vs ts \<Longrightarrow> list_all no_byte1 ts \<Longrightarrow> tails_last_fields ts
     \<Longrightarrow> enc_refs vs = Inr c \<Longrightarrow> in_list s c rest \<Longrightarrow> length c < 2 ^ 62 \<Longrightarrow> \<exists>s'. rs = (Inr vs, s') \<and> in_list s' [] rest"
  "decodeListSlice n t s = Some r \<Longrightarrow> list_all (\<lambda>v. canonical v t) vs \<Longrightarrow> no_byte1 t \<Longrightarrow> tails_last t
     \<Longrightarrow> enc_ref (VSlice False vs) = Inr out \<Longrightarrow> front s out rest \<Longrightarrow> \<exists>s'. r = (Inr (VSlice False vs), s') \<and> lim_ok s'"
proof (induction n t s and n t s and n len t s and n ts s and n t s
    arbitrary: r v out rest and rs vs c rest and rs vs c rest and rs vs c rest and r vs out rest
    rule: dec_decodeSliceElems_dec_array_dec_fields_decodeListSlice.induct)
  case (2 n s)
  then show ?case using dec_base_complete [of s out rest v TRaw n] by (auto simp: good_def)
next
  case (3 n s)
  then show ?case using dec_base_complete [of s out rest v TBigInt n] by (auto simp: good_def)
next
  case (4 n bits s)
  then show ?case using dec_base_complete [of s out rest v "TUint bits" n] by (auto simp: good_def)
next
  case (5 n s)
  then show ?case using dec_base_complete [of s out rest v TBool n] by (auto simp: good_def)
next
  case (6 n s)
  then show ?case using dec_base_complete [of s out rest v TString n] by (auto simp: good_def)
next
  case (7 n s)
  then show ?case using dec_base_complete [of s out rest v TByteSlice n] by (auto simp: good_def)
next
  case (8 n len s)
  then show ?case using dec_base_complete [of s out rest v "TByteArray len" n] by (auto simp: good_def)
next
  case (9 n t s)
  then obtain vs where v: "v = VSlice False vs" "list_all (\<lambda>v. canonical v t) vs" by (cases v) auto
  have "decodeListSlice n t s = Some r" "no_byte1 t" "tails_last t" "front s out rest"
    using 9(2,4,6) by (auto simp: good_def)
  then show ?case using 9(1) [of r vs out rest] 9(5) v by blast
next
  case (11 n len t s)
  then obtain vs where v: "v = VSlice False vs" "length vs = len" "list_all (\<lambda>v. canonical v t) vs"
    by (cases v) auto
  then obtain c where c: "enc_refs vs = Inr c" "out = rlp_list c" using 11(5) slice_enc by blast
  have g: "tails_last t" "front s (rlp_list c) rest" using 11(6) c(2) by (auto simp: good_def)
  have ready: "ready s List c rest" using front_list g(2) by blast
  then obtain s1 where s1: "stream_List s = (Inr (word_of_nat (length c)), s1)" "in_list s1 c rest"
    using List_ready by blast
  obtain rs where rs: "dec_array n len t s1 = Some rs" "r = end_list (VSlice False) rs"
    using 11(2) s1(1) by auto
  have "length c < 2 ^ 62" using ready by (simp add: ready_def)
  then have "\<exists>s'. rs = (Inr vs, s') \<and> in_list s' [] rest"
    using 11(1) [OF s1(1) [symmetric] refl rs(1) v(3,2)] 11(4) g(1) c(1) s1(2) by simp
  then show ?case unfolding rs(2) v(1) using end_list_complete by metis
next
  case (12 n ts s)
  then obtain vs where v: "v = VStruct vs" "canonicals vs ts" by (cases v) auto
  then obtain c where c: "enc_refs vs = Inr c" "out = rlp_list c" using 12(5) by (auto split: sum.splits)
  have g: "tails_last_fields ts" "front s (rlp_list c) rest" using 12(6) c(2) by (auto simp: good_def)
  have ready: "ready s List c rest" using front_list g(2) by blast
  then obtain s1 where s1: "stream_List s = (Inr (word_of_nat (length c)), s1)" "in_list s1 c rest"
    using List_ready by blast
  obtain rs where rs: "dec_fields n ts s1 = Some rs" "r = end_list VStruct rs"
    using 12(2) s1(1) by auto
  have "length c < 2 ^ 62" using ready by (simp add: ready_def)
  then have "\<exists>s'. rs = (Inr vs, s') \<and> in_list s' [] rest"
    using 12(1) [OF s1(1) [symmetric] refl rs(1) v(2)] 12(4) g(1) c(1) s1(2) by simp
  then show ?case unfolding rs(2) v(1) using end_list_complete by metis
next
  case (13 n t s)
  then obtain v' where v: "v = VPtr v'" "canonical v' t" by (cases v) auto
  then obtain r' where r': "dec n t s = Some r'" "r = map_res VPtr r'" using 13(2) by auto
  have "good t s out rest" "no_byte1 t" "enc_ref v' = Inr out"
    using 13(4-6) v(1) by (auto simp: good_def)
  then have "\<exists>s'. r' = (Inr v', s') \<and> lim_ok s'" using 13(1) [OF r'(1) v(2)] by blast
  then show ?case using r'(2) v(1) by (auto simp: map_res_def)
next
  case (14 n k t s)
  have g: "tails_last t" "front s out rest" using 14(6) by (auto simp: good_def)
  from 14 consider "v = VNilPtr k" "k \<noteq> Byte"
    | v' where "v = VPtr v'" "canonical v' t" "enc_ref v' \<noteq> Inr [0x80]" "enc_ref v' \<noteq> Inr [0xC0]"
    by (cases v) auto
  then show ?case
  proof cases
    case 1
    then show ?thesis using nil_complete [OF g(2), of k] 14(2,5) by auto
  next
    case 2
    then obtain k' z s1 where k: "stream_Kind s = (Inr (k', z), s1)" "front s1 out rest" "\<not> (k' \<noteq> Byte \<and> z = 0)"
      using not_nil_complete [OF g(2)] 14(5) by auto
    then obtain r' where r': "dec n t s1 = Some r'" "r = map_res VPtr r'"
      using 14(2) by (auto split: if_splits)
    have "\<exists>s'. r' = (Inr v', s') \<and> lim_ok s'"
      using 14(1) [OF k(1) [symmetric] refl refl k(3) r'(1) 2(2)] 14(4,5) 2(1) k(2) g(1) by (auto simp: good_def)
    then show ?thesis using r'(2) 2(1) by (auto simp: map_res_def)
  qed
next
  case (15 n s)
  have g: "front s out rest" using 15(6) by (auto simp: good_def)
  from 15 consider b where "v = VInterface (VBytes b)"
    | vs where "v = VInterface (VSlice False vs)" "list_all (\<lambda>v. canonical v TInterface) vs"
    by (cases v) (auto split: val.splits)
  then show ?case
  proof cases
    case 1
    then have "ready s (str_kind b) b rest" using front_string 15(5) g by auto
    then obtain s1 where "stream_Kind s = (Inr (str_kind b, kind_size (str_kind b) b), s1)" "ready s1 (str_kind b) b rest"
      using Kind_ready' by blast
    then show ?thesis using 15(2) 1 Bytes_ready [of s1 "str_kind b" b rest] by (auto simp: map_res_def)
  next
    case 2
    then obtain c where c: "enc_refs vs = Inr c" "out = rlp_list c" using 15(5) slice_enc by auto
    have rl: "ready s List c rest" using front_list g c(2) by blast
    then obtain s1 where s1: "stream_Kind s = (Inr (List, kind_size List c), s1)" "ready s1 List c rest"
      using Kind_ready' by blast
    then have fr: "front s1 out rest"
      using g c(2) by (auto simp: front_def kind_enc_def intro!: exI [of _ List])
    obtain r' where r': "decodeListSlice n TInterface s1 = Some r'" "r = map_res VInterface r'"
      using 15(2) s1(1) by auto
    have "\<exists>s'. r' = (Inr (VSlice False vs), s') \<and> lim_ok s'"
      using 15(1) [OF s1(1) [symmetric] refl refl refl r'(1) 2(2)] 15(5) 2(1) fr by auto
    then show ?thesis using r'(2) 2(1) by (auto simp: map_res_def)
  qed
next
  case (17 n t s)
  then obtain c where c: "enc_refs vs = Inr c" "out = rlp_list c" using slice_enc by blast
  have ready: "ready s List c rest" using front_list 17(7) c(2) by blast
  then obtain s1 where s1: "stream_List s = (Inr (word_of_nat (length c)), s1)" "in_list s1 c rest"
    using List_ready by blast
  have len: "length c < 2 ^ 62" using ready by (simp add: ready_def)
  show ?case
  proof (cases "(word_of_nat (length c) :: u64) = 0")
    case True
    then have "unat (word_of_nat (length c) :: u64) = 0" by simp
    then have "c = []" using len by (simp add: unat_of_nat)
    moreover have "vs = []" if "enc_refs vs = Inr []"
      using that 17(3,5) canonical_nonempty by (cases vs) (auto split: sum.splits)
    ultimately show ?thesis using 17(2) s1 c(1) end_list_complete by auto
  next
    case False
    then obtain rs where rs: "decodeSliceElems n t s1 = Some rs" "r = end_list (VSlice False) rs"
      using 17(2) s1(1) by auto
    have "\<exists>s'. rs = (Inr vs, s') \<and> in_list s' [] rest"
      using 17(1) [OF s1(1) [symmetric] refl False rs(1) 17(3)] 17(4,5) c(1) s1(2) len by simp
    then show ?thesis unfolding rs(2) using end_list_complete by metis
  qed
next
  case (19 n t s)
  show ?case
  proof (cases vs)
    case Nil
    then have l: "in_list s [] rest" using 19(7,8) by simp
    obtain d where d: "dec n t s = Some d" using 19(3) by (auto split: option.splits)
    then have "d = (Inl EOL, s\<lparr>s_kinderr := None\<rparr>)"
      using dec_at_end [OF d in_list_EOL [OF l]] 19(6) by blast
    moreover have "in_list (s\<lparr>s_kinderr := None\<rparr>) [] rest"
      using l by (auto simp: in_list_def lim_ok_def stream_inv_def)
    ultimately show ?thesis using 19(3) d Nil by auto
  next
    case (Cons v vs')
    then obtain o1 o2 where o: "enc_ref v = Inr o1" "enc_refs vs' = Inr o2" "c = o1 @ o2"
      using 19(7) enc_refs_Cons by blast
    obtain d where d: "dec n t s = Some d" using 19(3) by (auto split: option.splits)
    have ty: "canonical v t" "list_all (\<lambda>v. canonical v t) vs'" using 19(4) Cons by simp_all
    have "front s o1 (o2 @ rest)" using elem_front 19(6,8,9) ty(1) o by blast
    then obtain s1 where s1: "d = (Inr v, s1)" "lim_ok s1"
      using 19(1) [OF d ty(1) 19(5) o(1)] 19(6) by (auto simp: good_def)
    then obtain rs' where rs: "decodeSliceElems n t s1 = Some rs'" "rs = map_res ((#) v) rs'"
      using 19(3) d by auto
    have "in_list s1 o2 rest" using elem_complete d s1 19(5,8) o by blast
    then have "\<exists>s'. rs' = (Inr vs', s') \<and> in_list s' [] rest"
      using 19(2) [OF d s1(1) [symmetric] refl rs(1) ty(2) 19(5,6) o(2)] 19(9) o(3) by simp
    then show ?thesis using rs(2) Cons by (auto simp: map_res_def)
  qed
next
  case (22 n len t s)
  then obtain v vs' where vs: "vs = v # vs'" by (cases vs) auto
  then obtain o1 o2 where o: "enc_ref v = Inr o1" "enc_refs vs' = Inr o2" "c = o1 @ o2"
    using 22(8) enc_refs_Cons by blast
  obtain d where d: "dec n t s = Some d" using 22(3) by (auto split: option.splits)
  have ty: "canonical v t" "list_all (\<lambda>v. canonical v t) vs'" "length vs' = len" using 22(4,5) vs by simp_all
  have "front s o1 (o2 @ rest)" using elem_front 22(7,9,10) ty(1) o by blast
  then obtain s1 where s1: "d = (Inr v, s1)" "lim_ok s1"
    using 22(1) [OF d ty(1) 22(6) o(1)] 22(7) by (auto simp: good_def)
  then obtain rs' where rs: "dec_array n len t s1 = Some rs'" "rs = map_res ((#) v) rs'"
    using 22(3) d by auto
  have "in_list s1 o2 rest" using elem_complete d s1 22(6,9) o by blast
  then have "\<exists>s'. rs' = (Inr vs', s') \<and> in_list s' [] rest"
    using 22(2) [OF d s1(1) [symmetric] refl rs(1) ty(2,3) 22(6,7) o(2)] 22(10) o(3) by simp
  then show ?case using rs(2) vs by (auto simp: map_res_def)
next
  case (25 n t ts s)
  then obtain v vs' where vs: "vs = v # vs'" "canonical v t" "canonicals vs' ts" by (cases vs) auto
  then obtain o1 o2 where o: "enc_ref v = Inr o1" "enc_refs vs' = Inr o2" "c = o1 @ o2"
    using 25(7) enc_refs_Cons by blast
  obtain d where d: "dec n t s = Some d" using 25(3) by (auto split: option.splits)
  have f: "field_ok t" "tails_last_fields ts" using tails_last_fields_Cons 25(6) by blast+
  have nb: "no_byte1 t" "list_all no_byte1 ts" using 25(5) by simp_all
  have "good t s o1 (o2 @ rest)"
  proof (cases "tails_last t")
    case True
    then show ?thesis using elem_front [OF 25(8) [unfolded o(3)] vs(2) _ o(1)] 25(9) o(3) by (auto simp: good_def)
  next
    case False
    with f(1) 25(6) have "ts = []" by (cases t; cases ts) (auto simp: field_ok_def)
    then have "o2 = []" using vs(3) o(2) by (cases vs') auto
    then show ?thesis using False f(1) 25(8,9) o(3) by (auto simp: good_def field_ok_def)
  qed
  then obtain s1 where s1: "d = (Inr v, s1)" "lim_ok s1"
    using 25(1) [OF d vs(2) nb(1) o(1)] by blast
  then obtain rs' where rs: "dec_fields n ts s1 = Some rs'" "rs = map_res ((#) v) rs'"
    using 25(3) d by auto
  have "in_list s1 o2 rest" using elem_complete d s1 nb(1) 25(8) o by blast
  then have "\<exists>s'. rs' = (Inr vs', s') \<and> in_list s' [] rest"
    using 25(2) [OF d s1(1) [symmetric] refl rs(1) vs(3) nb(2) f(2) o(2)] 25(9) o(3) by simp
  then show ?case using rs(2) vs(1) by (auto simp: map_res_def)
next
  case (10 n t s)
  then obtain vs where v: "v = VSlice True vs" "list_all (\<lambda>v. canonical v t) vs" by (cases v) auto
  then obtain rs where rs: "decodeSliceElems n t s = Some rs" "r = map_res (VSlice True) rs"
    using 10(2) by auto
  have "enc_refs vs = Inr out" "in_list s out rest" "length out < 2 ^ 62" "tails_last t"
    using 10(5,6) v(1) by (auto simp: good_def split: sum.splits)
  then have "\<exists>s'. rs = (Inr vs, s') \<and> in_list s' [] rest"
    using 10(1) [OF rs(1) v(2)] 10(4) by simp
  then show ?case using rs(2) v(1) by (auto simp: map_res_def in_list_def)
next
  case (21 n t s)
  then show ?case by (auto simp del: not_None_eq)
next
  case (24 n s)
  then show ?case by (cases vs) auto
qed simp_all

lemma NewStream_front:
  assumes "canonical v t" "tails_last t" "enc_ref v = Inr out" "length out < 2 ^ 62"
  shows "good t (NewStream out (word_of_nat (length out))) out []"
proof -
  obtain k c where k: "out = kind_enc k c" "kind_ok k c" using canonical_kind [OF assms] by blast
  have "length c \<le> length out" by (simp add: k(1) kind_enc_def length_rlp_list length_rlp_string)
  then have "ready (NewStream out (word_of_nat (length out))) k c []"
    using k assms(4)
    by (auto simp: ready_def stream_inv_def NewStream_def lim_ok_def stack_ok_def unat_of_nat word_of_nat_eq_0_iff)
  then show ?thesis using assms(2,4) k(1) by (auto simp: good_def front_def)
qed

lemma DecodeBytes_complete:
  assumes "canonical v t" "no_byte1 t" "tails_last t" "enc_ref v = Inr out" "length out < 2 ^ 62"
  shows "DecodeBytes out t = Some (Inr v)"
proof -
  let ?s = "NewStream out (word_of_nat (length out))"
  have "dec (dec_fuel t out) t ?s \<noteq> None"
    using DecodeBytes_returns [OF assms(2,3), of out] by (auto simp: DecodeBytes_def split: option.splits)
  then obtain r where r: "dec (dec_fuel t out) t ?s = Some r" by blast
  then obtain s' where s': "r = (Inr v, s')"
    using dec_complete(1) [OF r assms(1,2,4) NewStream_front [OF assms(1,3,4,5)]] by blast
  have "took (Inr out) ?s s'"
    using dec_sound(1) [OF r [unfolded s'] assms(2) NewStream_ok(1,2)] assms(4) by simp
  then have "s_r s' = []" by (auto simp: took_def moved_def NewStream_ok(3) vin_def [of s'] head_of_def [of s'])
  then show ?thesis using r s' by (simp add: DecodeBytes_def)
qed

section \<open>What is decoded is canonical\<close>

text \<open>The types without raw values, whose content is not looked at, and with the widths of integers that Go has.\<close>

fun no_raw :: "gotype \<Rightarrow> bool" where
  "no_raw TRaw = False"
| "no_raw (TUint bits) = (8 \<le> bits)"
| "no_raw (TSlice t) = no_raw t"
| "no_raw (TTail t) = no_raw t"
| "no_raw (TArray n t) = no_raw t"
| "no_raw (TStruct ts) = list_all no_raw ts"
| "no_raw (TPtr t) = no_raw t"
| "no_raw (TNilPtr k t) = no_raw t"
| "no_raw _ = True"

lemma stream_uint_range:
  assumes "stream_uint bits s = (Inr i, s')" "stream_inv s" "8 \<le> bits" "bits \<le> 64"
  shows "unat i < 256 ^ (bits div 8)"
proof -
  obtain k sz s1 where k: "stream_Kind s = (Inr (k, sz), s1)"
    using assms(1) by (auto simp: stream_uint_def split: prod.splits sum.splits)
  note K = stream_Kind_ok [OF k assms(2)]
  show ?thesis
  proof (cases k)
    case Byte
    then have "i = ucast (s_byteval s1)" using assms(1) k by (auto simp: stream_uint_def split: if_splits)
    moreover have "unat (s_byteval s1) < 256 ^ (bits div 8)"
    proof (rule order_less_le_trans)
      show "unat (s_byteval s1) < 256 ^ 1" using unsigned_less [of "s_byteval s1", where ?'a = nat] by simp
      show "(256 :: nat) ^ 1 \<le> 256 ^ (bits div 8)" using assms(3) by (intro power_increasing) auto
    qed
    ultimately show ?thesis by (simp add: unat_ucast_byte)
  next
    case String
    then have sz: "\<not> sz > word_of_nat (bits div 8)" and r: "readUint (ucast sz) s1 = (Inr i, s')"
      using assms(1) k by (auto simp: stream_uint_def split: if_splits prod.splits sum.splits)
    have l: "unat sz \<le> bits div 8" using sz assms(4) by (simp add: word_less_nat_alt unat_of_nat)
    then have u: "unat (ucast sz :: byte) = unat sz" using assms(4) by (simp add: unsigned_ucast_eq take_bit_eq_mod)
    obtain b where b: "length b = unat sz" "i = word_of_nat (be_nat b)"
      using readUint_ok [OF r] K(4) u by (auto simp: stream_inv_def)
    have "be_nat b < 256 ^ (bits div 8)"
      by (rule order_less_le_trans [OF be_nat_less power_increasing]) (use b(1) l in simp_all)
    moreover have "unat i \<le> be_nat b" by (simp add: b(2) unat_of_nat)
    ultimately show ?thesis by simp
  qed (use assms(1) k in \<open>simp add: stream_uint_def\<close>)
qed

lemma rlp_head_not_empty:
  assumes "0 < n" "n < 2 ^ 64"
  shows "hd (rlp_head 0x80 0xB7 n) \<noteq> 0x80" "hd (rlp_head 0xC0 0xF7 n) \<noteq> 0x80"
    "hd (rlp_head 0x80 0xB7 n) \<noteq> 0xC0" "hd (rlp_head 0xC0 0xF7 n) \<noteq> 0xC0"
proof -
  have l: "1 \<le> length (be_bytes n)" "length (be_bytes n) \<le> 8" if "56 \<le> n" using length_be_bytes_range [OF that assms(2)] by auto
  have "unat (hd (rlp_head 0x80 0xB7 n)) \<noteq> 0x80 \<and> unat (hd (rlp_head 0x80 0xB7 n)) \<noteq> 0xC0"
    "unat (hd (rlp_head 0xC0 0xF7 n)) \<noteq> 0x80 \<and> unat (hd (rlp_head 0xC0 0xF7 n)) \<noteq> 0xC0"
    using assms(1) l unat_tag(1,3) [of n] unat_tag(2,4) [of "length (be_bytes n)"]
    by (cases "n < 56"; simp add: rlp_head_def)+
  then show "hd (rlp_head 0x80 0xB7 n) \<noteq> 0x80" "hd (rlp_head 0xC0 0xF7 n) \<noteq> 0x80"
    "hd (rlp_head 0x80 0xB7 n) \<noteq> 0xC0" "hd (rlp_head 0xC0 0xF7 n) \<noteq> 0xC0"
    by auto
qed

lemma not_empty_value:
  assumes "stream_Kind s = (Inr (k, sz), s1)" "stream_inv s" "\<not> (k \<noteq> Byte \<and> sz = 0)" "took e s1 s2"
  shows "e \<noteq> Inr [0x80]" "e \<noteq> Inr [0xC0]"
proof -
  note K = stream_Kind_ok [OF assms(1,2)]
  obtain out where out: "e = Inr out" "vin s1 = out @ vin s2" using assms(4) by (auto simp: took_def moved_def)
  have n: "0 < unat sz" if "k \<noteq> Byte" using assms(3) that unat_gt_0 [of sz] by blast
  have "hd (vin s1) \<noteq> 0x80 \<and> hd (vin s1) \<noteq> 0xC0"
  proof (cases k)
    case Byte
    then have "s_byteval s1 \<le> 0x7F" "head_of s1 = [s_byteval s1]" using K(1-4) by (auto simp: stream_inv_def head_of_def)
    then show ?thesis by (auto simp: vin_def)
  next
    case String
    then show ?thesis using K(1,2) n rlp_head_not_empty [of "unat sz"] unsigned_less [of sz, where ?'a = nat]
      by (simp add: vin_def head_of_def)
  next
    case List
    then show ?thesis using K(1,2) n rlp_head_not_empty [of "unat sz"] unsigned_less [of sz, where ?'a = nat]
      by (simp add: vin_def head_of_def)
  qed
  then show "e \<noteq> Inr [0x80]" "e \<noteq> Inr [0xC0]" using out by auto
qed

lemma decodeByteArray_length:
  assumes "decodeByteArray n s = (Inr v, s')" "stream_inv s" "n < 2 ^ 64"
  shows "\<exists>b. v = VByteArray b \<and> length b = n"
proof -
  obtain k sz s1 where k: "stream_Kind s = (Inr (k, sz), s1)"
    using assms(1) by (auto simp: decodeByteArray_def split: prod.splits sum.splits)
  have ok: "stack_ok (s_stack s1) 0" using stream_Kind_ok(4) [OF k assms(2)] by (simp add: stream_inv_def)
  show ?thesis
    using assms(1,3) k ok readFull_ok(2) [of n s1]
    by (cases k) (auto simp: decodeByteArray_def split: if_splits prod.splits sum.splits)
qed

lemma dec_base_canonical:
  assumes "dec (Suc n) t s = Some (Inr v, s')" "no_byte1 t" "no_raw t" "stream_inv s"
    and "t \<in> {TBigInt, TBool, TString, TByteSlice} \<or> (\<exists>n. t = TUint n \<or> t = TByteArray n)"
  shows "canonical v t"
proof (cases t)
  case (TByteArray len)
  then show ?thesis using assms decodeByteArray_length [of len s v s'] by auto
qed (use assms stream_uint_range [of _ s] in
    \<open>auto simp: map_res_Inr decodeBigInt_def split: prod.splits sum.splits if_splits\<close>)

lemma dec_canonical:
  "dec n t s = Some (Inr v, s') \<Longrightarrow> no_byte1 t \<Longrightarrow> no_raw t \<Longrightarrow> stream_inv s \<Longrightarrow> clean s \<Longrightarrow> canonical v t"
  "decodeSliceElems n t s = Some (Inr vs, s') \<Longrightarrow> no_byte1 t \<Longrightarrow> no_raw t \<Longrightarrow> stream_inv s \<Longrightarrow> clean s
     \<Longrightarrow> list_all (\<lambda>v. canonical v t) vs"
  "dec_array n len t s = Some (Inr vs, s') \<Longrightarrow> no_byte1 t \<Longrightarrow> no_raw t \<Longrightarrow> stream_inv s \<Longrightarrow> s_kind s = None
     \<Longrightarrow> length vs = len \<and> list_all (\<lambda>v. canonical v t) vs"
  "dec_fields n ts s = Some (Inr vs, s') \<Longrightarrow> list_all no_byte1 ts \<Longrightarrow> list_all no_raw ts \<Longrightarrow> stream_inv s \<Longrightarrow> s_kind s = None
     \<Longrightarrow> canonicals vs ts"
  "decodeListSlice n t s = Some (Inr v, s') \<Longrightarrow> no_byte1 t \<Longrightarrow> no_raw t \<Longrightarrow> stream_inv s \<Longrightarrow> clean s
     \<Longrightarrow> \<exists>vs. v = VSlice False vs \<and> list_all (\<lambda>v. canonical v t) vs"
proof (induction n t s and n t s and n len t s and n ts s and n t s
    arbitrary: v s' and vs s' and vs s' and vs s' and v s'
    rule: dec_decodeSliceElems_dec_array_dec_fields_decodeListSlice.induct)
  case (3 n s)
  then show ?case using dec_base_canonical [of n TBigInt s v s'] by simp
next
  case (4 n bits s)
  then show ?case using dec_base_canonical [of n "TUint bits" s v s'] by simp
next
  case (5 n s)
  then show ?case using dec_base_canonical [of n TBool s v s'] by simp
next
  case (6 n s)
  then show ?case using dec_base_canonical [of n TString s v s'] by simp
next
  case (7 n s)
  then show ?case using dec_base_canonical [of n TByteSlice s v s'] by simp
next
  case (8 n len s)
  then show ?case using dec_base_canonical [of n "TByteArray len" s v s'] by simp
next
  case (9 n t s)
  then show ?case by force
next
  case (10 n t s)
  then show ?case by (auto simp: map_res_Inr)
next
  case (11 n len t s)
  then obtain sz s1 vs s2 where l: "stream_List s = (Inr sz, s1)" "dec_array n len t s1 = Some (Inr vs, s2)" "v = VSlice False vs"
    by (auto simp: end_list_Inr split: prod.splits sum.splits)
  then show ?case using 11(1) [OF l(1) [symmetric] refl l(2)] 11(3-5) stream_List_ok(2,3) [OF l(1)] by simp
next
  case (12 n ts s)
  then obtain sz s1 vs s2 where l: "stream_List s = (Inr sz, s1)" "dec_fields n ts s1 = Some (Inr vs, s2)" "v = VStruct vs"
    by (auto simp: end_list_Inr split: prod.splits sum.splits)
  then show ?case using 12(1) [OF l(1) [symmetric] refl l(2)] 12(3-5) stream_List_ok(2,3) [OF l(1)] by simp
next
  case (13 n t s)
  then show ?case by (auto simp: map_res_Inr)
next
  case (14 n nilKind t s)
  then obtain k sz s1 where k: "stream_Kind s = (Inr (k, sz), s1)"
    by (auto split: prod.splits sum.splits)
  note K = stream_Kind_ok [OF k 14(5)] and c = stream_Kind_clean [OF k]
  show ?case
  proof (cases "k \<noteq> Byte \<and> sz = 0")
    case True
    then show ?thesis using 14(2) k by (auto split: if_splits)
  next
    case False
    then obtain v' where v': "dec n t s1 = Some (Inr v', s')" "v = VPtr v'"
      using 14(2) k by (auto simp: map_res_Inr split: if_splits)
    have "canonical v' t" using 14(1) [OF k [symmetric] refl refl False v'(1)] 14(3,4) K(4) c by simp
    moreover have "took (enc_ref v') s1 s'" using dec_sound(1) [OF v'(1)] 14(3) K(4) c by simp
    ultimately show ?thesis using not_empty_value [OF k 14(5) False] v'(2) by simp
  qed
next
  case (15 n s)
  then obtain k sz s1 where k: "stream_Kind s = (Inr (k, sz), s1)"
    by (auto split: prod.splits sum.splits)
  note K = stream_Kind_ok [OF k 15(5)] and c = stream_Kind_clean [OF k]
  show ?case
  proof (cases "k = List")
    case True
    then obtain v' where v': "decodeListSlice n TInterface s1 = Some (Inr v', s')" "v = VInterface v'"
      using 15(2) k by (auto simp: map_res_Inr)
    then show ?thesis using 15(1) [OF k [symmetric] refl refl True v'(1)] K(4) c by auto
  next
    case False
    then show ?thesis using 15(2) k by (auto simp: map_res_Inr)
  qed
next
  case (17 n t s)
  then obtain sz s1 where l: "stream_List s = (Inr sz, s1)" by (auto split: prod.splits sum.splits)
  note L = stream_List_ok(2,3) [OF l 17(5)]
  show ?case
  proof (cases "sz = 0")
    case True
    then show ?thesis using 17(2) l by (auto simp: end_list_Inr)
  next
    case False
    then obtain vs s2 where vs: "decodeSliceElems n t s1 = Some (Inr vs, s2)" "v = VSlice False vs"
      using 17(2) l by (auto simp: end_list_Inr)
    then show ?thesis using 17(1) [OF l [symmetric] refl False vs(1)] 17(3,4) L by (simp add: clean_def)
  qed
next
  case (19 n t s)
  then obtain res s1 where d: "dec n t s = Some (res, s1)" by (auto split: option.splits)
  show ?case
  proof (cases res)
    case (Inl e)
    then show ?thesis using 19(3) d by (auto split: if_splits)
  next
    case (Inr v)
    then obtain vs' where vs: "decodeSliceElems n t s1 = Some (Inr vs', s')" "vs = v # vs'"
      using 19(3) d by (auto simp: map_res_Inr)
    have "took (enc_ref v) s s1" using dec_sound(1) [of n t s v s1] 19(4,6,7) d Inr by simp
    then show ?thesis
      using 19(1) [OF d [unfolded Inr] 19(4-7)] 19(2) [OF d [unfolded Inr] refl refl vs(1) 19(4,5)] took_clean vs(2) by simp
  qed
next
  case (22 n len t s)
  then obtain v s1 vs' where d: "dec n t s = Some (Inr v, s1)" "dec_array n len t s1 = Some (Inr vs', s')" "vs = v # vs'"
    by (auto simp: map_res_Inr split: option.splits sum.splits)
  have c: "clean s" using 22(7) by (simp add: clean_def)
  have "took (enc_ref v) s s1" using dec_sound(1) [OF d(1)] 22(4,6) c by simp
  then show ?case
    using 22(1) [OF d(1) 22(4-6) c] 22(2) [OF d(1) refl refl d(2) 22(4,5)] d(3) by (auto simp: took_def)
next
  case (25 n t ts s)
  then obtain v s1 vs' where d: "dec n t s = Some (Inr v, s1)" "dec_fields n ts s1 = Some (Inr vs', s')" "vs = v # vs'"
    by (auto simp: map_res_Inr split: option.splits sum.splits)
  have c: "clean s" using 25(7) by (simp add: clean_def)
  have nb: "no_byte1 t" "list_all no_byte1 ts" "no_raw t" "list_all no_raw ts" using 25(4,5) by simp_all
  have "took (enc_ref v) s s1" using dec_sound(1) [OF d(1)] 25(6) nb c by simp
  then show ?case
    using 25(1) [OF d(1) nb(1,3) 25(6) c] 25(2) [OF d(1) refl refl d(2) nb(2,4)] d(3) by (auto simp: took_def)
qed simp_all

lemma DecodeBytes_canonical_value:
  assumes "DecodeBytes b t = Some (Inr v)" "no_byte1 t" "no_raw t"
  shows "canonical v t"
proof -
  obtain s' where "dec (dec_fuel t b) t (NewStream b (word_of_nat (length b))) = Some (Inr v, s')"
    using assms(1) by (auto simp: DecodeBytes_def split: option.splits sum.splits if_splits)
  then show ?thesis using dec_canonical(1) assms(2,3) NewStream_ok(1,2) by blast
qed

section \<open>Properties\<close>

text \<open>
  C5. Decoding inverts encoding exactly on the canonical values. For every type without a one-byte array, with tail fields only
  at the end of a struct, and a value with an encoding shorter than 2 to the 62 bytes: if the value is canonical for the type, \<^verbatim>\<open>DecodeBytes\<close> reads it back from what
  \<^verbatim>\<open>EncodeToBytes\<close> writes; if it is not, then what is read back, if anything, is another value, provided
  the type has no raw values. So a \<^verbatim>\<open>nil\<close> \<^verbatim>\<open>*big.Int\<close>, a \<^verbatim>\<open>nil\<close> pointer without a nil tag, a \<^verbatim>\<open>nil\<close> interface and the other
  values that \<open>canonical\<close> leaves out do not survive the round trip.
\<close>

theorem DecodeBytes_EncodeToBytes:
  assumes "no_byte1 t" "tails_last t" "enc_ref v = Inr out" "length out < 2 ^ 62"
  shows "EncodeToBytes v = Some (Inr out)
    \<and> (canonical v t \<longrightarrow> DecodeBytes out t = Some (Inr v))
    \<and> (no_raw t \<and> \<not> canonical v t \<longrightarrow> DecodeBytes out t \<noteq> Some (Inr v))"
  using DecodeBytes_complete [OF _ assms] DecodeBytes_canonical_value [of out t v] EncodeToBytes_enc_ref [of v] assms by auto

theorem DecodeBytes_EncodeToBytes_witness:
  "DecodeBytes [0xc5, 0x82, 0x04, 0x00, 0x80, 0x07] (TStruct [TUint 64, TByteSlice, TTail TBigInt])
     = Some (Inr (VStruct [VUint 1024, VBytes [], VSlice True [VBigInt (Some 7)]]))
   \<and> EncodeToBytes (VPtr (VBigInt None)) = Some (Inr [0x80]) \<and> DecodeBytes [0x80] (TPtr TBigInt) \<noteq> Some (Inr (VPtr (VBigInt None)))"
proof -
  let ?v = "VStruct [VUint 1024, VBytes [], VSlice True [VBigInt (Some 7)]]"
  have enc: "enc_ref ?v = Inr [0xc5, 0x82, 0x04, 0x00, 0x80, 0x07]"
    by (simp add: rlp_string_def rlp_head_def rlp_list_def be_bytes.simps)
  then have "DecodeBytes [0xc5, 0x82, 0x04, 0x00, 0x80, 0x07] (TStruct [TUint 64, TByteSlice, TTail TBigInt]) = Some (Inr ?v)"
    using DecodeBytes_EncodeToBytes [of "TStruct [TUint 64, TByteSlice, TTail TBigInt]" ?v] by simp
  moreover have "enc_ref (VPtr (VBigInt None)) = Inr [0x80]" by (simp add: rlp_string_def rlp_head_def)
  ultimately show ?thesis
    using DecodeBytes_EncodeToBytes [of "TPtr TBigInt" "VPtr (VBigInt None)" "[0x80]"] by simp
qed

text \<open>
  C6. Decoding is canonical for the types without a one-byte array: an input shorter than 2 to the 64 bytes that \<^verbatim>\<open>DecodeBytes\<close>
  accepts for such a type is the encoding of the value it returns, so no value of the type has two accepted encodings.
\<close>

theorem DecodeBytes_canonical:
  assumes "no_byte1 t" "length b < 2 ^ 64" "DecodeBytes b t = Some (Inr v)"
  shows "EncodeToBytes v = Some (Inr b)"
  using EncodeToBytes_enc_ref [of v] DecodeBytes_sound [OF assms(3,1)] assms(2) by simp

theorem DecodeBytes_canonical_witness:
  "DecodeBytes [0x83, 0x64, 0x6f, 0x67] TString = Some (Inr (VString [0x64, 0x6f, 0x67]))
   \<and> EncodeToBytes (VString [0x64, 0x6f, 0x67]) = Some (Inr [0x83, 0x64, 0x6f, 0x67])"
proof -
  have "DecodeBytes [0x83, 0x64, 0x6f, 0x67] TString = Some (Inr (VString [0x64, 0x6f, 0x67]))"
    using DecodeBytes_complete [of "VString [0x64, 0x6f, 0x67]" TString "[0x83, 0x64, 0x6f, 0x67]"]
    by (simp add: rlp_string_def rlp_head_def)
  then show ?thesis
    using DecodeBytes_canonical [of TString "[0x83, 0x64, 0x6f, 0x67]" "VString [0x64, 0x6f, 0x67]"] by simp
qed

text \<open>C12. \<^verbatim>\<open>DecodeBytes\<close> returns on every input, for every type without a one-byte array.\<close>

theorem DecodeBytes_terminates:
  assumes "no_byte1 t" "tails_last t"
  shows "\<exists>r. DecodeBytes b t = Some r"
  using DecodeBytes_returns [OF assms, of b] by blast

theorem DecodeBytes_terminates_witness:
  "\<exists>r. DecodeBytes [0xc1, 0x00] (TSlice (TByteArray 20)) = Some r"
  by (rule DecodeBytes_terminates) simp_all

text \<open>The stream that a slice of one-byte arrays sees in front of a zero byte.\<close>

lemma zero_byte_stuck:
  assumes "s_kind s = Some Byte" "s_kinderr s = None" "s_byteval s = 0"
  shows "decodeSliceElems n (TByteArray 1) s = None"
proof (induction n)
  case (Suc n)
  have "decodeByteArray 1 s = (Inr (VByteArray [0]), s)"
    using assms by (simp add: decodeByteArray_def stream_Kind_def stream_uint_def)
  then show ?case using Suc by (cases n) simp_all
qed simp

lemma byte1_first:
  defines "s \<equiv> NewStream [0xc1, 0x00] 2"
  obtains s1 s2 where "stream_List s = (Inr 1, s1)" "decodeByteArray 1 s1 = (Inr (VByteArray [0]), s2)"
    "s_kind s2 = Some Byte" "s_kinderr s2 = None" "s_byteval s2 = 0"
proof -
  have l: "stream_List s = (Inr 1, \<lparr>s_r = [0], s_remaining = 1, s_limited = True, s_kind = None, s_size = 0,
      s_byteval = 0, s_kinderr = None, s_stack = [(0, 1)]\<rparr>)"
    by (simp add: s_def NewStream_def stream_List_def stream_Kind_def stream_readKind_def readByte_def
        willRead_def Let_def)
  have "decodeByteArray 1 \<lparr>s_r = [0], s_remaining = 1, s_limited = True, s_kind = None, s_size = 0,
      s_byteval = 0, s_kinderr = None, s_stack = [(0, 1)]\<rparr> = (Inr (VByteArray [0]),
      \<lparr>s_r = [], s_remaining = 0, s_limited = True, s_kind = Some Byte, s_size = 0,
      s_byteval = 0, s_kinderr = None, s_stack = [(1, 1)]\<rparr>)"
    by (simp add: decodeByteArray_def stream_Kind_def stream_readKind_def readByte_def stream_uint_def
        willRead_def Let_def)
  then show ?thesis using that [OF l] by simp
qed

text \<open>
  C13. A list of one-byte arrays that contains a zero byte is decoded forever: the decoder drops the
  error of \<^verbatim>\<open>s.Uint()\<close>, which has not advanced the stream, and takes the same byte again and again
  (here for the two-byte input \<^verbatim>\<open>c1 00\<close>).
\<close>

theorem DecodeBytes_byte1_loops:
  "dec fuel (TSlice (TByteArray 1)) (NewStream [0xc1, 0x00] 2) = None"
proof -
  obtain s1 s2 where s: "stream_List (NewStream [0xc1, 0x00] 2) = (Inr 1, s1)"
    "decodeByteArray 1 s1 = (Inr (VByteArray [0]), s2)"
    "s_kind s2 = Some Byte" "s_kinderr s2 = None" "s_byteval s2 = 0" by (rule byte1_first)
  have "decodeSliceElems n (TByteArray 1) s1 = None" for n
  proof (cases n)
    case (Suc m)
    then show ?thesis using s(2) zero_byte_stuck [OF s(3-5), of m] by (cases m) simp_all
  qed simp
  then have "decodeListSlice n (TByteArray 1) (NewStream [0xc1, 0x00] 2) = None" for n
    using s(1) by (cases n) simp_all
  then show ?thesis by (cases fuel) simp_all
qed

text \<open>
  C14. A struct with two one-byte arrays, the first of them zero, is encoded to bytes that the decoder rejects.
\<close>

theorem byte1_roundtrip_fails:
  "EncodeToBytes (VStruct [VByteArray [0], VByteArray [5]]) = Some (Inr [0xc2, 0x00, 0x05])
   \<and> DecodeBytes [0xc2, 0x00, 0x05] (TStruct [TByteArray 1, TByteArray 1]) = Some (Inl errNotAtEOL)"
proof
  have "enc_ref (VStruct [VByteArray [0], VByteArray [5]]) = Inr [0xc2, 0x00, 0x05]"
    by (simp add: rlp_string_def rlp_list_def rlp_head_def)
  then show "EncodeToBytes (VStruct [VByteArray [0], VByteArray [5]]) = Some (Inr [0xc2, 0x00, 0x05])"
    using EncodeToBytes_enc_ref [of "VStruct [VByteArray [0], VByteArray [5]]"] by simp
  have f: "dec_fuel (TStruct [TByteArray 1, TByteArray 1]) [0xc2, 0x00, 0x05] = Suc (Suc (Suc (Suc (Suc (Suc (Suc (Suc (Suc (Suc (Suc (Suc (Suc (Suc (Suc (Suc 0)))))))))))))))"
    by (simp add: dec_fuel_def)
  show "DecodeBytes [0xc2, 0x00, 0x05] (TStruct [TByteArray 1, TByteArray 1]) = Some (Inl errNotAtEOL)"
    unfolding DecodeBytes_def f
    by (simp add: NewStream_def stream_List_def stream_Kind_def stream_readKind_def readByte_def
        willRead_def decodeByteArray_def stream_uint_def end_list_def stream_ListEnd_def map_res_def Let_def)
qed

end
