(* ===== verification/Ethash_Algorithm.thy ===== *)
theory Ethash_Algorithm
  imports Go_Prelude "HOL-Library.Monad_Syntax" "HOL-Library.Multiset"
begin

text \<open>
  The memory-hard hash of the proof of work, \<^verbatim>\<open>consensus/ethash/algorithm.go\<close>: the verification
  cache, the dataset derived from it, and \<^verbatim>\<open>hashimoto\<close> over either of them. The two Keccak functions
  are arguments (from the bytes written to the bytes read). Division by zero and an index or a slice
  out of range are panics, the value \<^const>\<open>None\<close>; 32-bit indices wrap around as in the code. The word
  slices that the code aliases with byte slices are byte lists, read in the byte order of the machine
  (argument \<^verbatim>\<open>le\<close>). The goroutines of \<^verbatim>\<open>generateDataset\<close> work on rows of the dataset; the
  order in which their rows are written is an argument. Logging is left out, and \<^verbatim>\<open>bitutil.XORBytes\<close> is
  modelled by its portable loop.

  The lemmas show that no index is out of range, that neither the byte order nor the order of the
  rows matters, and that verification from the cache gives the same value as from the full dataset.
\<close>

section \<open>Byte order\<close>

definition le4 :: "byte \<Rightarrow> byte \<Rightarrow> byte \<Rightarrow> byte \<Rightarrow> u32" where
  "le4 a b c d = ucast a OR push_bit 8 (ucast b) OR push_bit 16 (ucast c) OR push_bit 24 (ucast d)"

definition be4 :: "byte \<Rightarrow> byte \<Rightarrow> byte \<Rightarrow> byte \<Rightarrow> u32" where
  "be4 a b c d = ucast d OR push_bit 8 (ucast c) OR push_bit 16 (ucast b) OR push_bit 24 (ucast a)"

fun le_Uint32 :: "bytes \<Rightarrow> u32 option" where
  "le_Uint32 (a # b # c # d # _) = Some (le4 a b c d)"
| "le_Uint32 _ = None"

definition le_PutUint32 :: "u32 \<Rightarrow> bytes" where
  "le_PutUint32 w = [ucast w, ucast (drop_bit 8 w), ucast (drop_bit 16 w), ucast (drop_bit 24 w)]"

definition le_PutUint64 :: "u64 \<Rightarrow> bytes" where
  "le_PutUint64 w = rev (word_bytes 8 w)"

fun swap :: "bytes \<Rightarrow> bytes option" where
  "swap [] = Some []"
| "swap (a # b # c # d # r) = do { r' \<leftarrow> swap r; Some (d # c # b # a # r') }"
| "swap _ = None"

text \<open>The words of a buffer, in little-endian order and in the order of the machine.\<close>

fun words_by :: "(byte \<Rightarrow> byte \<Rightarrow> byte \<Rightarrow> byte \<Rightarrow> u32) \<Rightarrow> bytes \<Rightarrow> u32 list" where
  "words_by f (a # b # c # d # r) = f a b c d # words_by f r"
| "words_by f _ = []"

abbreviation le_words :: "bytes \<Rightarrow> u32 list" where
  "le_words \<equiv> words_by le4"

definition machine_words :: "bool \<Rightarrow> bytes \<Rightarrow> u32 list" where
  "machine_words le buf = words_by (if le then le4 else be4) buf"

definition nth_opt :: "'a list \<Rightarrow> nat \<Rightarrow> 'a option" where
  "nth_opt xs i = (if i < length xs then Some (xs ! i) else None)"

section \<open>The verification cache\<close>

definition hashBytes :: nat where
  "hashBytes = 64"

definition hashWords :: u32 where
  "hashWords = 16"

definition mixBytes :: nat where
  "mixBytes = 128"

definition epochLength :: u64 where
  "epochLength = 30000"

definition cacheRounds :: nat where
  "cacheRounds = 3"

definition datasetParents :: nat where
  "datasetParents = 256"

definition loopAccesses :: nat where
  "loopAccesses = 64"

lemmas ethash_consts [simp] =
  hashBytes_def hashWords_def mixBytes_def epochLength_def cacheRounds_def datasetParents_def loopAccesses_def

definition seedHash :: "(bytes \<Rightarrow> bytes) \<Rightarrow> u64 \<Rightarrow> bytes" where
  "seedHash keccak256 block =
     (let seed = replicate 32 0
      in if block < epochLength then seed
         else (keccak256 ^^ unat (block div epochLength)) seed)"

definition XORBytes :: "bytes \<Rightarrow> bytes \<Rightarrow> bytes" where
  "XORBytes a b = map2 (XOR) a b"

fun fill_cache :: "(bytes \<Rightarrow> bytes) \<Rightarrow> nat list \<Rightarrow> bytes \<Rightarrow> bytes option" where
  "fill_cache keccak512 [] cache = Some cache"
| "fill_cache keccak512 (offset # os) cache = do {
     src \<leftarrow> go_slice cache (offset - hashBytes) offset;
     cache \<leftarrow> put_at cache offset (keccak512 src);
     fill_cache keccak512 os cache }"

fun mix_cache :: "(bytes \<Rightarrow> bytes) \<Rightarrow> nat \<Rightarrow> nat list \<Rightarrow> bytes \<Rightarrow> bytes option" where
  "mix_cache keccak512 rows [] cache = Some cache"
| "mix_cache keccak512 rows (j # js) cache = do {
     let srcOff = ((j + rows - 1) mod rows) * hashBytes;
     let dstOff = j * hashBytes;
     w \<leftarrow> le_Uint32 (drop dstOff cache);
     let xorOff = unat ((w mod word_of_nat rows) * 64);
     a \<leftarrow> go_slice cache srcOff (srcOff + hashBytes);
     b \<leftarrow> go_slice cache xorOff (xorOff + hashBytes);
     cache \<leftarrow> put_at cache dstOff (keccak512 (XORBytes a b));
     mix_cache keccak512 rows js cache }"

definition generateCache :: "bool \<Rightarrow> (bytes \<Rightarrow> bytes) \<Rightarrow> bytes \<Rightarrow> bytes \<Rightarrow> u32 list option" where
  "generateCache le keccak512 dest seed = do {
     let size = length dest;
     let rows = size div hashBytes;
     cache \<leftarrow> put_at dest 0 (keccak512 seed);
     cache \<leftarrow> fill_cache keccak512 (map (\<lambda>k. Suc k * hashBytes) [0..<(size - 1) div hashBytes]) cache;
     cache \<leftarrow> mix_cache keccak512 rows (concat (replicate cacheRounds [0..<rows])) cache;
     cache \<leftarrow> (if \<not> le then swap cache else Some cache);
     Some (machine_words le cache) }"

section \<open>Dataset items\<close>

definition fnv :: "u32 \<Rightarrow> u32 \<Rightarrow> u32" where
  "fnv a b = (a * 0x01000193) XOR b"

definition fnvHash :: "u32 list \<Rightarrow> u32 list \<Rightarrow> u32 list option" where
  "fnvHash mix data =
     (if length mix \<le> length data then Some (map2 (\<lambda>m d. (m * 0x01000193) XOR d) mix data) else None)"

fun mix_parents :: "u32 list \<Rightarrow> u32 \<Rightarrow> u32 \<Rightarrow> u32 list \<Rightarrow> u32 list \<Rightarrow> u32 list option" where
  "mix_parents cache rows index [] intMix = Some intMix"
| "mix_parents cache rows index (i # is) intMix = do {
     w \<leftarrow> nth_opt intMix (unat (i mod 16));
     let parent = fnv (index XOR i) w mod rows;
     data \<leftarrow> go_slice cache (unat (parent * hashWords)) (length cache);
     intMix \<leftarrow> fnvHash intMix data;
     mix_parents cache rows index is intMix }"

definition generateDatasetItem :: "u32 list \<Rightarrow> u32 \<Rightarrow> (bytes \<Rightarrow> bytes) \<Rightarrow> bytes option" where
  "generateDatasetItem cache index keccak512 =
     (let rows = word_of_nat (length cache div unat hashWords) :: u32
      in if rows = 0 then None else do {
        w0 \<leftarrow> nth_opt cache (unat ((index mod rows) * hashWords));
        ws \<leftarrow> those (map (\<lambda>i. nth_opt cache (unat ((index mod rows) * hashWords + word_of_nat i))) [1..<16]);
        let mix = keccak512 (concat (map le_PutUint32 ((w0 XOR index) # ws)));
        intMix \<leftarrow> those (map (\<lambda>i. le_Uint32 (drop (i * 4) mix)) [0..<16]);
        intMix \<leftarrow> mix_parents cache rows index (map word_of_nat [0..<datasetParents]) intMix;
        Some (keccak512 (concat (map le_PutUint32 intMix))) })"

section \<open>The dataset\<close>

text \<open>
  The rows of one goroutine, and the writing of rows in a given order. \<^verbatim>\<open>status%percent\<close> panics for
  a dataset of fewer than 100 rows.
\<close>

definition dataset_segment :: "u64 \<Rightarrow> u64 \<Rightarrow> u64 \<Rightarrow> u64 list" where
  "dataset_segment sz threads i =
     (let batch = (sz + 64 * threads - 1) div (64 * threads);
          first = i * batch;
          limit = first + batch;
          limit = (if limit > sz div 64 then sz div 64 else limit)
      in map word_of_nat [unat first..<unat limit])"

fun dataset_rows ::
  "bool \<Rightarrow> (bytes \<Rightarrow> bytes) \<Rightarrow> u32 list \<Rightarrow> u64 \<Rightarrow> u64 list \<Rightarrow> bytes \<Rightarrow> bytes option" where
  "dataset_rows le keccak512 cache percent [] dataset = Some dataset"
| "dataset_rows le keccak512 cache percent (index # is) dataset = do {
     item \<leftarrow> generateDatasetItem cache (ucast index) keccak512;
     item \<leftarrow> (if \<not> le then swap item else Some item);
     (n, dataset) \<leftarrow> copy_at dataset (unat (index * 64)) item;
     (if percent = 0 then None else dataset_rows le keccak512 cache percent is dataset) }"

definition generateDataset ::
  "bool \<Rightarrow> (bytes \<Rightarrow> bytes) \<Rightarrow> u64 list \<Rightarrow> bytes \<Rightarrow> u32 list \<Rightarrow> u32 list option" where
  "generateDataset le keccak512 schedule dest cache =
     map_option (machine_words le)
       (dataset_rows le keccak512 cache (word_of_nat (length dest) div 64 div 100) schedule dest)"

text \<open>An order of the rows in which every goroutine writes its own.\<close>

definition schedule_of :: "u64 \<Rightarrow> nat \<Rightarrow> u64 list \<Rightarrow> bool" where
  "schedule_of sz threads schedule =
     (mset schedule
      = mset (concat (map (\<lambda>i. dataset_segment sz (word_of_nat threads) (word_of_nat i)) [0..<threads])))"

section \<open>Hashimoto\<close>

definition hashimoto_access ::
  "(u32 \<Rightarrow> u32 list option) \<Rightarrow> u32 \<Rightarrow> u32 \<Rightarrow> u32 list \<Rightarrow> nat \<Rightarrow> u32 list option" where
  "hashimoto_access lookup rows seedHead mix i = do {
     w \<leftarrow> nth_opt mix (i mod length mix);
     let parent = fnv (word_of_nat i XOR seedHead) w mod rows;
     d0 \<leftarrow> lookup (2 * parent);
     (n, temp) \<leftarrow> copy_at (replicate (length mix) 0) 0 d0;
     d1 \<leftarrow> lookup (2 * parent + 1);
     (n, temp) \<leftarrow> copy_at temp 16 d1;
     fnvHash mix temp }"

fun hashimoto_loop ::
  "(u32 \<Rightarrow> u32 list option) \<Rightarrow> u32 \<Rightarrow> u32 \<Rightarrow> nat list \<Rightarrow> u32 list \<Rightarrow> u32 list option" where
  "hashimoto_loop lookup rows seedHead [] mix = Some mix"
| "hashimoto_loop lookup rows seedHead (i # is) mix = do {
     mix \<leftarrow> hashimoto_access lookup rows seedHead mix i;
     hashimoto_loop lookup rows seedHead is mix }"

definition compress_mix :: "u32 list \<Rightarrow> u32 list" where
  "compress_mix mix =
     take (length mix div 4)
       (fold (\<lambda>k mix. mix[k := fnv (fnv (fnv (mix ! (4 * k)) (mix ! (4 * k + 1))) (mix ! (4 * k + 2)))
                              (mix ! (4 * k + 3))])
          [0..<length mix div 4] mix)"

definition hashimoto ::
  "(bytes \<Rightarrow> bytes) \<Rightarrow> (bytes \<Rightarrow> bytes) \<Rightarrow> bytes \<Rightarrow> u64 \<Rightarrow> u64 \<Rightarrow> (u32 \<Rightarrow> u32 list option)
   \<Rightarrow> (bytes \<times> bytes) option" where
  "hashimoto keccak512 keccak256 h nonce sz lookup =
     (let rows = ucast (sz div 128) :: u32
      in do {
        seed \<leftarrow> copy_at (replicate 40 0) 0 h;
        seed \<leftarrow> put_at (snd seed) 32 (le_PutUint64 nonce);
        let seed = keccak512 seed;
        seedHead \<leftarrow> le_Uint32 seed;
        mix \<leftarrow> those (map (\<lambda>i. le_Uint32 (drop (i mod 16 * 4) seed)) [0..<32]);
        mix \<leftarrow> (if rows = 0 then None else hashimoto_loop lookup rows seedHead [0..<loopAccesses] mix);
        let digest = concat (map le_PutUint32 (compress_mix mix));
        Some (digest, keccak256 (seed @ digest)) })"

text \<open>The two ways to read a row of the dataset.\<close>

definition light_lookup :: "(bytes \<Rightarrow> bytes) \<Rightarrow> u32 list \<Rightarrow> u32 \<Rightarrow> u32 list option" where
  "light_lookup keccak512 cache index = do {
     rawData \<leftarrow> generateDatasetItem cache index keccak512;
     those (map (\<lambda>i. le_Uint32 (drop (i * 4) rawData)) [0..<length rawData div 4]) }"

definition full_lookup :: "u32 list \<Rightarrow> u32 \<Rightarrow> u32 list option" where
  "full_lookup dataset index =
     (let offset = index * hashWords
      in go_slice dataset (unat offset) (unat (offset + hashWords)))"

definition hashimotoLight ::
  "(bytes \<Rightarrow> bytes) \<Rightarrow> (bytes \<Rightarrow> bytes) \<Rightarrow> u64 \<Rightarrow> u32 list \<Rightarrow> bytes \<Rightarrow> u64 \<Rightarrow> (bytes \<times> bytes) option" where
  "hashimotoLight keccak512 keccak256 sz cache h nonce =
     hashimoto keccak512 keccak256 h nonce sz (light_lookup keccak512 cache)"

definition hashimotoFull ::
  "(bytes \<Rightarrow> bytes) \<Rightarrow> (bytes \<Rightarrow> bytes) \<Rightarrow> u32 list \<Rightarrow> bytes \<Rightarrow> u64 \<Rightarrow> (bytes \<times> bytes) option" where
  "hashimotoFull keccak512 keccak256 dataset h nonce =
     hashimoto keccak512 keccak256 h nonce (word_of_nat (length dataset) * 4) (full_lookup dataset)"

section \<open>Words of a buffer\<close>

lemma length_words_by [simp]: "length (words_by f b) = length b div 4"
  by (induction f b rule: words_by.induct) simp_all

lemma drop4_Cons: "drop (4 * Suc k) (a # b # c # d # r) = drop (4 * k) r"
  and take4_Cons: "take (4 * Suc k) (a # b # c # d # r) = a # b # c # d # take (4 * k) r"
proof -
  have "4 * Suc k = Suc (Suc (Suc (Suc (4 * k))))" by simp
  then show "drop (4 * Suc k) (a # b # c # d # r) = drop (4 * k) r"
    "take (4 * Suc k) (a # b # c # d # r) = a # b # c # d # take (4 * k) r"
    by (simp_all only: drop_Suc_Cons take_Suc_Cons)
qed

lemma words_by_short: "length b < 4 \<Longrightarrow> words_by f b = []"
  by (cases "(f, b)" rule: words_by.cases) simp_all

lemma words_by_drop: "words_by f (drop (4 * k) b) = drop k (words_by f b)"
proof (induction f b arbitrary: k rule: words_by.induct)
  case (1 f a b c d r)
  then show ?case by (cases k) (simp_all only: drop4_Cons words_by.simps drop_Suc_Cons, simp)
qed (simp_all add: words_by_short)

lemma words_by_take: "words_by f (take (4 * k) b) = take k (words_by f b)"
proof (induction f b arbitrary: k rule: words_by.induct)
  case (1 f a b c d r)
  then show ?case by (cases k) (simp_all only: take4_Cons words_by.simps take_Suc_Cons, simp)
qed (simp_all add: words_by_short)

lemma le_Uint32_drop:
  assumes "i < length b div 4"
  shows "le_Uint32 (drop (i * 4) b) = Some (le_words b ! i)"
proof -
  have "words_by le4 (drop (4 * i) b) = drop i (le_words b)" by (rule words_by_drop)
  moreover have "drop i (le_words b) = le_words b ! i # drop (Suc i) (le_words b)"
    using assms by (simp add: Cons_nth_drop_Suc)
  ultimately show ?thesis
    by (cases "drop (4 * i) b" rule: le_Uint32.cases) (simp_all add: mult.commute)
qed

lemma swap_words:
  assumes "4 dvd length b"
  obtains b' where "swap b = Some b'" "length b' = length b" "words_by be4 b' = le_words b"
proof -
  have dvd: "(4 :: nat) dvd Suc (Suc (Suc (Suc n))) \<longleftrightarrow> 4 dvd n" "\<not> (4 :: nat) dvd Suc 0"
    "\<not> (4 :: nat) dvd Suc (Suc 0)" "\<not> (4 :: nat) dvd Suc (Suc (Suc 0))" for n
    by presburger+
  have "\<exists>b'. swap b = Some b' \<and> length b' = length b \<and> words_by be4 b' = le_words b"
    using assms
  proof (induction b rule: swap.induct)
    case (2 a b c d r)
    then obtain r' where "swap r = Some r'" "length r' = length r" "words_by be4 r' = le_words r"
      by (auto simp only: list.size add_0_right add_Suc_right dvd)
    moreover have "be4 d c b a = le4 a b c d" by (simp add: le4_def be4_def)
    ultimately show ?case by simp
  qed (simp_all only: list.size add_0_right add_Suc_right dvd, simp)
  then show ?thesis using that by blast
qed

lemma length_PutUint32 [simp]: "length (le_PutUint32 w) = 4"
  by (simp add: le_PutUint32_def)

lemma length_concat_PutUint32 [simp]: "length (concat (map le_PutUint32 ws)) = 4 * length ws"
  by (induction ws) simp_all

lemma those_map_Some: "(\<And>x. x \<in> set xs \<Longrightarrow> f x = Some (g x)) \<Longrightarrow> those (map f xs) = Some (map g xs)"
  by (induction xs) simp_all

section \<open>Dataset items exist\<close>

text \<open>A cache of whole rows, below the 16 GB that 32-bit word indices address.\<close>

definition cache_ok :: "u32 list \<Rightarrow> bool" where
  "cache_ok cache = (\<exists>r. 0 < r \<and> length cache = 16 * r \<and> 16 * r < 2 ^ 32)"

text \<open>What Keccak-512 promises: 64 bytes.\<close>

definition hash512 :: "(bytes \<Rightarrow> bytes) \<Rightarrow> bool" where
  "hash512 k = (\<forall>b. length (k b) = 64)"

lemma row_index:
  assumes "0 < r" "16 * r < 2 ^ 32" "k < 16"
  shows "unat ((x mod word_of_nat r) * 16 + word_of_nat k :: u32) = unat x mod r * 16 + k"
    and "unat x mod r * 16 + k < 16 * r"
proof -
  have r: "unat (word_of_nat r :: u32) = r" using assms(2) by (simp add: unat_of_nat)
  have m: "unat (x mod word_of_nat r :: u32) = unat x mod r" by (simp add: unat_mod_distrib r)
  have lt: "unat x mod r < r" using assms(1) by simp
  then show 1: "unat x mod r * 16 + k < 16 * r" using assms(3) by linarith
  then have 2: "unat x mod r * 16 + k < 2 ^ 32" using assms(2) by linarith
  have "(x mod word_of_nat r) * 16 + word_of_nat k = (word_of_nat (unat x mod r * 16 + k) :: u32)"
    by (simp flip: m)
  then show "unat ((x mod word_of_nat r) * 16 + word_of_nat k :: u32) = unat x mod r * 16 + k"
    using 2 unat_of_nat [of "unat x mod r * 16 + k", where ?'a = 32] by (simp only:) simp
qed

lemma mix_parents_some:
  assumes "0 < r" "16 * r < 2 ^ 32" "length cache = 16 * r"
  shows "length intMix = 16 \<Longrightarrow>
    \<exists>m. mix_parents cache (word_of_nat r) index is intMix = Some m \<and> length m = 16"
proof (induction "is" arbitrary: intMix)
  case (Cons i "is")
  have "unat (i mod 16) < 16" using word_mod_less_divisor [of 16 i] by (simp add: word_less_nat_alt)
  then have w: "nth_opt intMix (unat (i mod 16)) = Some (intMix ! unat (i mod 16))"
    using Cons.prems by (simp add: nth_opt_def)
  define q where "q = unat ((fnv (index XOR i) (intMix ! unat (i mod 16)) mod word_of_nat r) * 16)"
  have q: "q + 16 \<le> length cache"
    using row_index [OF assms(1,2), of 0 "fnv (index XOR i) (intMix ! unat (i mod 16))"]
      row_index(2) [OF assms(1,2), of 15 "fnv (index XOR i) (intMix ! unat (i mod 16))"] assms(3)
    by (simp add: q_def)
  then have "16 \<le> length cache - q" by simp
  then obtain m where "fnvHash intMix (take (length cache - q) (drop q cache)) = Some m" "length m = 16"
    using Cons.prems by (simp add: fnvHash_def)
  with Cons.IH [of m] w q show ?case
    by (simp add: go_slice_def Let_def flip: q_def)
qed simp

lemma generateDatasetItem_some:
  assumes "cache_ok cache" "hash512 k"
  obtains item where "generateDatasetItem cache index k = Some item" "length item = 64"
proof -
  obtain r where r: "0 < r" "length cache = 16 * r" "16 * r < 2 ^ 32"
    using assms(1) by (auto simp: cache_ok_def)
  note row = row_index [OF r(1,3)]
  have nz: "(word_of_nat r :: u32) \<noteq> 0" using r by (simp add: word_of_nat_eq_0_iff nat_dvd_not_less)
  have nth: "nth_opt cache (unat ((index mod word_of_nat r) * 16 + word_of_nat i))
      = Some (cache ! (unat index mod r * 16 + i))" if "i < 16" for i
    using row [OF that] r(2) by (simp add: nth_opt_def)
  note ws = those_map_Some [of "[1..<16]", OF nth]
  define mix where "mix = k (concat (map le_PutUint32 ((cache ! (unat index mod r * 16) XOR index)
      # map (\<lambda>i. cache ! (unat index mod r * 16 + i)) [1..<16])))"
  have len: "length mix = 64" using assms(2) by (simp add: mix_def hash512_def)
  then have int: "those (map (\<lambda>i. le_Uint32 (drop (i * 4) mix)) [0..<16]) = Some (map ((!) (le_words mix)) [0..<16])"
    by (intro those_map_Some le_Uint32_drop) simp
  obtain m where m: "mix_parents cache (word_of_nat r) index (map word_of_nat [0..<datasetParents])
      (map ((!) (le_words mix)) [0..<16]) = Some m" "length m = 16"
    using mix_parents_some [OF r(1,3,2), of "map ((!) (le_words mix)) [0..<16]"] by auto
  have "generateDatasetItem cache index k = Some (k (concat (map le_PutUint32 m)))"
    using nth [of 0] ws nz int m r(2) unfolding generateDatasetItem_def
    by (simp add: mix_def Let_def del: upt_rec_numeral upt_Suc)
  then show ?thesis using that assms(2) by (simp add: hash512_def)
qed

section \<open>Every order of the rows gives the same dataset\<close>

text \<open>The bytes of one row, and the bytes that the code writes there.\<close>

definition row_of :: "bytes \<Rightarrow> nat \<Rightarrow> bytes" where
  "row_of b i = take 64 (drop (64 * i) b)"

definition row_bytes :: "bool \<Rightarrow> (bytes \<Rightarrow> bytes) \<Rightarrow> u32 list \<Rightarrow> nat \<Rightarrow> bytes" where
  "row_bytes le k cache i =
     (let item = the (generateDatasetItem cache (word_of_nat i) k) in if le then item else the (swap item))"

lemma row_bytes_step:
  assumes "cache_ok cache" "hash512 k"
  shows "\<exists>item. generateDatasetItem cache (word_of_nat i) k = Some item
      \<and> (if \<not> le then swap item else Some item) = Some (row_bytes le k cache i)"
    and "length (row_bytes le k cache i) = 64"
    and "words_by (if le then le4 else be4) (row_bytes le k cache i)
      = le_words (the (generateDatasetItem cache (word_of_nat i) k))"
proof -
  obtain item where i: "generateDatasetItem cache (word_of_nat i) k = Some item" "length item = 64"
    using generateDatasetItem_some [OF assms] .
  obtain item' where "swap item = Some item'" "length item' = 64" "words_by be4 item' = le_words item"
    using swap_words [of item] i(2) by auto
  with i show "\<exists>item. generateDatasetItem cache (word_of_nat i) k = Some item
      \<and> (if \<not> le then swap item else Some item) = Some (row_bytes le k cache i)"
    "length (row_bytes le k cache i) = 64"
    "words_by (if le then le4 else be4) (row_bytes le k cache i)
      = le_words (the (generateDatasetItem cache (word_of_nat i) k))"
    by (simp_all add: row_bytes_def)
qed

lemma copy_row:
  assumes "length b = 64 * n" "i < n" "length r = 64"
  obtains b' where "copy_at b (64 * i) r = Some (64, b')" "length b' = 64 * n"
    "\<And>j. j < n \<Longrightarrow> row_of b' j = (if j = i then r else row_of b j)"
proof
  let ?b = "take (64 * i) b @ r @ drop (64 * i + 64) b"
  have le: "64 * i + 64 \<le> length b" using assms(1,2) by linarith
  then show "copy_at b (64 * i) r = Some (64, ?b)" using assms(3) by (simp add: copy_at_def Let_def)
  show "length ?b = 64 * n" using assms le by simp
  show "row_of ?b j = (if j = i then r else row_of b j)" if "j < n" for j
  proof (cases j i rule: linorder_cases)
    case less
    then have ji: "64 * j + 64 \<le> 64 * i" by linarith
    have "take 64 (drop (64 * j) (take (64 * i) b @ c)) = take 64 (drop (64 * j) (take (64 * i) b))" for c
      using ji le by simp
    also have "\<dots> = take 64 (drop (64 * j) b)" using ji by (simp add: drop_take min_def)
    finally show ?thesis using less by (simp only: row_of_def less_irrefl if_False split: if_split) blast
  next
    case equal
    then show ?thesis using le assms(3) by (simp add: row_of_def)
  next
    case greater
    then obtain d where "j = Suc (i + d)" by (auto simp: less_iff_Suc_add)
    then have j: "64 * j = 64 * i + (64 + 64 * d)" by simp
    have "drop (64 * j) ?b = drop (64 + 64 * d) (r @ drop (64 * i + 64) b)"
      unfolding j using le by (simp add: drop_append)
    also have "\<dots> = drop (64 * j) b" unfolding j using assms(3) by (simp add: ac_simps)
    finally show ?thesis using greater by (simp add: row_of_def)
  qed
qed

text \<open>
  A dataset of \<^verbatim>\<open>n\<close> rows of 64 bytes, at least 100 of them and below 16 GB.
\<close>

lemma dataset_rows_done:
  assumes "cache_ok cache" "hash512 k" "percent \<noteq> 0" "n < 2 ^ 28"
  shows "length b = 64 * n \<Longrightarrow> \<forall>i \<in> set is. unat i < n \<Longrightarrow>
    \<exists>b'. dataset_rows le k cache percent is b = Some b' \<and> length b' = 64 * n
      \<and> (\<forall>j < n. row_of b' j = (if j \<in> unat ` set is then row_bytes le k cache j else row_of b j))"
proof (induction "is" arbitrary: b)
  case (Cons i "is")
  have i: "unat i < n" using Cons.prems(2) by simp
  have u: "ucast i = (word_of_nat (unat i) :: u32)" by simp
  have "64 * unat i < 2 ^ 64" using i assms(4) by simp
  then have o: "unat (i * 64) = 64 * unat i" by (simp add: unat_word_ariths mult.commute)
  obtain b1 where b1: "copy_at b (64 * unat i) (row_bytes le k cache (unat i)) = Some (64, b1)" "length b1 = 64 * n"
    "\<And>j. j < n \<Longrightarrow> row_of b1 j = (if j = unat i then row_bytes le k cache (unat i) else row_of b j)"
    using copy_row [OF Cons.prems(1) i row_bytes_step(2) [OF assms(1,2), where le = le and i = "unat i"]] by blast
  obtain b' where "dataset_rows le k cache percent is b1 = Some b'" "length b' = 64 * n"
    "\<forall>j < n. row_of b' j = (if j \<in> unat ` set is then row_bytes le k cache j else row_of b1 j)"
    using Cons.IH [OF b1(2)] Cons.prems(2) by auto
  moreover obtain item where "generateDatasetItem cache (ucast i) k = Some item"
    "(if \<not> le then swap item else Some item) = Some (row_bytes le k cache (unat i))"
    using row_bytes_step(1) [OF assms(1,2), of "unat i" le] unfolding u by blast
  then have "dataset_rows le k cache percent (i # is) b = dataset_rows le k cache percent is b1"
    using b1(1) o assms(3) by (simp del: if_not_P)
  ultimately show ?case using b1(3) by auto
qed simp

lemma dataset_segment_set:
  assumes "n < 2 ^ 28" "0 < threads" "threads < 2 ^ 20" "i < threads"
  defines "batch \<equiv> (64 * n + 64 * threads - 1) div (64 * threads)"
  shows "unat ` set (dataset_segment (word_of_nat (64 * n)) (word_of_nat threads) (word_of_nat i))
    = {i * batch..<min n (i * batch + batch)}"
proof -
  have un: "unat (word_of_nat x :: u64) = x" if "x < 2 ^ 64" for x
    using that by (simp add: unat_of_nat)
  have "batch \<le> 64 * n + 64 * threads - 1" by (simp add: batch_def)
  then have b: "batch < 2 ^ 35" using assms(1,3) by simp
  have "i * batch \<le> 2 ^ 20 * 2 ^ 35" using assms(3,4) b by (intro mult_mono) simp_all
  then have ib: "i * batch + batch < 2 ^ 64" using b by simp
  have "word_of_nat (64 * n) + 64 * word_of_nat threads - 1 = (word_of_nat (64 * n + 64 * threads - 1) :: u64)"
    using assms(2) by (simp add: of_nat_diff)
  moreover have "64 * word_of_nat threads = (word_of_nat (64 * threads) :: u64)" by simp
  ultimately have "(word_of_nat (64 * n) + 64 * word_of_nat threads - 1) div (64 * word_of_nat threads)
      = (word_of_nat (64 * n + 64 * threads - 1) div word_of_nat (64 * threads) :: u64)" by (simp only:)
  also have "\<dots> = word_of_nat batch"
    using assms(1,3) un [of "64 * n + 64 * threads - 1"] un [of "64 * threads"] un [of batch] b
    by (simp only: word_unat_eq_iff unat_div_distrib batch_def) simp
  finally have batch: "(word_of_nat (64 * n) + 64 * word_of_nat threads - 1) div (64 * word_of_nat threads)
      = (word_of_nat batch :: u64)" .
  have first: "unat (word_of_nat i * word_of_nat batch :: u64) = i * batch"
    using un [of "i * batch"] ib by simp
  have limit: "unat (word_of_nat i * word_of_nat batch + word_of_nat batch :: u64) = i * batch + batch"
    using un [of "i * batch + batch"] ib by simp
  have size: "unat (word_of_nat (64 * n) div 64 :: u64) = n"
    using un [of "64 * n"] assms(1) by (simp add: unat_div_distrib del: of_nat_mult)
  define lim :: u64 where "lim = (if word_of_nat i * word_of_nat batch + word_of_nat batch > (word_of_nat (64 * n) div 64 :: u64)
      then word_of_nat (64 * n) div 64 else word_of_nat i * word_of_nat batch + word_of_nat batch)"
  have lim: "unat lim = min n (i * batch + batch)"
    using limit size by (simp add: lim_def word_less_nat_alt del: of_nat_mult)
  have "dataset_segment (word_of_nat (64 * n)) (word_of_nat threads) (word_of_nat i)
      = map word_of_nat [i * batch..<min n (i * batch + batch)]"
    unfolding dataset_segment_def Let_def batch lim_def [symmetric] first lim by (rule refl)
  moreover have "unat (word_of_nat x :: u64) = x" if "x < n" for x
    using un [of x] that assms(1) by simp
  ultimately show ?thesis by (auto simp: image_image)
qed

lemma segments_cover:
  assumes "n < 2 ^ 28" "0 < threads" "threads < 2 ^ 20" "schedule_of (word_of_nat (64 * n)) threads schedule"
  shows "unat ` set schedule = {..<n}"
proof -
  let ?seg = "\<lambda>i. dataset_segment (word_of_nat (64 * n)) (word_of_nat threads) (word_of_nat i)"
  define batch where "batch = (64 * n + 64 * threads - 1) div (64 * threads)"
  have "set schedule = (\<Union>i < threads. set (?seg i))"
    using assms(4) [unfolded schedule_of_def, THEN mset_eq_setD] by auto
  then have "unat ` set schedule = (\<Union>i < threads. {i * batch..<min n (i * batch + batch)})"
    using dataset_segment_set [OF assms(1-3), folded batch_def] by (auto simp: image_UN)
  also have "\<dots> = {..<n}"
  proof (intro equalityI subsetI)
    fix x assume "x \<in> {..<n}"
    then have x: "x < n" by simp
    have "n \<le> threads * batch"
    proof -
      have "64 * threads * (batch + 1) > 64 * n + 64 * threads - 1"
        unfolding batch_def using assms(2) by (simp add: dividend_less_times_div)
      then show ?thesis using assms(2) by (simp add: algebra_simps)
    qed
    then have b: "0 < batch" using x by (cases batch) simp_all
    then have "x div batch < threads"
      using x \<open>n \<le> threads * batch\<close> by (simp add: div_less_iff_less_mult)
    moreover have "x div batch * batch \<le> x" "x < x div batch * batch + batch"
      using b dividend_less_div_times [of batch x] by (simp_all add: div_times_less_eq_dividend add.commute)
    ultimately show "x \<in> (\<Union>i < threads. {i * batch..<min n (i * batch + batch)})"
      using x by (intro UN_I [of "x div batch"]) simp_all
  qed auto
  finally show ?thesis .
qed

lemma generateDataset_rows:
  assumes "cache_ok cache" "hash512 k" "length dest = 64 * n" "100 \<le> n" "n < 2 ^ 28" "0 < threads" "threads < 2 ^ 20"
    and "schedule_of (word_of_nat (length dest)) threads schedule"
  obtains ds where "generateDataset le k schedule dest cache = Some ds" "length ds = 16 * n"
    "\<And>i. i < n \<Longrightarrow> take 16 (drop (16 * i) ds) = le_words (the (generateDatasetItem cache (word_of_nat i) k))"
proof -
  let ?percent = "word_of_nat (length dest) div 64 div 100 :: u64"
  have "unat ?percent = n div 100"
    using assms(3,5) by (simp add: unat_div_distrib unat_of_nat del: of_nat_mult)
  then have p: "?percent \<noteq> 0" using assms(4) by (auto simp: div_greater_zero_iff)
  have cover: "unat ` set schedule = {..<n}"
    using segments_cover [OF assms(5-7)] assms(3,8) by (simp del: of_nat_mult)
  then have "\<forall>i \<in> set schedule. unat i < n" by blast
  then obtain b where b: "dataset_rows le k cache ?percent schedule dest = Some b" "length b = 64 * n"
    "\<forall>j < n. row_of b j = row_bytes le k cache j"
    using dataset_rows_done [OF assms(1,2) p assms(5,3), of schedule le] cover by auto
  have "take 16 (drop (16 * i) (machine_words le b)) = le_words (the (generateDatasetItem cache (word_of_nat i) k))"
    if "i < n" for i
  proof -
    have "take 16 (drop (16 * i) (machine_words le b)) = machine_words le (row_of b i)"
      using words_by_take [of _ 16 "drop (4 * (16 * i)) b"] words_by_drop [of _ "16 * i" b]
      by (simp add: machine_words_def row_of_def)
    then show ?thesis using b(3) that row_bytes_step(3) [OF assms(1,2)] by (simp add: machine_words_def)
  qed
  then show ?thesis
    using that [of "machine_words le b"] b(1,2) by (simp add: generateDataset_def machine_words_def)
qed

section \<open>Verification from the cache and from the dataset\<close>

lemma mod_rows_less:
  assumes "0 < rows" "2 * rows \<le> 2 ^ 32"
  shows "unat (2 * (x mod word_of_nat rows) :: u32) < 2 * rows"
    and "unat (2 * (x mod word_of_nat rows) + 1 :: u32) < 2 * rows"
proof -
  have r: "unat (word_of_nat rows :: u32) = rows" using assms by (simp add: unat_of_nat)
  have lt: "unat (x mod word_of_nat rows :: u32) < rows" using assms(1) by (simp add: unat_mod_distrib r)
  then have "2 * unat (x mod word_of_nat rows :: u32) + 1 < 2 ^ 32" using assms(2) by linarith
  then have "unat (2 * (x mod word_of_nat rows) :: u32) = 2 * unat (x mod word_of_nat rows)"
    "unat (2 * (x mod word_of_nat rows) + 1 :: u32) = 2 * unat (x mod word_of_nat rows) + 1"
    by (simp_all add: unat_word_ariths)
  then show "unat (2 * (x mod word_of_nat rows) :: u32) < 2 * rows"
    "unat (2 * (x mod word_of_nat rows) + 1 :: u32) < 2 * rows" using lt by linarith+
qed

lemma hashimoto_loop_cong:
  assumes "0 < rows" "2 * rows \<le> 2 ^ 32" "\<And>i. unat i < 2 * rows \<Longrightarrow> l1 i = l2 i"
  shows "hashimoto_loop l1 (word_of_nat rows) seedHead is mix = hashimoto_loop l2 (word_of_nat rows) seedHead is mix"
proof (induction "is" arbitrary: mix)
  case (Cons i "is")
  have "hashimoto_access l1 (word_of_nat rows) seedHead mix i = hashimoto_access l2 (word_of_nat rows) seedHead mix i"
    using assms(3) [OF mod_rows_less(1) [OF assms(1,2)]] assms(3) [OF mod_rows_less(2) [OF assms(1,2)]]
    by (simp add: hashimoto_access_def Let_def)
  moreover have "hashimoto_loop l1 (word_of_nat rows) seedHead is = hashimoto_loop l2 (word_of_nat rows) seedHead is"
    using Cons.IH by (rule ext)
  ultimately show ?case by simp
qed simp

lemma rows_u32:
  assumes "unat (sz :: u64) = 128 * rows" "2 * rows < 2 ^ 32"
  shows "(ucast (sz div 128) :: u32) = word_of_nat rows"
proof -
  have "unat (sz div 128) = rows" using assms(1) by (simp add: unat_div_distrib)
  moreover have "word_of_nat (unat (sz div 128)) = sz div 128" by simp
  ultimately have "sz div 128 = word_of_nat rows" by (simp only:)
  then show ?thesis using assms(2) by (simp add: unsigned_of_nat take_bit_eq_mod)
qed

lemma hashimoto_cong:
  assumes "unat sz = 128 * rows" "2 * rows < 2 ^ 32" "\<And>i. unat i < 2 * rows \<Longrightarrow> l1 i = l2 i"
  shows "hashimoto k5 k2 h nonce sz l1 = hashimoto k5 k2 h nonce sz l2"
proof -
  note r = rows_u32 [OF assms(1,2)]
  have nz: "(word_of_nat rows :: u32) \<noteq> 0 \<Longrightarrow> 0 < rows" by (cases rows) simp_all
  have "(if (word_of_nat rows :: u32) = 0 then None else hashimoto_loop l1 (word_of_nat rows) s is m)
      = (if (word_of_nat rows :: u32) = 0 then None else hashimoto_loop l2 (word_of_nat rows) s is m)" for s "is" m
    using hashimoto_loop_cong [OF nz, of l1 l2] assms(2,3) by simp
  then show ?thesis unfolding hashimoto_def Let_def r by (simp only:)
qed

lemma light_lookup_words:
  assumes "cache_ok cache" "hash512 k"
  obtains item where "generateDatasetItem cache i k = Some item" "length item = 64"
    "light_lookup k cache i = Some (le_words item)"
proof -
  obtain item where item: "generateDatasetItem cache i k = Some item" "length item = 64"
    using generateDatasetItem_some [OF assms] .
  have "those (map (\<lambda>i. le_Uint32 (drop (i * 4) item)) [0..<length item div 4])
      = Some (map ((!) (le_words item)) [0..<length item div 4])"
    by (intro those_map_Some le_Uint32_drop) simp
  also have "map ((!) (le_words item)) [0..<length item div 4] = le_words item"
    using map_nth [of "le_words item"] by simp
  finally show ?thesis using that item by (simp add: light_lookup_def)
qed

lemma full_lookup_row:
  assumes "length ds = 16 * n" "n < 2 ^ 28" "unat i < n"
  shows "full_lookup ds i = Some (take 16 (drop (16 * unat i) ds))"
proof -
  have "unat (i * 16) = 16 * unat i" "unat (i * 16 + 16) = 16 * unat i + 16"
    using assms(2,3) by (simp_all add: unat_word_ariths)
  then show ?thesis using assms by (simp add: full_lookup_def go_slice_def Let_def)
qed

lemma Full_eq_Light:
  assumes "cache_ok cache" "hash512 k5" "length ds = 32 * rows" "2 * rows < 2 ^ 28"
    and "\<And>i. i < 2 * rows \<Longrightarrow> take 16 (drop (16 * i) ds) = le_words (the (generateDatasetItem cache (word_of_nat i) k5))"
  shows "hashimotoFull k5 k2 ds h nonce = hashimotoLight k5 k2 (word_of_nat (128 * rows)) cache h nonce"
proof -
  have sz: "(word_of_nat (length ds) * 4 :: u64) = word_of_nat (128 * rows)" by (simp add: assms(3))
  have u: "unat (word_of_nat (128 * rows) :: u64) = 128 * rows"
    using assms(4) by (simp add: unat_of_nat del: of_nat_mult)
  have "full_lookup ds i = light_lookup k5 cache i" if "unat i < 2 * rows" for i
  proof -
    obtain item where "generateDatasetItem cache i k5 = Some item" "light_lookup k5 cache i = Some (le_words item)"
      using light_lookup_words [OF assms(1,2)] .
    moreover have "length ds = 16 * (2 * rows)" using assms(3) by simp
    ultimately show ?thesis using full_lookup_row [OF _ assms(4) that] assms(5) [OF that] by simp
  qed
  then show ?thesis
    unfolding hashimotoFull_def hashimotoLight_def sz using assms(4)
    by (intro hashimoto_cong [OF u]) simp_all
qed

section \<open>Hashimoto returns\<close>

lemma copy_words:
  "length a = 16 \<Longrightarrow> length b = 16 \<Longrightarrow>
   copy_at (replicate 32 0) 0 a = Some (16, a @ replicate 16 0)
   \<and> copy_at (a @ replicate 16 0) 16 b = Some (16, a @ b)"
  by (simp add: copy_at_def Let_def)

lemma hashimoto_loop_some:
  assumes "\<And>i. \<exists>d. lookup i = Some d \<and> length d = 16"
  shows "length mix = 32 \<Longrightarrow> \<exists>m. hashimoto_loop lookup rows seedHead is mix = Some m \<and> length m = 32"
proof (induction "is" arbitrary: mix)
  case (Cons i "is")
  define p where "p = fnv (word_of_nat i XOR seedHead) (mix ! (i mod 32)) mod rows"
  obtain a b where ab: "lookup (2 * p) = Some a" "length a = 16" "lookup (2 * p + 1) = Some b" "length b = 16"
    using assms by blast
  have "fnvHash mix (a @ b) = Some (map2 (\<lambda>m d. (m * 0x01000193) XOR d) mix (a @ b))"
    using Cons.prems ab by (simp add: fnvHash_def)
  moreover have "nth_opt mix (i mod length mix) = Some (mix ! (i mod 32))"
    using Cons.prems by (simp add: nth_opt_def)
  ultimately have "hashimoto_access lookup rows seedHead mix i = Some (map2 (\<lambda>m d. (m * 0x01000193) XOR d) mix (a @ b))"
    using ab copy_words [OF ab(2,4)] Cons.prems unfolding hashimoto_access_def p_def by (simp add: Let_def)
  then show ?case
    using Cons.IH [of "map2 (\<lambda>m d. (m * 0x01000193) XOR d) mix (a @ b)"] Cons.prems ab by simp
qed simp

lemma length_compress_mix: "length (compress_mix mix) = length mix div 4"
proof -
  have "length (fold (\<lambda>k mix. mix[k := f k mix]) ks mix) = length mix" for f :: "nat \<Rightarrow> u32 list \<Rightarrow> u32" and ks
    by (induction ks arbitrary: mix) simp_all
  then show ?thesis by (simp add: compress_mix_def)
qed

lemma hashimoto_some:
  assumes "hash512 k5" "length h = 32" "0 < rows" "2 * rows < 2 ^ 32" "unat sz = 128 * rows"
    and "\<And>i. \<exists>d. lookup i = Some d \<and> length d = 16"
  obtains digest seed where "hashimoto k5 k2 h nonce sz lookup = Some (digest, k2 (seed @ digest))"
    "length digest = 32" "length seed = 64"
proof -
  note r = rows_u32 [OF assms(5,4)]
  have nz: "(word_of_nat rows :: u32) \<noteq> 0" using assms(3,4) by (simp add: word_of_nat_eq_0_iff nat_dvd_not_less)
  define seed where "seed = k5 (h @ le_PutUint64 nonce)"
  have seed: "length seed = 64" using assms(1) by (simp add: seed_def hash512_def)
  have init: "copy_at (replicate 40 0) 0 h = Some (32, h @ replicate 8 0)"
    "put_at (h @ replicate 8 0) 32 (le_PutUint64 nonce) = Some (h @ le_PutUint64 nonce)"
    using assms(2) by (simp_all add: copy_at_def put_at_def le_PutUint64_def Let_def)
  have head: "le_Uint32 seed = Some (le_words seed ! 0)" using le_Uint32_drop [of 0 seed] seed by simp
  have mix: "those (map (\<lambda>i. le_Uint32 (drop (i mod 16 * 4) seed)) [0..<32])
      = Some (map (\<lambda>i. le_words seed ! (i mod 16)) [0..<32])"
    using seed by (intro those_map_Some le_Uint32_drop) simp
  obtain m where m: "hashimoto_loop lookup (word_of_nat rows) (le_words seed ! 0) [0..<loopAccesses]
      (map (\<lambda>i. le_words seed ! (i mod 16)) [0..<32]) = Some m" "length m = 32"
    using hashimoto_loop_some [of lookup "map (\<lambda>i. le_words seed ! (i mod 16)) [0..<32]" "word_of_nat rows"
        "le_words seed ! 0" "[0..<loopAccesses]"] assms(6) by auto
  have "hashimoto k5 k2 h nonce sz lookup
      = Some (concat (map le_PutUint32 (compress_mix m)), k2 (seed @ concat (map le_PutUint32 (compress_mix m))))"
    unfolding hashimoto_def Let_def r
    using init head mix m nz by (simp add: seed_def [symmetric] del: upt_rec_numeral)
  then show ?thesis using that seed m(2) by (simp add: length_compress_mix)
qed

lemma hashimotoLight_some:
  assumes "hash512 k5" "cache_ok cache" "length h = 32" "0 < rows" "2 * rows < 2 ^ 32" "unat sz = 128 * rows"
  obtains digest result where "hashimotoLight k5 k2 sz cache h nonce = Some (digest, result)" "length digest = 32"
proof -
  have "\<exists>d. light_lookup k5 cache i = Some d \<and> length d = 16" for i
  proof -
    obtain item where "length item = 64" "light_lookup k5 cache i = Some (le_words item)"
      using light_lookup_words [OF assms(2,1)] .
    then show ?thesis by simp
  qed
  then show ?thesis
    using hashimoto_some [OF assms(1,3-6)] that unfolding hashimotoLight_def by metis
qed

section \<open>The cache is generated\<close>

lemma put_at_some:
  assumes "pos + length s \<le> length out"
  obtains out' where "put_at out pos s = Some out'" "length out' = length out"
  using assms by (simp add: put_at_def)

lemma fill_cache_some:
  assumes "hash512 k"
  shows "length cache = 64 * rows \<Longrightarrow> \<forall>off \<in> set os. \<exists>j. 0 < j \<and> j < rows \<and> off = 64 * j \<Longrightarrow>
    \<exists>c. fill_cache k os cache = Some c \<and> length c = 64 * rows"
proof (induction os arbitrary: cache)
  case (Cons off os)
  then obtain j where j: "0 < j" "j < rows" "off = 64 * j" by auto
  then have le: "64 \<le> off" "off + 64 \<le> length cache" using Cons.prems(1) by simp_all
  then obtain c where "put_at cache off (k (take 64 (drop (off - 64) cache))) = Some c" "length c = length cache"
    using put_at_some [of off "k (take 64 (drop (off - 64) cache))" cache] assms by (auto simp: hash512_def)
  with Cons le show ?case by (simp add: go_slice_def)
qed simp

lemma mix_cache_some:
  assumes "hash512 k" "0 < rows" "64 * rows < 2 ^ 32"
  shows "length cache = 64 * rows \<Longrightarrow> \<forall>j \<in> set js. j < rows \<Longrightarrow>
    \<exists>c. mix_cache k rows js cache = Some c \<and> length c = 64 * rows"
proof (induction js arbitrary: cache)
  case (Cons j js)
  have j: "j < rows" using Cons.prems by simp
  then have dst: "j * 64 + 64 \<le> length cache" using Cons.prems(1) by simp
  obtain w where w: "le_Uint32 (drop (j * 64) cache) = Some w"
    using le_Uint32_drop [of "16 * j" cache] dst by (simp add: mult.commute mult.left_commute)
  define src where "src = (j + rows - 1) mod rows"
  have src: "src * 64 + 64 \<le> length cache"
    using assms(2) Cons.prems(1) mod_less_divisor [OF assms(2), of "j + rows - 1"] unfolding src_def by linarith
  define xo where "xo = unat ((w mod word_of_nat rows) * 64 :: u32)"
  have "unat (w mod word_of_nat rows :: u32) < rows"
    using assms(2,3) by (simp add: unat_mod_distrib unat_of_nat)
  moreover from this have "xo = unat (w mod word_of_nat rows :: u32) * 64"
    using assms(3) by (simp add: xo_def unat_word_ariths)
  ultimately have xo: "xo + 64 \<le> length cache" using Cons.prems(1) by simp
  let ?h = "k (XORBytes (take 64 (drop (src * 64) cache)) (take 64 (drop xo cache)))"
  obtain c where "put_at cache (j * 64) ?h = Some c" "length c = length cache"
    using put_at_some [of "j * 64" ?h cache] assms(1) dst by (auto simp: hash512_def)
  with Cons w src xo show ?case
    by (simp add: go_slice_def Let_def src_def [unfolded One_nat_def, symmetric] xo_def [symmetric])
qed simp

lemma generateCache_some:
  assumes "hash512 k" "0 < rows" "64 * rows < 2 ^ 32" "length dest = 64 * rows"
  obtains c where "generateCache True k dest seed = Some c" "generateCache False k dest seed = Some c"
    "length c = 16 * rows"
proof -
  obtain c0 where c0: "put_at dest 0 (k seed) = Some c0" "length c0 = 64 * rows"
    using put_at_some [of 0 "k seed" dest] assms by (auto simp: hash512_def)
  let ?os = "map (\<lambda>i. Suc i * hashBytes) [0..<(length dest - 1) div hashBytes]"
  have "\<forall>off \<in> set ?os. \<exists>j. 0 < j \<and> j < rows \<and> off = 64 * j"
    using assms(2,4) by (auto simp: less_eq_div_iff_mult_less_eq Suc_le_eq [symmetric] intro!: exI [of _ "Suc _"])
  then obtain c1 where c1: "fill_cache k ?os c0 = Some c1" "length c1 = 64 * rows"
    using fill_cache_some [OF assms(1) c0(2)] by blast
  let ?js = "concat (replicate cacheRounds [0..<rows])"
  have "\<forall>j \<in> set ?js. j < rows" by auto
  then obtain c2 where c2: "mix_cache k rows ?js c1 = Some c2" "length c2 = 64 * rows"
    using mix_cache_some [OF assms(1-3) c1(2)] by blast
  obtain c3 where c3: "swap c2 = Some c3" "words_by be4 c3 = le_words c2"
    using swap_words [of c2] c2(2) by auto
  have "generateCache le k dest seed = Some (le_words c2)" for le
    using c0 c1 c2 c3 assms(4) unfolding generateCache_def Let_def by (simp add: machine_words_def)
  then show ?thesis using that c2(2) by simp
qed

lemma full_light_agree:
  assumes "hash512 k512" "cache_ok cache" "length dest = 128 * rows" "50 \<le> rows" "2 * rows < 2 ^ 28"
    and "0 < threads" "threads < 2 ^ 20" "schedule_of (word_of_nat (length dest)) threads schedule"
    and "length h = 32"
  shows "\<exists>dataset digest result. generateDataset le k512 schedule dest cache = Some dataset
    \<and> hashimotoFull k512 k256 dataset h nonce = Some (digest, result)
    \<and> hashimotoLight k512 k256 (word_of_nat (length dest)) cache h nonce = Some (digest, result)
    \<and> length digest = 32"
proof -
  have dest: "length dest = 64 * (2 * rows)" "100 \<le> 2 * rows" using assms(3,4) by simp_all
  obtain ds where ds: "generateDataset le k512 schedule dest cache = Some ds" "length ds = 16 * (2 * rows)"
    "\<And>i. i < 2 * rows \<Longrightarrow> take 16 (drop (16 * i) ds) = le_words (the (generateDatasetItem cache (word_of_nat i) k512))"
    using generateDataset_rows [OF assms(2,1) dest assms(5-8), where le = le] by blast
  have sz: "unat (word_of_nat (length dest) :: u64) = 128 * rows" and rows: "0 < rows" "2 * rows < 2 ^ 32"
    using assms(3-5) by (simp_all add: unat_of_nat del: of_nat_mult)
  obtain digest result where
    "hashimotoLight k512 k256 (word_of_nat (length dest)) cache h nonce = Some (digest, result)"
    "length digest = 32"
    using hashimotoLight_some [OF assms(1,2,9) rows sz] by blast
  moreover have "length ds = 32 * rows" using ds(2) by simp
  ultimately show ?thesis
    using ds(1) Full_eq_Light [OF assms(2,1) _ assms(5) ds(3), of k256 h nonce] assms(3) by simp
qed

section \<open>Properties\<close>

text \<open>
  C25. Light verification equals full verification for datasets below 16 GB: for every cache of whole rows, every
  dataset size of at least 50 and less than 2 to the 27 rows of 128 bytes, every number of goroutines from 1 to 2 to the 20,
  every order in which they write their rows, either byte order of the machine and a hash of 32 bytes, the dataset is
  generated without a panic, and \<^verbatim>\<open>hashimotoFull\<close> over it returns the same digest and result as
  \<^verbatim>\<open>hashimotoLight\<close> over the cache. From 16 GB on the full lookup wraps around (\<open>full_lookup_wraps\<close>).
\<close>

theorem hashimotoFull_eq_Light:
  assumes "hash512 k512" "cache_ok cache" "length dest = 128 * rows" "50 \<le> rows" "2 * rows < 2 ^ 28"
    and "0 < threads" "threads < 2 ^ 20" "schedule_of (word_of_nat (length dest)) threads schedule"
    and "length h = 32"
  shows "\<exists>dataset digest result. generateDataset le k512 schedule dest cache = Some dataset
    \<and> hashimotoFull k512 k256 dataset h nonce = Some (digest, result)
    \<and> hashimotoLight k512 k256 (word_of_nat (length dest)) cache h nonce = Some (digest, result)
    \<and> length digest = 32"
  by (rule full_light_agree [OF assms])

theorem hashimotoFull_eq_Light_witness:
  "\<exists>dataset digest result.
     generateDataset False (\<lambda>_. replicate 64 1) (dataset_segment 6400 1 0) (replicate 6400 0) (replicate 16 7)
       = Some dataset
     \<and> hashimotoFull (\<lambda>_. replicate 64 1) id dataset (replicate 32 5) 9 = Some (digest, result)
     \<and> hashimotoLight (\<lambda>_. replicate 64 1) id 6400 (replicate 16 7) (replicate 32 5) 9 = Some (digest, result)
     \<and> length digest = 32"
  using hashimotoFull_eq_Light [of "\<lambda>_. replicate 64 1" "replicate 16 7" "replicate 6400 0" 50 1
      "dataset_segment 6400 1 0" "replicate 32 5" False id 9]
  by (simp add: hash512_def cache_ok_def schedule_of_def exI [of _ "Suc 0"])

text \<open>
  C26. A dataset of more than 2 to the 28 rows (16 GB) is not read as it was written: the row offset of
  \<^verbatim>\<open>hashimotoFull\<close> wraps around at 32 bits, so every row from there on reads a row at the front.
\<close>

theorem full_lookup_wraps:
  "full_lookup dataset (i + 2 ^ 28) = full_lookup dataset i"
proof -
  have "(2 ^ 28 * 16 :: u32) = word_of_nat (2 ^ 28 * 16)" by simp
  also have "\<dots> = 0" by (subst word_of_nat_eq_0_iff) simp
  finally have "(i + 2 ^ 28) * 16 = (i * 16 :: u32)" by (simp only: distrib_right add_0_right)
  then show ?thesis by (simp only: full_lookup_def hashWords_def)
qed

text \<open>
  C27. The verification cache of any whole number of rows below 4 GB is generated without a panic, with
  the same words on machines of either byte order, and is one that dataset items can be computed from.
\<close>

theorem generateCache_total:
  assumes "hash512 k512" "0 < rows" "64 * rows < 2 ^ 32" "length dest = 64 * rows"
  shows "\<exists>cache. generateCache True k512 dest seed = Some cache
    \<and> generateCache False k512 dest seed = Some cache \<and> cache_ok cache
    \<and> (\<exists>item. generateDatasetItem cache index k512 = Some item \<and> length item = 64)"
proof -
  obtain c where c: "generateCache True k512 dest seed = Some c" "generateCache False k512 dest seed = Some c"
    "length c = 16 * rows" by (rule generateCache_some [OF assms])
  have "cache_ok c" using c(3) assms(2,3) by (auto simp: cache_ok_def)
  moreover obtain item where "generateDatasetItem c index k512 = Some item" "length item = 64"
    using generateDatasetItem_some [OF \<open>cache_ok c\<close> assms(1)] .
  ultimately show ?thesis using c by blast
qed

theorem generateCache_total_witness:
  "\<exists>cache. generateCache True (\<lambda>_. replicate 64 1) (replicate 128 0) [5] = Some cache
    \<and> generateCache False (\<lambda>_. replicate 64 1) (replicate 128 0) [5] = Some cache \<and> cache_ok cache
    \<and> (\<exists>item. generateDatasetItem cache 3 (\<lambda>_. replicate 64 1) = Some item \<and> length item = 64)"
  by (rule generateCache_total [where rows = 2]) (simp_all add: hash512_def)

end
