(* ===== verification/Ethash_Sizes.thy ===== *)
theory Ethash_Sizes
  imports Ethash_Algorithm
begin

text \<open>
  The sizes of the verification cache and of the dataset, \<^verbatim>\<open>calcCacheSize\<close>,
  \<^verbatim>\<open>calcDatasetSize\<close>, \<^verbatim>\<open>cacheSize\<close> and \<^verbatim>\<open>datasetSize\<close> of
  \<^verbatim>\<open>consensus/ethash/algorithm.go\<close>. The loops that look for a prime may run forever in principle, so
  they are partial functions, and that they return is proved. \<^verbatim>\<open>big.Int.ProbablyPrime\<close> is exact below
  2 to the 64 and is modelled by trial division. The lookup tables of the first 2048 epochs are arguments.
\<close>

definition is_prime :: "nat \<Rightarrow> bool" where
  "is_prime n = (1 < n \<and> (\<forall>d \<in> set [2..<n]. \<not> d dvd n))"

definition ProbablyPrime :: "u64 \<Rightarrow> bool" where
  "ProbablyPrime w = is_prime (unat w)"

text \<open>\<^verbatim>\<open>for !prime(size / unit) { size -= 2 * unit }\<close>\<close>

partial_function (option) size_loop :: "u64 \<Rightarrow> u64 \<Rightarrow> u64 option" where
  "size_loop u sz =
     (if ProbablyPrime (sz div u) then Some sz else size_loop u (sz - 2 * u))"

definition calcCacheSize :: "nat \<Rightarrow> u64 option" where
  "calcCacheSize epoch = size_loop 64 (2 ^ 24 + 2 ^ 17 * word_of_nat epoch - 64)"

definition calcDatasetSize :: "nat \<Rightarrow> u64 option" where
  "calcDatasetSize epoch = size_loop 128 (2 ^ 30 + 2 ^ 23 * word_of_nat epoch - 128)"

definition maxEpoch :: nat where
  "maxEpoch = 2048"

definition cacheSize :: "u64 list \<Rightarrow> u64 \<Rightarrow> u64 option" where
  "cacheSize cacheSizes block =
     (let epoch = unat (block div epochLength)
      in if epoch < maxEpoch then nth_opt cacheSizes epoch else calcCacheSize epoch)"

definition datasetSize :: "u64 list \<Rightarrow> u64 \<Rightarrow> u64 option" where
  "datasetSize datasetSizes block =
     (let epoch = unat (block div epochLength)
      in if epoch < maxEpoch then nth_opt datasetSizes epoch else calcDatasetSize epoch)"

lemma is_prime_3: "is_prime 3"
  by (simp add: is_prime_def upt_rec)

lemma is_prime_even: "is_prime n \<Longrightarrow> even n \<Longrightarrow> n = 2"
  by (rule ccontr) (auto simp: is_prime_def)

text \<open>The loop returns the multiple of the unit with the largest odd prime quotient.\<close>

lemma size_loop_prime:
  assumes "0 < unat u" "odd q" "3 \<le> q" "q * unat u < 2 ^ 64"
  shows "\<exists>p. size_loop u (word_of_nat (q * unat u)) = Some (word_of_nat (p * unat u))
    \<and> is_prime p \<and> p \<le> q \<and> 3 \<le> p \<and> (\<forall>r. is_prime r \<longrightarrow> r \<le> q \<longrightarrow> r \<le> p)"
  using assms(2-4)
proof (induction q rule: less_induct)
  case (less q)
  have d: "unat (word_of_nat (q * unat u) div u :: u64) = q"
    using less.prems(3) assms(1) by (simp add: unat_div_distrib unat_of_nat del: of_nat_mult)
  show ?case
  proof (cases "is_prime q")
    case True
    then show ?thesis
      using d less.prems(2) by (subst size_loop.simps) (auto simp: ProbablyPrime_def)
  next
    case False
    then have "q \<noteq> 3" using is_prime_3 by auto
    then have q: "5 \<le> q" using less.prems(1,2) by presburger
    have sub: "word_of_nat (q * unat u) - 2 * u = (word_of_nat ((q - 2) * unat u) :: u64)"
      using q by (simp add: diff_mult_distrib of_nat_diff)
    have lt: "(q - 2) * unat u < 2 ^ 64"
      using less.prems(3) by (rule le_less_trans [rotated]) simp
    obtain p where p: "size_loop u (word_of_nat ((q - 2) * unat u)) = Some (word_of_nat (p * unat u))"
      "is_prime p" "p \<le> q - 2" "3 \<le> p" "\<forall>r. is_prime r \<longrightarrow> r \<le> q - 2 \<longrightarrow> r \<le> p"
      using less.IH [OF _ _ _ lt] q less.prems(1) le_diff_conv2 [of 2 q 3] by (auto simp del: of_nat_mult)
    have "r \<le> p" if "is_prime r" "r \<le> q" for r
    proof -
      have "r \<noteq> q" using that False by auto
      moreover have "r \<noteq> q - 1" using is_prime_even [OF that(1)] q less.prems(1) by auto
      ultimately show ?thesis using p(5) that by auto
    qed
    moreover have "size_loop u (word_of_nat (q * unat u)) = size_loop u (word_of_nat ((q - 2) * unat u))"
      using False d sub by (subst size_loop.simps) (simp add: ProbablyPrime_def)
    ultimately show ?thesis using p by auto
  qed
qed

lemma size_loop_start:
  "2 ^ (n + k) + 2 ^ (m + k) * word_of_nat epoch - 2 ^ k
    = (word_of_nat ((2 ^ n + 2 ^ m * epoch - 1) * 2 ^ k) :: u64)"
proof -
  have "(word_of_nat (2 ^ n + 2 ^ m * epoch - 1) :: u64) = word_of_nat (2 ^ n + 2 ^ m * epoch) - 1"
    by (subst of_nat_diff) (simp_all add: Suc_leI)
  then show ?thesis by (simp only: of_nat_mult) (simp add: power_add algebra_simps)
qed

lemma size_threshold:
  assumes "epoch < 2 ^ 32" "k < 8" "7 < n" "n < 24" "0 < m" "m < 24"
  defines "q \<equiv> 2 ^ n + 2 ^ m * epoch - 1 :: nat"
  shows "odd q" "3 \<le> q" "q * 2 ^ k < 2 ^ 64"
proof -
  have "(2 :: nat) ^ 8 \<le> 2 ^ n" using assms(3) by (intro power_increasing) simp_all
  then have n: "256 \<le> (2 :: nat) ^ n" by simp
  moreover have "even ((2 :: nat) ^ n + 2 ^ m * epoch)" using assms(3,5) by simp
  ultimately show "odd q" "3 \<le> q" unfolding q_def by simp_all
  have "(2 :: nat) ^ n \<le> 2 ^ 23" "(2 :: nat) ^ m \<le> 2 ^ 23" "(2 :: nat) ^ k \<le> 2 ^ 7"
    using assms(2,4,6) power_increasing [of n 23 "2 :: nat"] power_increasing [of m 23 "2 :: nat"]
      power_increasing [of k 7 "2 :: nat"] by simp_all
  then have "2 ^ n + 2 ^ m * epoch \<le> 2 ^ 23 + 2 ^ 23 * 2 ^ 32" "(2 :: nat) ^ k \<le> 2 ^ 7"
    using assms(1) mult_mono [of "2 ^ m" "2 ^ 23" epoch "2 ^ 32"] by simp_all
  then have "q \<le> 2 ^ 23 + 2 ^ 23 * 2 ^ 32" "(2 :: nat) ^ k \<le> 2 ^ 7" unfolding q_def by simp_all
  then have "q * 2 ^ k \<le> (2 ^ 23 + 2 ^ 23 * 2 ^ 32) * 2 ^ 7" by (rule mult_mono) simp_all
  then show "q * 2 ^ k < 2 ^ 64" by simp
qed

section \<open>Properties\<close>

text \<open>
  C28. For every epoch below 2 to the 32 the search for a size ends, and the size is the unit (64 bytes for
  the cache, 128 for the dataset) times the largest prime below the linearly growing threshold.
\<close>

theorem calc_sizes_largest_prime:
  assumes "epoch < 2 ^ 32"
  shows "(\<exists>p. calcCacheSize epoch = Some (word_of_nat (p * 64)) \<and> is_prime p \<and> p < 2 ^ 18 + 2 ^ 11 * epoch
       \<and> \<not> (\<exists>r. is_prime r \<and> p < r \<and> r < 2 ^ 18 + 2 ^ 11 * epoch))
    \<and> (\<exists>p. calcDatasetSize epoch = Some (word_of_nat (p * 128)) \<and> is_prime p \<and> p < 2 ^ 23 + 2 ^ 16 * epoch
       \<and> \<not> (\<exists>r. is_prime r \<and> p < r \<and> r < 2 ^ 23 + 2 ^ 16 * epoch))"
proof -
  have gen: "\<exists>p. size_loop (2 ^ k) (2 ^ (n + k) + 2 ^ (m + k) * word_of_nat epoch - 2 ^ k) = Some (word_of_nat (p * 2 ^ k))
      \<and> is_prime p \<and> p < 2 ^ n + 2 ^ m * epoch \<and> \<not> (\<exists>r. is_prime r \<and> p < r \<and> r < 2 ^ n + 2 ^ m * epoch)"
    if "k < 8" "7 < n" "n < 24" "0 < m" "m < 24" for k n m
  proof -
    have u: "unat (2 ^ k :: u64) = 2 ^ k" using that(1) unat_of_nat [of "2 ^ k", where ?'a = 64] power_strict_increasing [of k 64 "2 :: nat"] by simp
    let ?q = "2 ^ n + 2 ^ m * epoch - 1 :: nat"
    note q = size_threshold [OF assms that]
    obtain p where "size_loop (2 ^ k) (word_of_nat (?q * 2 ^ k)) = Some (word_of_nat (p * 2 ^ k))"
      "is_prime p" "p \<le> ?q" "\<forall>r. is_prime r \<longrightarrow> r \<le> ?q \<longrightarrow> r \<le> p"
      using size_loop_prime [of "2 ^ k" ?q] q u by auto
    moreover have "r < 2 ^ n + 2 ^ m * epoch \<longleftrightarrow> r \<le> ?q" for r using q(2) by linarith
    ultimately show ?thesis using size_loop_start [of n k m epoch] by (metis leD)
  qed
  from gen [of 6 18 11] gen [of 7 23 16] show ?thesis
    by (simp add: calcCacheSize_def calcDatasetSize_def)
qed

theorem calc_sizes_largest_prime_witness:
  "(\<exists>p. calcCacheSize 0 = Some (word_of_nat (p * 64)) \<and> is_prime p \<and> p < 2 ^ 18)
   \<and> (\<exists>p. calcDatasetSize 0 = Some (word_of_nat (p * 128)) \<and> is_prime p \<and> p < 2 ^ 23)"
  using calc_sizes_largest_prime [of 0] by auto

end
