(* ===== verification/Block_Header.thy ===== *)
theory Block_Header
  imports RLP_Roundtrip
begin

text \<open>
  Block headers and blocks of \<^verbatim>\<open>core/types/block.go\<close>: the header record, its hash, the copies and
  the block constructors. The hash function (\<^verbatim>\<open>sha3.NewLegacyKeccak256\<close>, outside the repository) is the
  argument \<^verbatim>\<open>keccak\<close>, from the bytes written to the 32 bytes read. \<^verbatim>\<open>Difficulty\<close> and \<^verbatim>\<open>Number\<close> are pointers: the type of
  these two fields is a parameter of the record. A Go header is an \<open>int option Header\<close>, where \<^const>\<open>None\<close> is \<^verbatim>\<open>nil\<close>; an
  \<open>int Header\<close> is a header with both pointers set, as \<^verbatim>\<open>CopyHeader\<close> and the decoder give it and as the consensus
  engine, which dereferences them without a check, needs it. The cached hash and size of a block and the fields of the network
  layer are left out; a transaction is an element of an arbitrary type with its RLP value as an argument where it is encoded.

  The lemmas show that the encoding of a header is decoded to the same header up to \<^verbatim>\<open>nil\<close> integers, which are decoded
  as zero, and so that the hash commits to every field.
\<close>

type_synonym keccak = "bytes \<Rightarrow> hash"

type_synonym bloom = "2048 word"

record 'i Header =
  h_ParentHash :: hash
  h_UncleHash :: hash
  h_Coinbase :: address
  h_Root :: hash
  h_TxHash :: hash
  h_ReceiptHash :: hash
  h_Bloom :: bloom
  h_Difficulty :: 'i
  h_Number :: 'i
  h_GasLimit :: u64
  h_GasUsed :: u64
  h_Time :: u64
  h_Extra :: bytes
  h_MixDigest :: hash
  h_Nonce :: bytes

definition EncodeNonce :: "u64 \<Rightarrow> bytes" where
  "EncodeNonce i = word_bytes 8 i"

definition nonce_Uint64 :: "bytes \<Rightarrow> u64" where
  "nonce_Uint64 n = bytes_word n"

section \<open>Hashing\<close>

text \<open>The hash state as a writer: it holds the bytes written since the reset and never fails.\<close>

definition sha_Write :: "(unit, bytes) io_Write" where
  "sha_Write b st = ((length b, None), st @ b)"

interpretation sha_writer: io_total_writer sha_Write id
  by unfold_locales (auto simp: sha_Write_def)

text \<open>
  \<^verbatim>\<open>rlpHash\<close> drops the error of \<^verbatim>\<open>rlp.Encode\<close>: a value without encoding hashes like no bytes.
  (A panic of the encoder, the value \<^const>\<open>None\<close>, does not occur below 2 to the 64 bytes.)
\<close>

definition rlpHash :: "keccak \<Rightarrow> val \<Rightarrow> hash" where
  "rlpHash keccak x =
     (case Encode sha_Write x (Other []) of
        Some (Inr (_, Other written)) \<Rightarrow> keccak written
      | _ \<Rightarrow> keccak [])"

definition header_fields :: "int option Header \<Rightarrow> val list" where
  "header_fields h =
     [VByteArray (word_bytes 32 (h_ParentHash h)),
      VByteArray (word_bytes 32 (h_UncleHash h)),
      VByteArray (word_bytes 20 (h_Coinbase h)),
      VByteArray (word_bytes 32 (h_Root h)),
      VByteArray (word_bytes 32 (h_TxHash h)),
      VByteArray (word_bytes 32 (h_ReceiptHash h)),
      VByteArray (word_bytes 256 (h_Bloom h)),
      VBigInt (h_Difficulty h),
      VBigInt (h_Number h),
      VUint (h_GasLimit h),
      VUint (h_GasUsed h),
      VUint (h_Time h),
      VBytes (h_Extra h),
      VByteArray (word_bytes 32 (h_MixDigest h)),
      VByteArray (h_Nonce h)]"

definition header_val :: "int option Header \<Rightarrow> val" where
  "header_val h = VPtr (VStruct (header_fields h))"

definition header_Hash :: "keccak \<Rightarrow> int option Header \<Rightarrow> hash" where
  "header_Hash keccak h = rlpHash keccak (header_val h)"

definition EmptyRootHash :: hash where
  "EmptyRootHash = 0x56e81f171bcc55a6ff8345e692c0f86e5b48e01b996cadc001622fb5e363b421"

definition EmptyUncleHash :: "keccak \<Rightarrow> hash" where
  "EmptyUncleHash keccak = rlpHash keccak (VSlice False [])"

definition EmptyBody :: "keccak \<Rightarrow> int option Header \<Rightarrow> bool" where
  "EmptyBody keccak h = (h_TxHash h = EmptyRootHash \<and> h_UncleHash h = EmptyUncleHash keccak)"

definition EmptyReceipts :: "int option Header \<Rightarrow> bool" where
  "EmptyReceipts h = (h_ReceiptHash h = EmptyRootHash)"

definition CalcUncleHash :: "keccak \<Rightarrow> int option Header list \<Rightarrow> hash" where
  "CalcUncleHash keccak uncles =
     (if length uncles = 0 then EmptyUncleHash keccak
      else rlpHash keccak (VSlice False (map header_val uncles)))"

datatype sanity_error =
    TooLargeNumber nat
  | TooLargeDifficulty nat
  | TooLargeExtra nat

definition header_SanityCheck :: "int option Header \<Rightarrow> sanity_error option" where
  "header_SanityCheck h =
     (case (case h_Number h of
              None \<Rightarrow> None
            | Some n \<Rightarrow> if \<not> (0 \<le> n \<and> n < 2 ^ 64) then Some (TooLargeNumber (bit_len (nat \<bar>n\<bar>))) else None) of
        Some e \<Rightarrow> Some e
      | None \<Rightarrow>
          (case (case h_Difficulty h of
                   None \<Rightarrow> None
                 | Some d \<Rightarrow> let diffLen = bit_len (nat \<bar>d\<bar>) in if diffLen > 80 then Some (TooLargeDifficulty diffLen) else None) of
             Some e \<Rightarrow> Some e
           | None \<Rightarrow> let eLen = length (h_Extra h) in if eLen > 100 * 1024 then Some (TooLargeExtra eLen) else None))"

section \<open>Blocks\<close>

text \<open>
  \<^verbatim>\<open>CopyHeader\<close> makes new integers, zero in the place of \<^verbatim>\<open>nil\<close>: the copy has both pointers set. \<open>set_header\<close> is the
  same header as a value of the Go type.
\<close>

definition CopyHeader :: "int option Header \<Rightarrow> int Header" where
  "CopyHeader h =
     \<lparr>h_ParentHash = h_ParentHash h, h_UncleHash = h_UncleHash h, h_Coinbase = h_Coinbase h, h_Root = h_Root h,
      h_TxHash = h_TxHash h, h_ReceiptHash = h_ReceiptHash h, h_Bloom = h_Bloom h,
      h_Difficulty = (case h_Difficulty h of None \<Rightarrow> 0 | Some d \<Rightarrow> d),
      h_Number = (case h_Number h of None \<Rightarrow> 0 | Some n \<Rightarrow> n),
      h_GasLimit = h_GasLimit h, h_GasUsed = h_GasUsed h, h_Time = h_Time h,
      h_Extra = (if 0 < length (h_Extra h) then take (length (h_Extra h)) (h_Extra h) else h_Extra h),
      h_MixDigest = h_MixDigest h, h_Nonce = h_Nonce h\<rparr>"

definition set_header :: "int Header \<Rightarrow> int option Header" where
  "set_header h =
     \<lparr>h_ParentHash = h_ParentHash h, h_UncleHash = h_UncleHash h, h_Coinbase = h_Coinbase h, h_Root = h_Root h,
      h_TxHash = h_TxHash h, h_ReceiptHash = h_ReceiptHash h, h_Bloom = h_Bloom h,
      h_Difficulty = Some (h_Difficulty h), h_Number = Some (h_Number h),
      h_GasLimit = h_GasLimit h, h_GasUsed = h_GasUsed h, h_Time = h_Time h, h_Extra = h_Extra h,
      h_MixDigest = h_MixDigest h, h_Nonce = h_Nonce h\<rparr>"

abbreviation hash_of :: "keccak \<Rightarrow> int Header \<Rightarrow> hash" where
  "hash_of keccak h \<equiv> header_Hash keccak (set_header h)"

text \<open>
  The constructors of a block copy the headers they get, and the decoder sets the pointers: the headers of a block have
  both pointers set.
\<close>

record 'tx Block =
  b_header :: "int Header"
  b_uncles :: "int Header list"
  b_transactions :: "'tx list"

text \<open>
  \<^verbatim>\<open>NewBlock\<close> takes the root of a list of transactions or receipts (\<^verbatim>\<open>DeriveSha\<close> of
  \<^verbatim>\<open>core/types/derive_sha.go\<close>) and the bloom filter of the receipts as arguments.
\<close>

definition NewBlock ::
  "keccak \<Rightarrow> ('tx list \<Rightarrow> hash) \<Rightarrow> ('rc list \<Rightarrow> hash) \<Rightarrow> ('rc list \<Rightarrow> bloom)
   \<Rightarrow> int option Header \<Rightarrow> 'tx list \<Rightarrow> int option Header list \<Rightarrow> 'rc list \<Rightarrow> 'tx Block" where
  "NewBlock keccak derive_txs derive_receipts create_bloom header txs uncles receipts =
     (let h = CopyHeader header;
          h1 = (if length txs = 0 then h\<lparr>h_TxHash := EmptyRootHash\<rparr>
                else h\<lparr>h_TxHash := derive_txs txs\<rparr>);
          h2 = (if length receipts = 0 then h1\<lparr>h_ReceiptHash := EmptyRootHash\<rparr>
                else h1\<lparr>h_ReceiptHash := derive_receipts receipts, h_Bloom := create_bloom receipts\<rparr>);
          h3 = (if length uncles = 0 then h2\<lparr>h_UncleHash := EmptyUncleHash keccak\<rparr>
                else h2\<lparr>h_UncleHash := CalcUncleHash keccak uncles\<rparr>)
      in \<lparr>b_header = h3,
          b_uncles = (if length uncles = 0 then [] else map CopyHeader uncles),
          b_transactions = (if length txs = 0 then [] else txs)\<rparr>)"

definition NewBlockWithHeader :: "int option Header \<Rightarrow> 'tx Block" where
  "NewBlockWithHeader header = \<lparr>b_header = CopyHeader header, b_uncles = [], b_transactions = []\<rparr>"

text \<open>\<^verbatim>\<open>WithSeal\<close> takes the header as it is; the sealer gives it the header of a block with the nonce and the digest set.\<close>

definition WithSeal :: "'tx Block \<Rightarrow> int Header \<Rightarrow> 'tx Block" where
  "WithSeal b header =
     \<lparr>b_header = header, b_uncles = b_uncles b, b_transactions = b_transactions b\<rparr>"

definition WithBody :: "'tx Block \<Rightarrow> 'tx list \<Rightarrow> int option Header list \<Rightarrow> 'tx Block" where
  "WithBody b transactions uncles =
     \<lparr>b_header = CopyHeader (set_header (b_header b)), b_uncles = map CopyHeader uncles,
      b_transactions = transactions\<rparr>"

definition block_Hash :: "keccak \<Rightarrow> 'tx Block \<Rightarrow> hash" where
  "block_Hash keccak b = hash_of keccak (b_header b)"

text \<open>The RLP value of a block (\<^verbatim>\<open>extblock\<close>), with the value of a transaction as an argument.\<close>

definition block_val :: "('tx \<Rightarrow> val) \<Rightarrow> 'tx Block \<Rightarrow> val" where
  "block_val tx_val b =
     VStruct [header_val (set_header (b_header b)),
              VSlice False (map tx_val (b_transactions b)),
              VSlice False (map (\<lambda>u. header_val (set_header u)) (b_uncles b))]"

section \<open>The encoding of a header\<close>

definition header_type :: gotype where
  "header_type = TPtr (TStruct [TByteArray 32, TByteArray 32, TByteArray 20, TByteArray 32, TByteArray 32,
     TByteArray 32, TByteArray 256, TBigInt, TBigInt, TUint 64, TUint 64, TUint 64, TByteSlice,
     TByteArray 32, TByteArray 8])"

lemma CopyHeader_set [simp]: "CopyHeader (set_header h) = h"
  by (simp add: CopyHeader_def set_header_def)

lemma header_val_inj: "header_val (set_header g) = header_val (set_header h) \<longleftrightarrow> g = h"
  by (auto simp: header_val_def header_fields_def set_header_def word_bytes_inj intro!: Header.equality)

lemma header_canonical:
  "0 \<le> h_Difficulty h \<Longrightarrow> 0 \<le> h_Number h \<Longrightarrow> length (h_Nonce h) = 8 \<Longrightarrow> canonical (header_val (set_header h)) header_type"
  using unsigned_less [of "h_GasLimit h", where ?'a = nat] unsigned_less [of "h_GasUsed h", where ?'a = nat]
    unsigned_less [of "h_Time h", where ?'a = nat]
  by (simp add: header_val_def header_fields_def header_type_def set_header_def)

text \<open>A \<^verbatim>\<open>nil\<close> integer is encoded like zero.\<close>

lemma enc_ref_nil: "enc_ref (VBigInt x) = enc_ref (VBigInt (Some (case x of None \<Rightarrow> 0 | Some i \<Rightarrow> i)))"
  by (cases x) simp_all

lemma enc_refs_cong: "map enc_ref us = map enc_ref vs \<Longrightarrow> enc_refs us = enc_refs vs"
proof (induction us arbitrary: vs)
  case (Cons u us)
  then show ?case by (cases vs) (auto split: sum.split)
qed simp

lemma header_enc_copy: "enc_ref (header_val (set_header (CopyHeader h))) = enc_ref (header_val h)"
proof -
  have "map enc_ref (header_fields (set_header (CopyHeader h))) = map enc_ref (header_fields h)"
    using enc_ref_nil [of "h_Difficulty h"] enc_ref_nil [of "h_Number h"]
    by (simp add: header_fields_def set_header_def CopyHeader_def del: enc_ref.simps(2,3))
  from enc_refs_cong [OF this] show ?thesis by (simp add: header_val_def)
qed

lemma header_type_ok: "no_byte1 header_type" "tails_last header_type"
  by (simp_all add: header_type_def)

lemma enc_refs_Inr:
  "(\<forall>v \<in> set vs. \<exists>b. enc_ref v = Inr b \<and> length b \<le> n) \<Longrightarrow>
   \<exists>out. enc_refs vs = Inr out \<and> length out \<le> length vs * n"
proof (induction vs)
  case (Cons v vs)
  then obtain b out where "enc_ref v = Inr b" "length b \<le> n" "enc_refs vs = Inr out" "length out \<le> length vs * n"
    by auto
  then show ?case by simp
qed simp

lemma length_rlp_head: "n < 2 ^ 64 \<Longrightarrow> length (rlp_head a b n) \<le> 9"
  using length_be_bytes_le [of n 8] by (simp add: rlp_head_def)

lemma rlp_string_bound: "length b < 2 ^ 64 \<Longrightarrow> length (rlp_string b) \<le> length b + 9"
  using length_rlp_head [of "length b" "0x80" "0xB7"] by (simp add: rlp_string_def)

lemma rlp_list_bound: "length b < 2 ^ 64 \<Longrightarrow> length (rlp_list b) \<le> length b + 9"
  using length_rlp_head [of "length b" "0xC0" "0xF7"] by (simp add: rlp_list_def)

lemma enc_ref_small:
  "length b \<le> 102400 \<Longrightarrow> \<exists>e. enc_ref (VByteArray b) = Inr e \<and> length e \<le> 102409"
  "length b \<le> 102400 \<Longrightarrow> \<exists>e. enc_ref (VBytes b) = Inr e \<and> length e \<le> 102409"
  using rlp_string_bound [of b] by simp_all

lemma enc_ref_small_int:
  assumes "0 \<le> i" "i < 2 ^ 80"
  shows "\<exists>e. enc_ref (VBigInt (Some i)) = Inr e \<and> length e \<le> 102409"
proof -
  have "nat i < 256 ^ 10" using assms by (simp add: nat_less_iff)
  then show ?thesis
    using assms(1) rlp_string_bound [of "be_bytes (nat i)"] length_be_bytes_le [of "nat i" 10] by simp
qed

lemma enc_ref_small_uint: "\<exists>e. enc_ref (VUint i) = Inr e \<and> length e \<le> 102409"
  using unsigned_less [of i, where ?'a = nat] rlp_string_bound [of "be_bytes (unat i)"]
    length_be_bytes_le [of "unat i" 8] by simp

lemma SanityCheck_bounds:
  assumes "header_SanityCheck h = None"
  shows "0 \<le> h_Number (CopyHeader h)" "h_Number (CopyHeader h) < 2 ^ 64" "\<bar>h_Difficulty (CopyHeader h)\<bar> < 2 ^ 80"
    "length (h_Extra h) \<le> 102400"
proof -
  have *: "0 \<le> h_Number (CopyHeader h) \<and> h_Number (CopyHeader h) < 2 ^ 64"
    "bit_len (nat \<bar>h_Difficulty (CopyHeader h)\<bar>) \<le> 80" "length (h_Extra h) \<le> 102400"
    using assms bit_len_le [of 0 80]
    by (auto simp: header_SanityCheck_def CopyHeader_def Let_def split: option.splits if_splits)
  then show "0 \<le> h_Number (CopyHeader h)" "h_Number (CopyHeader h) < 2 ^ 64" "length (h_Extra h) \<le> 102400" by simp_all
  from *(2) have "nat \<bar>h_Difficulty (CopyHeader h)\<bar> < 2 ^ 80" by (simp only: bit_len_le)
  then show "\<bar>h_Difficulty (CopyHeader h)\<bar> < 2 ^ 80" by (simp add: nat_less_iff)
qed

lemma header_encoding:
  assumes "header_SanityCheck h = None" "0 \<le> h_Difficulty (CopyHeader h)" "length (h_Nonce h) = 8"
  shows "\<exists>e. enc_ref (header_val h) = Inr e \<and> length e < 2 ^ 21"
proof -
  let ?h = "set_header (CopyHeader h)"
  note b = SanityCheck_bounds [OF assms(1)]
  have "\<forall>v \<in> set (header_fields ?h). \<exists>e. enc_ref v = Inr e \<and> length e \<le> 102409"
    using assms(2,3) b enc_ref_small_int [of "h_Number (CopyHeader h)"] enc_ref_small_int [of "h_Difficulty (CopyHeader h)"]
    by (simp add: header_fields_def set_header_def enc_ref_small enc_ref_small_uint del: enc_ref.simps length_0_conv)
      (simp add: CopyHeader_def enc_ref_small del: enc_ref.simps)
  then obtain out where out: "enc_refs (header_fields ?h) = Inr out" "length out \<le> 15 * 102409"
    using enc_refs_Inr [of "header_fields ?h" 102409] by (auto simp: header_fields_def)
  then have "enc_ref (header_val ?h) = Inr (rlp_list out)" by (simp add: header_val_def)
  then show ?thesis using rlp_list_bound [of out] out(2) by (simp add: header_enc_copy)
qed

lemma header_no_encoding:
  assumes "h_Difficulty h = Some d" "d < 0"
  shows "enc_ref (header_val h) = Inl ErrNegativeBigInt"
  using assms by (simp add: header_val_def header_fields_def)

lemma rlpHash_enc:
  assumes "enc_ref v = Inr e" "length e < 2 ^ 64"
  shows "rlpHash keccak v = keccak e"
  using sha_writer.Encode_total [OF assms, of "[]"] by (auto simp: rlpHash_def)

lemma rlpHash_error: "enc_ref v = Inl x \<Longrightarrow> rlpHash keccak v = keccak []"
  using EncodeToBytes_enc_ref [of v] by (auto simp: rlpHash_def EncodeToBytes_def split: sum.splits option.splits)

lemma header_decoded:
  assumes "header_SanityCheck h = None" "0 \<le> h_Difficulty (CopyHeader h)" "length (h_Nonce h) = 8" "enc_ref (header_val h) = Inr e"
  shows "DecodeBytes e header_type = Some (Inr (header_val (set_header (CopyHeader h)))) \<and> length e < 2 ^ 21"
proof -
  have e: "length e < 2 ^ 21" using header_encoding [OF assms(1-3)] assms(4) by auto
  have "canonical (header_val (set_header (CopyHeader h))) header_type"
    using header_canonical [of "CopyHeader h"] assms(2,3) SanityCheck_bounds(1) [OF assms(1)] by (simp add: CopyHeader_def)
  then show ?thesis using DecodeBytes_complete [OF _ header_type_ok] header_enc_copy [of h] assms(4) e by simp
qed

section \<open>Properties\<close>

text \<open>
  C19. A header that passes \<^verbatim>\<open>SanityCheck\<close>, with a nonce of 8 bytes. If its difficulty is not negative, it is decoded from its
  own encoding to the field values of its copy, so to the same values with zero in the place of a \<^verbatim>\<open>nil\<close> integer, and its
  hash is the hash of exactly that encoding. \<^verbatim>\<open>SanityCheck\<close> lets a negative difficulty pass: such a header has no encoding,
  and its hash is the hash of no bytes.
\<close>

theorem header_roundtrip:
  assumes "header_SanityCheck h = None" "length (h_Nonce h) = 8"
  shows "if 0 \<le> h_Difficulty (CopyHeader h)
    then \<exists>e. EncodeToBytes (header_val h) = Some (Inr e)
      \<and> DecodeBytes e header_type = Some (Inr (header_val (set_header (CopyHeader h))))
      \<and> header_Hash keccak h = keccak e
    else EncodeToBytes (header_val h) = Some (Inl ErrNegativeBigInt) \<and> header_Hash keccak h = keccak []"
proof (cases "0 \<le> h_Difficulty (CopyHeader h)")
  case True
  then obtain e where e: "enc_ref (header_val h) = Inr e" "length e < 2 ^ 21"
    using header_encoding [OF assms(1) _ assms(2)] by blast
  then show ?thesis
    using True EncodeToBytes_enc_ref [of "header_val h"] header_decoded [OF assms(1) True assms(2) e(1)] rlpHash_enc [OF e(1)]
    by (simp add: header_Hash_def)
next
  case False
  then obtain d where "h_Difficulty h = Some d" "d < 0" by (auto simp: CopyHeader_def split: option.splits)
  then show ?thesis
    using False header_no_encoding EncodeToBytes_enc_ref [of "header_val h"] rlpHash_error [of "header_val h"]
    by (simp add: header_Hash_def)
qed

definition zero_header :: "int Header" where
  "zero_header =
     \<lparr>h_ParentHash = 0, h_UncleHash = 0, h_Coinbase = 0, h_Root = 0, h_TxHash = 0, h_ReceiptHash = 0,
      h_Bloom = 0, h_Difficulty = 131072, h_Number = 1, h_GasLimit = 8000000, h_GasUsed = 0, h_Time = 0,
      h_Extra = [], h_MixDigest = 0, h_Nonce = word_bytes 8 (0 :: u64)\<rparr>"

text \<open>A header without a number, and with a time and a difficulty as given.\<close>

definition nil_header :: "u64 \<Rightarrow> int option \<Rightarrow> int option Header" where
  "nil_header t d = (set_header zero_header)\<lparr>h_Number := None, h_Difficulty := d, h_Time := t\<rparr>"

lemma nil_header_simps [simp]:
  "length (h_Nonce (nil_header t d)) = 8" "h_Difficulty (CopyHeader (nil_header t d)) = (case d of None \<Rightarrow> 0 | Some d \<Rightarrow> d)"
  "h_Time (CopyHeader (nil_header t d)) = t"
  "CopyHeader (nil_header t None) = CopyHeader (nil_header t (Some 0))"
  by (simp_all add: nil_header_def zero_header_def set_header_def CopyHeader_def)

lemma nil_header_sane:
  "header_SanityCheck (nil_header t None) = None" "\<bar>d\<bar> < 2 ^ 80 \<Longrightarrow> header_SanityCheck (nil_header t (Some d)) = None"
proof -
  show "header_SanityCheck (nil_header t None) = None"
    by (simp add: nil_header_def zero_header_def set_header_def header_SanityCheck_def)
  assume "\<bar>d\<bar> < 2 ^ 80"
  then have "bit_len (nat \<bar>d\<bar>) \<le> 80" by (simp only: bit_len_le) (simp add: nat_less_iff)
  then show "header_SanityCheck (nil_header t (Some d)) = None"
    by (simp add: nil_header_def zero_header_def set_header_def header_SanityCheck_def Let_def)
qed

theorem header_roundtrip_witness:
  "(\<exists>e. EncodeToBytes (header_val (nil_header 7 (Some 131072))) = Some (Inr e)
      \<and> DecodeBytes e header_type = Some (Inr (header_val (set_header (CopyHeader (nil_header 7 (Some 131072))))))
      \<and> header_Hash bytes_word (nil_header 7 (Some 131072)) = bytes_word e)
   \<and> EncodeToBytes (header_val (nil_header 7 (Some (- 1)))) = Some (Inl ErrNegativeBigInt)"
proof -
  have "header_SanityCheck (nil_header 7 (Some 131072)) = None" "header_SanityCheck (nil_header 7 (Some (- 1))) = None"
    by (rule nil_header_sane; simp)+
  then show ?thesis
    using header_roundtrip [of "nil_header 7 (Some 131072)" bytes_word] header_roundtrip [of "nil_header 7 (Some (- 1))" bytes_word] by simp
qed

text \<open>
  C20. The hash of a header that passes \<^verbatim>\<open>SanityCheck\<close>, has a nonce of 8 bytes and has an encoding is the hash of that encoding,
  and two such headers have the same encoding exactly if their copies agree in every field: two headers with one hash differ
  only in that one has \<^verbatim>\<open>nil\<close> where the other has a zero integer, or they are a collision of the hash function.
\<close>

theorem header_Hash_commits:
  assumes "header_SanityCheck g = None" "length (h_Nonce g) = 8" "EncodeToBytes (header_val g) = Some (Inr d)"
    and "header_SanityCheck h = None" "length (h_Nonce h) = 8" "EncodeToBytes (header_val h) = Some (Inr e)"
  shows "header_Hash keccak g = keccak d \<and> header_Hash keccak h = keccak e \<and> (d = e \<longleftrightarrow> CopyHeader g = CopyHeader h)"
proof -
  have *: "enc_ref (header_val x) = Inr b \<and> length b < 2 ^ 21
      \<and> DecodeBytes b header_type = Some (Inr (header_val (set_header (CopyHeader x))))"
    if x: "header_SanityCheck x = None" "length (h_Nonce x) = 8" "EncodeToBytes (header_val x) = Some (Inr b)" for x b
  proof (cases "0 \<le> h_Difficulty (CopyHeader x)")
    case True
    then obtain c where c: "enc_ref (header_val x) = Inr c" "length c < 2 ^ 21" using header_encoding x(1,2) by blast
    then show ?thesis
      using header_decoded [OF x(1) True x(2) c(1)] EncodeToBytes_enc_ref [of "header_val x"] x(3) by simp
  next
    case False
    then obtain d where "h_Difficulty x = Some d" "d < 0" by (auto simp: CopyHeader_def split: option.splits)
    then show ?thesis using header_no_encoding [of x d] EncodeToBytes_enc_ref [of "header_val x"] x(3) by simp
  qed
  note d = * [OF assms(1-3)] and e = * [OF assms(4-6)]
  have "CopyHeader g = CopyHeader h" if "d = e"
  proof -
    from that d e have "header_val (set_header (CopyHeader g)) = header_val (set_header (CopyHeader h))" by simp
    then show ?thesis by (simp only: header_val_inj)
  qed
  moreover have "d = e" if "CopyHeader g = CopyHeader h"
  proof -
    from that have "enc_ref (header_val g) = enc_ref (header_val h)" by (metis header_enc_copy)
    with d e show ?thesis by simp
  qed
  ultimately have "d = e \<longleftrightarrow> CopyHeader g = CopyHeader h" by blast
  moreover have "header_Hash keccak g = keccak d"
    unfolding header_Hash_def by (rule rlpHash_enc) (use d in simp_all)
  moreover have "header_Hash keccak h = keccak e"
    unfolding header_Hash_def by (rule rlpHash_enc) (use e in simp_all)
  ultimately show ?thesis by blast
qed

lemma nil_header_encodes:
  assumes "case d of None \<Rightarrow> True | Some i \<Rightarrow> 0 \<le> i \<and> i < 2 ^ 80"
  shows "header_SanityCheck (nil_header t d) = None" "\<exists>e. EncodeToBytes (header_val (nil_header t d)) = Some (Inr e)"
proof -
  show s: "header_SanityCheck (nil_header t d) = None" using assms nil_header_sane by (cases d) auto
  have "\<exists>e. enc_ref (header_val (nil_header t d)) = Inr e \<and> length e < 2 ^ 21"
    by (rule header_encoding [OF s]) (use assms in \<open>auto split: option.splits\<close>)
  then show "\<exists>e. EncodeToBytes (header_val (nil_header t d)) = Some (Inr e)"
    using EncodeToBytes_enc_ref [of "header_val (nil_header t d)"] by auto
qed

theorem header_Hash_commits_witness:
  "header_Hash bytes_word (nil_header 7 None) = header_Hash bytes_word (nil_header 7 (Some 0))
   \<and> (\<exists>d e. EncodeToBytes (header_val (nil_header 7 None)) = Some (Inr d)
        \<and> EncodeToBytes (header_val (nil_header 8 (Some 5))) = Some (Inr e) \<and> d \<noteq> e)"
proof -
  have s: "header_SanityCheck (nil_header t None) = None" "header_SanityCheck (nil_header t (Some 0)) = None"
    "header_SanityCheck (nil_header t (Some 5)) = None" for t
    using nil_header_encodes(1) [of None t] nil_header_encodes(1) [of "Some 0" t] nil_header_encodes(1) [of "Some 5" t] by simp_all
  obtain d z e where enc: "EncodeToBytes (header_val (nil_header 7 None)) = Some (Inr d)"
    "EncodeToBytes (header_val (nil_header 7 (Some 0))) = Some (Inr z)"
    "EncodeToBytes (header_val (nil_header 8 (Some 5))) = Some (Inr e)"
    using nil_header_encodes(2) [of None 7] nil_header_encodes(2) [of "Some 0" 7] nil_header_encodes(2) [of "Some 5" 8] by auto
  have "h_Time (CopyHeader (nil_header 7 None)) \<noteq> h_Time (CopyHeader (nil_header 8 (Some 5)))" by simp
  then have "CopyHeader (nil_header 7 None) \<noteq> CopyHeader (nil_header 8 (Some 5))" by metis
  then have "d \<noteq> e" using header_Hash_commits [OF s(1) _ enc(1) s(3) _ enc(3), of bytes_word] by simp
  moreover have "header_Hash bytes_word (nil_header 7 None) = header_Hash bytes_word (nil_header 7 (Some 0))"
    using header_Hash_commits [OF s(1) _ enc(1) s(2) _ enc(2), of bytes_word] by simp
  ultimately show ?thesis using enc by blast
qed

end
