(* ===== verification/U256_Lib.thy ===== *)
theory U256_Lib
  imports Go_Prelude "HOL-Library.Signed_Division"
begin

text \<open>
  The 256-bit integers of \<^verbatim>\<open>github.com/holiman/uint256\<close>, a package outside the repository. The
  model takes the package as an argument: a record \<^verbatim>\<open>uint256_lib\<close> of the methods that the
  difficulty calculators and the virtual machine call, from values to values (a method that writes its
  receiver returns it). The locale \<^verbatim>\<open>uint256\<close> states what the package documents of each
  method: arithmetic modulo 2 to the 256, two's complement for the signed ones, 0 for a division by
  zero. Its interpretation on \<^verbatim>\<open>word_uint256\<close> shows that the contract can be met.
\<close>

record uint256_lib =
  U_Add :: "u256 \<Rightarrow> u256 \<Rightarrow> u256"
  U_Sub :: "u256 \<Rightarrow> u256 \<Rightarrow> u256"
  U_Mul :: "u256 \<Rightarrow> u256 \<Rightarrow> u256"
  U_Div :: "u256 \<Rightarrow> u256 \<Rightarrow> u256"
  U_SDiv :: "u256 \<Rightarrow> u256 \<Rightarrow> u256"
  U_Mod :: "u256 \<Rightarrow> u256 \<Rightarrow> u256"
  U_SMod :: "u256 \<Rightarrow> u256 \<Rightarrow> u256"
  U_Exp :: "u256 \<Rightarrow> u256 \<Rightarrow> u256"
  U_ExtendSign :: "u256 \<Rightarrow> u256 \<Rightarrow> u256"
  U_Not :: "u256 \<Rightarrow> u256"
  U_Lt :: "u256 \<Rightarrow> u256 \<Rightarrow> bool"
  U_Gt :: "u256 \<Rightarrow> u256 \<Rightarrow> bool"
  U_Slt :: "u256 \<Rightarrow> u256 \<Rightarrow> bool"
  U_Sgt :: "u256 \<Rightarrow> u256 \<Rightarrow> bool"
  U_Eq :: "u256 \<Rightarrow> u256 \<Rightarrow> bool"
  U_IsZero :: "u256 \<Rightarrow> bool"
  U_And :: "u256 \<Rightarrow> u256 \<Rightarrow> u256"
  U_Or :: "u256 \<Rightarrow> u256 \<Rightarrow> u256"
  U_Xor :: "u256 \<Rightarrow> u256 \<Rightarrow> u256"
  U_Byte :: "u256 \<Rightarrow> u256 \<Rightarrow> u256"
  U_AddMod :: "u256 \<Rightarrow> u256 \<Rightarrow> u256 \<Rightarrow> u256"
  U_MulMod :: "u256 \<Rightarrow> u256 \<Rightarrow> u256 \<Rightarrow> u256"
  U_Lsh :: "u256 \<Rightarrow> u64 \<Rightarrow> u256"
  U_Rsh :: "u256 \<Rightarrow> u64 \<Rightarrow> u256"
  U_SRsh :: "u256 \<Rightarrow> u64 \<Rightarrow> u256"
  U_LtUint64 :: "u256 \<Rightarrow> u64 \<Rightarrow> bool"
  U_GtUint64 :: "u256 \<Rightarrow> u64 \<Rightarrow> bool"
  U_Sign :: "u256 \<Rightarrow> int"
  U_SetAllOne :: u256
  U_SetOne :: u256
  U_Clear :: u256
  U_SetUint64 :: "u64 \<Rightarrow> u256"
  U_Uint64 :: "u256 \<Rightarrow> u64"
  U_IsUint64 :: "u256 \<Rightarrow> bool"
  U_Uint64WithOverflow :: "u256 \<Rightarrow> u64 \<times> bool"
  U_SetBytes :: "bytes \<Rightarrow> u256"
  U_Bytes20 :: "u256 \<Rightarrow> address"
  U_Bytes32 :: "u256 \<Rightarrow> hash"
  U_FromBig :: "int \<Rightarrow> u256 \<times> bool"
  U_ToBig :: "u256 \<Rightarrow> int"
  U_BitLen :: "u256 \<Rightarrow> nat"
  U_WriteToSlice :: "u256 \<Rightarrow> bytes \<Rightarrow> bytes"

named_theorems u256_laws "what the 256-bit integer package documents"

locale uint256 =
  fixes U :: uint256_lib
  assumes Add [u256_laws]: "U_Add U x y = x + y"
    and Sub [u256_laws]: "U_Sub U x y = x - y"
    and Mul [u256_laws]: "U_Mul U x y = x * y"
    and Div [u256_laws]: "U_Div U x y = x div y"
    and SDiv [u256_laws]: "U_SDiv U x y = word_of_int (sint x sdiv sint y)"
    and Mod [u256_laws]: "U_Mod U x y = (if y = 0 then 0 else x mod y)"
    and SMod [u256_laws]: "U_SMod U x y = (if y = 0 then 0 else word_of_int (sint x smod sint y))"
    and Exp [u256_laws]: "U_Exp U x y = x ^ unat y"
    and ExtendSign [u256_laws]:
      "U_ExtendSign U x y = (if y < 31 then signed_take_bit (8 * unat y + 7) x else x)"
    and Not [u256_laws]: "U_Not U x = NOT x"
    and Lt [u256_laws]: "U_Lt U x y \<longleftrightarrow> x < y"
    and Gt [u256_laws]: "U_Gt U x y \<longleftrightarrow> y < x"
    and Slt [u256_laws]: "U_Slt U x y \<longleftrightarrow> sint x < sint y"
    and Sgt [u256_laws]: "U_Sgt U x y \<longleftrightarrow> sint y < sint x"
    and Eq [u256_laws]: "U_Eq U x y \<longleftrightarrow> x = y"
    and IsZero [u256_laws]: "U_IsZero U x \<longleftrightarrow> x = 0"
    and And [u256_laws]: "U_And U x y = x AND y"
    and Or [u256_laws]: "U_Or U x y = x OR y"
    and Xor [u256_laws]: "U_Xor U x y = x XOR y"
    and Byte [u256_laws]:
      "U_Byte U x y = (if y < 32 then take_bit 8 (drop_bit (8 * (31 - unat y)) x) else 0)"
    and AddMod [u256_laws]:
      "m \<noteq> 0 \<Longrightarrow> U_AddMod U x y m = word_of_int ((uint x + uint y) mod uint m)"
    and MulMod [u256_laws]:
      "U_MulMod U x y m = (if m = 0 then 0 else word_of_int ((uint x * uint y) mod uint m))"
    and Lsh [u256_laws]: "U_Lsh U x n = push_bit (unat n) x"
    and Rsh [u256_laws]: "U_Rsh U x n = drop_bit (unat n) x"
    and SRsh [u256_laws]: "U_SRsh U x n = word_of_int (drop_bit (unat n) (sint x))"
    and LtUint64 [u256_laws]: "U_LtUint64 U x n \<longleftrightarrow> uint x < uint n"
    and GtUint64 [u256_laws]: "U_GtUint64 U x n \<longleftrightarrow> uint n < uint x"
    and Sign [u256_laws]: "U_Sign U x = sgn (sint x)"
    and SetAllOne [u256_laws]: "U_SetAllOne U = -1"
    and SetOne [u256_laws]: "U_SetOne U = 1"
    and Clear [u256_laws]: "U_Clear U = 0"
    and SetUint64 [u256_laws]: "U_SetUint64 U n = ucast n"
    and Uint64 [u256_laws]: "U_Uint64 U x = ucast x"
    and IsUint64 [u256_laws]: "U_IsUint64 U x \<longleftrightarrow> uint x < 2 ^ 64"
    and Uint64WithOverflow [u256_laws]: "U_Uint64WithOverflow U x = (ucast x, \<not> uint x < 2 ^ 64)"
    and SetBytes [u256_laws]: "U_SetBytes U b = bytes_word b"
    and Bytes20 [u256_laws]: "U_Bytes20 U x = ucast x"
    and Bytes32 [u256_laws]: "U_Bytes32 U x = x"
    and FromBig [u256_laws]: "U_FromBig U i = (word_of_int i, \<not> \<bar>i\<bar> < 2 ^ 256)"
    and ToBig [u256_laws]: "U_ToBig U x = uint x"
    and BitLen [u256_laws]: "uint x < 2 ^ k \<longleftrightarrow> U_BitLen U x \<le> k"
    and WriteToSlice [u256_laws]: "32 \<le> length d \<Longrightarrow> U_WriteToSlice U x d = word_bytes 32 x @ drop 32 d"

text \<open>
  An instance on machine words.
\<close>

definition word_uint256 :: uint256_lib where
  "word_uint256 =
     \<lparr>U_Add = (+), U_Sub = (-), U_Mul = (*), U_Div = (div),
      U_SDiv = (\<lambda>x y. word_of_int (sint x sdiv sint y)),
      U_Mod = (\<lambda>x y. if y = 0 then 0 else x mod y),
      U_SMod = (\<lambda>x y. if y = 0 then 0 else word_of_int (sint x smod sint y)),
      U_Exp = (\<lambda>x y. x ^ unat y),
      U_ExtendSign = (\<lambda>x y. if y < 31 then signed_take_bit (8 * unat y + 7) x else x),
      U_Not = NOT, U_Lt = (<), U_Gt = (\<lambda>x y. y < x),
      U_Slt = (\<lambda>x y. sint x < sint y), U_Sgt = (\<lambda>x y. sint y < sint x),
      U_Eq = (=), U_IsZero = (\<lambda>x. x = 0), U_And = (AND), U_Or = (OR), U_Xor = (XOR),
      U_Byte = (\<lambda>x n. if n < 32 then take_bit 8 (drop_bit (8 * (31 - unat n)) x) else 0),
      U_AddMod = (\<lambda>x y m. word_of_int ((uint x + uint y) mod uint m)),
      U_MulMod = (\<lambda>x y m. if m = 0 then 0 else word_of_int ((uint x * uint y) mod uint m)),
      U_Lsh = (\<lambda>x n. push_bit (unat n) x), U_Rsh = (\<lambda>x n. drop_bit (unat n) x),
      U_SRsh = (\<lambda>x n. word_of_int (drop_bit (unat n) (sint x))),
      U_LtUint64 = (\<lambda>x n. uint x < uint n), U_GtUint64 = (\<lambda>x n. uint n < uint x),
      U_Sign = (\<lambda>x. sgn (sint x)), U_SetAllOne = -1, U_SetOne = 1, U_Clear = 0,
      U_SetUint64 = ucast, U_Uint64 = ucast, U_IsUint64 = (\<lambda>x. uint x < 2 ^ 64),
      U_Uint64WithOverflow = (\<lambda>x. (ucast x, \<not> uint x < 2 ^ 64)),
      U_SetBytes = bytes_word, U_Bytes20 = ucast, U_Bytes32 = id,
      U_FromBig = (\<lambda>i. (word_of_int i, \<not> \<bar>i\<bar> < 2 ^ 256)), U_ToBig = uint,
      U_BitLen = (\<lambda>x. bit_len (unat x)), U_WriteToSlice = (\<lambda>x d. word_bytes 32 x @ drop 32 d)\<rparr>"

lemma uint_less_2p: "uint x < 2 ^ k \<longleftrightarrow> bit_len (unat x) \<le> k"
proof -
  have "uint x < 2 ^ k \<longleftrightarrow> unat x < 2 ^ k"
    using nat_less_eq_zless [of "uint x" "2 ^ k"] by (simp add: nat_power_eq)
  then show ?thesis by (simp add: bit_len_le)
qed

interpretation word_u256: uint256 word_uint256
  by unfold_locales
    (simp_all only: word_uint256_def uint256_lib.simps uint_less_2p if_False id_apply)

end
