(* ===== verification/Ethash_Difficulty.thy ===== *)
theory Ethash_Difficulty
  imports Chain_Params Block_Header U256_Lib
begin

text \<open>
  The difficulty adjustment of the proof-of-work engine: the calculators on \<^verbatim>\<open>big.Int\<close> of
  \<^verbatim>\<open>consensus/ethash/consensus.go\<close>, chosen by the chain configuration, and the calculators on
  256-bit integers of \<^verbatim>\<open>consensus/ethash/difficulty.go\<close>. \<^verbatim>\<open>big.Int.Div\<close> is Euclidean division,
  which is \<^verbatim>\<open>div\<close> of \<^typ>\<open>int\<close> for the positive divisors of the code.

  The lemmas show that the difficulty of a block is never below the minimum, how far it can move from
  the parent's, that a later timestamp never raises it, and that each 256-bit calculator computes the
  documented formula with the constants 2048 and 13, which the other calculators no longer use.
\<close>

section \<open>Constants\<close>

definition DifficultyBoundDivisor :: int where
  "DifficultyBoundDivisor = 512"

definition MinimumDifficulty :: int where
  "MinimumDifficulty = 131072"

definition DurationLimit :: int where
  "DurationLimit = 12"

definition expDiffPeriod :: int where
  "expDiffPeriod = 100000"

definition frontierDurationLimit :: u64 where
  "frontierDurationLimit = 13"

definition minimumDifficulty :: u64 where
  "minimumDifficulty = 131072"

definition expDiffPeriodUint :: u64 where
  "expDiffPeriodUint = 100000"

definition difficultyBoundDivisor :: u64 where
  "difficultyBoundDivisor = 11"

lemmas difficulty_consts =
  DifficultyBoundDivisor_def MinimumDifficulty_def DurationLimit_def expDiffPeriod_def
  frontierDurationLimit_def minimumDifficulty_def expDiffPeriodUint_def difficultyBoundDivisor_def

section \<open>The calculators on big integers\<close>

definition makeDifficultyCalculator :: "keccak \<Rightarrow> int \<Rightarrow> u64 \<Rightarrow> int Header \<Rightarrow> int" where
  "makeDifficultyCalculator keccak bombDelay time parent =
     (let bombDelayFromParent = bombDelay - 1;
          bigTime = uint time;
          bigParentTime = uint (h_Time parent);
          x = (bigTime - bigParentTime) div 9;
          x = (if h_UncleHash parent = EmptyUncleHash keccak then 1 - x else 2 - x);
          x = (if x < -99 then -99 else x);
          y = h_Difficulty parent div DifficultyBoundDivisor;
          x = h_Difficulty parent + y * x;
          x = (if x < MinimumDifficulty then MinimumDifficulty else x);
          fakeBlockNumber = (if h_Number parent \<ge> bombDelayFromParent
                             then h_Number parent - bombDelayFromParent else 0);
          periodCount = fakeBlockNumber div expDiffPeriod
      in if periodCount > 1 then x + 2 ^ nat (periodCount - 2) else x)"

definition calcDifficultyHomestead :: "u64 \<Rightarrow> int Header \<Rightarrow> int" where
  "calcDifficultyHomestead time parent =
     (let bigTime = uint time;
          bigParentTime = uint (h_Time parent);
          x = 1 - (bigTime - bigParentTime) div 10;
          x = (if x < -99 then -99 else x);
          y = h_Difficulty parent div DifficultyBoundDivisor;
          x = h_Difficulty parent + y * x;
          x = (if x < MinimumDifficulty then MinimumDifficulty else x);
          periodCount = (h_Number parent + 1) div expDiffPeriod
      in if periodCount > 1 then x + 2 ^ nat (periodCount - 2) else x)"

definition calcDifficultyFrontier :: "u64 \<Rightarrow> int Header \<Rightarrow> int" where
  "calcDifficultyFrontier time parent =
     (let adjust = h_Difficulty parent div DifficultyBoundDivisor;
          bigTime = uint time;
          bigParentTime = uint (h_Time parent);
          diff = (if bigTime - bigParentTime < DurationLimit
                  then h_Difficulty parent + adjust else h_Difficulty parent - adjust);
          diff = (if diff < MinimumDifficulty then MinimumDifficulty else diff);
          periodCount = (h_Number parent + 1) div expDiffPeriod
      in if periodCount > 1
         then (let expDiff = 2 ^ nat (periodCount - 2) in max (diff + expDiff) MinimumDifficulty)
         else diff)"

definition calcDifficultyEip2384 :: "keccak \<Rightarrow> u64 \<Rightarrow> int Header \<Rightarrow> int" where
  "calcDifficultyEip2384 keccak = makeDifficultyCalculator keccak 9000000"

definition calcDifficultyConstantinople :: "keccak \<Rightarrow> u64 \<Rightarrow> int Header \<Rightarrow> int" where
  "calcDifficultyConstantinople keccak = makeDifficultyCalculator keccak 5000000"

definition calcDifficultyByzantium :: "keccak \<Rightarrow> u64 \<Rightarrow> int Header \<Rightarrow> int" where
  "calcDifficultyByzantium keccak = makeDifficultyCalculator keccak 3000000"

definition CalcDifficulty :: "keccak \<Rightarrow> ChainConfig \<Rightarrow> u64 \<Rightarrow> int Header \<Rightarrow> int" where
  "CalcDifficulty keccak config time parent =
     (let nxt = Some (h_Number parent + 1)
      in if IsMuirGlacier config nxt then calcDifficultyEip2384 keccak time parent
         else if IsConstantinople config nxt then calcDifficultyConstantinople keccak time parent
         else if IsByzantium config nxt then calcDifficultyByzantium keccak time parent
         else if IsHomestead config nxt then calcDifficultyHomestead time parent
         else calcDifficultyFrontier time parent)"

section \<open>The calculators on 256-bit integers\<close>

definition CalcDifficultyFrontierU256 :: "uint256_lib \<Rightarrow> u64 \<Rightarrow> int Header \<Rightarrow> int" where
  "CalcDifficultyFrontierU256 U time parent =
     (let pDiff = fst (U_FromBig U (h_Difficulty parent));
          adjust = U_Rsh U pDiff difficultyBoundDivisor;
          pDiff = (if time - h_Time parent < frontierDurationLimit
                   then U_Add U pDiff adjust else U_Sub U pDiff adjust);
          pDiff = (if U_LtUint64 U pDiff minimumDifficulty
                   then U_SetUint64 U minimumDifficulty else pDiff);
          periodCount = (big_Uint64 (h_Number parent) + 1) div expDiffPeriodUint;
          pDiff = (if periodCount > 1
                   then (let expDiff = U_Lsh U (U_SetOne U) (periodCount - 2) in U_Add U pDiff expDiff)
                   else pDiff)
      in U_ToBig U pDiff)"

definition CalcDifficultyHomesteadU256 :: "uint256_lib \<Rightarrow> u64 \<Rightarrow> int Header \<Rightarrow> int" where
  "CalcDifficultyHomesteadU256 U time parent =
     (let pDiff = fst (U_FromBig U (h_Difficulty parent));
          adjust = U_Rsh U pDiff difficultyBoundDivisor;
          x = (time - h_Time parent) div 10;
          (x, neg) = (if x = 0 then (1, False)
                      else if x \<ge> 100 then (99, True)
                      else (x - 1, True));
          z = U_SetUint64 U x;
          adjust = U_Mul U adjust z;
          pDiff = (if neg then U_Sub U pDiff adjust else U_Add U pDiff adjust);
          pDiff = (if U_LtUint64 U pDiff minimumDifficulty
                   then U_SetUint64 U minimumDifficulty else pDiff);
          periodCount = (1 + big_Uint64 (h_Number parent)) div expDiffPeriodUint;
          pDiff = (if periodCount > 1
                   then (let expFactor = U_Lsh U (U_SetOne U) (periodCount - 2) in U_Add U pDiff expFactor)
                   else pDiff)
      in U_ToBig U pDiff)"

definition MakeDifficultyCalculatorU256 :: "uint256_lib \<Rightarrow> keccak \<Rightarrow> int \<Rightarrow> u64 \<Rightarrow> int Header \<Rightarrow> int" where
  "MakeDifficultyCalculatorU256 U keccak bombDelay time parent =
     (let bombDelayFromParent = big_Uint64 bombDelay - 1;
          x = (time - h_Time parent) div 9;
          c = (if h_UncleHash parent \<noteq> EmptyUncleHash keccak then 2 else 1);
          xNeg = (x \<ge> c);
          x = (if xNeg then x - c else c - x);
          x = (if x > 99 then 99 else x);
          y = fst (U_FromBig U (h_Difficulty parent));
          pDiff = y;
          z = U_SetUint64 U x;
          y = U_Rsh U y difficultyBoundDivisor;
          z = U_Mul U y z;
          y = (if xNeg then U_Sub U pDiff z else U_Add U pDiff z);
          y = (if U_LtUint64 U y minimumDifficulty then U_SetUint64 U minimumDifficulty else y);
          pNum = big_Uint64 (h_Number parent);
          y = (if pNum \<ge> bombDelayFromParent
               then (let fakeBlockNumber = pNum - bombDelayFromParent
                     in if fakeBlockNumber \<ge> 2 * expDiffPeriodUint
                        then (let z = U_Lsh U (U_SetOne U) (fakeBlockNumber div expDiffPeriodUint - 2)
                              in U_Add U z y)
                        else y)
               else y)
      in U_ToBig U y)"

section \<open>The documented formulas\<close>

text \<open>
  The formulas of the comments, over unbounded integers: the adjusted difficulty of the parent, at least
  the minimum, plus the exponential factor of the ice age.
\<close>

definition bomb :: "int \<Rightarrow> int" where
  "bomb num = (if 2 \<le> num div 100000 then 2 ^ nat (num div 100000 - 2) else 0)"

definition adjusted :: "int \<Rightarrow> int \<Rightarrow> int \<Rightarrow> int" where
  "adjusted divisor pdiff factor = max (pdiff + pdiff div divisor * factor) 131072"

definition frontier_factor :: "int \<Rightarrow> int \<Rightarrow> int" where
  "frontier_factor limit dt = (if dt < limit then 1 else -1)"

definition homestead_factor :: "int \<Rightarrow> int" where
  "homestead_factor dt = max (1 - dt div 10) (-99)"

definition byzantium_factor :: "bool \<Rightarrow> int \<Rightarrow> int" where
  "byzantium_factor uncles dt = max ((if uncles then 2 else 1) - dt div 9) (-99)"

lemma bomb_nonneg [simp]: "0 \<le> bomb n"
  by (simp add: bomb_def)

lemma adjusted_min: "131072 \<le> adjusted d p f"
  by (simp add: adjusted_def)

lemma clamp_max: "(if x < m then m else x) = max x (m :: int)"
  by simp

lemma bomb_add: "(if num div 100000 > 1 then x + 2 ^ nat (num div 100000 - 2) else x) = x + bomb num"
  by (simp add: bomb_def)

lemma calcDifficultyFrontier_formula:
  "calcDifficultyFrontier time parent =
     adjusted 512 (h_Difficulty parent) (frontier_factor 12 (uint time - uint (h_Time parent)))
     + bomb (h_Number parent + 1)"
proof -
  have "max (max x 131072 + 2 ^ n) 131072 = max x 131072 + (2 :: int) ^ n" for x :: int and n
    using zero_le_power [of "2 :: int" n] by linarith
  moreover have "(if dt < 12 then p + a else p - a) = p + a * frontier_factor 12 dt" for p a dt :: int
    by (simp add: frontier_factor_def)
  ultimately show ?thesis
    by (simp only: calcDifficultyFrontier_def difficulty_consts Let_def clamp_max bomb_add adjusted_def)
qed

lemma calcDifficultyHomestead_formula:
  "calcDifficultyHomestead time parent =
     adjusted 512 (h_Difficulty parent) (homestead_factor (uint time - uint (h_Time parent)))
     + bomb (h_Number parent + 1)"
  by (simp only: calcDifficultyHomestead_def difficulty_consts Let_def clamp_max bomb_add adjusted_def
      homestead_factor_def)

lemma makeDifficultyCalculator_formula:
  "makeDifficultyCalculator keccak bombDelay time parent =
     adjusted 512 (h_Difficulty parent)
       (byzantium_factor (h_UncleHash parent \<noteq> EmptyUncleHash keccak) (uint time - uint (h_Time parent)))
     + bomb (max 0 (h_Number parent + 1 - bombDelay))"
proof -
  have "(if h_Number parent \<ge> bombDelay - 1 then h_Number parent - (bombDelay - 1) else 0)
      = max 0 (h_Number parent + 1 - bombDelay)" by simp
  moreover have "(if h_UncleHash parent = EmptyUncleHash keccak then 1 - x else 2 - x)
      = (if h_UncleHash parent \<noteq> EmptyUncleHash keccak then 2 else 1) - x" for x :: int
    by simp
  ultimately show ?thesis
    by (simp only: makeDifficultyCalculator_def difficulty_consts Let_def clamp_max bomb_add adjusted_def
        byzantium_factor_def)
qed

lemmas difficulty_formulas =
  calcDifficultyFrontier_formula calcDifficultyHomestead_formula makeDifficultyCalculator_formula

section \<open>The 256-bit calculators compute the formulas\<close>

lemma uint_sub_time: "p \<le> t \<Longrightarrow> uint (t - p :: u64) = uint t - uint p"
  by (simp add: uint_minus_simple_alt)

lemma uint_add_small: "uint x + uint y < 2 ^ 256 \<Longrightarrow> uint (x + y :: u256) = uint x + uint y"
  using uint_add_lem [of x y] by simp

lemma uint_sub_small: "uint y \<le> uint x \<Longrightarrow> uint (x - y :: u256) = uint x - uint y"
  by (simp only: uint_sub_lem)

lemma uint_mul_small: "uint x * uint y < 2 ^ 256 \<Longrightarrow> uint (x * y :: u256) = uint x * uint y"
  using uint_mult_lem [of x y] by simp

lemma uint_push_one: "n < 256 \<Longrightarrow> uint (push_bit n (1 :: u256)) = 2 ^ n"
  using uint_word_of_int_id [of "2 ^ n", where ?'a = 256] power_strict_increasing [of n 256 "2 :: int"] by simp

lemma uint_ucast_256: "uint (ucast (x :: u64) :: u256) = uint x"
  using uint_less_2p64 [of x] by (simp add: unsigned_ucast_eq take_bit_int_eq_self_iff)

context uint256
begin

lemma uint_FromBig: "0 \<le> i \<Longrightarrow> i < 2 ^ 256 \<Longrightarrow> uint (fst (U_FromBig U i)) = i"
  by (simp add: u256_laws uint_word_of_int)

lemma uint_Rsh11: "uint (U_Rsh U x difficultyBoundDivisor) = uint x div 2048"
  by (simp add: u256_laws difficultyBoundDivisor_def drop_bit_eq_div uint_div)

lemma uint_clamp:
  "uint (if U_LtUint64 U x minimumDifficulty then U_SetUint64 U minimumDifficulty else x) = max (uint x) 131072"
  by (simp add: u256_laws minimumDifficulty_def uint_ucast_256)

lemma uint_scaled:
  assumes "uint p = d" "0 \<le> d" "d < 2 ^ 254" "uint (x :: u64) \<le> 99"
  shows "uint (U_Mul U (U_Rsh U p difficultyBoundDivisor) (U_SetUint64 U x)) = d div 2048 * uint x"
    and "d div 2048 * uint x \<le> d" "0 \<le> d div 2048 * uint x"
proof -
  have "d div 2048 * uint x \<le> d div 2048 * 99"
    using assms(2,4) by (intro mult_left_mono) (simp_all add: pos_imp_zdiv_nonneg_iff)
  then show 1: "d div 2048 * uint x \<le> d" using assms(2) by linarith
  show "0 \<le> d div 2048 * uint x" using assms(2) by (simp add: pos_imp_zdiv_nonneg_iff)
  show "uint (U_Mul U (U_Rsh U p difficultyBoundDivisor) (U_SetUint64 U x)) = d div 2048 * uint x"
    using 1 assms(1,3) uint_Rsh11 [of p] uint_mul_small [of "U_Rsh U p difficultyBoundDivisor" "ucast x"]
    by (simp add: Mul SetUint64 uint_ucast_256)
qed

lemma adjusted_less:
  assumes "uint (p :: u256) = d" "0 \<le> d" "d < 2 ^ 254" "uint (x :: u64) \<le> 99" "f = (if neg then - uint x else uint x)"
  shows "adjusted 2048 d f < 2 ^ 255"
proof -
  have "d div 2048 * f \<le> d"
    using uint_scaled(2,3) [OF assms(1-4)] assms(2,5) by (cases neg) (simp_all only: if_True if_False mult_minus_right)
  then show ?thesis using assms(3) by (simp add: adjusted_def)
qed

lemma uint_step:
  assumes "uint p = d" "0 \<le> d" "d < 2 ^ 254" "uint (x :: u64) \<le> 99"
  defines "a \<equiv> U_Mul U (U_Rsh U p difficultyBoundDivisor) (U_SetUint64 U x)"
  shows "uint (U_Add U p a) = d + d div 2048 * uint x" "uint (U_Sub U p a) = d - d div 2048 * uint x"
  using uint_scaled [OF assms(1-4)] assms(1,3) uint_add_small [of p a] uint_sub_small [of a p]
  by (simp_all add: Add Sub flip: a_def)

lemma uint_bomb:
  assumes "uint (n :: u64) = num" "num < 25600000" "uint y < 2 ^ 255"
  shows "uint (if n div expDiffPeriodUint > 1
            then U_Add U y (U_Lsh U (U_SetOne U) (n div expDiffPeriodUint - 2)) else y) = uint y + bomb num"
proof -
  have pc: "uint (n div expDiffPeriodUint) = num div 100000"
    using assms(1) by (simp add: expDiffPeriodUint_def uint_div)
  show ?thesis
  proof (cases "2 \<le> num div 100000")
    case True
    then have gt: "n div expDiffPeriodUint > 1" and ge: "2 \<le> n div expDiffPeriodUint"
      using pc by (simp_all add: word_less_def word_le_def)
    have "uint (n div expDiffPeriodUint - 2) = num div 100000 - 2"
      using ge pc by (simp add: uint_minus_simple_alt)
    then have un: "unat (n div expDiffPeriodUint - 2) = nat (num div 100000 - 2)" by (simp add: unat_eq_nat_uint)
    have le: "nat (num div 100000 - 2) \<le> 253" using assms(2) by linarith
    then have "(2 :: int) ^ nat (num div 100000 - 2) \<le> 2 ^ 253" by (rule power_increasing) simp
    then show ?thesis
      using gt True assms(3) un uint_push_one [of "nat (num div 100000 - 2)"] le
        uint_add_small [of y "push_bit (nat (num div 100000 - 2)) 1"]
      by (simp add: Add Lsh SetOne bomb_def del: push_bit_of_1)
  next
    case False
    then have "\<not> n div expDiffPeriodUint > 1" using pc by (simp add: word_less_def)
    then show ?thesis using False by (simp add: bomb_def)
  qed
qed

lemma uint_bomb':
  assumes "uint (n :: u64) = num" "num < 25600000" "uint y = v" "v < 2 ^ 255"
  shows "uint (if n div expDiffPeriodUint > 1
            then U_Add U y (U_Lsh U (U_SetOne U) (n div expDiffPeriodUint - 2)) else y) = v + bomb num"
  using uint_bomb [OF assms(1,2)] assms(3,4) by simp

lemma FrontierU256_formula:
  assumes "h_Time parent \<le> time" "0 \<le> h_Difficulty parent" "h_Difficulty parent < 2 ^ 254"
    and "0 \<le> h_Number parent" "h_Number parent + 1 < 25600000"
  shows "CalcDifficultyFrontierU256 U time parent =
     adjusted 2048 (h_Difficulty parent) (frontier_factor 13 (uint time - uint (h_Time parent)))
     + bomb (h_Number parent + 1)"
proof -
  let ?d = "h_Difficulty parent"
  define p where "p = fst (U_FromBig U ?d)"
  have p: "uint p = ?d" using assms(2,3) by (simp add: p_def uint_FromBig)
  have a: "U_Rsh U p difficultyBoundDivisor = U_Mul U (U_Rsh U p difficultyBoundDivisor) (U_SetUint64 U 1)"
    by (simp add: Mul SetUint64)
  have lt: "(time - h_Time parent < frontierDurationLimit) = (uint time - uint (h_Time parent) < 13)"
    using uint_sub_time [OF assms(1)] by (simp add: word_less_def frontierDurationLimit_def)
  define q where "q = (if time - h_Time parent < frontierDurationLimit
      then U_Add U p (U_Rsh U p difficultyBoundDivisor) else U_Sub U p (U_Rsh U p difficultyBoundDivisor))"
  have q: "uint q = ?d + ?d div 2048 * frontier_factor 13 (uint time - uint (h_Time parent))"
    using uint_step [OF p assms(2,3), of 1, folded a] by (simp add: q_def lt frontier_factor_def)
  define r where "r = (if U_LtUint64 U q minimumDifficulty then U_SetUint64 U minimumDifficulty else q)"
  have "uint r = adjusted 2048 ?d (frontier_factor 13 (uint time - uint (h_Time parent)))"
    by (simp add: r_def uint_clamp q adjusted_def)
  moreover have "\<dots> < 2 ^ 255" using assms(2,3) by (simp add: adjusted_def frontier_factor_def) linarith
  moreover have "uint (big_Uint64 (h_Number parent) + 1) = h_Number parent + 1"
    using assms(4,5) uint_add_lem [of "big_Uint64 (h_Number parent)" 1] by simp
  ultimately show ?thesis
    using uint_bomb' [OF _ assms(5), of "big_Uint64 (h_Number parent) + 1" r]
    by (simp only: CalcDifficultyFrontierU256_def Let_def ToBig p_def [symmetric] q_def [symmetric]
        r_def [symmetric])
qed

lemma HomesteadU256_formula:
  assumes "h_Time parent \<le> time" "0 \<le> h_Difficulty parent" "h_Difficulty parent < 2 ^ 254"
    and "0 \<le> h_Number parent" "h_Number parent + 1 < 25600000"
  shows "CalcDifficultyHomesteadU256 U time parent =
     adjusted 2048 (h_Difficulty parent) (homestead_factor (uint time - uint (h_Time parent)))
     + bomb (h_Number parent + 1)"
proof -
  let ?d = "h_Difficulty parent" and ?dt = "uint time - uint (h_Time parent)"
  define p where "p = fst (U_FromBig U ?d)"
  have p: "uint p = ?d" using assms(2,3) by (simp add: p_def uint_FromBig)
  define x where "x = (time - h_Time parent) div 10"
  have x: "uint x = ?dt div 10" using uint_sub_time [OF assms(1)] by (simp add: x_def uint_div)
  obtain z neg where z: "(if x = 0 then (1, False) else if x \<ge> 100 then (99, True) else (x - 1, True)) = (z, neg)"
    by fastforce
  have dt: "0 \<le> ?dt div 10" using x by (metis uint_nonnegative)
  have zf: "uint z \<le> 99" "homestead_factor ?dt = (if neg then - uint z else uint z)"
    using z x dt uint_minus_simple_alt [of 1 x]
    by (auto simp: homestead_factor_def word_le_def uint_0_iff split: if_splits)
  define a where "a = U_Mul U (U_Rsh U p difficultyBoundDivisor) (U_SetUint64 U z)"
  define q where "q = (if neg then U_Sub U p a else U_Add U p a)"
  have q: "uint q = ?d + ?d div 2048 * homestead_factor ?dt"
    using uint_step [OF p assms(2,3) zf(1), folded a_def] zf(2) by (simp add: q_def)
  define r where "r = (if U_LtUint64 U q minimumDifficulty then U_SetUint64 U minimumDifficulty else q)"
  have "uint r = adjusted 2048 ?d (homestead_factor ?dt)"
    by (simp add: r_def uint_clamp q adjusted_def)
  moreover have "\<dots> < 2 ^ 255"
    by (rule adjusted_less [OF p assms(2,3) zf])
  moreover have "uint (1 + big_Uint64 (h_Number parent)) = h_Number parent + 1"
    using assms(4,5) uint_add_lem [of 1 "big_Uint64 (h_Number parent)"] by simp
  ultimately show ?thesis
    using uint_bomb' [OF _ assms(5), of "1 + big_Uint64 (h_Number parent)" r]
    by (simp only: CalcDifficultyHomesteadU256_def Let_def ToBig p_def [symmetric] x_def [symmetric] z
        prod.case a_def [symmetric] q_def [symmetric] r_def [symmetric])
qed

lemma uint_fake_bomb:
  assumes "uint (n :: u64) = num" "uint (b :: u64) = bd" "max 0 (num - bd) < 25600000" "uint y = v" "v < 2 ^ 255"
  shows "uint (if n \<ge> b
      then if n - b \<ge> 2 * expDiffPeriodUint
           then U_Add U (U_Lsh U (U_SetOne U) ((n - b) div expDiffPeriodUint - 2)) y else y
      else y) = v + bomb (max 0 (num - bd))"
proof (cases "n \<ge> b")
  case True
  then have nb: "uint (n - b) = max 0 (num - bd)"
    using assms(1,2) uint_sub_lem [of b n] by (auto simp: word_le_def)
  have comm: "U_Add U w y = U_Add U y w" for w by (simp add: Add add.commute)
  have pc: "uint ((n - b) div expDiffPeriodUint) = max 0 (num - bd) div 100000"
    using nb by (simp add: expDiffPeriodUint_def uint_div)
  have "(n - b \<ge> 2 * expDiffPeriodUint) = (max 0 (num - bd) \<ge> 200000)"
    using nb by (simp add: expDiffPeriodUint_def word_le_def)
  also have "\<dots> = (1 < max 0 (num - bd) div 100000)" by linarith
  also have "\<dots> = ((n - b) div expDiffPeriodUint > 1)" using pc by (simp add: word_less_def)
  finally show ?thesis
    using uint_bomb' [OF nb assms(3,4,5)] True by (simp only: comm if_True)
next
  case False
  then have "max 0 (num - bd) = 0" using assms(1,2) by (simp add: word_le_def)
  then show ?thesis using False assms(4) by (simp add: bomb_def)
qed

lemma MakeU256_formula:
  assumes "h_Time parent \<le> time" "0 \<le> h_Difficulty parent" "h_Difficulty parent < 2 ^ 254"
    and "0 \<le> h_Number parent" "h_Number parent < 2 ^ 64" "1 \<le> bombDelay" "bombDelay < 2 ^ 64"
    and "h_Number parent + 1 - bombDelay < 25600000"
  shows "MakeDifficultyCalculatorU256 U keccak bombDelay time parent =
     adjusted 2048 (h_Difficulty parent)
       (byzantium_factor (h_UncleHash parent \<noteq> EmptyUncleHash keccak) (uint time - uint (h_Time parent)))
     + bomb (max 0 (h_Number parent + 1 - bombDelay))"
proof -
  let ?d = "h_Difficulty parent" and ?dt = "uint time - uint (h_Time parent)"
  let ?u = "h_UncleHash parent \<noteq> EmptyUncleHash keccak"
  define p where "p = fst (U_FromBig U ?d)"
  have p: "uint p = ?d" using assms(2,3) by (simp add: p_def uint_FromBig)
  define x where "x = (time - h_Time parent) div 9"
  have x: "uint x = ?dt div 9" using uint_sub_time [OF assms(1)] by (simp add: x_def uint_div)
  define c where "c = (if ?u then 2 else (1 :: u64))"
  have c: "uint c = (if ?u then 2 else 1)" by (simp add: c_def)
  define y where "y = (if x \<ge> c then x - c else c - x)"
  define z where "z = (if y > 99 then 99 else y)"
  have y: "uint y = \<bar>uint x - uint c\<bar>"
    using uint_sub_lem [of c x] uint_sub_lem [of x c] by (cases "c \<le> x") (auto simp: y_def word_le_def)
  have zf: "uint z \<le> 99" "byzantium_factor ?u ?dt = (if x \<ge> c then - uint z else uint z)"
    using x c y uint_nonnegative [of x]
    by (auto simp: z_def byzantium_factor_def word_le_def word_less_def)
  define a where "a = U_Mul U (U_Rsh U p difficultyBoundDivisor) (U_SetUint64 U z)"
  define q where "q = (if x \<ge> c then U_Sub U p a else U_Add U p a)"
  have q: "uint q = ?d + ?d div 2048 * byzantium_factor ?u ?dt"
    using uint_step [OF p assms(2,3) zf(1), folded a_def] zf(2) by (simp add: q_def)
  define r where "r = (if U_LtUint64 U q minimumDifficulty then U_SetUint64 U minimumDifficulty else q)"
  have "uint r = adjusted 2048 ?d (byzantium_factor ?u ?dt)"
    by (simp add: r_def uint_clamp q adjusted_def)
  moreover have "\<dots> < 2 ^ 255"
    by (rule adjusted_less [OF p assms(2,3) zf])
  moreover have "uint (big_Uint64 bombDelay - 1) = bombDelay - 1"
    using assms(6,7) by (simp add: uint_minus_one)
  ultimately show ?thesis
    using uint_fake_bomb [of "big_Uint64 (h_Number parent)" "h_Number parent" "big_Uint64 bombDelay - 1"
        "bombDelay - 1" r] assms(4,5,8)
    by (simp only: MakeDifficultyCalculatorU256_def Let_def ToBig p_def [symmetric] x_def [symmetric]
        c_def [symmetric] y_def [symmetric] z_def [symmetric] a_def [symmetric] q_def [symmetric]
        r_def [symmetric] diff_diff_eq2) simp
qed

end

section \<open>Bounds and monotonicity\<close>

lemma bomb_mono: "m \<le> n \<Longrightarrow> bomb m \<le> bomb n"
  using zdiv_mono1 [of m n 100000] by (auto simp: bomb_def)

lemma bomb_delayed: "0 \<le> d \<Longrightarrow> bomb (max 0 (n - d)) \<le> bomb n"
  using bomb_mono [of "n - d" n] by (simp add: max_def bomb_def [of 0])

lemma adjusted_range:
  assumes "131072 \<le> p" "-99 \<le> f" "f \<le> 2"
  shows "max 131072 (p - 99 * (p div 512)) \<le> adjusted 512 p f" "adjusted 512 p f \<le> p + 2 * (p div 512)"
proof -
  have "0 \<le> p div 512" using assms(1) by (simp add: pos_imp_zdiv_nonneg_iff)
  then have "p div 512 * (-99) \<le> p div 512 * f" "p div 512 * f \<le> p div 512 * 2" "0 \<le> p div 512"
    using assms mult_left_mono [of "-99" f "p div 512"] mult_left_mono [of f 2 "p div 512"] by blast+
  then show "max 131072 (p - 99 * (p div 512)) \<le> adjusted 512 p f" "adjusted 512 p f \<le> p + 2 * (p div 512)"
    using assms(1) unfolding adjusted_def by linarith+
qed

lemma adjusted_mono: "0 \<le> p \<Longrightarrow> 0 < d \<Longrightarrow> f \<le> g \<Longrightarrow> adjusted d p f \<le> adjusted d p g"
  using mult_left_mono [of f g "p div d"] by (simp add: adjusted_def pos_imp_zdiv_nonneg_iff max.coboundedI1)

lemma factor_range:
  "0 \<le> dt \<Longrightarrow> -99 \<le> frontier_factor l dt \<and> frontier_factor l dt \<le> 2"
  "0 \<le> dt \<Longrightarrow> -99 \<le> homestead_factor dt \<and> homestead_factor dt \<le> 2"
  "0 \<le> dt \<Longrightarrow> -99 \<le> byzantium_factor u dt \<and> byzantium_factor u dt \<le> 2"
  by (auto simp: frontier_factor_def homestead_factor_def byzantium_factor_def pos_imp_zdiv_nonneg_iff)

lemma factor_antitone:
  assumes "s \<le> t"
  shows "frontier_factor l t \<le> frontier_factor l s" "homestead_factor t \<le> homestead_factor s"
    "byzantium_factor u t \<le> byzantium_factor u s"
  using assms zdiv_mono1 [of s t 10] zdiv_mono1 [of s t 9]
  by (auto simp: frontier_factor_def homestead_factor_def byzantium_factor_def)

lemma CalcDifficulty_branch:
  "(\<exists>d \<ge> 0. \<forall>t. CalcDifficulty keccak config t parent = makeDifficultyCalculator keccak d t parent)
   \<or> (\<forall>t. CalcDifficulty keccak config t parent = calcDifficultyHomestead t parent)
   \<or> (\<forall>t. CalcDifficulty keccak config t parent = calcDifficultyFrontier t parent)"
proof -
  let ?nxt = "Some (h_Number parent + 1)"
  note defs = CalcDifficulty_def Let_def calcDifficultyEip2384_def calcDifficultyConstantinople_def
    calcDifficultyByzantium_def
  consider "IsMuirGlacier config ?nxt" | "\<not> IsMuirGlacier config ?nxt" "IsConstantinople config ?nxt"
    | "\<not> IsMuirGlacier config ?nxt" "\<not> IsConstantinople config ?nxt" "IsByzantium config ?nxt"
    | "\<not> IsMuirGlacier config ?nxt" "\<not> IsConstantinople config ?nxt" "\<not> IsByzantium config ?nxt"
    by blast
  then show ?thesis
  proof cases
    case 1
    then show ?thesis by (intro disjI1 exI [of _ 9000000]) (simp add: defs)
  next
    case 2
    then show ?thesis by (intro disjI1 exI [of _ 5000000]) (simp add: defs)
  next
    case 3
    then show ?thesis by (intro disjI1 exI [of _ 3000000]) (simp add: defs)
  next
    case 4
    then show ?thesis by (cases "IsHomestead config ?nxt") (simp_all add: defs)
  qed
qed

text \<open>Every branch of \<^verbatim>\<open>CalcDifficulty\<close> is the formula for some factor of the time and some ice age.\<close>

lemma CalcDifficulty_form:
  obtains f n where
    "\<And>time. CalcDifficulty keccak config time parent
       = adjusted 512 (h_Difficulty parent) (f (uint time - uint (h_Time parent))) + bomb n"
    "bomb n \<le> bomb (h_Number parent + 1)"
    "\<And>dt. 0 \<le> dt \<Longrightarrow> -99 \<le> f dt \<and> f dt \<le> 2"
    "\<And>s t. s \<le> t \<Longrightarrow> f t \<le> f s"
proof -
  consider (byz) d where "0 \<le> d"
      "\<And>t. CalcDifficulty keccak config t parent = makeDifficultyCalculator keccak d t parent"
    | (hom) "\<And>t. CalcDifficulty keccak config t parent = calcDifficultyHomestead t parent"
    | (fro) "\<And>t. CalcDifficulty keccak config t parent = calcDifficultyFrontier t parent"
    using CalcDifficulty_branch [of keccak config parent] by blast
  then show ?thesis
  proof cases
    case byz
    then show ?thesis
      using that [OF _ bomb_delayed [OF byz(1)] factor_range(3) factor_antitone(3)]
      by (simp add: makeDifficultyCalculator_formula)
  next
    case hom
    then show ?thesis
      using that [OF _ order_refl factor_range(2) factor_antitone(2)] 
      by (simp add: calcDifficultyHomestead_formula)
  next
    case fro
    then show ?thesis
      using that [OF _ order_refl factor_range(1) [of _ 12] factor_antitone(1) [of _ _ 12]]
      by (simp add: calcDifficultyFrontier_formula)
  qed
qed

section \<open>Properties\<close>

text \<open>
  C21. Whatever the fork rules, the difficulty of a block lies between the protocol minimum (or the
  parent's difficulty less 99 parts of its 512, if that is more) and the parent's difficulty plus
  2 of its 512 parts plus the exponential factor of the ice age.
\<close>

theorem CalcDifficulty_range:
  assumes "131072 \<le> h_Difficulty parent" "h_Time parent \<le> time"
  shows "max 131072 (h_Difficulty parent - 99 * (h_Difficulty parent div 512))
      \<le> CalcDifficulty keccak config time parent
    \<and> CalcDifficulty keccak config time parent
      \<le> h_Difficulty parent + 2 * (h_Difficulty parent div 512) + bomb (h_Number parent + 1)"
proof (rule CalcDifficulty_form [of keccak config parent])
  fix f n
  assume f: "\<And>time. CalcDifficulty keccak config time parent
       = adjusted 512 (h_Difficulty parent) (f (uint time - uint (h_Time parent))) + bomb n"
    "bomb n \<le> bomb (h_Number parent + 1)" "\<And>dt. 0 \<le> dt \<Longrightarrow> -99 \<le> f dt \<and> f dt \<le> 2"
  have "0 \<le> uint time - uint (h_Time parent)" using assms(2) by (simp add: word_le_def)
  with f(3) have "-99 \<le> f (uint time - uint (h_Time parent))" "f (uint time - uint (h_Time parent)) \<le> 2"
    by simp_all
  from adjusted_range [OF assms(1) this] f(2) bomb_nonneg [of n] show ?thesis
    unfolding f(1) by linarith
qed

theorem CalcDifficulty_range_witness:
  "CalcDifficulty bytes_word MainnetChainConfig 30 (zero_header\<lparr>h_Time := 20\<rparr>) \<le> 131584
   \<and> 131072 \<le> CalcDifficulty bytes_word MainnetChainConfig 30 (zero_header\<lparr>h_Time := 20\<rparr>)"
  using CalcDifficulty_range [of "zero_header\<lparr>h_Time := 20\<rparr>" 30 bytes_word MainnetChainConfig]
  by (simp add: zero_header_def bomb_def)

text \<open>
  C22. A block with a later timestamp never has a higher difficulty: waiting cannot raise what a miner has
  to solve.
\<close>

theorem CalcDifficulty_antitone:
  assumes "0 \<le> h_Difficulty parent" "s \<le> t"
  shows "CalcDifficulty keccak config t parent \<le> CalcDifficulty keccak config s parent"
proof (rule CalcDifficulty_form [of keccak config parent])
  fix f n
  assume "\<And>time. CalcDifficulty keccak config time parent
       = adjusted 512 (h_Difficulty parent) (f (uint time - uint (h_Time parent))) + bomb n"
    and "\<And>s t. s \<le> t \<Longrightarrow> f t \<le> f s"
  then show ?thesis using assms by (simp add: adjusted_mono word_le_def)
qed

theorem CalcDifficulty_antitone_witness:
  "CalcDifficulty bytes_word MainnetChainConfig 100 zero_header
     \<le> CalcDifficulty bytes_word MainnetChainConfig 10 zero_header"
  by (rule CalcDifficulty_antitone) (simp_all add: zero_header_def)

text \<open>
  C23. The calculators on 256-bit integers compute the documented formulas exactly, without wrapping around,
  with the divisor 2048 and the Frontier limit of 13 seconds, for difficulties below 2 to the 254 and an
  ice age of at most 256 periods.
\<close>

theorem u256_calculators:
  assumes "uint256 U" "h_Time parent \<le> time" "0 \<le> h_Difficulty parent" "h_Difficulty parent < 2 ^ 254"
    and "0 \<le> h_Number parent" "h_Number parent + 1 < 25600000" "1 \<le> bombDelay" "bombDelay < 2 ^ 64"
  shows "CalcDifficultyFrontierU256 U time parent =
       adjusted 2048 (h_Difficulty parent) (frontier_factor 13 (uint time - uint (h_Time parent)))
       + bomb (h_Number parent + 1)
    \<and> CalcDifficultyHomesteadU256 U time parent =
       adjusted 2048 (h_Difficulty parent) (homestead_factor (uint time - uint (h_Time parent)))
       + bomb (h_Number parent + 1)
    \<and> MakeDifficultyCalculatorU256 U keccak bombDelay time parent =
       adjusted 2048 (h_Difficulty parent)
         (byzantium_factor (h_UncleHash parent \<noteq> EmptyUncleHash keccak) (uint time - uint (h_Time parent)))
       + bomb (max 0 (h_Number parent + 1 - bombDelay))"
  using uint256.FrontierU256_formula [OF assms(1-6)] uint256.HomesteadU256_formula [OF assms(1-6)]
    uint256.MakeU256_formula [OF assms(1-5) _ assms(7,8)] assms(6,7)
  by simp

theorem u256_calculators_witness:
  "CalcDifficultyFrontierU256 word_uint256 12 (zero_header\<lparr>h_Difficulty := 1048576\<rparr>) = 1049088
   \<and> CalcDifficultyHomesteadU256 word_uint256 12 (zero_header\<lparr>h_Difficulty := 1048576\<rparr>) = 1048576
   \<and> MakeDifficultyCalculatorU256 word_uint256 (\<lambda>_. 0) 3000000 12 (zero_header\<lparr>h_Difficulty := 1048576\<rparr>) = 1048576"
proof -
  have "EmptyUncleHash (\<lambda>_. 0) = 0" by (simp add: EmptyUncleHash_def rlpHash_def split: option.splits sum.splits)
  then show ?thesis
    using u256_calculators [OF word_u256.uint256_axioms, of "zero_header\<lparr>h_Difficulty := 1048576\<rparr>" 12 3000000 "\<lambda>_. 0"]
    by (simp add: zero_header_def adjusted_def frontier_factor_def homestead_factor_def byzantium_factor_def bomb_def)
qed

text \<open>
  C24. For a block that comes in time, each calculator on big integers, whose divisor is 512, gives a strictly
  higher difficulty than its 256-bit counterpart, although the tests of the package require the two to agree.
\<close>

theorem u256_calculators_diverge:
  assumes "uint256 U" "h_Time parent \<le> time" "uint time - uint (h_Time parent) < 9"
    and "131072 \<le> h_Difficulty parent" "h_Difficulty parent < 2 ^ 254"
    and "0 \<le> h_Number parent" "h_Number parent + 1 < 25600000" "1 \<le> bombDelay" "bombDelay < 2 ^ 64"
  shows "CalcDifficultyFrontierU256 U time parent < calcDifficultyFrontier time parent
    \<and> CalcDifficultyHomesteadU256 U time parent < calcDifficultyHomestead time parent
    \<and> MakeDifficultyCalculatorU256 U keccak bombDelay time parent
       < makeDifficultyCalculator keccak bombDelay time parent"
proof -
  let ?p = "h_Difficulty parent" and ?dt = "uint time - uint (h_Time parent)"
  have dt: "0 \<le> ?dt" using assms(2) by (simp add: word_le_def)
  have less: "adjusted 2048 ?p f < adjusted 512 ?p f" if "0 < f" for f
  proof -
    have "?p div 2048 < ?p div 512" "0 \<le> ?p div 2048" using assms(4) by linarith+
    then have "?p div 2048 * f < ?p div 512 * f" "0 \<le> ?p div 2048 * f" using that by simp_all
    then show ?thesis using assms(4) unfolding adjusted_def by linarith
  qed
  have pos: "frontier_factor l ?dt = 1" "0 < homestead_factor ?dt" "0 < byzantium_factor u ?dt"
    if "13 \<le> l \<or> l = 12" for l u
    using that assms(3) dt by (auto simp: frontier_factor_def homestead_factor_def byzantium_factor_def)
  show ?thesis
    using assms less pos [of 12] pos [of 13] uint256.FrontierU256_formula [of U parent time]
      uint256.HomesteadU256_formula [of U parent time]
      uint256.MakeU256_formula [of U parent time bombDelay keccak]
    by (simp add: difficulty_formulas)
qed

theorem u256_calculators_diverge_witness:
  "CalcDifficultyHomesteadU256 word_uint256 5 zero_header < calcDifficultyHomestead 5 zero_header"
  using u256_calculators_diverge [OF word_u256.uint256_axioms, of zero_header 5 1 bytes_word]
  by (simp add: zero_header_def)

end
