(* ===== verification/Ethash_Engine.thy ===== *)
theory Ethash_Engine
  imports Ethash_Sizes Block_Header
begin

text \<open>
  The seal of the proof-of-work engine: the generation of caches and datasets of
  \<^verbatim>\<open>consensus/ethash/ethash.go\<close>, \<^verbatim>\<open>SealHash\<close> and \<^verbatim>\<open>verifySeal\<close> of
  \<^verbatim>\<open>consensus/ethash/consensus.go\<close>. The surroundings of the engine are the record \<^verbatim>\<open>pow_env\<close>: the
  hash functions, the byte order of the machine, the size tables, the order in which the goroutines
  write the rows of a dataset, what the file system gives for an epoch (\<^verbatim>\<open>storage\<close>) and whether the
  dataset of an epoch has been generated yet. The least-recently-used list that keeps generated
  caches and datasets only avoids computing them twice and is left out, as are mining and its threads.
\<close>

section \<open>Caches and datasets\<close>

datatype storage =
    InMemory
  | Loaded "u32 list"
  | Stored
  | StoreFailed

record pow_env =
  pe_keccak :: keccak
  pe_keccak512 :: "bytes \<Rightarrow> bytes"
  pe_little :: bool
  pe_cacheSizes :: "u64 list"
  pe_datasetSizes :: "u64 list"
  pe_schedule :: "nat \<Rightarrow> u64 list"
  pe_caches :: "u64 \<Rightarrow> storage"
  pe_datasets :: "u64 \<Rightarrow> storage"
  pe_generated :: "u64 \<Rightarrow> bool"

definition keccak256 :: "pow_env \<Rightarrow> bytes \<Rightarrow> bytes" where
  "keccak256 pe b = word_bytes 32 (pe_keccak pe b)"

text \<open>A slice of \<^verbatim>\<open>n\<close> zero words, as bytes.\<close>

definition make_words :: "u64 \<Rightarrow> bytes" where
  "make_words n = replicate (4 * unat n) 0"

definition cache_generate :: "pow_env \<Rightarrow> bool \<Rightarrow> u64 \<Rightarrow> u32 list option" where
  "cache_generate pe test epoch = do {
     sz \<leftarrow> cacheSize (pe_cacheSizes pe) (epoch * epochLength + 1);
     let seed = seedHash (keccak256 pe) (epoch * epochLength + 1);
     let sz = (if test then 1024 else sz);
     (case pe_caches pe epoch of
        Loaded cache \<Rightarrow> Some cache
      | _ \<Rightarrow> generateCache (pe_little pe) (pe_keccak512 pe) (make_words (sz div 4)) seed) }"

definition dataset_generate :: "pow_env \<Rightarrow> bool \<Rightarrow> u64 \<Rightarrow> u32 list option" where
  "dataset_generate pe test epoch = do {
     csize \<leftarrow> cacheSize (pe_cacheSizes pe) (epoch * epochLength + 1);
     dsize \<leftarrow> datasetSize (pe_datasetSizes pe) (epoch * epochLength + 1);
     let seed = seedHash (keccak256 pe) (epoch * epochLength + 1);
     let csize = (if test then 1024 else csize);
     let dsize = (if test then 32 * 1024 else dsize);
     let fill = (\<lambda>n. do {
           cache \<leftarrow> generateCache (pe_little pe) (pe_keccak512 pe) (make_words (csize div 4)) seed;
           generateDataset (pe_little pe) (pe_keccak512 pe) (pe_schedule pe (length (make_words n)))
             (make_words n) cache });
     (case pe_datasets pe epoch of
        Loaded dataset \<Rightarrow> Some dataset
      | InMemory \<Rightarrow> fill (dsize div 4)
      | Stored \<Rightarrow> fill (dsize div 4)
      | StoreFailed \<Rightarrow> fill (dsize div 2)) }"

section \<open>The seal\<close>

datatype Mode = ModeNormal | ModeShared | ModeTest | ModeFake | ModeFullFake

datatype Ethash = Ethash (PowMode: Mode) (fakeFail: u64) (shared: "Ethash option")

datatype consensus_error =
    ErrUnknownAncestor
  | ErrFutureBlock
  | ErrInvalidNumber
  | errOlderBlockTime
  | errTooManyUncles
  | errDuplicateUncle
  | errUncleIsAncestor
  | errDanglingUncle
  | errInvalidDifficulty
  | errInvalidMixDigest
  | errInvalidPoW
  | ErrExtraTooLong nat
  | ErrWrongDifficulty int int
  | ErrGasLimitCap u64
  | ErrGasUsed u64 u64
  | ErrGasLimitBounds u64 u64 u64
  | ErrBadProDAOExtra
  | ErrBadNoDAOExtra
  | ErrForkHash hash hash

definition SealHash :: "keccak \<Rightarrow> int Header \<Rightarrow> hash" where
  "SealHash keccak header =
     rlpHash keccak (VSlice False (map VInterface (take 13 (header_fields (set_header header)))))"

text \<open>
  The result is a panic (\<^const>\<open>None\<close>) or an error, which may be \<^verbatim>\<open>nil\<close>. The delay of a fake engine
  is left out. The recursion follows the chain of shared engines.
\<close>

definition seal_check :: "pow_env \<Rightarrow> bool \<Rightarrow> int Header \<Rightarrow> bool \<Rightarrow> consensus_error option option" where
  "seal_check pe test header fulldag =
     (if h_Difficulty header \<le> 0 then Some (Some errInvalidDifficulty)
      else do {
        let number = big_Uint64 (h_Number header);
        let epoch = number div epochLength;
        let h = word_bytes 32 (SealHash (pe_keccak pe) header);
        (digest, result) \<leftarrow>
          (if fulldag \<and> pe_generated pe epoch
           then do {
             dataset \<leftarrow> dataset_generate pe test epoch;
             hashimotoFull (pe_keccak512 pe) (keccak256 pe) dataset h (nonce_Uint64 (h_Nonce header)) }
           else do {
             cache \<leftarrow> cache_generate pe test epoch;
             sz \<leftarrow> datasetSize (pe_datasetSizes pe) number;
             let sz = (if test then 32 * 1024 else sz);
             hashimotoLight (pe_keccak512 pe) (keccak256 pe) sz cache h (nonce_Uint64 (h_Nonce header)) });
        Some (if word_bytes 32 (h_MixDigest header) \<noteq> digest then Some errInvalidMixDigest
              else (let target = 2 ^ 256 div h_Difficulty header
                    in if int (be_nat result) > target then Some errInvalidPoW else None)) })"

fun verifySeal :: "pow_env \<Rightarrow> Ethash \<Rightarrow> int Header \<Rightarrow> bool \<Rightarrow> consensus_error option option" where
  "verifySeal pe (Ethash mode failAt sh) header fulldag =
     (if mode = ModeFake \<or> mode = ModeFullFake
      then Some (if failAt = big_Uint64 (h_Number header) then Some errInvalidPoW else None)
      else (case sh of
              Some eng \<Rightarrow> verifySeal pe eng header fulldag
            | None \<Rightarrow> seal_check pe (mode = ModeTest) header fulldag))"

definition NewFaker :: Ethash where
  "NewFaker = Ethash ModeFake 0 None"

definition NewFakeFailer :: "u64 \<Rightarrow> Ethash" where
  "NewFakeFailer fail = Ethash ModeFake fail None"

definition NewFullFaker :: Ethash where
  "NewFullFaker = Ethash ModeFullFake 0 None"

section \<open>Light and full verification of a seal\<close>

text \<open>
  \<open>epoch_sizes\<close>: the cache of an epoch has whole rows of 64 bytes and less than 4 GB, its dataset has whole rows of 128 bytes,
  at least 50 of them, and less than 16 GB, and the goroutines write every row once. \<open>files_ok\<close>: a cache or a dataset that is
  read from a file is the one that would have been generated, and the dataset is not that of the fallback for a file that
  cannot be written.
\<close>

definition epoch_sizes :: "pow_env \<Rightarrow> u64 \<Rightarrow> bool" where
  "epoch_sizes pe epoch =
     (hash512 (pe_keccak512 pe)
      \<and> (\<exists>r. cacheSize (pe_cacheSizes pe) (epoch * epochLength + 1) = Some (word_of_nat (64 * r))
             \<and> 0 < r \<and> 64 * r < 2 ^ 32)
      \<and> (\<exists>d. datasetSize (pe_datasetSizes pe) (epoch * epochLength + 1) = Some (word_of_nat (128 * d))
             \<and> 50 \<le> d \<and> 2 * d < 2 ^ 28)
      \<and> (\<forall>n. \<exists>threads. 0 < threads \<and> threads < 2 ^ 20 \<and> schedule_of (word_of_nat n) threads (pe_schedule pe n)))"

definition files_ok :: "pow_env \<Rightarrow> bool \<Rightarrow> u64 \<Rightarrow> bool" where
  "files_ok pe test epoch =
     ((case pe_caches pe epoch of
         Loaded cache \<Rightarrow> cache_generate (pe\<lparr>pe_caches := \<lambda>_. InMemory\<rparr>) test epoch = Some cache
       | _ \<Rightarrow> True)
      \<and> (case pe_datasets pe epoch of
           Loaded dataset \<Rightarrow> dataset_generate (pe\<lparr>pe_datasets := \<lambda>_. InMemory\<rparr>) test epoch = Some dataset
         | StoreFailed \<Rightarrow> False
         | _ \<Rightarrow> True))"

text \<open>
  An epoch whose sizes are whole rows (64 bytes of the cache, 128 of the dataset) and below the limits of
  the 32-bit indices, in an environment that does not read old files and whose goroutines write every row.
\<close>

definition epoch_ok :: "pow_env \<Rightarrow> u64 \<Rightarrow> bool" where
  "epoch_ok pe epoch =
     (hash512 (pe_keccak512 pe)
      \<and> (\<exists>r. cacheSize (pe_cacheSizes pe) (epoch * epochLength + 1) = Some (word_of_nat (64 * r))
             \<and> 0 < r \<and> 64 * r < 2 ^ 32)
      \<and> (\<exists>d. datasetSize (pe_datasetSizes pe) (epoch * epochLength + 1) = Some (word_of_nat (128 * d))
             \<and> 50 \<le> d \<and> 2 * d < 2 ^ 27)
      \<and> (\<forall>n. \<exists>threads. 0 < threads \<and> threads < 2 ^ 20 \<and> schedule_of (word_of_nat n) threads (pe_schedule pe n))
      \<and> (pe_caches pe epoch = InMemory \<or> pe_caches pe epoch = Stored \<or> pe_caches pe epoch = StoreFailed))"

lemma epoch_ok_sizes:
  assumes "epoch_ok pe epoch"
  shows "epoch_sizes pe epoch" "\<forall>c. pe_caches pe epoch \<noteq> Loaded c"
proof -
  obtain d where "datasetSize (pe_datasetSizes pe) (epoch * epochLength + 1) = Some (word_of_nat (128 * d))" "50 \<le> d" "2 * d < 2 ^ 27"
    using assms unfolding epoch_ok_def by blast
  moreover from this have "2 * d < 2 ^ 28" by simp
  ultimately show "epoch_sizes pe epoch" using assms unfolding epoch_ok_def epoch_sizes_def by blast
  show "\<forall>c. pe_caches pe epoch \<noteq> Loaded c" using assms unfolding epoch_ok_def by fastforce
qed

lemma length_make_words: "unat sz = 4 * n \<Longrightarrow> length (make_words (sz div 4)) = unat sz"
  by (simp add: make_words_def unat_div_distrib)

lemma unat_size: "k * n < 2 ^ 64 \<Longrightarrow> unat (word_of_nat (k * n) :: u64) = k * n"
  by (simp add: unat_of_nat del: of_nat_mult)

lemma cache_generate_ok:
  assumes "epoch_sizes pe epoch" "\<forall>c. pe_caches pe epoch \<noteq> Loaded c"
  obtains csize c where "cacheSize (pe_cacheSizes pe) (epoch * epochLength + 1) = Some csize"
    "generateCache (pe_little pe) (pe_keccak512 pe) (make_words ((if test then 1024 else csize) div 4))
       (seedHash (keccak256 pe) (epoch * epochLength + 1)) = Some c"
    "cache_generate pe test epoch = Some c" "cache_ok c"
proof -
  obtain r where r: "cacheSize (pe_cacheSizes pe) (epoch * epochLength + 1) = Some (word_of_nat (64 * r))"
    "0 < r" "64 * r < 2 ^ 32" and h: "hash512 (pe_keccak512 pe)"
    using assms(1) by (auto simp: epoch_sizes_def)
  define sz :: u64 where "sz = (if test then 1024 else word_of_nat (64 * r))"
  define q where "q = (if test then 16 else r)"
  have q: "0 < q" "64 * q < 2 ^ 32" using r by (simp_all add: q_def)
  have sz: "unat sz = 64 * q" using unat_size [of 64 r] r(3) by (simp add: sz_def q_def del: of_nat_mult)
  then have "length (make_words (sz div 4)) = 64 * q" using length_make_words [of sz "16 * q"] by simp
  then obtain c where c: "generateCache True (pe_keccak512 pe) (make_words (sz div 4))
      (seedHash (keccak256 pe) (epoch * epochLength + 1)) = Some c"
    "generateCache False (pe_keccak512 pe) (make_words (sz div 4))
      (seedHash (keccak256 pe) (epoch * epochLength + 1)) = Some c" "length c = 16 * q"
    using generateCache_some [OF h q] by blast
  have g: "generateCache (pe_little pe) (pe_keccak512 pe) (make_words (sz div 4))
      (seedHash (keccak256 pe) (epoch * epochLength + 1)) = Some c"
    using c(1,2) by (cases "pe_little pe") simp_all
  moreover have "cache_generate pe test epoch = Some c"
    using assms(2) r(1) g unfolding cache_generate_def sz_def by (cases "pe_caches pe epoch") auto
  moreover have "cache_ok c" using c(3) q by (auto simp: cache_ok_def)
  ultimately show ?thesis using that r(1) unfolding sz_def by blast
qed

lemma dataset_generate_ok:
  assumes "epoch_sizes pe epoch" "length h = 32"
    and "pe_datasets pe epoch = InMemory" "\<forall>c. pe_caches pe epoch \<noteq> Loaded c"
  obtains c dsize ds digest result where "cache_generate pe test epoch = Some c"
    "datasetSize (pe_datasetSizes pe) (epoch * epochLength + 1) = Some dsize"
    "dataset_generate pe test epoch = Some ds"
    "hashimotoFull (pe_keccak512 pe) k2 ds h nonce = Some (digest, result)"
    "hashimotoLight (pe_keccak512 pe) k2 (if test then 32 * 1024 else dsize) c h nonce = Some (digest, result)"
proof -
  obtain d where d: "datasetSize (pe_datasetSizes pe) (epoch * epochLength + 1) = Some (word_of_nat (128 * d))"
    "50 \<le> d" "2 * d < 2 ^ 28" and h5: "hash512 (pe_keccak512 pe)"
    and sched: "\<And>n. \<exists>threads. 0 < threads \<and> threads < 2 ^ 20 \<and> schedule_of (word_of_nat n) threads (pe_schedule pe n)"
    using assms(1) by (auto simp: epoch_sizes_def)
  obtain csize c where c: "cacheSize (pe_cacheSizes pe) (epoch * epochLength + 1) = Some csize"
    "generateCache (pe_little pe) (pe_keccak512 pe) (make_words ((if test then 1024 else csize) div 4))
       (seedHash (keccak256 pe) (epoch * epochLength + 1)) = Some c"
    "cache_generate pe test epoch = Some c" "cache_ok c"
    using cache_generate_ok [OF assms(1,4)] .
  define sz :: u64 where "sz = (if test then 32 * 1024 else word_of_nat (128 * d))"
  define q where "q = (if test then 256 else d)"
  have q: "50 \<le> q" "2 * q < 2 ^ 28" using d by (simp_all add: q_def)
  have sz: "unat sz = 128 * q" using unat_size [of 128 d] d(3) by (simp add: sz_def q_def del: of_nat_mult)
  then have len: "length (make_words (sz div 4)) = 128 * q" using length_make_words [of sz "32 * q"] by simp
  have "(word_of_nat (unat sz) :: u64) = sz" by simp
  then have szw: "word_of_nat (length (make_words (sz div 4))) = sz" unfolding len using sz by (simp only:)
  obtain threads where "0 < threads" "threads < 2 ^ 20"
    "schedule_of (word_of_nat (length (make_words (sz div 4)))) threads (pe_schedule pe (length (make_words (sz div 4))))"
    using sched by blast
  from full_light_agree [OF h5 c(4) len q this assms(2)] obtain ds digest result where
    ds: "generateDataset (pe_little pe) (pe_keccak512 pe) (pe_schedule pe (length (make_words (sz div 4))))
       (make_words (sz div 4)) c = Some ds"
    "hashimotoFull (pe_keccak512 pe) k2 ds h nonce = Some (digest, result)"
    "hashimotoLight (pe_keccak512 pe) k2 sz c h nonce = Some (digest, result)"
    unfolding szw by blast
  have "dataset_generate pe test epoch = Some ds"
    using assms(3) c(1,2) d(1) ds(1) unfolding dataset_generate_def sz_def Let_def by auto
  then show ?thesis using that c(3) d(1) ds(2,3) unfolding sz_def by blast
qed

lemma epoch_block:
  assumes "unat number < 2 ^ 63"
  defines "epoch \<equiv> number div epochLength"
  shows "(epoch * epochLength + 1) div epochLength = epoch"
proof -
  have e: "unat epoch = unat number div 30000" by (simp add: epoch_def unat_div_distrib)
  then have "unat epoch * 30000 + 1 < 2 ^ 64" using assms(1) by simp
  then have "unat (epoch * 30000 + 1) = unat epoch * 30000 + 1" by (simp add: unat_word_ariths)
  then show ?thesis by (simp add: word_unat_eq_iff unat_div_distrib)
qed

lemma datasetSize_epoch:
  "unat number < 2 ^ 63 \<Longrightarrow>
   datasetSize tables (number div epochLength * epochLength + 1) = datasetSize tables number"
  using epoch_block [of number] by (simp add: datasetSize_def)

lemma seal_check_generated:
  assumes "epoch_sizes pe (big_Uint64 (h_Number header) div epochLength)"
    and "unat (big_Uint64 (h_Number header)) < 2 ^ 63"
    and "pe_datasets pe (big_Uint64 (h_Number header) div epochLength) = InMemory"
    and "\<forall>c. pe_caches pe (big_Uint64 (h_Number header) div epochLength) \<noteq> Loaded c"
  shows "seal_check pe test header True = seal_check pe test header False \<and> seal_check pe test header True \<noteq> None"
proof -
  let ?n = "big_Uint64 (h_Number header)"
  let ?h = "word_bytes 32 (SealHash (pe_keccak pe) header)"
  have "length ?h = 32" by simp
  from dataset_generate_ok [OF assms(1) this assms(3,4), where test = test and ?k2.0 = "keccak256 pe"
      and nonce = "nonce_Uint64 (h_Nonce header)"] obtain c dsize ds digest result where
    "cache_generate pe test (?n div epochLength) = Some c"
    "datasetSize (pe_datasetSizes pe) (?n div epochLength * epochLength + 1) = Some dsize"
    "dataset_generate pe test (?n div epochLength) = Some ds"
    "hashimotoFull (pe_keccak512 pe) (keccak256 pe) ds ?h (nonce_Uint64 (h_Nonce header)) = Some (digest, result)"
    "hashimotoLight (pe_keccak512 pe) (keccak256 pe) (if test then 32 * 1024 else dsize) c ?h
       (nonce_Uint64 (h_Nonce header)) = Some (digest, result)"
    by metis
  then show ?thesis
    using datasetSize_epoch [OF assms(2)] by (simp add: seal_check_def Let_def del: ethash_consts)
qed

text \<open>With files that hold what would have been generated, the engine does what it does without files.\<close>

lemma files_ok_generate:
  fixes pe :: pow_env
  defines "pe' \<equiv> pe\<lparr>pe_caches := \<lambda>_. InMemory, pe_datasets := \<lambda>_. InMemory\<rparr>"
  assumes "files_ok pe test epoch"
  shows "cache_generate pe test epoch = cache_generate pe' test epoch"
    and "dataset_generate pe test epoch = dataset_generate pe' test epoch"
proof -
  have k: "keccak256 (pe\<lparr>pe_caches := c, pe_datasets := d\<rparr>) = keccak256 pe"
    "keccak256 (pe\<lparr>pe_caches := c\<rparr>) = keccak256 pe" "keccak256 (pe\<lparr>pe_datasets := d\<rparr>) = keccak256 pe" for c d
    by (simp_all add: keccak256_def fun_eq_iff)
  show "cache_generate pe test epoch = cache_generate pe' test epoch"
    using assms(2) unfolding files_ok_def cache_generate_def pe'_def Let_def
    by (cases "pe_caches pe epoch"; cases "cacheSize (pe_cacheSizes pe) (epoch * epochLength + 1)")
      (simp_all add: k del: ethash_consts)
  show "dataset_generate pe test epoch = dataset_generate pe' test epoch"
    using assms(2) unfolding files_ok_def dataset_generate_def pe'_def Let_def
    by (cases "pe_datasets pe epoch"; cases "cacheSize (pe_cacheSizes pe) (epoch * epochLength + 1)";
        cases "datasetSize (pe_datasetSizes pe) (epoch * epochLength + 1)")
      (simp_all add: k del: ethash_consts)
qed

lemma seal_check_fulldag:
  assumes "epoch_sizes pe (big_Uint64 (h_Number header) div epochLength)"
    and "unat (big_Uint64 (h_Number header)) < 2 ^ 63"
    and "files_ok pe test (big_Uint64 (h_Number header) div epochLength)"
  shows "seal_check pe test header True = seal_check pe test header False \<and> seal_check pe test header True \<noteq> None"
proof -
  let ?pe = "pe\<lparr>pe_caches := \<lambda>_. InMemory, pe_datasets := \<lambda>_. InMemory\<rparr>"
  have same: "seal_check pe test header fulldag = seal_check ?pe test header fulldag" for fulldag
  proof -
    have "keccak256 ?pe = keccak256 pe" by (simp add: keccak256_def fun_eq_iff)
    then show ?thesis using files_ok_generate [OF assms(3)] by (simp add: seal_check_def Let_def del: ethash_consts)
  qed
  have "epoch_sizes ?pe (big_Uint64 (h_Number header) div epochLength)"
    using assms(1) by (simp add: epoch_sizes_def del: ethash_consts)
  then show ?thesis unfolding same by (rule seal_check_generated [OF _ assms(2)]) simp_all
qed

text \<open>The engine at the end of a chain of shared engines is the one that looks at the seal.\<close>

fun tests :: "Ethash \<Rightarrow> bool" where
  "tests (Ethash mode failAt None) = (mode = ModeTest)"
| "tests (Ethash mode failAt (Some eng)) = tests eng"

section \<open>Properties\<close>

text \<open>
  C29. Checking a seal with the full dataset or with the light cache gives the same verdict and does not panic, for an engine
  of any mode and through every chain of shared engines, at a block number below 2 to the 63, provided that the cache of the
  epoch is below 4 GB and its dataset below 16 GB, both of whole rows, that a cache or dataset read from a file is the one that
  would have been generated, and that the dataset is not generated by the fallback for a file that cannot be written, which
  gives a dataset of the wrong size.
\<close>

theorem verifySeal_fulldag:
  assumes "epoch_sizes pe (big_Uint64 (h_Number header) div epochLength)"
    and "unat (big_Uint64 (h_Number header)) < 2 ^ 63"
    and "files_ok pe (tests eng) (big_Uint64 (h_Number header) div epochLength)"
  shows "verifySeal pe eng header True = verifySeal pe eng header False \<and> verifySeal pe eng header True \<noteq> None"
  using assms(3)
proof (induction eng rule: tests.induct)
  case (1 mode failAt)
  then have "files_ok pe (mode = ModeTest) (big_Uint64 (h_Number header) div epochLength)" by simp
  from seal_check_fulldag [OF assms(1,2) this] obtain r where
    "seal_check pe (mode = ModeTest) header True = Some r" "seal_check pe (mode = ModeTest) header False = Some r" by force
  then show ?case by simp
next
  case (2 mode failAt eng)
  then obtain r where "verifySeal pe eng header True = Some r" "verifySeal pe eng header False = Some r" by force
  then show ?case by simp
qed

text \<open>A small environment: constant hash functions, one row order, and tables for the first epoch.\<close>

definition tiny_env :: pow_env where
  "tiny_env =
     \<lparr>pe_keccak = (\<lambda>_. 0), pe_keccak512 = (\<lambda>_. replicate 64 1), pe_little = False,
      pe_cacheSizes = [word_of_nat (64 * 3)], pe_datasetSizes = [word_of_nat (128 * 61)],
      pe_schedule = (\<lambda>n. dataset_segment (word_of_nat n) 1 0),
      pe_caches = (\<lambda>_. InMemory), pe_datasets = (\<lambda>_. Stored), pe_generated = (\<lambda>_. True)\<rparr>"

lemma tiny_env_ok: "epoch_ok tiny_env 0"
proof -
  have "cacheSize (pe_cacheSizes tiny_env) 1 = Some (word_of_nat (64 * 3))"
    "datasetSize (pe_datasetSizes tiny_env) 1 = Some (word_of_nat (128 * 61))"
    by (simp_all add: cacheSize_def datasetSize_def tiny_env_def nth_opt_def maxEpoch_def)
  moreover have "schedule_of (word_of_nat n) 1 (pe_schedule tiny_env n)" for n
    by (simp add: schedule_of_def tiny_env_def)
  moreover have "hash512 (pe_keccak512 tiny_env)" "pe_caches tiny_env 0 = InMemory"
    by (simp_all add: hash512_def tiny_env_def)
  ultimately show ?thesis
    unfolding epoch_ok_def mult_zero_left add_0_left
    by (intro conjI exI [of _ "3 :: nat"] exI [of _ "61 :: nat"] allI exI [of _ "1 :: nat"]) simp_all
qed

theorem verifySeal_fulldag_witness:
  "verifySeal tiny_env (Ethash ModeNormal 0 None) zero_header True
     = verifySeal tiny_env (Ethash ModeNormal 0 None) zero_header False
   \<and> verifySeal tiny_env (Ethash ModeNormal 0 None) zero_header True \<noteq> None"
  by (rule verifySeal_fulldag)
    (simp_all add: epoch_ok_sizes(1) [OF tiny_env_ok] zero_header_def big_Uint64_def, simp add: tiny_env_def files_ok_def)

text \<open>
  C30. When the dataset cannot be stored on disk, the fallback allocates twice the words it should
  (\<^verbatim>\<open>dsize/2\<close> instead of \<^verbatim>\<open>dsize/4\<close>). \<^verbatim>\<open>hashimotoFull\<close> takes its number of rows from the length of
  the dataset, so it then works on twice the dataset that light verification works on.
\<close>

theorem dataset_fallback_twice:
  assumes "epoch_ok pe epoch" "pe_datasets pe epoch = StoreFailed"
    and "datasetSize (pe_datasetSizes pe) (epoch * epochLength + 1) = Some dsize"
  shows "\<exists>dataset. dataset_generate pe False epoch = Some dataset \<and> 4 * length dataset = 2 * unat dsize"
proof -
  obtain d where d: "dsize = word_of_nat (128 * d)" "50 \<le> d" "2 * d < 2 ^ 27" and h5: "hash512 (pe_keccak512 pe)"
    and sched: "\<And>n. \<exists>threads. 0 < threads \<and> threads < 2 ^ 20 \<and> schedule_of (word_of_nat n) threads (pe_schedule pe n)"
    using assms(1,3) by (auto simp: epoch_ok_def)
  obtain csize c where c: "cacheSize (pe_cacheSizes pe) (epoch * epochLength + 1) = Some csize"
    "generateCache (pe_little pe) (pe_keccak512 pe) (make_words (csize div 4))
       (seedHash (keccak256 pe) (epoch * epochLength + 1)) = Some c" "cache_ok c"
    using cache_generate_ok [OF epoch_ok_sizes [OF assms(1)], where test = False] by (metis (full_types))
  have sz: "unat dsize = 128 * d" using unat_size [of 128 d] d by simp
  then have len: "length (make_words (dsize div 2)) = 64 * (4 * d)"
    by (simp add: make_words_def unat_div_distrib)
  obtain threads where "0 < threads" "threads < 2 ^ 20"
    "schedule_of (word_of_nat (length (make_words (dsize div 2)))) threads (pe_schedule pe (length (make_words (dsize div 2))))"
    using sched by blast
  from generateDataset_rows [OF c(3) h5 len _ _ this, where le = "pe_little pe"] d(2,3) obtain ds where
    "generateDataset (pe_little pe) (pe_keccak512 pe) (pe_schedule pe (length (make_words (dsize div 2))))
       (make_words (dsize div 2)) c = Some ds" "length ds = 16 * (4 * d)" by auto
  then show ?thesis
    using assms(2,3) c(1,2) sz unfolding dataset_generate_def Let_def by (auto simp del: ethash_consts)
qed

theorem dataset_fallback_twice_witness:
  "\<exists>dataset. dataset_generate (tiny_env\<lparr>pe_datasets := \<lambda>_. StoreFailed\<rparr>) False 0 = Some dataset
     \<and> 4 * length dataset = 2 * (128 * 61)"
proof -
  have "epoch_ok (tiny_env\<lparr>pe_datasets := \<lambda>_. StoreFailed\<rparr>) 0"
    using tiny_env_ok by (simp add: epoch_ok_def)
  from dataset_fallback_twice [OF this, of "word_of_nat (128 * 61)"] show ?thesis
    by (simp add: datasetSize_def tiny_env_def nth_opt_def maxEpoch_def)
qed

end
