(* ===== verification/Ethash_Verify.thy ===== *)
theory Ethash_Verify
  imports Ethash_Difficulty Ethash_Engine
begin

text \<open>
  Header and uncle verification of the proof-of-work engine (\<^verbatim>\<open>consensus/ethash/consensus.go\<close>) with the
  fork checks of \<^verbatim>\<open>consensus/misc\<close>. The chain that the engine reads (\<^verbatim>\<open>consensus.ChainHeaderReader\<close>, an
  interface) is a record of its methods; \<^verbatim>\<open>time.Now().Unix()\<close> is the argument \<^verbatim>\<open>now\<close>; the set of the
  package \<^verbatim>\<open>golang-set\<close>, outside the repository, is an argument with the contract \<^verbatim>\<open>hash_set\<close>.
  A result is a panic (\<^const>\<open>None\<close>, only from the seal) or an error that may be \<^verbatim>\<open>nil\<close>.

  The lemmas show exactly which headers are accepted, and what an accepted list of uncles guarantees.
\<close>

section \<open>The chain interface\<close>

record 'tx chain_reader =
  cr_Config :: ChainConfig
  cr_GetHeader :: "hash \<Rightarrow> u64 \<Rightarrow> int Header option"
  cr_GetBlock :: "hash \<Rightarrow> u64 \<Rightarrow> 'tx Block option"

definition MaximumExtraDataSize :: nat where
  "MaximumExtraDataSize = 32"

definition GasLimitBoundDivisor :: u64 where
  "GasLimitBoundDivisor = 1024"

definition MinGasLimit :: u64 where
  "MinGasLimit = 5000"

definition allowedFutureBlockTimeSeconds :: u64 where
  "allowedFutureBlockTimeSeconds = 15"

definition maxUncles :: nat where
  "maxUncles = 2"

lemmas verify_consts =
  MaximumExtraDataSize_def GasLimitBoundDivisor_def MinGasLimit_def allowedFutureBlockTimeSeconds_def
  maxUncles_def

section \<open>Fork checks\<close>

definition DAOForkBlockExtra :: bytes where
  "DAOForkBlockExtra = [0x64, 0x61, 0x6f, 0x2d, 0x68, 0x61, 0x72, 0x64, 0x2d, 0x66, 0x6f, 0x72, 0x6b]"

definition DAOForkExtraRange :: int where
  "DAOForkExtraRange = 10"

definition VerifyDAOHeaderExtraData :: "ChainConfig \<Rightarrow> int Header \<Rightarrow> consensus_error option" where
  "VerifyDAOHeaderExtraData config header =
     (case DAOForkBlock config of
        None \<Rightarrow> None
      | Some fork \<Rightarrow>
          (let limit = fork + DAOForkExtraRange
           in if h_Number header < fork \<or> h_Number header \<ge> limit then None
              else if DAOForkSupport config
              then (if h_Extra header \<noteq> DAOForkBlockExtra then Some ErrBadProDAOExtra else None)
              else (if h_Extra header = DAOForkBlockExtra then Some ErrBadNoDAOExtra else None)))"

definition VerifyForkHashes :: "keccak \<Rightarrow> ChainConfig \<Rightarrow> int Header \<Rightarrow> bool \<Rightarrow> consensus_error option" where
  "VerifyForkHashes keccak config header uncle =
     (if uncle then None
      else case EIP150Block config of
          None \<Rightarrow> None
        | Some b \<Rightarrow>
            (if b = h_Number header
             then (if EIP150Hash config \<noteq> 0 \<and> EIP150Hash config \<noteq> hash_of keccak header
                   then Some (ErrForkHash (hash_of keccak header) (EIP150Hash config)) else None)
             else None))"

section \<open>Headers\<close>

definition verifyHeader ::
  "pow_env \<Rightarrow> Ethash \<Rightarrow> ChainConfig \<Rightarrow> int Header \<Rightarrow> int Header \<Rightarrow> bool \<Rightarrow> bool \<Rightarrow> u64 \<Rightarrow> consensus_error option option" where
  "verifyHeader pe eng config header parent uncle seal now =
     (if length (h_Extra header) > MaximumExtraDataSize
      then Some (Some (ErrExtraTooLong (length (h_Extra header))))
      else if \<not> uncle \<and> h_Time header > now + allowedFutureBlockTimeSeconds
      then Some (Some ErrFutureBlock)
      else if h_Time header \<le> h_Time parent
      then Some (Some errOlderBlockTime)
      else let expected = CalcDifficulty (pe_keccak pe) config (h_Time header) parent
      in if expected \<noteq> h_Difficulty header
      then Some (Some (ErrWrongDifficulty (h_Difficulty header) expected))
      else if h_GasLimit header > 0x7fffffffffffffff
      then Some (Some (ErrGasLimitCap (h_GasLimit header)))
      else if h_GasUsed header > h_GasLimit header
      then Some (Some (ErrGasUsed (h_GasUsed header) (h_GasLimit header)))
      else let diff = h_GasLimit parent - h_GasLimit header;
               diff = (if sint diff < 0 then - diff else diff);
               limit = h_GasLimit parent div GasLimitBoundDivisor
      in if diff \<ge> limit \<or> h_GasLimit header < MinGasLimit
      then Some (Some (ErrGasLimitBounds (h_GasLimit header) (h_GasLimit parent) limit))
      else if h_Number header - h_Number parent \<noteq> 1
      then Some (Some ErrInvalidNumber)
      else case (if seal then verifySeal pe eng header False else Some None) of
        None \<Rightarrow> None
      | Some (Some err) \<Rightarrow> Some (Some err)
      | Some None \<Rightarrow>
          (case VerifyDAOHeaderExtraData config header of
             Some err \<Rightarrow> Some (Some err)
           | None \<Rightarrow> Some (VerifyForkHashes (pe_keccak pe) config header uncle)))"

definition VerifyHeader ::
  "pow_env \<Rightarrow> Ethash \<Rightarrow> 'tx chain_reader \<Rightarrow> int Header \<Rightarrow> bool \<Rightarrow> u64 \<Rightarrow> consensus_error option option" where
  "VerifyHeader pe eng chain header seal now =
     (if PowMode eng = ModeFullFake then Some None
      else let number = big_Uint64 (h_Number header)
      in if cr_GetHeader chain (hash_of (pe_keccak pe) header) number \<noteq> None then Some None
      else case cr_GetHeader chain (h_ParentHash header) (number - 1) of
             None \<Rightarrow> Some (Some ErrUnknownAncestor)
           | Some parent \<Rightarrow> verifyHeader pe eng (cr_Config chain) header parent False seal now)"

definition verifyHeaderWorker ::
  "pow_env \<Rightarrow> Ethash \<Rightarrow> 'tx chain_reader \<Rightarrow> int Header list \<Rightarrow> bool list \<Rightarrow> nat \<Rightarrow> u64
   \<Rightarrow> consensus_error option option" where
  "verifyHeaderWorker pe eng chain headers seals index now =
     (if length headers \<le> index then None
      else let parent =
        (if index = 0
         then cr_GetHeader chain (h_ParentHash (headers ! 0)) (big_Uint64 (h_Number (headers ! 0)) - 1)
         else if hash_of (pe_keccak pe) (headers ! (index - 1)) = h_ParentHash (headers ! index)
         then Some (headers ! (index - 1)) else None)
      in case parent of
           None \<Rightarrow> Some (Some ErrUnknownAncestor)
         | Some p \<Rightarrow>
             (if length seals \<le> index then None
              else verifyHeader pe eng (cr_Config chain) (headers ! index) p False (seals ! index) now))"

definition Prepare :: "pow_env \<Rightarrow> 'tx chain_reader \<Rightarrow> int Header \<Rightarrow> consensus_error + int Header" where
  "Prepare pe chain header =
     (case cr_GetHeader chain (h_ParentHash header) (big_Uint64 (h_Number header) - 1) of
        None \<Rightarrow> Inl ErrUnknownAncestor
      | Some parent \<Rightarrow>
          Inr (header\<lparr>h_Difficulty := CalcDifficulty (pe_keccak pe) (cr_Config chain) (h_Time header) parent\<rparr>))"

section \<open>Uncles\<close>

record 's mapset =
  ms_NewSet :: 's
  ms_Add :: "'s \<Rightarrow> hash \<Rightarrow> 's"
  ms_Contains :: "'s \<Rightarrow> hash \<Rightarrow> bool"

fun gather_ancestors ::
  "'s mapset \<Rightarrow> keccak \<Rightarrow> 'tx chain_reader \<Rightarrow> nat \<Rightarrow> hash \<Rightarrow> u64 \<Rightarrow> (hash \<rightharpoonup> int Header) \<Rightarrow> 's
   \<Rightarrow> (hash \<rightharpoonup> int Header) \<times> 's" where
  "gather_ancestors S keccak chain 0 parent number ancestors uncles = (ancestors, uncles)"
| "gather_ancestors S keccak chain (Suc i) parent number ancestors uncles =
     (case cr_GetBlock chain parent number of
        None \<Rightarrow> (ancestors, uncles)
      | Some ancestor \<Rightarrow>
          gather_ancestors S keccak chain i (h_ParentHash (b_header ancestor)) (number - 1)
            (ancestors(block_Hash keccak ancestor \<mapsto> CopyHeader (set_header (b_header ancestor))))
            (fold (\<lambda>u s. ms_Add S s (hash_of keccak u)) (b_uncles ancestor) uncles))"

fun check_uncles ::
  "'s mapset \<Rightarrow> pow_env \<Rightarrow> Ethash \<Rightarrow> ChainConfig \<Rightarrow> hash \<Rightarrow> u64 \<Rightarrow> (hash \<rightharpoonup> int Header) \<Rightarrow> int Header list \<Rightarrow> 's
   \<Rightarrow> consensus_error option option" where
  "check_uncles S pe eng config parentHash now ancestors [] uncles = Some None"
| "check_uncles S pe eng config parentHash now ancestors (uncle # us) uncles =
     (let h = hash_of (pe_keccak pe) uncle
      in if ms_Contains S uncles h then Some (Some errDuplicateUncle)
         else let uncles = ms_Add S uncles h
         in if ancestors h \<noteq> None then Some (Some errUncleIsAncestor)
         else case ancestors (h_ParentHash uncle) of
             None \<Rightarrow> Some (Some errDanglingUncle)
           | Some p \<Rightarrow>
               (if h_ParentHash uncle = parentHash then Some (Some errDanglingUncle)
                else case verifyHeader pe eng config uncle p True True now of
                    None \<Rightarrow> None
                  | Some (Some err) \<Rightarrow> Some (Some err)
                  | Some None \<Rightarrow> check_uncles S pe eng config parentHash now ancestors us uncles))"

definition VerifyUncles ::
  "'s mapset \<Rightarrow> pow_env \<Rightarrow> Ethash \<Rightarrow> 'tx chain_reader \<Rightarrow> 'tx Block \<Rightarrow> u64 \<Rightarrow> consensus_error option option" where
  "VerifyUncles S pe eng chain block now =
     (if PowMode eng = ModeFullFake then Some None
      else if length (b_uncles block) > maxUncles then Some (Some errTooManyUncles)
      else if length (b_uncles block) = 0 then Some None
      else let number = big_Uint64 (h_Number (b_header block)) - 1;
               parent = h_ParentHash (b_header block);
               (ancestors, uncles) =
                 gather_ancestors S (pe_keccak pe) chain 7 parent number Map.empty (ms_NewSet S);
               ancestors = ancestors(block_Hash (pe_keccak pe) block \<mapsto> CopyHeader (set_header (b_header block)));
               uncles = ms_Add S uncles (block_Hash (pe_keccak pe) block)
      in check_uncles S pe eng (cr_Config chain) (h_ParentHash (b_header block)) now ancestors
           (b_uncles block) uncles)"

section \<open>Accepted headers\<close>

lemma gas_limit_diff:
  assumes "uint (p :: u64) < 2 ^ 63" "uint h < 2 ^ 63"
  shows "uint (if sint (p - h) < 0 then - (p - h) else p - h) = \<bar>uint p - uint h\<bar>"
proof -
  have w: "p - h = word_of_int (uint p - uint h)" by simp
  have s: "sint (p - h) = uint p - uint h"
  proof -
    have "- (2 ^ 63) \<le> uint p - uint h" "uint p - uint h < 2 ^ 63"
      using assms uint_nonnegative [of p] uint_nonnegative [of h] by linarith+
    then show ?thesis unfolding w sint_sbintrunc' by (simp add: signed_take_bit_int_eq_self)
  qed
  show ?thesis
  proof (cases "uint p < uint h")
    case True
    then have "uint (h - p) = uint h - uint p" by (simp add: uint_sub_lem [symmetric])
    then show ?thesis using True s by simp
  next
    case False
    then have "uint (p - h) = uint p - uint h" by (simp add: uint_sub_lem [symmetric])
    then show ?thesis using False s by simp
  qed
qed

text \<open>The conditions on a header, in the order of the code, over unbounded integers.\<close>

definition header_valid ::
  "pow_env \<Rightarrow> Ethash \<Rightarrow> ChainConfig \<Rightarrow> int Header \<Rightarrow> int Header \<Rightarrow> bool \<Rightarrow> bool \<Rightarrow> u64 \<Rightarrow> bool" where
  "header_valid pe eng config header parent uncle seal now =
     (length (h_Extra header) \<le> 32
      \<and> (uncle \<or> h_Time header \<le> now + 15)
      \<and> uint (h_Time parent) < uint (h_Time header)
      \<and> h_Difficulty header = CalcDifficulty (pe_keccak pe) config (h_Time header) parent
      \<and> uint (h_GasLimit header) < 2 ^ 63
      \<and> uint (h_GasUsed header) \<le> uint (h_GasLimit header)
      \<and> \<bar>uint (h_GasLimit parent) - uint (h_GasLimit header)\<bar> < uint (h_GasLimit parent) div 1024
      \<and> 5000 \<le> uint (h_GasLimit header)
      \<and> h_Number header = h_Number parent + 1
      \<and> (seal \<longrightarrow> verifySeal pe eng header False = Some None)
      \<and> VerifyDAOHeaderExtraData config header = None
      \<and> VerifyForkHashes (pe_keccak pe) config header uncle = None)"

lemma verifyHeader_accepts:
  assumes "uint (h_GasLimit parent) < 2 ^ 63"
  shows "verifyHeader pe eng config header parent uncle seal now = Some None
    \<longleftrightarrow> header_valid pe eng config header parent uncle seal now"
proof (cases "uint (h_GasLimit header) < 2 ^ 63")
  case True
  define diff where "diff = (if sint (h_GasLimit parent - h_GasLimit header) < 0
      then - (h_GasLimit parent - h_GasLimit header) else h_GasLimit parent - h_GasLimit header)"
  have d: "uint diff = \<bar>uint (h_GasLimit parent) - uint (h_GasLimit header)\<bar>"
    unfolding diff_def by (rule gas_limit_diff [OF assms True])
  have "\<not> h_GasLimit header > 0x7fffffffffffffff" using True by (simp add: word_less_def)
  moreover have "(diff \<ge> h_GasLimit parent div GasLimitBoundDivisor) =
      (uint (h_GasLimit parent) div 1024 \<le> uint diff)"
    by (simp add: word_le_def uint_div GasLimitBoundDivisor_def)
  moreover have "(h_GasLimit header < MinGasLimit) = (uint (h_GasLimit header) < 5000)"
    "(h_GasUsed header > h_GasLimit header) = (uint (h_GasLimit header) < uint (h_GasUsed header))"
    by (simp_all add: word_less_def MinGasLimit_def)
  moreover have "(h_Number header - h_Number parent \<noteq> 1) = (h_Number header \<noteq> h_Number parent + 1)" by auto
  ultimately show ?thesis
    unfolding verifyHeader_def Let_def diff_def [symmetric] header_valid_def
    using True d
    by (auto simp: MaximumExtraDataSize_def allowedFutureBlockTimeSeconds_def not_less not_le word_le_def
        word_less_def split: option.splits if_splits)
next
  case False
  then have "h_GasLimit header > 0x7fffffffffffffff" by (simp add: word_less_def)
  then show ?thesis using False by (auto simp: verifyHeader_def header_valid_def Let_def)
qed

section \<open>Accepted uncles\<close>

text \<open>The contract of the set package, and an instance.\<close>

locale hash_set =
  fixes S :: "'s mapset"
  assumes Contains_NewSet: "\<not> ms_Contains S (ms_NewSet S) x"
    and Contains_Add: "ms_Contains S (ms_Add S s x) y \<longleftrightarrow> y = x \<or> ms_Contains S s y"
begin

lemma Contains_fold:
  "ms_Contains S (fold (\<lambda>u s. ms_Add S s (f u)) us s) y \<longleftrightarrow> y \<in> f ` set us \<or> ms_Contains S s y"
  by (induction us arbitrary: s) (auto simp: Contains_Add)

end

definition list_mapset :: "hash list mapset" where
  "list_mapset = \<lparr>ms_NewSet = [], ms_Add = (\<lambda>s x. x # s), ms_Contains = (\<lambda>s x. x \<in> set s)\<rparr>"

interpretation list_mapset: hash_set list_mapset
  by unfold_locales (simp_all add: list_mapset_def)

text \<open>
  A reader that answers with blocks of the hash and the number asked for, all numbers below 2 to the 63.
\<close>

definition reader_ok :: "keccak \<Rightarrow> 'tx chain_reader \<Rightarrow> bool" where
  "reader_ok keccak chain =
     (\<forall>h n b. cr_GetBlock chain h n = Some b \<longrightarrow>
        block_Hash keccak b = h \<and> h_Number (b_header b) = uint n \<and> uint n < 2 ^ 63)"

text \<open>The ancestors that the loop visits, the parent of the block first.\<close>

fun ancestor_path :: "'tx chain_reader \<Rightarrow> nat \<Rightarrow> hash \<Rightarrow> u64 \<Rightarrow> 'tx Block list" where
  "ancestor_path chain 0 parent number = []"
| "ancestor_path chain (Suc i) parent number =
     (case cr_GetBlock chain parent number of
        None \<Rightarrow> []
      | Some b \<Rightarrow> b # ancestor_path chain i (h_ParentHash (b_header b)) (number - 1))"

lemma length_ancestor_path: "length (ancestor_path chain i parent number) \<le> i"
  by (induction chain i parent number rule: ancestor_path.induct) (auto split: option.splits)

lemma ancestor_path_wrapped:
  assumes "reader_ok keccak chain" "2 ^ 63 \<le> uint n"
  shows "ancestor_path chain i parent n = []"
proof (cases i)
  case (Suc j)
  have "cr_GetBlock chain parent n = None"
    using assms by (cases "cr_GetBlock chain parent n") (fastforce simp: reader_ok_def)+
  then show ?thesis using Suc by simp
qed simp

lemma ancestor_path_numbers:
  assumes "reader_ok keccak chain"
  shows "k < length (ancestor_path chain i parent n) \<Longrightarrow>
    h_Number (b_header (ancestor_path chain i parent n ! k)) = uint n - int k"
proof (induction i arbitrary: parent n k)
  case (Suc i)
  then obtain b where b: "cr_GetBlock chain parent n = Some b" by (auto split: option.splits)
  show ?case
  proof (cases k)
    case 0
    then show ?thesis using b assms by (auto simp: reader_ok_def)
  next
    case (Suc j)
    then have j: "j < length (ancestor_path chain i (h_ParentHash (b_header b)) (n - 1))"
      using Suc.prems b by simp
    have "n \<noteq> 0"
    proof
      assume "n = 0"
      then have "2 ^ 63 \<le> uint (n - 1)" by (simp add: unsigned_minus_1_eq_mask mask_eq_exp_minus_1)
      then show False using ancestor_path_wrapped [OF assms, of "n - 1"] j by simp
    qed
    then have "uint (n - 1) = uint n - 1"
      using uint_minus_one [of n] uint_nonnegative [of n] by (metis order_less_le uint_0_iff)
    then show ?thesis using Suc.IH [OF j] b Suc by simp
  qed
qed simp

context hash_set
begin

lemma gather_spec:
  assumes "gather_ancestors S keccak chain i parent n anc unc = (anc', unc')"
  shows "(anc' h \<noteq> None) \<longleftrightarrow> (anc h \<noteq> None \<or> h \<in> block_Hash keccak ` set (ancestor_path chain i parent n))"
    and "anc' h = Some x \<Longrightarrow> anc h = Some x
      \<or> (\<exists>b \<in> set (ancestor_path chain i parent n). block_Hash keccak b = h \<and> b_header b = x)"
    and "ms_Contains S unc' h \<longleftrightarrow> ms_Contains S unc h
      \<or> (\<exists>b \<in> set (ancestor_path chain i parent n). h \<in> hash_of keccak ` set (b_uncles b))"
  using assms
proof (induction i arbitrary: parent n anc unc)
  case 0
  {
    case 1 then show ?case by simp
  next
    case 2 then show ?case by simp
  next
    case 3 then show ?case by simp
  }
next
  case (Suc i)
  show "(anc' h \<noteq> None) \<longleftrightarrow> (anc h \<noteq> None \<or> h \<in> block_Hash keccak ` set (ancestor_path chain (Suc i) parent n))"
    if "gather_ancestors S keccak chain (Suc i) parent n anc unc = (anc', unc')" for parent n anc unc
    using that Suc(1) by (auto split: option.splits if_splits)
  show "anc h = Some x \<or> (\<exists>b \<in> set (ancestor_path chain (Suc i) parent n). block_Hash keccak b = h \<and> b_header b = x)"
    if "anc' h = Some x" "gather_ancestors S keccak chain (Suc i) parent n anc unc = (anc', unc')" for parent n anc unc
    using that Suc(2) by (fastforce split: option.splits if_splits)
  show "ms_Contains S unc' h \<longleftrightarrow> ms_Contains S unc h
      \<or> (\<exists>b \<in> set (ancestor_path chain (Suc i) parent n). h \<in> hash_of keccak ` set (b_uncles b))"
    if "gather_ancestors S keccak chain (Suc i) parent n anc unc = (anc', unc')" for parent n anc unc
    using that Suc(3) by (auto simp: Contains_fold split: option.splits)
qed

lemma check_uncles_sound:
  assumes "check_uncles S pe eng config parentHash now ancestors us seen = Some None"
  shows "distinct (map (hash_of (pe_keccak pe)) us)
    \<and> (\<forall>u \<in> set us. \<not> ms_Contains S seen (hash_of (pe_keccak pe) u)
        \<and> ancestors (hash_of (pe_keccak pe) u) = None \<and> h_ParentHash u \<noteq> parentHash
        \<and> (\<exists>p. ancestors (h_ParentHash u) = Some p
             \<and> verifyHeader pe eng config u p True True now = Some None))"
  using assms
proof (induction us arbitrary: seen)
  case (Cons u us)
  let ?h = "hash_of (pe_keccak pe) u"
  obtain p where p: "\<not> ms_Contains S seen ?h" "ancestors ?h = None" "ancestors (h_ParentHash u) = Some p"
    "h_ParentHash u \<noteq> parentHash" "verifyHeader pe eng config u p True True now = Some None"
    "check_uncles S pe eng config parentHash now ancestors us (ms_Add S seen ?h) = Some None"
    using Cons.prems by (auto simp: Let_def split: if_splits option.splits)
  show ?case using Cons.IH [OF p(6)] p by (auto simp: Contains_Add)
qed simp

lemma VerifyUncles_accepted:
  assumes "VerifyUncles S pe eng chain block now = Some None" "PowMode eng \<noteq> ModeFullFake"
  defines "K \<equiv> pe_keccak pe"
  defines "path \<equiv> ancestor_path chain 7 (h_ParentHash (b_header block)) (big_Uint64 (h_Number (b_header block)) - 1)"
  shows "length (b_uncles block) \<le> 2 \<and> distinct (map (hash_of K) (b_uncles block))
    \<and> (\<forall>u \<in> set (b_uncles block).
        hash_of K u \<noteq> block_Hash K block
        \<and> hash_of K u \<notin> block_Hash K ` set path
        \<and> (\<forall>b \<in> set path. hash_of K u \<notin> hash_of K ` set (b_uncles b))
        \<and> h_ParentHash u \<noteq> h_ParentHash (b_header block)
        \<and> (\<exists>p. (h_ParentHash u = block_Hash K block \<and> p = b_header block
               \<or> (\<exists>b \<in> set path. h_ParentHash u = block_Hash K b \<and> p = b_header b))
             \<and> verifyHeader pe eng (cr_Config chain) u p True True now = Some None))"
proof (cases "b_uncles block = []")
  case False
  obtain anc unc where g: "gather_ancestors S K chain 7 (h_ParentHash (b_header block))
      (big_Uint64 (h_Number (b_header block)) - 1) Map.empty (ms_NewSet S) = (anc, unc)" by (rule prod.exhaust)
  note gs = gather_spec [OF g, folded path_def]
  have len: "length (b_uncles block) \<le> 2" and
    chk: "check_uncles S pe eng (cr_Config chain) (h_ParentHash (b_header block)) now
      (anc(block_Hash K block \<mapsto> b_header block)) (b_uncles block) (ms_Add S unc (block_Hash K block)) = Some None"
    using assms(1,2) False g by (simp_all add: VerifyUncles_def Let_def K_def maxUncles_def split: if_splits)
  note c = check_uncles_sound [OF chk, folded K_def]
  have "hash_of K u \<noteq> block_Hash K block
        \<and> hash_of K u \<notin> block_Hash K ` set path
        \<and> (\<forall>b \<in> set path. hash_of K u \<notin> hash_of K ` set (b_uncles b))
        \<and> h_ParentHash u \<noteq> h_ParentHash (b_header block)
        \<and> (\<exists>p. (h_ParentHash u = block_Hash K block \<and> p = b_header block
               \<or> (\<exists>b \<in> set path. h_ParentHash u = block_Hash K b \<and> p = b_header b))
             \<and> verifyHeader pe eng (cr_Config chain) u p True True now = Some None)"
    if "u \<in> set (b_uncles block)" for u
  proof -
    note cu = bspec [OF conjunct2 [OF c] that]
    have *: "\<not> ms_Contains S (ms_Add S unc (block_Hash K block)) (hash_of K u)"
      "(anc(block_Hash K block \<mapsto> b_header block)) (hash_of K u) = None"
      "h_ParentHash u \<noteq> h_ParentHash (b_header block)"
      using cu by blast+
    obtain p where p: "(anc(block_Hash K block \<mapsto> b_header block)) (h_ParentHash u) = Some p"
      "verifyHeader pe eng (cr_Config chain) u p True True now = Some None"
      using cu by (elim conjE exE)
    have "h_ParentHash u = block_Hash K block \<and> p = b_header block
        \<or> (\<exists>b \<in> set path. h_ParentHash u = block_Hash K b \<and> p = b_header b)"
    proof (cases "h_ParentHash u = block_Hash K block")
      case False
      then have "anc (h_ParentHash u) = Some p" using p(1) by simp
      from gs(2) [OF this] show ?thesis by fastforce
    qed (use p(1) in simp)
    moreover have "hash_of K u \<noteq> block_Hash K block" "anc (hash_of K u) = None"
      using *(2) by (auto split: if_splits)
    moreover have "hash_of K u \<notin> block_Hash K ` set path"
      using gs(1) [of "hash_of K u"] \<open>anc (hash_of K u) = None\<close> by simp
    moreover have "\<forall>b \<in> set path. hash_of K u \<notin> hash_of K ` set (b_uncles b)"
      using gs(3) [of "hash_of K u"] *(1) by (simp add: Contains_Add)
    ultimately show ?thesis using *(3) p(2) by blast
  qed
  then show ?thesis using len conjunct1 [OF c] by simp
qed simp

end

lemma verifyHeader_number:
  "verifyHeader pe eng config header parent uncle seal now = Some None \<Longrightarrow> h_Number header = h_Number parent + 1"
  by (auto simp: verifyHeader_def Let_def split: if_splits)

lemma seven_Suc: "(7 :: nat) = Suc (Suc (Suc (Suc (Suc (Suc (Suc 0))))))"
  by simp

section \<open>A small chain\<close>

text \<open>
  For concrete inputs: a hash function that reads the timestamp out of an encoded header, a configuration
  without forks, and a chain of a genesis block, a block, and a second block with one uncle.
\<close>

definition time_hash :: keccak where
  "time_hash e =
     (case DecodeBytes e header_type of
        Some (Inr (VPtr (VStruct vs))) \<Rightarrow> (case vs ! 11 of VUint t \<Rightarrow> ucast t | _ \<Rightarrow> 0)
      | _ \<Rightarrow> 0)"

lemma header_Hash_time:
  assumes "header_SanityCheck (set_header h) = None" "0 \<le> h_Difficulty h" "length (h_Nonce h) = 8"
  shows "hash_of time_hash h = ucast (h_Time h)"
proof -
  have d: "0 \<le> h_Difficulty (CopyHeader (set_header h))" "length (h_Nonce (set_header h)) = 8"
    using assms(2,3) by simp (simp add: set_header_def assms(3))
  obtain e where e: "enc_ref (header_val (set_header h)) = Inr e" "length e < 2 ^ 21"
    using header_encoding [OF assms(1) d] by blast
  then have "hash_of time_hash h = time_hash e"
    using rlpHash_enc [OF e(1)] by (simp add: header_Hash_def)
  moreover have "DecodeBytes e header_type = Some (Inr (header_val (set_header h)))"
    using header_decoded [OF assms(1) d e(1)] by simp
  ultimately show ?thesis by (simp add: time_hash_def header_val_def header_fields_def set_header_def)
qed

definition time_header :: "u64 \<Rightarrow> int \<Rightarrow> u64 \<Rightarrow> int \<Rightarrow> int Header" where
  "time_header t n p d =
     zero_header\<lparr>h_Time := t, h_Number := n, h_ParentHash := ucast p, h_Difficulty := d\<rparr>"

lemma time_header_Hash:
  assumes "0 \<le> n" "n < 2 ^ 64" "0 \<le> d" "d < 2 ^ 80"
  shows "hash_of time_hash (time_header t n p d) = ucast t"
proof -
  have "bit_len (nat d) \<le> 80" using assms(3,4) by (simp add: bit_len_le nat_less_iff)
  then have "header_SanityCheck (set_header (time_header t n p d)) = None"
    using assms by (simp add: header_SanityCheck_def set_header_def time_header_def zero_header_def Let_def)
  moreover have "0 \<le> h_Difficulty (time_header t n p d)" "length (h_Nonce (time_header t n p d)) = 8"
    using assms by (simp_all add: time_header_def zero_header_def)
  ultimately have "hash_of time_hash (time_header t n p d) = ucast (h_Time (time_header t n p d))" by (rule header_Hash_time)
  then show ?thesis by (simp add: time_header_def)
qed

lemma time_header_sel [simp]:
  "h_ParentHash (time_header t n p d) = ucast p" "h_Number (time_header t n p d) = n"
  "h_Time (time_header t n p d) = t" "h_Difficulty (time_header t n p d) = d"
  by (simp_all add: time_header_def)

definition no_forks :: ChainConfig where
  "no_forks = MainnetChainConfig\<lparr>HomesteadBlock := None, EIP150Block := None, ByzantiumBlock := None,
     ConstantinopleBlock := None, MuirGlacierBlock := None, DAOForkBlock := None\<rparr>"

definition time_env :: pow_env where
  "time_env = tiny_env\<lparr>pe_keccak := time_hash\<rparr>"

abbreviation genesis_b :: "unit Block" where
  "genesis_b \<equiv> \<lparr>b_header = time_header 10 0 0 131072, b_uncles = [], b_transactions = []\<rparr>"

abbreviation first_b :: "unit Block" where
  "first_b \<equiv> \<lparr>b_header = time_header 12 1 10 131328, b_uncles = [], b_transactions = []\<rparr>"

abbreviation uncle_h :: "int Header" where
  "uncle_h \<equiv> time_header 13 1 10 131328"

abbreviation second_b :: "unit Block" where
  "second_b \<equiv> \<lparr>b_header = time_header 20 2 12 131584, b_uncles = [uncle_h], b_transactions = []\<rparr>"

definition small_chain :: "unit chain_reader" where
  "small_chain =
     \<lparr>cr_Config = no_forks,
      cr_GetHeader = (\<lambda>h n. if h = 10 \<and> n = 0 then Some (b_header genesis_b) else None),
      cr_GetBlock = (\<lambda>h n. if h = 12 \<and> n = 1 then Some first_b
                          else if h = 10 \<and> n = 0 then Some genesis_b else None)\<rparr>"

lemmas small_chain_hashes =
  time_header_Hash [of 0 131072 10 0] time_header_Hash [of 1 131328 12 10]
  time_header_Hash [of 1 131328 13 10] time_header_Hash [of 2 131584 20 12]

lemma small_chain_ok: "reader_ok time_hash small_chain"
  using small_chain_hashes
  by (auto simp: reader_ok_def small_chain_def block_Hash_def)

lemma uncle_valid: "header_valid time_env NewFaker no_forks uncle_h (b_header genesis_b) True True 0"
  by (simp add: header_valid_def time_header_def zero_header_def CalcDifficulty_def no_forks_def
      MainnetChainConfig_def IsMuirGlacier_def IsConstantinople_def IsByzantium_def IsHomestead_def isForked_def
      calcDifficultyFrontier_def difficulty_consts VerifyDAOHeaderExtraData_def VerifyForkHashes_def NewFaker_def
      big_Uint64_def)

section \<open>Properties\<close>

text \<open>
  C31. A header is accepted exactly when its extra data is short, its timestamp lies after the parent's and
  not in the future, its difficulty is the one the rules compute, its gas limit is at least 5000, below
  2 to the 63 and within a 1024th of the parent's, its gas used is within the limit, its number follows,
  its seal is valid and the fork rules hold.
\<close>

theorem verifyHeader_iff_valid:
  assumes "uint (h_GasLimit parent) < 2 ^ 63"
  shows "verifyHeader pe eng config header parent uncle seal now = Some None
    \<longleftrightarrow> header_valid pe eng config header parent uncle seal now"
  by (rule verifyHeader_accepts [OF assms])

theorem verifyHeader_iff_valid_witness:
  "verifyHeader time_env NewFaker no_forks uncle_h (b_header genesis_b) True True 0 = Some None"
  using verifyHeader_iff_valid [of "b_header genesis_b" time_env NewFaker no_forks uncle_h True True 0] uncle_valid
  by (simp add: time_header_def zero_header_def)

text \<open>
  C32. If \<^verbatim>\<open>VerifyUncles\<close> accepts a block, it has at most two uncles, with different hashes; none of
  them is the block, one of its seven nearest ancestors or an uncle that one of these has already been
  rewarded for; and every uncle (unless it claims the block itself as its parent) is a valid child of an
  ancestor two to seven generations back, so that its reward is between two and seven eighths of the block reward.
\<close>

theorem VerifyUncles_sound:
  assumes "hash_set S" "reader_ok (pe_keccak pe) chain" "PowMode eng \<noteq> ModeFullFake"
    and "0 < h_Number (b_header block)" "h_Number (b_header block) < 2 ^ 63"
    and "VerifyUncles S pe eng chain block now = Some None"
  defines "path \<equiv> ancestor_path chain 7 (h_ParentHash (b_header block)) (big_Uint64 (h_Number (b_header block)) - 1)"
  shows "length (b_uncles block) \<le> 2 \<and> distinct (map (hash_of (pe_keccak pe)) (b_uncles block))
    \<and> (\<forall>u \<in> set (b_uncles block).
        hash_of (pe_keccak pe) u \<noteq> block_Hash (pe_keccak pe) block
        \<and> hash_of (pe_keccak pe) u \<notin> block_Hash (pe_keccak pe) ` set path
        \<and> (\<forall>b \<in> set path. hash_of (pe_keccak pe) u \<notin> hash_of (pe_keccak pe) ` set (b_uncles b))
        \<and> (h_ParentHash u = block_Hash (pe_keccak pe) block
           \<or> (\<exists>b \<in> set path. h_ParentHash u = block_Hash (pe_keccak pe) b
               \<and> verifyHeader pe eng (cr_Config chain) u (b_header b) True True now = Some None
               \<and> 2 \<le> h_Number u + 8 - h_Number (b_header block)
               \<and> h_Number u + 8 - h_Number (b_header block) \<le> 7)))"
proof -
  note acc = hash_set.VerifyUncles_accepted [OF assms(1,6,3), folded path_def]
  have un: "uint (big_Uint64 (h_Number (b_header block)) - 1) = h_Number (b_header block) - 1"
    using assms(4,5) by (simp add: uint_minus_one)
  have "2 \<le> h_Number u + 8 - h_Number (b_header block) \<and> h_Number u + 8 - h_Number (b_header block) \<le> 7"
    if b: "b \<in> set path" "h_ParentHash u = block_Hash (pe_keccak pe) b" "h_ParentHash u \<noteq> h_ParentHash (b_header block)"
      "verifyHeader pe eng (cr_Config chain) u (b_header b) True True now = Some None" for u b
  proof -
    obtain k where k: "k < length path" "path ! k = b" using b(1) by (auto simp: in_set_conv_nth)
    have "h_Number (b_header b) = h_Number (b_header block) - 1 - int k"
      using ancestor_path_numbers [OF assms(2)] k un unfolding path_def by auto
    moreover have "length path \<le> 7" unfolding path_def by (rule length_ancestor_path)
    moreover have "k \<noteq> 0"
    proof
      assume "k = 0"
      then have "cr_GetBlock chain (h_ParentHash (b_header block)) (big_Uint64 (h_Number (b_header block)) - 1) = Some b"
        using k unfolding path_def seven_Suc by (simp split: option.splits)
      then show False using b(2,3) assms(2) by (auto simp: reader_ok_def)
    qed
    ultimately show ?thesis using verifyHeader_number [OF b(4)] k(1) by linarith
  qed
  then show ?thesis using acc by blast
qed

lemma small_chain_path: "ancestor_path small_chain 7 12 1 = [first_b, genesis_b]"
  unfolding seven_Suc by (simp add: small_chain_def time_header_def)

theorem VerifyUncles_sound_witness:
  "VerifyUncles list_mapset time_env NewFaker small_chain second_b 0 = Some None
   \<and> hash_of time_hash uncle_h \<notin> block_Hash time_hash ` {first_b, genesis_b}
   \<and> 2 \<le> h_Number uncle_h + 8 - h_Number (b_header second_b)"
proof -
  have n: "big_Uint64 2 = 2" by (simp add: big_Uint64_def)
  have K: "pe_keccak time_env = time_hash" by (simp add: time_env_def)
  have u: "verifyHeader time_env NewFaker no_forks uncle_h (b_header genesis_b) True True 0 = Some None"
    using verifyHeader_accepts [of "b_header genesis_b" time_env NewFaker no_forks uncle_h True True 0] uncle_valid
    by (simp add: time_header_def zero_header_def)
  have ok: "VerifyUncles list_mapset time_env NewFaker small_chain second_b 0 = Some None"
    using u small_chain_hashes
    unfolding VerifyUncles_def seven_Suc
    by (simp add: n K maxUncles_def NewFaker_def small_chain_def list_mapset_def Let_def block_Hash_def)
  have "hash_set list_mapset" by (rule list_mapset.hash_set_axioms)
  from VerifyUncles_sound [OF this _ _ _ _ ok] have "hash_of time_hash uncle_h
      \<notin> block_Hash time_hash ` set (ancestor_path small_chain 7 12 1)
    \<and> (h_ParentHash uncle_h = block_Hash time_hash second_b \<or> 2 \<le> h_Number uncle_h + 8 - h_Number (b_header second_b))"
    using small_chain_ok by (simp add: n K NewFaker_def)
  then show ?thesis using ok small_chain_hashes by (simp add: small_chain_path block_Hash_def)
qed

end
