(* ===== verification/Ethash_Batch.thy ===== *)
theory Ethash_Batch
  imports Ethash_Verify
begin

text \<open>
  \<^verbatim>\<open>VerifyHeaders\<close> of \<^verbatim>\<open>consensus/ethash/consensus.go\<close>: a batch of headers verified by concurrent
  workers whose results are delivered in order. The state holds the two channels, the indices the workers
  are busy with and the variables of the collecting goroutine; a step is one communication or the end of
  one verification. The workers' verification is \<^verbatim>\<open>verifyHeaderWorker\<close>; the number of threads
  (\<^verbatim>\<open>GOMAXPROCS\<close>) is an argument. A worker that has finished while the channel \<^verbatim>\<open>done\<close> is full waits:
  it counts as busy until it has sent its index.

  The lemmas show, for every interleaving, that the results come out in the order of the headers and are
  the verdicts of the worker, that the collector never reads past the end, that no state is stuck, and that
  every run ends; and what it means for the headers that all verdicts are \<^verbatim>\<open>nil\<close>.
\<close>

section \<open>The state machine\<close>

datatype status = Running | Finished | Aborted | Panicked

record batch =
  bt_in :: nat
  bt_busy :: "nat list"
  bt_done :: "nat list"
  bt_errors :: "nat \<Rightarrow> consensus_error option"
  bt_checked :: "nat \<Rightarrow> bool"
  bt_out :: nat
  bt_results :: "consensus_error option list"
  bt_status :: status

text \<open>The loop that forwards finished results; an index past the end is a panic.\<close>

function drain ::
  "nat \<Rightarrow> (nat \<Rightarrow> consensus_error option) \<Rightarrow> (nat \<Rightarrow> bool) \<Rightarrow> nat \<Rightarrow> consensus_error option list
   \<Rightarrow> nat \<times> consensus_error option list \<times> status" where
  "drain n errors checked out results =
     (if n \<le> out then (out, results, Panicked)
      else if checked out
      then (let results = results @ [errors out]
            in if out = n - 1 then (out, results, Finished)
               else drain n errors checked (out + 1) results)
      else (out, results, Running))"
  by pat_completeness auto
termination
  by (relation "measure (\<lambda>(n, e, c, out, r). n - out)") auto

declare drain.simps [simp del]

inductive batch_step ::
  "nat \<Rightarrow> nat \<Rightarrow> (nat \<Rightarrow> consensus_error option option) \<Rightarrow> batch \<Rightarrow> batch \<Rightarrow> bool"
  for n workers verify where
  send: "bt_status s = Running \<Longrightarrow> bt_in s < n \<Longrightarrow> length (bt_busy s) < workers \<Longrightarrow>
    batch_step n workers verify s (s\<lparr>bt_in := bt_in s + 1, bt_busy := bt_busy s @ [bt_in s]\<rparr>)"
| work: "i \<in> set (bt_busy s) \<Longrightarrow> verify i = Some e \<Longrightarrow> length (bt_done s) < workers \<Longrightarrow>
    batch_step n workers verify s
      (s\<lparr>bt_busy := remove1 i (bt_busy s), bt_errors := (bt_errors s)(i := e), bt_done := bt_done s @ [i]\<rparr>)"
| receive: "bt_status s = Running \<Longrightarrow> bt_done s = i # rest \<Longrightarrow>
    drain n (bt_errors s) ((bt_checked s)(i := True)) (bt_out s) (bt_results s) = (out, results, st) \<Longrightarrow>
    batch_step n workers verify s
      (s\<lparr>bt_done := rest, bt_checked := (bt_checked s)(i := True), bt_out := out, bt_results := results,
         bt_status := st\<rparr>)"

text \<open>The caller may close the abort channel at any time.\<close>

inductive batch_run ::
  "nat \<Rightarrow> nat \<Rightarrow> (nat \<Rightarrow> consensus_error option option) \<Rightarrow> batch \<Rightarrow> batch \<Rightarrow> bool"
  for n workers verify s where
  start: "batch_run n workers verify s s"
| step: "batch_run n workers verify s t \<Longrightarrow> batch_step n workers verify t u \<Longrightarrow> batch_run n workers verify s u"
| abort: "batch_run n workers verify s t \<Longrightarrow> bt_status t = Running \<Longrightarrow>
    batch_run n workers verify s (t\<lparr>bt_status := Aborted\<rparr>)"

inductive_cases batch_stepE: "batch_step n workers verify s t"

definition batch_start :: batch where
  "batch_start = \<lparr>bt_in = 0, bt_busy = [], bt_done = [], bt_errors = (\<lambda>_. None), bt_checked = (\<lambda>_. False),
     bt_out = 0, bt_results = [], bt_status = Running\<rparr>"

definition VerifyHeaders_workers :: "nat \<Rightarrow> int Header list \<Rightarrow> nat" where
  "VerifyHeaders_workers gomaxprocs headers = min gomaxprocs (length headers)"

definition VerifyHeaders_start :: "Ethash \<Rightarrow> int Header list \<Rightarrow> batch" where
  "VerifyHeaders_start eng headers =
     (if PowMode eng = ModeFullFake \<or> length headers = 0
      then batch_start\<lparr>bt_results := replicate (length headers) None, bt_status := Finished\<rparr>
      else batch_start)"

text \<open>A state that the batch can be in.\<close>

definition VerifyHeaders_reaches ::
  "pow_env \<Rightarrow> Ethash \<Rightarrow> 'tx chain_reader \<Rightarrow> nat \<Rightarrow> int Header list \<Rightarrow> bool list \<Rightarrow> u64 \<Rightarrow> batch \<Rightarrow> bool" where
  "VerifyHeaders_reaches pe eng chain gomaxprocs headers seals now s =
     batch_run (length headers) (VerifyHeaders_workers gomaxprocs headers)
       (\<lambda>i. verifyHeaderWorker pe eng chain headers seals i now) (VerifyHeaders_start eng headers) s"

section \<open>The invariant\<close>

definition batch_inv :: "nat \<Rightarrow> (nat \<Rightarrow> consensus_error option option) \<Rightarrow> batch \<Rightarrow> bool" where
  "batch_inv n verify s =
     (bt_in s \<le> n
      \<and> distinct (bt_busy s @ bt_done s)
      \<and> (\<forall>i. i < bt_in s \<longleftrightarrow> i \<in> set (bt_busy s) \<or> i \<in> set (bt_done s) \<or> bt_checked s i)
      \<and> (\<forall>i. bt_checked s i \<longrightarrow> i \<notin> set (bt_busy s) \<and> i \<notin> set (bt_done s))
      \<and> (\<forall>i. i \<in> set (bt_done s) \<or> bt_checked s i \<longrightarrow> verify i = Some (bt_errors s i))
      \<and> bt_status s \<noteq> Panicked
      \<and> (\<forall>i < length (bt_results s). bt_checked s i \<and> bt_results s ! i = bt_errors s i)
      \<and> (bt_status s = Running \<longrightarrow> bt_out s = length (bt_results s) \<and> \<not> bt_checked s (bt_out s) \<and> bt_out s < n)
      \<and> (bt_status s = Finished \<longrightarrow> length (bt_results s) = n))"

lemma drain_spec:
  assumes "drain n errors checked out results = (out', results', st)"
    and "out < n" "length results = out" "\<forall>i < out. checked i \<and> results ! i = errors i"
  shows "(\<forall>i < length results'. checked i \<and> results' ! i = errors i)
    \<and> (st = Running \<and> out' = length results' \<and> \<not> checked out' \<and> out' < n \<or> st = Finished \<and> length results' = n)"
  using assms
proof (induction n errors checked out results rule: drain.induct)
  case (1 n errors checked out results)
  note d = 1(2) [unfolded drain.simps [of n errors checked out results]]
  show ?case
  proof (cases "checked out")
    case False
    then show ?thesis using d 1(3-) by auto
  next
    case True
    let ?r = "results @ [errors out]"
    have all: "\<forall>i < Suc out. checked i \<and> ?r ! i = errors i"
      using 1(4,5) True by (auto simp: less_Suc_eq nth_append)
    show ?thesis
    proof (cases "out = n - 1")
      case True
      then have "st = Finished" "results' = ?r" using d 1(3) \<open>checked out\<close> by (auto simp: Let_def)
      then show ?thesis using all 1(3,4) True by simp
    next
      case False
      then have dr: "drain n errors checked (out + 1) ?r = (out', results', st)"
        using d 1(3) \<open>checked out\<close> by (simp add: Let_def)
      show ?thesis
      proof (rule 1(1) [OF _ True refl False dr])
        show "out + 1 < n" "\<not> n \<le> out" using False 1(3) by linarith+
      qed (use 1(4) all in simp_all)
    qed
  qed
qed

lemma batch_inv_step:
  assumes "batch_step n workers verify s t" "batch_inv n verify s"
  shows "batch_inv n verify t"
  using assms(1)
proof (cases rule: batch_step.cases)
  case send
  then show ?thesis using assms(2) by (auto simp: batch_inv_def less_Suc_eq)
next
  case (work i e)
  have c: "\<not> bt_checked s i" "i \<notin> set (bt_done s)" "distinct (bt_busy s)"
    using work assms(2) by (auto simp: batch_inv_def)
  then show ?thesis using assms(2) work unfolding batch_inv_def by auto
next
  case (receive i rest out results st)
  define c where "c = (bt_checked s)(i := True)"
  note t = receive(1) [folded c_def]
  have i: "\<not> bt_checked s i" "i \<notin> set (bt_busy s)" "i \<notin> set rest" "verify i = Some (bt_errors s i)"
    using receive assms(2) by (auto simp: batch_inv_def)
  have out: "bt_out s < n" "length (bt_results s) = bt_out s"
    "\<forall>j < bt_out s. c j \<and> bt_results s ! j = bt_errors s j"
    using receive assms(2) unfolding batch_inv_def c_def by auto
  note ds = drain_spec [OF receive(4) [folded c_def] out]
  have inv: "bt_in s \<le> n" "distinct (bt_busy s @ i # rest)"
    "\<forall>j. j < bt_in s \<longleftrightarrow> j \<in> set (bt_busy s) \<or> j \<in> set (i # rest) \<or> bt_checked s j"
    "\<forall>j. bt_checked s j \<longrightarrow> j \<notin> set (bt_busy s) \<and> j \<notin> set (i # rest)"
    "\<forall>j. j \<in> set (i # rest) \<or> bt_checked s j \<longrightarrow> verify j = Some (bt_errors s j)"
    using assms(2) unfolding batch_inv_def receive(3) by blast+
  have "\<forall>j. j < bt_in s \<longleftrightarrow> j \<in> set (bt_busy s) \<or> j \<in> set rest \<or> c j"
    using inv(3) by (auto simp: c_def)
  moreover have "\<forall>j. c j \<longrightarrow> j \<notin> set (bt_busy s) \<and> j \<notin> set rest"
    using inv(4) i by (auto simp: c_def)
  moreover have "\<forall>j. j \<in> set rest \<or> c j \<longrightarrow> verify j = Some (bt_errors s j)"
    using inv(5) i by (auto simp: c_def)
  moreover have "distinct (bt_busy s @ rest)" using inv(2) by simp
  moreover have "st \<noteq> Panicked" "st = Running \<longrightarrow> out = length results \<and> \<not> c out \<and> out < n"
    "st = Finished \<longrightarrow> length results = n" "\<forall>j < length results. c j \<and> results ! j = bt_errors s j"
    using ds by auto
  ultimately show ?thesis using inv(1) unfolding batch_inv_def t
    by simp force
qed

lemma batch_inv_start: "0 < n \<Longrightarrow> batch_inv n verify batch_start"
  by (simp add: batch_inv_def batch_start_def)

lemma batch_inv_run:
  assumes "batch_run n workers verify s t" "batch_inv n verify s"
  shows "batch_inv n verify t"
  using assms
proof (induction rule: batch_run.induct)
  case start
  then show ?case by simp
next
  case (step t u)
  show ?case by (rule batch_inv_step [OF step(2) step(3) [OF step(4)]])
next
  case (abort t)
  have "batch_inv n verify t" by (rule abort(3) [OF abort(4)])
  then show ?case unfolding batch_inv_def by simp
qed

section \<open>Progress\<close>

text \<open>Every step makes the measure smaller, so a batch of \<^term>\<open>n\<close> headers ends after at most
  \<^term>\<open>3 * n\<close> steps in whatever order they happen.\<close>

definition batch_left :: "nat \<Rightarrow> batch \<Rightarrow> nat" where
  "batch_left n s = 3 * (n - bt_in s) + 2 * length (bt_busy s) + length (bt_done s)"

lemma batch_left_step: "batch_step n workers verify s t \<Longrightarrow> batch_left n t < batch_left n s"
proof (induction rule: batch_step.induct)
  case (work i s e)
  obtain k where "length (bt_busy s) = Suc k" using work(1) by (cases "bt_busy s") auto
  then show ?case using work(1) by (simp add: batch_left_def length_remove1)
qed (auto simp: batch_left_def)

lemma batch_run_length:
  assumes "(batch_step n workers verify ^^ k) s t"
  shows "k + batch_left n t \<le> batch_left n s"
  using assms
proof (induction k arbitrary: t)
  case (Suc k)
  then obtain u where "(batch_step n workers verify ^^ k) s u" "batch_step n workers verify u t" by auto
  then show ?case using Suc.IH [of u] batch_left_step by fastforce
qed simp

text \<open>While the collector runs some step is possible: the buffer of \<^verbatim>\<open>done\<close> is as large as the number
  of workers, so a worker is never blocked for ever.\<close>

lemma batch_not_stuck:
  assumes inv: "batch_inv n verify s" and run: "bt_status s = Running" and w: "0 < workers"
    and v: "\<forall>i < n. verify i \<noteq> None"
  obtains t where "batch_step n workers verify s t"
proof (cases "bt_done s")
  case (Cons i rest)
  obtain out results st where
    "drain n (bt_errors s) ((bt_checked s)(i := True)) (bt_out s) (bt_results s) = (out, results, st)"
    using prod_cases3 by blast
  then show thesis using receive [OF run Cons] that by blast
next
  case Nil
  show thesis
  proof (cases "bt_busy s")
    case (Cons i rest)
    then have i: "i \<in> set (bt_busy s)" by simp
    have "i < bt_in s" "bt_in s \<le> n" using inv i unfolding batch_inv_def by blast+
    then have "i < n" by simp
    then obtain e where e: "verify i = Some e" using v by blast
    have "length (bt_done s) < workers" using w Nil by simp
    from that [OF work [where verify = verify, OF i e this]] show thesis .
  next
    case busy: Nil
    have "bt_in s < n"
    proof (rule ccontr)
      assume "\<not> bt_in s < n"
      then have "bt_out s < bt_in s" "\<not> bt_checked s (bt_out s)"
        using inv run by (auto simp: batch_inv_def)
      then show False using inv busy Nil unfolding batch_inv_def by auto
    qed
    then show thesis using send [OF run] w busy that by auto
  qed
qed

text \<open>A run that nobody aborts can always be completed, and a completed one has all verdicts.\<close>

lemma batch_inv_steps:
  assumes "(batch_step n workers verify ^^ k) s t" "batch_inv n verify s"
  shows "batch_inv n verify t"
  using assms
  by (induction k arbitrary: t) (auto intro: batch_inv_step)

lemma batch_status_step:
  assumes "batch_step n workers verify s t" "batch_inv n verify s" "bt_status s \<noteq> Aborted"
  shows "bt_status t \<noteq> Aborted"
  using assms(1)
proof (cases rule: batch_step.cases)
  case (receive i rest out results st)
  have "st \<noteq> Aborted"
  proof
    assume "st = Aborted"
    moreover have "bt_out s < n" "length (bt_results s) = bt_out s"
      "\<forall>j < bt_out s. ((bt_checked s)(i := True)) j \<and> bt_results s ! j = bt_errors s j"
      using receive(2) assms(2) unfolding batch_inv_def by auto
    ultimately show False using drain_spec [OF receive(4)] by auto
  qed
  then show ?thesis using receive(1) by simp
qed (use assms(3) in auto)

lemma batch_status_steps:
  assumes "(batch_step n workers verify ^^ k) s t" "batch_inv n verify s" "bt_status s \<noteq> Aborted"
  shows "bt_status t \<noteq> Aborted"
  using assms
proof (induction k arbitrary: t)
  case (Suc k)
  then obtain u where "(batch_step n workers verify ^^ k) s u" "batch_step n workers verify u t" by auto
  then show ?case using Suc batch_status_step batch_inv_steps by blast
qed simp

lemma batch_finished:
  assumes "batch_inv n verify s" "bt_status s = Finished" "\<forall>i < n. verify i = Some (e i)"
  shows "bt_results s = map e [0..<n]"
proof (rule nth_equalityI)
  show "length (bt_results s) = length (map e [0..<n])" using assms(1,2) by (simp add: batch_inv_def)
  fix i assume "i < length (bt_results s)"
  moreover from this have "i < n" using assms(1,2) by (simp add: batch_inv_def)
  ultimately show "bt_results s ! i = map e [0..<n] ! i"
    using assms(1,3) unfolding batch_inv_def by auto
qed

lemma batch_run_steps: "(batch_step n workers verify ^^ k) s t \<Longrightarrow> batch_run n workers verify s t"
  by (induction k arbitrary: t) (auto intro: batch_run.intros)

lemma batch_progress:
  assumes "(batch_step n workers verify ^^ k) batch_start s" "0 < n" "0 < workers"
    and "\<forall>i < n. verify i = Some (e i)"
  shows "(\<exists>t. batch_step n workers verify s t) \<or> bt_status s = Finished \<and> bt_results s = map e [0..<n]"
proof -
  note start = batch_inv_start [OF assms(2), of verify]
  have inv: "batch_inv n verify s" by (rule batch_inv_steps [OF assms(1) start])
  have "bt_status s \<noteq> Aborted"
    by (rule batch_status_steps [OF assms(1) start]) (simp add: batch_start_def)
  moreover have "bt_status s \<noteq> Panicked" using inv by (simp add: batch_inv_def)
  ultimately consider "bt_status s = Running" | "bt_status s = Finished" by (cases "bt_status s") auto
  then show ?thesis
  proof cases
    case 1
    then show ?thesis using batch_not_stuck [OF inv 1 assms(3)] assms(4) by fastforce
  next
    case 2
    then show ?thesis using batch_finished [OF inv 2 assms(4)] by simp
  qed
qed

lemma batch_completes:
  assumes "0 < n" "0 < workers" "\<forall>i < n. verify i = Some (e i)"
  obtains s where "batch_run n workers verify batch_start s" "bt_status s = Finished" "bt_results s = map e [0..<n]"
proof -
  have "\<exists>s. batch_run n workers verify batch_start s \<and> bt_status s = Finished \<and> bt_results s = map e [0..<n]"
    if "(batch_step n workers verify ^^ k) batch_start t" for k t
    using that
  proof (induction "batch_left n t" arbitrary: k t rule: less_induct)
    case less
    from batch_progress [OF less(2) assms]
    consider u where "batch_step n workers verify t u" | "bt_status t = Finished" "bt_results t = map e [0..<n]"
      by blast
    then show ?case
    proof cases
      case 1
      then have "(batch_step n workers verify ^^ Suc k) batch_start u" using less(2) by auto
      then show ?thesis using less(1) batch_left_step [OF 1] by blast
    qed (use less(2) batch_run_steps in blast)
  qed
  from this [of 0 batch_start] show thesis using that by auto
qed

section \<open>What accepted batches are\<close>

lemma verifyHeader_gas_cap:
  "verifyHeader pe eng config h p uncle seal now = Some None \<Longrightarrow> uint (h_GasLimit h) < 2 ^ 63"
  by (auto simp: verifyHeader_def Let_def word_less_def split: if_splits)

lemma VerifyHeaders_inv:
  assumes "VerifyHeaders_reaches pe eng chain g headers seals now s" "PowMode eng \<noteq> ModeFullFake" "headers \<noteq> []"
  shows "batch_inv (length headers) (\<lambda>i. verifyHeaderWorker pe eng chain headers seals i now) s"
  using assms batch_inv_run [OF _ batch_inv_start]
  by (simp add: VerifyHeaders_reaches_def VerifyHeaders_start_def)

lemma accepted_link:
  assumes "verifyHeaderWorker pe eng chain headers seals i now = Some None"
    and "verifyHeaderWorker pe eng chain headers seals (Suc i) now = Some None"
  shows "h_ParentHash (headers ! Suc i) = hash_of (pe_keccak pe) (headers ! i)
    \<and> header_valid pe eng (cr_Config chain) (headers ! Suc i) (headers ! i) False (seals ! Suc i) now"
proof -
  from assms(1) obtain p where
    "verifyHeader pe eng (cr_Config chain) (headers ! i) p False (seals ! i) now = Some None"
    by (auto simp: verifyHeaderWorker_def Let_def split: if_splits option.splits)
  note cap = verifyHeader_gas_cap [OF this]
  from assms(2) have "h_ParentHash (headers ! Suc i) = hash_of (pe_keccak pe) (headers ! i)"
    "verifyHeader pe eng (cr_Config chain) (headers ! Suc i) (headers ! i) False (seals ! Suc i) now = Some None"
    by (auto simp: verifyHeaderWorker_def Let_def split: if_splits)
  then show ?thesis using verifyHeader_accepts [OF cap] by simp
qed

lemma accepted_first:
  assumes "verifyHeaderWorker pe eng chain headers seals 0 now = Some None"
  shows "\<exists>p. cr_GetHeader chain (h_ParentHash (headers ! 0)) (big_Uint64 (h_Number (headers ! 0)) - 1) = Some p
    \<and> verifyHeader pe eng (cr_Config chain) (headers ! 0) p False (seals ! 0) now = Some None"
  using assms by (auto simp: verifyHeaderWorker_def Let_def split: if_splits option.splits)

lemma accepted_seal:
  "verifyHeaderWorker pe eng chain headers seals i now = Some None \<Longrightarrow> seals ! i \<Longrightarrow>
   verifySeal pe eng (headers ! i) False = Some None"
  by (auto simp: verifyHeaderWorker_def verifyHeader_def Let_def split: if_splits option.splits)

lemma finished_verdicts:
  assumes "VerifyHeaders_reaches pe eng chain g headers seals now s" "PowMode eng \<noteq> ModeFullFake" "headers \<noteq> []"
    and "bt_status s = Finished" "set (bt_results s) = {None}" and "j < length headers"
  shows "verifyHeaderWorker pe eng chain headers seals j now = Some None"
proof -
  note inv = VerifyHeaders_inv [OF assms(1-3), unfolded batch_inv_def]
  have j: "j < length (bt_results s)" using assms(6) inv assms(4) by simp
  then have "bt_results s ! j = None" using assms(5) nth_mem by blast
  then show ?thesis using inv j by simp
qed

section \<open>An example\<close>

abbreviation two_headers :: "int Header list" where
  "two_headers \<equiv> [b_header first_b, b_header second_b]"

lemma two_headers_verdicts:
  assumes "i < length two_headers"
  shows "verifyHeaderWorker time_env NewFaker small_chain two_headers [True, True] i 20 = Some None"
proof -
  have K: "pe_keccak time_env = time_hash" by (simp add: time_env_def)
  have "header_valid time_env NewFaker no_forks (two_headers ! 0) (b_header genesis_b) False True 20"
    "header_valid time_env NewFaker no_forks (two_headers ! 1) (two_headers ! 0) False True 20"
    by (simp_all add: header_valid_def time_header_def zero_header_def CalcDifficulty_def no_forks_def
      MainnetChainConfig_def IsMuirGlacier_def IsConstantinople_def IsByzantium_def IsHomestead_def isForked_def
      calcDifficultyFrontier_def difficulty_consts VerifyDAOHeaderExtraData_def VerifyForkHashes_def NewFaker_def
      big_Uint64_def)
  moreover have "uint (h_GasLimit (b_header genesis_b)) < 2 ^ 63" "uint (h_GasLimit (b_header first_b)) < 2 ^ 63"
    by (simp_all add: time_header_def zero_header_def)
  ultimately show ?thesis
    using assms verifyHeader_accepts small_chain_hashes(2)
    by (auto simp: verifyHeaderWorker_def less_Suc_eq small_chain_def big_Uint64_def K)
qed

lemma two_headers_complete:
  obtains s where "VerifyHeaders_reaches time_env NewFaker small_chain 4 two_headers [True, True] 20 s"
    "bt_status s = Finished" "bt_results s = [None, None]"
proof -
  have v: "\<forall>i < length two_headers.
      verifyHeaderWorker time_env NewFaker small_chain two_headers [True, True] i 20 = Some ((\<lambda>_. None) i)"
    using two_headers_verdicts by blast
  have "0 < length two_headers" "0 < VerifyHeaders_workers 4 two_headers" by (simp_all add: VerifyHeaders_workers_def)
  from batch_completes [OF this v] obtain s where
    "batch_run (length two_headers) (VerifyHeaders_workers 4 two_headers)
       (\<lambda>i. verifyHeaderWorker time_env NewFaker small_chain two_headers [True, True] i 20) batch_start s"
    "bt_status s = Finished" "bt_results s = map (\<lambda>_. None) [0..<length two_headers]" .
  then show thesis using that
    by (simp add: VerifyHeaders_reaches_def VerifyHeaders_start_def NewFaker_def upt_rec)
qed

section \<open>Properties\<close>

text \<open>
  C33. However the workers are scheduled and whenever the caller aborts, the collector never reads past the
  end of the batch, and the results it has sent are the verdicts of the first headers, in the order of the headers.
\<close>

theorem VerifyHeaders_in_order:
  assumes "VerifyHeaders_reaches pe eng chain g headers seals now s" "PowMode eng \<noteq> ModeFullFake" "headers \<noteq> []"
  shows "bt_status s \<noteq> Panicked \<and> length (bt_results s) \<le> length headers
    \<and> (\<forall>i < length (bt_results s). verifyHeaderWorker pe eng chain headers seals i now = Some (bt_results s ! i))"
proof -
  note inv = VerifyHeaders_inv [OF assms, unfolded batch_inv_def]
  have "i < length headers" if "i < length (bt_results s)" for i
    using inv that by (meson less_le_trans)
  then have "length (bt_results s) \<le> length headers" by (meson linorder_not_less nat_less_le)
  then show ?thesis using inv by simp
qed

theorem VerifyHeaders_in_order_witness:
  "\<exists>s. VerifyHeaders_reaches time_env NewFaker small_chain 4 [b_header first_b, b_header second_b] [True, True] 20 s
     \<and> bt_results s = [None, None]
     \<and> verifyHeaderWorker time_env NewFaker small_chain [b_header first_b, b_header second_b] [True, True] 0 20
         = Some (bt_results s ! 0)"
proof -
  obtain s where s: "VerifyHeaders_reaches time_env NewFaker small_chain 4 two_headers [True, True] 20 s"
    "bt_status s = Finished" "bt_results s = [None, None]"
    by (rule two_headers_complete)
  from VerifyHeaders_in_order [OF s(1)]
  have "verifyHeaderWorker time_env NewFaker small_chain two_headers [True, True] 0 20 = Some (bt_results s ! 0)"
    using s(3) by (simp add: NewFaker_def)
  then show ?thesis using s by blast
qed

text \<open>
  C34. A batch of \<open>n\<close> headers that is not aborted takes at most \<open>3 * n\<close> steps, in whatever order they happen;
  no state of it is stuck before the collector has returned, and when no step is left all \<open>n\<close> verdicts
  have been delivered.
\<close>

theorem VerifyHeaders_delivers:
  fixes pe eng chain headers seals now
  defines "verify \<equiv> \<lambda>i. verifyHeaderWorker pe eng chain headers seals i now"
  assumes "PowMode eng \<noteq> ModeFullFake" "headers \<noteq> []" "0 < g"
    and "\<forall>i < length headers. verify i = Some (e i)"
    and "(batch_step (length headers) (VerifyHeaders_workers g headers) verify ^^ k) (VerifyHeaders_start eng headers) s"
  shows "k \<le> 3 * length headers
    \<and> ((\<exists>t. batch_step (length headers) (VerifyHeaders_workers g headers) verify s t)
       \<or> bt_status s = Finished \<and> bt_results s = map e [0..<length headers])"
proof -
  have start: "VerifyHeaders_start eng headers = batch_start" using assms(2,3) by (simp add: VerifyHeaders_start_def)
  have "0 < length headers" "0 < VerifyHeaders_workers g headers"
    using assms(3,4) by (simp_all add: VerifyHeaders_workers_def)
  then have "(\<exists>t. batch_step (length headers) (VerifyHeaders_workers g headers) verify s t)
       \<or> bt_status s = Finished \<and> bt_results s = map e [0..<length headers]"
    using batch_progress [OF assms(6) [unfolded start]] assms(5) by blast
  then show ?thesis
    using batch_run_length [OF assms(6)] by (simp add: start batch_left_def batch_start_def)
qed

theorem VerifyHeaders_delivers_witness:
  "\<exists>t. batch_step (length two_headers) (VerifyHeaders_workers 4 two_headers)
     (\<lambda>i. verifyHeaderWorker time_env NewFaker small_chain two_headers [True, True] i 20)
     (VerifyHeaders_start NewFaker two_headers) t"
  using VerifyHeaders_delivers [of NewFaker two_headers 4 time_env small_chain "[True, True]" 20 "\<lambda>_. None" 0]
    two_headers_verdicts
  by (simp add: NewFaker_def VerifyHeaders_start_def batch_start_def)

text \<open>
  C35. When a batch has been completed with no error, its headers are a chain on top of the local one: the chain has the
  header that the first one names as its parent, under the number below the first one's, and the first one is accepted for
  it, so is valid for it if the gas limit of that parent is below 2 to the 63; each later header names the hash of the one
  before it as its parent and is valid for that parent. A valid header has a valid seal wherever the caller asked for the
  seal to be checked.
\<close>

theorem VerifyHeaders_chain:
  assumes "VerifyHeaders_reaches pe eng chain g headers seals now s" "PowMode eng \<noteq> ModeFullFake" "headers \<noteq> []"
    and "bt_status s = Finished" "set (bt_results s) = {None}"
  shows "(\<exists>p. cr_GetHeader chain (h_ParentHash (headers ! 0)) (big_Uint64 (h_Number (headers ! 0)) - 1) = Some p
      \<and> verifyHeader pe eng (cr_Config chain) (headers ! 0) p False (seals ! 0) now = Some None
      \<and> (uint (h_GasLimit p) < 2 ^ 63 \<longrightarrow> header_valid pe eng (cr_Config chain) (headers ! 0) p False (seals ! 0) now))
    \<and> (\<forall>i. Suc i < length headers \<longrightarrow>
      h_ParentHash (headers ! Suc i) = hash_of (pe_keccak pe) (headers ! i)
      \<and> header_valid pe eng (cr_Config chain) (headers ! Suc i) (headers ! i) False (seals ! Suc i) now)
    \<and> (\<forall>i < length headers. seals ! i \<longrightarrow> verifySeal pe eng (headers ! i) False = Some None)"
  (is "?first \<and> ?links \<and> ?sealed")
proof (intro conjI)
  note ok = finished_verdicts [OF assms]
  show ?first using accepted_first [OF ok [of 0]] verifyHeader_accepts assms(3) by blast
  show ?links using accepted_link [OF ok ok] Suc_lessD by blast
  show ?sealed using accepted_seal [OF ok] by blast
qed

theorem VerifyHeaders_chain_witness:
  "(\<exists>p. cr_GetHeader small_chain (h_ParentHash (two_headers ! 0)) (big_Uint64 (h_Number (two_headers ! 0)) - 1) = Some p
      \<and> verifyHeader time_env NewFaker no_forks (two_headers ! 0) p False True 20 = Some None)
   \<and> header_valid time_env NewFaker no_forks (two_headers ! 1) (two_headers ! 0) False True 20
   \<and> verifySeal time_env NewFaker (two_headers ! 0) False = Some None"
proof -
  obtain s where s: "VerifyHeaders_reaches time_env NewFaker small_chain 4 two_headers [True, True] 20 s"
    "bt_status s = Finished" "bt_results s = [None, None]"
    by (rule two_headers_complete)
  have "PowMode NewFaker \<noteq> ModeFullFake" "set (bt_results s) = {None}" "cr_Config small_chain = no_forks"
    using s(3) by (simp_all add: NewFaker_def small_chain_def)
  note chain = VerifyHeaders_chain [OF s(1) this(1) _ s(2) this(2), unfolded this(3)]
  show ?thesis using chain by force
qed

end
