(* ===== verification/State_Access.thy ===== *)
theory State_Access
  imports Go_Prelude
begin

text \<open>
  The access list of a transaction, \<^verbatim>\<open>core/state/access_list.go\<close>: the addresses it has touched, each
  with an index into a slice of slot sets (\<open>-1\<close> when no slot of the address was touched). A slot set is
  the list of its keys. The functions that the journal calls to take an addition back truncate the slice,
  so they are right only when additions are taken back in the reverse order; \<open>undo_AddAddress\<close> and
  \<open>undo_AddSlot\<close> show that they then restore the list exactly, \<open>Contains_AddAddress\<close> and
  \<open>Contains_AddSlot\<close> what an addition adds, and \<open>al_ok\<close> is the invariant under which no index panics.
\<close>

section \<open>Model\<close>

record accessList =
  al_addresses :: "address \<Rightarrow> int option"
  al_slots :: "hash list list"

definition newAccessList :: accessList where
  "newAccessList = \<lparr>al_addresses = (\<lambda>_. None), al_slots = []\<rparr>"

definition ContainsAddress :: "accessList \<Rightarrow> address \<Rightarrow> bool" where
  "ContainsAddress al a = (al_addresses al a \<noteq> None)"

text \<open>\<^verbatim>\<open>al.slots[idx]\<close>: an index that is out of range is a panic.\<close>

definition slot_map :: "accessList \<Rightarrow> int \<Rightarrow> hash list option" where
  "slot_map al idx = (if 0 \<le> idx \<and> idx < int (length (al_slots al)) then Some (al_slots al ! nat idx) else None)"

definition Contains :: "accessList \<Rightarrow> address \<Rightarrow> hash \<Rightarrow> (bool \<times> bool) option" where
  "Contains al a k =
     (case al_addresses al a of
        None \<Rightarrow> Some (False, False)
      | Some idx \<Rightarrow>
          (if idx = -1 then Some (True, False)
           else map_option (\<lambda>m. (True, k \<in> set m)) (slot_map al idx)))"

definition al_Copy :: "accessList \<Rightarrow> accessList" where
  "al_Copy al = \<lparr>al_addresses = (\<lambda>k. al_addresses al k), al_slots = map (\<lambda>slotMap. map (\<lambda>k. k) slotMap) (al_slots al)\<rparr>"

definition AddAddress :: "accessList \<Rightarrow> address \<Rightarrow> bool \<times> accessList" where
  "AddAddress al a =
     (if al_addresses al a \<noteq> None then (False, al)
      else (True, al\<lparr>al_addresses := (al_addresses al)(a \<mapsto> -1)\<rparr>))"

definition AddSlot :: "accessList \<Rightarrow> address \<Rightarrow> hash \<Rightarrow> ((bool \<times> bool) \<times> accessList) option" where
  "AddSlot al a k =
     (if al_addresses al a = None \<or> al_addresses al a = Some (-1)
      then Some ((al_addresses al a = None, True),
             \<lparr>al_addresses = (al_addresses al)(a \<mapsto> int (length (al_slots al))),
              al_slots = al_slots al @ [[k]]\<rparr>)
      else let idx = the (al_addresses al a)
      in case slot_map al idx of
           None \<Rightarrow> None
         | Some m \<Rightarrow>
             (if k \<notin> set m
              then Some ((False, True), al\<lparr>al_slots := (al_slots al)[nat idx := k # m]\<rparr>)
              else Some ((False, False), al)))"

definition DeleteSlot :: "accessList \<Rightarrow> address \<Rightarrow> hash \<Rightarrow> accessList option" where
  "DeleteSlot al a k =
     (case al_addresses al a of
        None \<Rightarrow> None
      | Some idx \<Rightarrow>
          (case slot_map al idx of
             None \<Rightarrow> None
           | Some m \<Rightarrow>
               (let m = removeAll k m
                in if length m = 0
                   then Some \<lparr>al_addresses = (al_addresses al)(a \<mapsto> -1), al_slots = take (nat idx) (al_slots al)\<rparr>
                   else Some (al\<lparr>al_slots := (al_slots al)[nat idx := m]\<rparr>))))"

definition DeleteAddress :: "accessList \<Rightarrow> address \<Rightarrow> accessList" where
  "DeleteAddress al a = al\<lparr>al_addresses := (al_addresses al)(a := None)\<rparr>"

section \<open>The invariant\<close>

definition al_ok :: "accessList \<Rightarrow> bool" where
  "al_ok al =
     ((\<forall>a idx. al_addresses al a = Some idx \<longrightarrow> idx = -1 \<or> 0 \<le> idx \<and> idx < int (length (al_slots al)))
      \<and> (\<forall>a b idx. al_addresses al a = Some idx \<and> al_addresses al b = Some idx \<and> idx \<noteq> -1 \<longrightarrow> a = b)
      \<and> (\<forall>m \<in> set (al_slots al). m \<noteq> []))"

lemma al_okD:
  assumes "al_ok al" "al_addresses al a = Some idx" "idx \<noteq> -1"
  shows "0 \<le> idx" "idx < int (length (al_slots al))" "al_addresses al b = Some idx \<Longrightarrow> b = a"
  using assms unfolding al_ok_def by blast+

lemma al_ok_new [simp]: "al_ok newAccessList"
  by (simp add: al_ok_def newAccessList_def)

lemma al_Copy_id [simp]: "al_Copy al = al"
  by (simp add: al_Copy_def)

lemma al_ok_AddAddress: "al_ok al \<Longrightarrow> AddAddress al a = (c, al') \<Longrightarrow> al_ok al'"
  by (fastforce simp: al_ok_def AddAddress_def split: if_splits)

lemma al_ok_slot_map:
  assumes "al_ok al" "al_addresses al a = Some idx" "idx \<noteq> -1"
  obtains m where "slot_map al idx = Some m" "m \<noteq> []" "m = al_slots al ! nat idx" "nat idx < length (al_slots al)"
    "int (nat idx) = idx"
proof -
  note al_okD(1,2) [OF assms]
  moreover from this have n: "nat idx < length (al_slots al)" by linarith
  moreover have "al_slots al ! nat idx \<noteq> []" using assms(1) nth_mem [OF n] by (auto simp: al_ok_def)
  ultimately show thesis using that by (simp add: slot_map_def)
qed

lemma al_ok_new_slot:
  assumes "al_ok al"
  shows "al_ok \<lparr>al_addresses = (al_addresses al)(a \<mapsto> int (length (al_slots al))), al_slots = al_slots al @ [[k]]\<rparr>"
proof -
  have "idx < int (length (al_slots al))" if "al_addresses al b = Some idx" for b idx
    using al_okD(2) [OF assms that] by (cases "idx = -1") auto
  then show ?thesis using assms by (fastforce simp: al_ok_def)
qed

lemma al_ok_more_slot:
  assumes "al_ok al"
  shows "al_ok (al\<lparr>al_slots := (al_slots al)[i := k # m]\<rparr>)"
proof -
  have "\<forall>x \<in> set ((al_slots al)[i := k # m]). x \<noteq> []"
    using assms set_update_subset_insert [of "al_slots al" i "k # m"] unfolding al_ok_def by blast
  then show ?thesis using assms by (simp add: al_ok_def)
qed

lemma AddSlot_some:
  assumes "al_ok al"
  obtains c d al' where "AddSlot al a k = Some ((c, d), al')" "al_ok al'"
proof (cases "al_addresses al a = None \<or> al_addresses al a = Some (-1)")
  case True
  then show thesis using al_ok_new_slot [OF assms] that by (simp add: AddSlot_def)
next
  case False
  then obtain idx where i: "al_addresses al a = Some idx" "idx \<noteq> -1" by auto
  obtain m where m: "slot_map al idx = Some m" "m \<noteq> []" "nat idx < length (al_slots al)"
    using al_ok_slot_map [OF assms i] by metis
  show thesis using False i m assms al_ok_more_slot [OF assms] that
    by (cases "k \<in> set m") (simp_all add: AddSlot_def)
qed

section \<open>What an addition adds\<close>

lemma Contains_AddAddress:
  assumes "AddAddress al a = (c, al')"
  shows "ContainsAddress al' b = (b = a \<or> ContainsAddress al b) \<and> c = (\<not> ContainsAddress al a)"
  using assms by (auto simp: AddAddress_def ContainsAddress_def split: if_splits)

section \<open>Taking an addition back\<close>

lemma undo_AddAddress:
  "AddAddress al a = (True, al') \<Longrightarrow> DeleteAddress al' a = al"
  by (auto simp: AddAddress_def DeleteAddress_def fun_upd_idem split: if_splits)

lemma undo_AddSlot:
  assumes "al_ok al" "AddSlot al a k = Some ((c, True), al')"
  shows "DeleteSlot al' a k = Some (if c then al\<lparr>al_addresses := (al_addresses al)(a \<mapsto> -1)\<rparr> else al)"
proof (cases "al_addresses al a = None \<or> al_addresses al a = Some (-1)")
  case True
  then have al': "al' = \<lparr>al_addresses = (al_addresses al)(a \<mapsto> int (length (al_slots al))), al_slots = al_slots al @ [[k]]\<rparr>"
    "c = (al_addresses al a = None)"
    using assms(2) by (auto simp: AddSlot_def)
  have "slot_map al' (int (length (al_slots al))) = Some [k]" by (simp add: al'(1) slot_map_def)
  then have "DeleteSlot al' a k = Some \<lparr>al_addresses = (al_addresses al)(a \<mapsto> -1), al_slots = al_slots al\<rparr>"
    by (simp add: DeleteSlot_def al'(1))
  then show ?thesis using True al'(2) by (cases al) (auto simp: fun_upd_idem)
next
  case False
  then obtain idx where i: "al_addresses al a = Some idx" "idx \<noteq> -1" by auto
  obtain m where m: "slot_map al idx = Some m" "m \<noteq> []" "m = al_slots al ! nat idx" "nat idx < length (al_slots al)"
    "int (nat idx) = idx"
    using al_ok_slot_map [OF assms(1) i] by metis
  have k: "k \<notin> set m" "\<not> c" and al': "al' = al\<lparr>al_slots := (al_slots al)[nat idx := k # m]\<rparr>"
    using assms(2) False i m by (auto simp: AddSlot_def split: if_splits)
  have "slot_map al' idx = Some (k # m)"
    using m(4) al_okD(1,2) [OF assms(1) i] by (simp add: al' slot_map_def)
  moreover have "removeAll k (k # m) = m" using k(1) by simp
  ultimately have "DeleteSlot al' a k = Some (al'\<lparr>al_slots := (al_slots al')[nat idx := m]\<rparr>)"
    using i m(2) by (simp add: DeleteSlot_def al')
  then show ?thesis using k(2) m(3) by (cases al) (simp add: al' list_update_id)
qed

text \<open>What a list contains, as sets of addresses and of pairs: the answers of \<^verbatim>\<open>Contains\<close>.\<close>

definition has_slot :: "accessList \<Rightarrow> address \<Rightarrow> hash \<Rightarrow> bool" where
  "has_slot al a k = (Contains al a k = Some (True, True))"

lemma Contains_total: "al_ok al \<Longrightarrow> Contains al a k = Some (ContainsAddress al a, has_slot al a k)"
  using al_okD(1,2) [of al a]
  by (auto simp: Contains_def ContainsAddress_def has_slot_def slot_map_def split: option.splits)

lemma Contains_AddSlot:
  assumes "al_ok al" "AddSlot al a k = Some ((c, d), al')"
  shows "ContainsAddress al' b = (b = a \<or> ContainsAddress al b)
    \<and> has_slot al' b x = (b = a \<and> x = k \<or> has_slot al b x)
    \<and> c = (\<not> ContainsAddress al a) \<and> d = (\<not> has_slot al a k)"
proof (cases "al_addresses al a = None \<or> al_addresses al a = Some (-1)")
  case True
  have less: "idx < int (length (al_slots al))" if "al_addresses al b = Some idx" for b idx
    using al_okD(2) [OF assms(1) that] by (cases "idx = -1") auto
  let ?n = "int (length (al_slots al))"
  have al': "al' = \<lparr>al_addresses = (al_addresses al)(a \<mapsto> ?n), al_slots = al_slots al @ [[k]]\<rparr>"
    "c = (al_addresses al a = None)" d
    using True assms(2) by (auto simp: AddSlot_def)
  have slot: "\<not> has_slot al a k" using True by (auto simp: has_slot_def Contains_def)
  have "has_slot al' b x = (if b = a then x = k else has_slot al b x)"
  proof (cases "b = a")
    case False
    then show ?thesis using less [of b]
      by (auto simp: al' has_slot_def Contains_def slot_map_def nth_append split: option.splits)
  qed (simp add: al' has_slot_def Contains_def slot_map_def)
  moreover have "b = a \<Longrightarrow> \<not> has_slot al b x" using True by (auto simp: has_slot_def Contains_def)
  ultimately show ?thesis using al'(2,3) slot by (auto simp: ContainsAddress_def al'(1))
next
  case False
  then obtain idx where i: "al_addresses al a = Some idx" "idx \<noteq> -1" by auto
  note ok = al_okD [OF assms(1) i]
  have ni: "nat idx < length (al_slots al)" using ok(1,2) by linarith
  have ne: "nat j \<noteq> nat idx" if "al_addresses al b = Some j" "j \<noteq> -1" "b \<noteq> a" for j
    using ok(1,3) that al_okD(1) [OF assms(1) that(1,2)] by auto
  define m where "m = al_slots al ! nat idx"
  have m: "slot_map al idx = Some m" using ok(1,2) by (simp add: slot_map_def m_def)
  have slot: "has_slot al a y = (y \<in> set m)" for y using i m by (simp add: has_slot_def Contains_def)
  show ?thesis
  proof (cases "k \<in> set m")
    case True
    then show ?thesis using assms(2) False i m slot by (auto simp: AddSlot_def ContainsAddress_def)
  next
    case k: False
    then have al': "al' = al\<lparr>al_slots := (al_slots al)[nat idx := k # m]\<rparr>" "\<not> c" d
      using assms(2) False i m by (auto simp: AddSlot_def)
    have "has_slot al' b x = (b = a \<and> x = k \<or> has_slot al b x)"
    proof (cases "b = a")
      case True
      have "slot_map al' idx = Some (k # m)" using ok(1,2) ni by (simp add: al' slot_map_def)
      then show ?thesis using i True slot by (simp add: al'(1) has_slot_def Contains_def)
    next
      case b: False
      have "slot_map al' j = slot_map al j" if "al_addresses al b = Some j" "j \<noteq> -1" for j
        using ne [OF that b] by (simp add: al' slot_map_def)
      then show ?thesis using b by (simp add: al'(1) has_slot_def Contains_def split: option.split)
    qed
    then show ?thesis using al' i k slot by (auto simp: ContainsAddress_def)
  qed
qed

end
