(* ===== verification/State_Objects.thy ===== *)
theory State_Objects
  imports Block_Header
begin

text \<open>
  Accounts under modification, \<^verbatim>\<open>core/state/state_object.go\<close>, and the account formats of
  \<^verbatim>\<open>core/state/snapshot/account.go\<close>.

  The interfaces \<^verbatim>\<open>Trie\<close> and \<^verbatim>\<open>Database\<close> of \<^verbatim>\<open>core/state/database.go\<close> are the record \<open>state_env\<close>, over a type
  of tries; \<^verbatim>\<open>snapshot.Snapshot\<close> is the record \<open>snap\<close>. An object that the code holds by pointer is a value
  here: a method returns the changed object and its caller puts it back under its address. The two fields of
  the state that a read needs (the snapshot and the set of destructed accounts) are arguments.
  There is no trie prefetcher, and times are not measured. \<^verbatim>\<open>s.code\<close>, which may be \<^verbatim>\<open>nil\<close>, is an option.

  \<open>code_view\<close>, \<open>state_view\<close> and \<open>committed_view\<close> are what the readers return, without the caches they
  fill; the lemmas show that filling a cache changes none of them.
\<close>

section \<open>Interfaces\<close>

record 't state_env =
  se_keccak :: keccak
  se_TryGet :: "'t \<Rightarrow> bytes \<Rightarrow> string + bytes"
  se_TryUpdate :: "'t \<Rightarrow> bytes \<Rightarrow> bytes \<Rightarrow> string option \<times> 't"
  se_TryDelete :: "'t \<Rightarrow> bytes \<Rightarrow> string option \<times> 't"
  se_TrieHash :: "'t \<Rightarrow> hash"
  se_OpenStorageTrie :: "hash \<Rightarrow> hash \<Rightarrow> string + 't"
  se_EmptyTrie :: 't
  se_ContractCode :: "hash \<Rightarrow> hash \<Rightarrow> bytes option \<times> string option"
  se_ContractCodeSize :: "hash \<Rightarrow> hash \<Rightarrow> int \<times> string option"

record snapAccount =
  sa_Nonce :: u64
  sa_Balance :: int
  sa_Root :: bytes
  sa_CodeHash :: bytes

record snap =
  snap_Account :: "hash \<Rightarrow> string + snapAccount option"
  snap_Storage :: "hash \<Rightarrow> hash \<Rightarrow> string + bytes"

datatype state_error =
    ErrTrie string
  | ErrRLP rlp_error
  | ErrStorageTrie string
  | ErrLoadCode bytes string
  | ErrLoadCodeSize bytes string
  | ErrGetStateObject address string
  | ErrUpdateStateObject address string
  | ErrDeleteStateObject address string

section \<open>Accounts\<close>

definition BytesToHash :: "bytes \<Rightarrow> hash" where
  "BytesToHash b = bytes_word b"

definition hash_Bytes :: "hash \<Rightarrow> bytes" where
  "hash_Bytes h = word_bytes 32 h"

definition addr_Bytes :: "address \<Rightarrow> bytes" where
  "addr_Bytes a = word_bytes 20 a"

definition emptyCodeHash :: "keccak \<Rightarrow> bytes" where
  "emptyCodeHash keccak = hash_Bytes (keccak [])"

definition emptyRoot :: hash where
  "emptyRoot = 0x56e81f171bcc55a6ff8345e692c0f86e5b48e01b996cadc001622fb5e363b421"

type_synonym Storage = "hash \<Rightarrow> hash option"

record Account =
  acc_Nonce :: u64
  acc_Balance :: int
  acc_Root :: hash
  acc_CodeHash :: bytes

definition account_val :: "Account \<Rightarrow> val" where
  "account_val a = VStruct [VUint (acc_Nonce a), VBigInt (Some (acc_Balance a)),
     VByteArray (hash_Bytes (acc_Root a)), VBytes (acc_CodeHash a)]"

definition account_type :: gotype where
  "account_type = TStruct [TUint 64, TBigInt, TByteArray 32, TByteSlice]"

definition account_of_val :: "val \<Rightarrow> Account option" where
  "account_of_val v =
     (case v of
        VStruct [VUint n, VBigInt (Some b), VByteArray r, VBytes c] \<Rightarrow>
          Some \<lparr>acc_Nonce = n, acc_Balance = b, acc_Root = BytesToHash r, acc_CodeHash = c\<rparr>
      | _ \<Rightarrow> None)"

definition decode_account :: "bytes \<Rightarrow> Account option" where
  "decode_account enc =
     (case DecodeBytes enc account_type of Some (Inr v) \<Rightarrow> account_of_val v | _ \<Rightarrow> None)"

definition SlimAccount :: "keccak \<Rightarrow> u64 \<Rightarrow> int \<Rightarrow> hash \<Rightarrow> bytes \<Rightarrow> snapAccount" where
  "SlimAccount keccak nonce balance root codehash =
     \<lparr>sa_Nonce = nonce, sa_Balance = balance,
      sa_Root = (if root \<noteq> emptyRoot then hash_Bytes root else []),
      sa_CodeHash = (if codehash \<noteq> emptyCodeHash keccak then codehash else [])\<rparr>"

definition snapAccount_val :: "snapAccount \<Rightarrow> val" where
  "snapAccount_val a = VStruct [VUint (sa_Nonce a), VBigInt (Some (sa_Balance a)), VBytes (sa_Root a), VBytes (sa_CodeHash a)]"

definition snapAccount_type :: gotype where
  "snapAccount_type = TStruct [TUint 64, TBigInt, TByteSlice, TByteSlice]"

text \<open>An encoding error is a panic.\<close>

definition SlimAccountRLP :: "keccak \<Rightarrow> u64 \<Rightarrow> int \<Rightarrow> hash \<Rightarrow> bytes \<Rightarrow> bytes option" where
  "SlimAccountRLP keccak nonce balance root codehash =
     (case EncodeToBytes (snapAccount_val (SlimAccount keccak nonce balance root codehash)) of
        Some (Inr data) \<Rightarrow> Some data
      | _ \<Rightarrow> None)"

definition FullAccount :: "keccak \<Rightarrow> bytes \<Rightarrow> (rlp_error + snapAccount) option" where
  "FullAccount keccak data =
     (case DecodeBytes data snapAccount_type of
        None \<Rightarrow> None
      | Some (Inl err) \<Rightarrow> Some (Inl err)
      | Some (Inr v) \<Rightarrow>
          (case v of
             VStruct [VUint n, VBigInt (Some b), VBytes r, VBytes c] \<Rightarrow>
               Some (Inr \<lparr>sa_Nonce = n, sa_Balance = b,
                 sa_Root = (if length r = 0 then hash_Bytes emptyRoot else r),
                 sa_CodeHash = (if length c = 0 then emptyCodeHash keccak else c)\<rparr>)
           | _ \<Rightarrow> None))"

definition FullAccountRLP :: "keccak \<Rightarrow> bytes \<Rightarrow> (rlp_error + bytes) option" where
  "FullAccountRLP keccak data =
     (case FullAccount keccak data of
        None \<Rightarrow> None
      | Some (Inl err) \<Rightarrow> Some (Inl err)
      | Some (Inr account) \<Rightarrow> EncodeToBytes (snapAccount_val account))"

section \<open>State objects\<close>

record 't stateObject =
  so_address :: address
  so_addrHash :: hash
  so_data :: Account
  so_dbErr :: "state_error option"
  so_trie :: "'t option"
  so_code :: "bytes option"
  so_originStorage :: Storage
  so_pendingStorage :: Storage
  so_dirtyStorage :: Storage
  so_fakeStorage :: "Storage option"
  so_dirtyCode :: bool
  so_suicided :: bool
  so_deleted :: bool

definition obj_empty :: "keccak \<Rightarrow> 't stateObject \<Rightarrow> bool" where
  "obj_empty keccak obj =
     (acc_Nonce (so_data obj) = 0 \<and> acc_Balance (so_data obj) = 0
      \<and> acc_CodeHash (so_data obj) = emptyCodeHash keccak)"

text \<open>The fields of the \<^verbatim>\<open>Account\<close> that \<^verbatim>\<open>newObject\<close> takes; the pointer and the slice may be \<^verbatim>\<open>nil\<close>.\<close>

definition newObject ::
  "keccak \<Rightarrow> address \<Rightarrow> u64 \<Rightarrow> int option \<Rightarrow> hash \<Rightarrow> bytes option \<Rightarrow> 't stateObject" where
  "newObject keccak address nonce balance root codeHash =
     \<lparr>so_address = address,
      so_addrHash = keccak (addr_Bytes address),
      so_data =
        \<lparr>acc_Nonce = nonce,
         acc_Balance = (case balance of None \<Rightarrow> 0 | Some b \<Rightarrow> b),
         acc_Root = (if root = 0 then emptyRoot else root),
         acc_CodeHash = (case codeHash of None \<Rightarrow> emptyCodeHash keccak | Some h \<Rightarrow> h)\<rparr>,
      so_dbErr = None, so_trie = None, so_code = None,
      so_originStorage = (\<lambda>_. None), so_pendingStorage = (\<lambda>_. None), so_dirtyStorage = (\<lambda>_. None),
      so_fakeStorage = None, so_dirtyCode = False, so_suicided = False, so_deleted = False\<rparr>"

definition first_error :: "'e option \<Rightarrow> 'e option \<Rightarrow> 'e option" where
  "first_error old err = (case old of None \<Rightarrow> err | Some e \<Rightarrow> Some e)"

definition obj_setError :: "'t stateObject \<Rightarrow> state_error option \<Rightarrow> 't stateObject" where
  "obj_setError obj err = obj\<lparr>so_dbErr := first_error (so_dbErr obj) err\<rparr>"

definition markSuicided :: "'t stateObject \<Rightarrow> 't stateObject" where
  "markSuicided obj = obj\<lparr>so_suicided := True\<rparr>"

text \<open>\<^verbatim>\<open>OpenStorageTrie\<close> with the zero hash does not touch the database: it is \<^const>\<open>se_EmptyTrie\<close>.\<close>

definition obj_getTrie :: "'t state_env \<Rightarrow> 't stateObject \<Rightarrow> 't \<times> 't stateObject" where
  "obj_getTrie env obj =
     (case so_trie obj of
        Some t \<Rightarrow> (t, obj)
      | None \<Rightarrow>
          (case se_OpenStorageTrie env (so_addrHash obj) (acc_Root (so_data obj)) of
             Inr t \<Rightarrow> (t, obj\<lparr>so_trie := Some t\<rparr>)
           | Inl err \<Rightarrow>
               (se_EmptyTrie env,
                obj_setError (obj\<lparr>so_trie := Some (se_EmptyTrie env)\<rparr>) (Some (ErrStorageTrie err)))))"

text \<open>The value of a slot from its stored encoding, and the error of a malformed one.\<close>

definition slot_value :: "bytes \<Rightarrow> hash \<times> state_error option" where
  "slot_value enc =
     (if length enc > 0
      then (case Split enc of
              Some (Inr (_, content, _)) \<Rightarrow> (BytesToHash content, None)
            | Some (Inl err) \<Rightarrow> (0, Some (ErrRLP err))
            | None \<Rightarrow> (0, None))
      else (0, None))"

text \<open>The end of \<^verbatim>\<open>GetCommittedState\<close>, which caches the value, and the read from the storage trie.\<close>

definition cache_slot :: "'t stateObject \<Rightarrow> hash \<Rightarrow> bytes \<Rightarrow> hash \<times> 't stateObject" where
  "cache_slot obj key enc =
     (let (value, err) = slot_value enc; obj = obj_setError obj err
      in (value, obj\<lparr>so_originStorage := (so_originStorage obj)(key \<mapsto> value)\<rparr>))"

definition load_slot :: "'t state_env \<Rightarrow> 't stateObject \<Rightarrow> hash \<Rightarrow> hash \<times> 't stateObject" where
  "load_slot env obj key =
     (let (t, obj) = obj_getTrie env obj
      in case se_TryGet env t (hash_Bytes key) of
           Inl err \<Rightarrow> (0, obj_setError obj (Some (ErrTrie err)))
         | Inr enc \<Rightarrow> cache_slot obj key enc)"

definition obj_GetCommittedState ::
  "'t state_env \<Rightarrow> snap option \<Rightarrow> hash set \<Rightarrow> 't stateObject \<Rightarrow> hash \<Rightarrow> hash \<times> 't stateObject" where
  "obj_GetCommittedState env sn destructs obj key =
     (case so_fakeStorage obj of
        Some fake \<Rightarrow> (case fake key of None \<Rightarrow> 0 | Some v \<Rightarrow> v, obj)
      | None \<Rightarrow>
      (case so_pendingStorage obj key of
        Some value \<Rightarrow> (value, obj)
      | None \<Rightarrow>
      (case so_originStorage obj key of
        Some value \<Rightarrow> (value, obj)
      | None \<Rightarrow>
      (case sn of
        None \<Rightarrow> load_slot env obj key
      | Some sp \<Rightarrow>
          (if so_addrHash obj \<in> destructs then (0, obj)
           else case snap_Storage sp (so_addrHash obj) (se_keccak env (hash_Bytes key)) of
                  Inr enc \<Rightarrow> cache_slot obj key enc
                | Inl _ \<Rightarrow> load_slot env obj key)))))"

definition obj_GetState ::
  "'t state_env \<Rightarrow> snap option \<Rightarrow> hash set \<Rightarrow> 't stateObject \<Rightarrow> hash \<Rightarrow> hash \<times> 't stateObject" where
  "obj_GetState env sn destructs obj key =
     (case so_fakeStorage obj of
        Some fake \<Rightarrow> (case fake key of None \<Rightarrow> 0 | Some v \<Rightarrow> v, obj)
      | None \<Rightarrow>
          (case so_dirtyStorage obj key of
             Some value \<Rightarrow> (value, obj)
           | None \<Rightarrow> obj_GetCommittedState env sn destructs obj key))"

definition obj_setState :: "'t stateObject \<Rightarrow> hash \<Rightarrow> hash \<Rightarrow> 't stateObject" where
  "obj_setState obj key value = obj\<lparr>so_dirtyStorage := (so_dirtyStorage obj)(key \<mapsto> value)\<rparr>"

definition obj_SetStorage :: "'t stateObject \<Rightarrow> Storage \<Rightarrow> 't stateObject" where
  "obj_SetStorage obj storage =
     obj\<lparr>so_fakeStorage := Some ((case so_fakeStorage obj of None \<Rightarrow> \<lambda>_. None | Some f \<Rightarrow> f) ++ storage)\<rparr>"

definition obj_finalise :: "'t stateObject \<Rightarrow> 't stateObject" where
  "obj_finalise obj =
     obj\<lparr>so_pendingStorage := so_pendingStorage obj ++ so_dirtyStorage obj, so_dirtyStorage := (\<lambda>_. None)\<rparr>"

definition obj_setBalance :: "'t stateObject \<Rightarrow> int \<Rightarrow> 't stateObject" where
  "obj_setBalance obj amount = obj\<lparr>so_data := (so_data obj)\<lparr>acc_Balance := amount\<rparr>\<rparr>"

definition obj_setNonce :: "'t stateObject \<Rightarrow> u64 \<Rightarrow> 't stateObject" where
  "obj_setNonce obj nonce = obj\<lparr>so_data := (so_data obj)\<lparr>acc_Nonce := nonce\<rparr>\<rparr>"

definition obj_setCode :: "'t stateObject \<Rightarrow> hash \<Rightarrow> bytes option \<Rightarrow> 't stateObject" where
  "obj_setCode obj codeHash code =
     obj\<lparr>so_code := code, so_data := (so_data obj)\<lparr>acc_CodeHash := hash_Bytes codeHash\<rparr>, so_dirtyCode := True\<rparr>"

definition obj_Code :: "'t state_env \<Rightarrow> 't stateObject \<Rightarrow> bytes option \<times> 't stateObject" where
  "obj_Code env obj =
     (case so_code obj of
        Some code \<Rightarrow> (Some code, obj)
      | None \<Rightarrow>
          (if acc_CodeHash (so_data obj) = emptyCodeHash (se_keccak env) then (None, obj)
           else let (code, err) = se_ContractCode env (so_addrHash obj) (BytesToHash (acc_CodeHash (so_data obj)));
                    obj = obj_setError obj (map_option (ErrLoadCode (acc_CodeHash (so_data obj))) err)
                in (code, obj\<lparr>so_code := code\<rparr>)))"

definition obj_CodeSize :: "'t state_env \<Rightarrow> 't stateObject \<Rightarrow> int \<times> 't stateObject" where
  "obj_CodeSize env obj =
     (case so_code obj of
        Some code \<Rightarrow> (int (length code), obj)
      | None \<Rightarrow>
          (if acc_CodeHash (so_data obj) = emptyCodeHash (se_keccak env) then (0, obj)
           else let (sz, err) = se_ContractCodeSize env (so_addrHash obj) (BytesToHash (acc_CodeHash (so_data obj)))
                in (sz, obj_setError obj (map_option (ErrLoadCodeSize (acc_CodeHash (so_data obj))) err))))"

definition deepCopy :: "keccak \<Rightarrow> 't stateObject \<Rightarrow> 't stateObject" where
  "deepCopy keccak obj =
     (newObject keccak (so_address obj) (acc_Nonce (so_data obj)) (Some (acc_Balance (so_data obj)))
        (acc_Root (so_data obj)) (Some (acc_CodeHash (so_data obj))))
     \<lparr>so_trie := so_trie obj, so_code := so_code obj, so_dirtyStorage := so_dirtyStorage obj,
      so_originStorage := so_originStorage obj, so_pendingStorage := so_pendingStorage obj,
      so_suicided := so_suicided obj, so_dirtyCode := so_dirtyCode obj, so_deleted := so_deleted obj\<rparr>"

section \<open>What the readers return\<close>

definition committed_view :: "'t state_env \<Rightarrow> snap option \<Rightarrow> hash set \<Rightarrow> 't stateObject \<Rightarrow> hash \<Rightarrow> hash" where
  "committed_view env sn destructs obj key = fst (obj_GetCommittedState env sn destructs obj key)"

definition state_view :: "'t state_env \<Rightarrow> snap option \<Rightarrow> hash set \<Rightarrow> 't stateObject \<Rightarrow> hash \<Rightarrow> hash" where
  "state_view env sn destructs obj key = fst (obj_GetState env sn destructs obj key)"

definition code_view :: "'t state_env \<Rightarrow> 't stateObject \<Rightarrow> bytes option" where
  "code_view env obj = fst (obj_Code env obj)"

text \<open>The trie a read goes to, and the value it has for a slot.\<close>

definition trie_of :: "'t state_env \<Rightarrow> 't stateObject \<Rightarrow> 't" where
  "trie_of env obj = fst (obj_getTrie env obj)"

definition trie_value :: "'t state_env \<Rightarrow> 't \<Rightarrow> hash \<Rightarrow> hash" where
  "trie_value env t key = (case se_TryGet env t (hash_Bytes key) of Inl _ \<Rightarrow> 0 | Inr enc \<Rightarrow> fst (slot_value enc))"

definition stored_value :: "'t state_env \<Rightarrow> snap option \<Rightarrow> hash set \<Rightarrow> 't stateObject \<Rightarrow> hash \<Rightarrow> hash" where
  "stored_value env sn destructs obj key =
     (case sn of
        None \<Rightarrow> trie_value env (trie_of env obj) key
      | Some sp \<Rightarrow>
          (if so_addrHash obj \<in> destructs then 0
           else case snap_Storage sp (so_addrHash obj) (se_keccak env (hash_Bytes key)) of
                  Inr enc \<Rightarrow> fst (slot_value enc)
                | Inl _ \<Rightarrow> trie_value env (trie_of env obj) key))"

lemma obj_setError_sel [simp]:
  "so_address (obj_setError o1 e) = so_address o1" "so_addrHash (obj_setError o1 e) = so_addrHash o1"
  "so_data (obj_setError o1 e) = so_data o1" "so_trie (obj_setError o1 e) = so_trie o1"
  "so_code (obj_setError o1 e) = so_code o1" "so_originStorage (obj_setError o1 e) = so_originStorage o1"
  "so_pendingStorage (obj_setError o1 e) = so_pendingStorage o1"
  "so_dirtyStorage (obj_setError o1 e) = so_dirtyStorage o1"
  "so_fakeStorage (obj_setError o1 e) = so_fakeStorage o1" "so_dirtyCode (obj_setError o1 e) = so_dirtyCode o1"
  "so_suicided (obj_setError o1 e) = so_suicided o1" "so_deleted (obj_setError o1 e) = so_deleted o1"
  by (simp_all add: obj_setError_def)

lemma obj_getTrie_sel:
  assumes "obj_getTrie env o1 = (t, o2)"
  shows "t = trie_of env o1" "so_trie o2 = Some t" "so_address o2 = so_address o1" "so_addrHash o2 = so_addrHash o1"
    "so_data o2 = so_data o1" "so_code o2 = so_code o1" "so_originStorage o2 = so_originStorage o1"
    "so_pendingStorage o2 = so_pendingStorage o1" "so_dirtyStorage o2 = so_dirtyStorage o1"
    "so_fakeStorage o2 = so_fakeStorage o1" "so_suicided o2 = so_suicided o1" "so_deleted o2 = so_deleted o1"
    "so_dirtyCode o2 = so_dirtyCode o1"
  using assms by (auto simp: obj_getTrie_def trie_of_def split: option.splits sum.splits)

lemma trie_of_Some: "so_trie o1 = Some t \<Longrightarrow> trie_of env o1 = t"
  by (simp add: trie_of_def obj_getTrie_def)

lemma cache_slot_fst [simp]: "fst (cache_slot o1 key enc) = fst (slot_value enc)"
  by (simp add: cache_slot_def Let_def split: prod.split)

lemma load_slot_fst [simp]: "fst (load_slot env o1 key) = trie_value env (trie_of env o1) key"
proof -
  obtain t o2 where "obj_getTrie env o1 = (t, o2)" by fastforce
  then show ?thesis by (simp add: load_slot_def trie_value_def trie_of_def split: sum.split)
qed

lemma committed_view_eq:
  "committed_view env sn d o1 key =
     (case so_fakeStorage o1 of
        Some fake \<Rightarrow> (case fake key of None \<Rightarrow> 0 | Some v \<Rightarrow> v)
      | None \<Rightarrow>
          (case so_pendingStorage o1 key of
             Some v \<Rightarrow> v
           | None \<Rightarrow> (case so_originStorage o1 key of Some v \<Rightarrow> v | None \<Rightarrow> stored_value env sn d o1 key)))"
  by (simp add: committed_view_def obj_GetCommittedState_def stored_value_def split: option.split sum.split)

lemma state_view_eq:
  "state_view env sn d o1 key =
     (case so_fakeStorage o1 of
        Some fake \<Rightarrow> (case fake key of None \<Rightarrow> 0 | Some v \<Rightarrow> v)
      | None \<Rightarrow>
          (case so_dirtyStorage o1 key of Some v \<Rightarrow> v | None \<Rightarrow> committed_view env sn d o1 key))"
  by (auto simp: state_view_def committed_view_def obj_GetState_def split: option.split)

lemma code_view_eq:
  "code_view env o1 =
     (case so_code o1 of
        Some c \<Rightarrow> Some c
      | None \<Rightarrow>
          (if acc_CodeHash (so_data o1) = emptyCodeHash (se_keccak env) then None
           else fst (se_ContractCode env (so_addrHash o1) (BytesToHash (acc_CodeHash (so_data o1))))))"
  by (auto simp: code_view_def obj_Code_def Let_def split: option.split prod.split)

lemma code_view_cong:
  "so_code o2 = so_code o1 \<Longrightarrow> so_data o2 = so_data o1 \<Longrightarrow> so_addrHash o2 = so_addrHash o1 \<Longrightarrow>
   code_view env o2 = code_view env o1"
  by (simp add: code_view_eq split: option.split)

lemma state_view_cong:
  "so_fakeStorage o2 = so_fakeStorage o1 \<Longrightarrow> so_dirtyStorage o2 = so_dirtyStorage o1 \<Longrightarrow>
   committed_view env sn d o2 = committed_view env sn d o1 \<Longrightarrow> state_view env sn d o2 = state_view env sn d o1"
  by (intro ext) (simp add: state_view_eq split: option.split)

lemma stored_value_cong:
  "so_addrHash o2 = so_addrHash o1 \<Longrightarrow> trie_of env o2 = trie_of env o1 \<Longrightarrow>
   stored_value env sn d o2 = stored_value env sn d o1"
  by (intro ext) (simp add: stored_value_def split: option.split sum.split)

lemma committed_view_cong:
  assumes "so_fakeStorage o2 = so_fakeStorage o1" "so_pendingStorage o2 = so_pendingStorage o1"
    "so_addrHash o2 = so_addrHash o1" "trie_of env o2 = trie_of env o1"
    "so_originStorage o2 = so_originStorage o1
      \<or> so_originStorage o1 key = None \<and> so_originStorage o2 = (so_originStorage o1)(key \<mapsto> stored_value env sn d o1 key)"
  shows "committed_view env sn d o2 = committed_view env sn d o1"
proof
  fix x
  note st = stored_value_cong [OF assms(3,4)]
  have "(case so_originStorage o2 x of Some v \<Rightarrow> v | None \<Rightarrow> stored_value env sn d o2 x) =
      (case so_originStorage o1 x of Some v \<Rightarrow> v | None \<Rightarrow> stored_value env sn d o1 x)"
    unfolding st using assms(5) by (cases "x = key") auto
  then show "committed_view env sn d o2 x = committed_view env sn d o1 x"
    by (cases "so_fakeStorage o1"; cases "so_pendingStorage o1 x") (simp_all add: committed_view_eq assms(1,2))
qed

lemma trie_of_cong:
  "so_trie o2 = so_trie o1 \<Longrightarrow> so_addrHash o2 = so_addrHash o1 \<Longrightarrow> acc_Root (so_data o2) = acc_Root (so_data o1) \<Longrightarrow>
   trie_of env o2 = trie_of env o1"
  by (simp add: trie_of_def obj_getTrie_def split: option.split sum.split)

text \<open>Two objects that no reader can tell apart.\<close>

definition obj_eq :: "'t state_env \<Rightarrow> snap option \<Rightarrow> hash set \<Rightarrow> 't stateObject \<Rightarrow> 't stateObject \<Rightarrow> bool" where
  "obj_eq env sn d o1 o2 =
     (so_address o1 = so_address o2 \<and> so_addrHash o1 = so_addrHash o2 \<and> so_data o1 = so_data o2
      \<and> so_fakeStorage o1 = so_fakeStorage o2 \<and> so_suicided o1 = so_suicided o2 \<and> so_deleted o1 = so_deleted o2
      \<and> code_view env o1 = code_view env o2 \<and> committed_view env sn d o1 = committed_view env sn d o2
      \<and> state_view env sn d o1 = state_view env sn d o2)"

lemma obj_eq_refl [simp]: "obj_eq env sn d o1 o1"
  by (simp add: obj_eq_def)

lemma obj_eq_sym: "obj_eq env sn d o1 o2 \<Longrightarrow> obj_eq env sn d o2 o1"
  by (simp add: obj_eq_def)

lemma obj_eq_trans: "obj_eq env sn d o1 o2 \<Longrightarrow> obj_eq env sn d o2 o3 \<Longrightarrow> obj_eq env sn d o1 o3"
  by (simp add: obj_eq_def)

lemma obj_eqI:
  assumes "so_address o2 = so_address o1" "so_addrHash o2 = so_addrHash o1" "so_data o2 = so_data o1"
    "so_fakeStorage o2 = so_fakeStorage o1" "so_suicided o2 = so_suicided o1" "so_deleted o2 = so_deleted o1"
    "code_view env o2 = code_view env o1" "so_pendingStorage o2 = so_pendingStorage o1"
    "so_dirtyStorage o2 = so_dirtyStorage o1" "trie_of env o2 = trie_of env o1"
    "so_originStorage o2 = so_originStorage o1
      \<or> so_originStorage o1 key = None \<and> so_originStorage o2 = (so_originStorage o1)(key \<mapsto> stored_value env sn d o1 key)"
  shows "obj_eq env sn d o2 o1"
  using committed_view_cong [OF assms(4,8,2,10,11)] state_view_cong [OF assms(4,9)] assms
  by (simp add: obj_eq_def)

text \<open>Reading fills caches and remembers an error; no reader sees a difference.\<close>

lemma cache_slot_eq:
  assumes "cache_slot o1 key enc = (v, o2)" "so_originStorage o1 key = None"
    "stored_value env sn d o1 key = fst (slot_value enc)"
  shows "obj_eq env sn d o2 o1"
proof (rule obj_eqI [where key = key])
  have o2: "so_originStorage o2 = (so_originStorage o1)(key \<mapsto> fst (slot_value enc))"
    "so_data o2 = so_data o1" "so_addrHash o2 = so_addrHash o1" "so_code o2 = so_code o1" "so_trie o2 = so_trie o1"
    using assms(1) by (auto simp: cache_slot_def Let_def split: prod.splits)
  then show "so_originStorage o2 = so_originStorage o1 \<or> so_originStorage o1 key = None
      \<and> so_originStorage o2 = (so_originStorage o1)(key \<mapsto> stored_value env sn d o1 key)"
    using assms(2,3) by simp
  show "code_view env o2 = code_view env o1" by (rule code_view_cong) (simp_all add: o2)
  show "trie_of env o2 = trie_of env o1" by (rule trie_of_cong) (simp_all add: o2)
qed (use assms(1) in \<open>auto simp: cache_slot_def Let_def split: prod.splits\<close>)

lemma getTrie_eq:
  assumes "obj_getTrie env o1 = (t, o2)"
  shows "obj_eq env sn d o2 o1" "trie_of env o2 = trie_of env o1"
proof -
  note g = obj_getTrie_sel [OF assms]
  show t: "trie_of env o2 = trie_of env o1" using trie_of_Some [OF g(2)] g(1) by simp
  have "code_view env o2 = code_view env o1" by (rule code_view_cong) (simp_all add: g)
  then show "obj_eq env sn d o2 o1" by (intro obj_eqI) (simp_all add: g t)
qed

lemma setError_eq: "obj_eq env sn d (obj_setError o1 e) o1"
proof (rule obj_eqI)
  show "code_view env (obj_setError o1 e) = code_view env o1" by (rule code_view_cong) simp_all
  show "trie_of env (obj_setError o1 e) = trie_of env o1" by (rule trie_of_cong) simp_all
qed simp_all

lemma load_slot_eq:
  assumes "load_slot env o1 key = (v, o3)" "so_originStorage o1 key = None"
    "stored_value env sn d o1 key = trie_value env (trie_of env o1) key"
  shows "obj_eq env sn d o3 o1"
proof -
  obtain t o2 where g: "obj_getTrie env o1 = (t, o2)" by fastforce
  note eq = getTrie_eq [OF g] and sel = obj_getTrie_sel [OF g]
  show ?thesis
  proof (cases "se_TryGet env t (hash_Bytes key)")
    case (Inl err)
    then have "o3 = obj_setError o2 (Some (ErrTrie err))" using assms(1) g by (simp add: load_slot_def)
    then show ?thesis using setError_eq eq(1) obj_eq_trans by metis
  next
    case (Inr enc)
    then have c: "cache_slot o2 key enc = (v, o3)" using assms(1) g by (simp add: load_slot_def)
    have "stored_value env sn d o2 key = fst (slot_value enc)"
      using stored_value_cong [OF sel(4) eq(2)] assms(3) Inr sel(1) by (simp add: trie_value_def)
    from cache_slot_eq [OF c _ this] show ?thesis using eq(1) obj_eq_trans sel(7) assms(2) by metis
  qed
qed

lemma GetCommittedState_eq:
  assumes "obj_GetCommittedState env sn d o1 key = (v, o2)"
  shows "obj_eq env sn d o2 o1"
proof -
  consider "o2 = o1" | enc where "cache_slot o1 key enc = (v, o2)" "so_originStorage o1 key = None"
      "stored_value env sn d o1 key = fst (slot_value enc)"
    | "load_slot env o1 key = (v, o2)" "so_originStorage o1 key = None"
      "stored_value env sn d o1 key = trie_value env (trie_of env o1) key"
    using assms unfolding obj_GetCommittedState_def stored_value_def
    by (auto split: option.splits sum.splits if_splits)
  then show ?thesis by cases (use cache_slot_eq load_slot_eq in \<open>simp, blast+\<close>)
qed

lemma GetState_eq:
  assumes "obj_GetState env sn d o1 key = (v, o2)"
  shows "obj_eq env sn d o2 o1" "v = state_view env sn d o1 key"
  using assms GetCommittedState_eq by (auto simp: obj_GetState_def state_view_def split: option.splits)

lemma Code_eq:
  assumes "obj_Code env o1 = (c, o2)"
  shows "obj_eq env sn d o2 o1" "c = code_view env o1"
proof -
  show c: "c = code_view env o1" using assms by (simp add: code_view_def)
  have sel: "so_address o2 = so_address o1" "so_addrHash o2 = so_addrHash o1" "so_data o2 = so_data o1"
    "so_fakeStorage o2 = so_fakeStorage o1" "so_suicided o2 = so_suicided o1" "so_deleted o2 = so_deleted o1"
    "so_pendingStorage o2 = so_pendingStorage o1" "so_dirtyStorage o2 = so_dirtyStorage o1" "so_trie o2 = so_trie o1"
    "so_originStorage o2 = so_originStorage o1" "so_code o2 = c \<or> so_code o2 = so_code o1"
    using assms by (auto simp: obj_Code_def Let_def split: option.splits if_splits prod.splits)
  have "code_view env o2 = code_view env o1"
    using sel(2,3,11) unfolding code_view_eq c by (auto split: option.split)
  moreover have "trie_of env o2 = trie_of env o1" by (rule trie_of_cong) (simp_all add: sel)
  ultimately show "obj_eq env sn d o2 o1" using sel by (intro obj_eqI) simp_all
qed

lemma CodeSize_eq: "obj_CodeSize env o1 = (n, o2) \<Longrightarrow> obj_eq env sn d o2 o1"
  using setError_eq by (auto simp: obj_CodeSize_def Let_def split: option.splits if_splits prod.splits)

end
