(* ===== verification/State_DB.thy ===== *)
theory State_DB
  imports State_Access State_Objects
begin

text \<open>
  The journaled world state: \<^verbatim>\<open>core/state/statedb.go\<close> and \<^verbatim>\<open>core/state/journal.go\<close>, with the log
  record of \<^verbatim>\<open>core/types/log.go\<close>.

  Every operation takes the interfaces (\<open>state_env\<close>) and the state and returns its result and the new
  state; an operation that can panic returns an option. A nil dereference, an index out of range and
  an explicit \<^verbatim>\<open>panic\<close> are \<^const>\<open>None\<close>. Where Go ranges over a map, whose order is unspecified, the order is an
  argument, a list of the keys. \<^verbatim>\<open>Commit\<close>, which writes to the database, and the iteration over stored
  slots are not modelled.
\<close>

section \<open>Data\<close>

record Log =
  log_Address :: address
  log_Topics :: "hash list"
  log_Data :: bytes
  log_BlockNumber :: u64
  log_TxHash :: hash
  log_TxIndex :: u64
  log_BlockHash :: hash
  log_Index :: u64
  log_Removed :: bool

datatype 't journalEntry =
    createObjectChange address
  | resetObjectChange "'t stateObject" bool
  | suicideChange address bool int
  | balanceChange address int
  | nonceChange address u64
  | storageChange address hash hash
  | codeChange address "bytes option" bytes
  | refundChange u64
  | addLogChange hash
  | addPreimageChange hash
  | touchChange address
  | accessListAddAccountChange address
  | accessListAddSlotChange address hash

record 't journal =
  j_entries :: "'t journalEntry list"
  j_dirties :: "address \<Rightarrow> int option"

record 't StateDB =
  sdb_originalRoot :: hash
  sdb_trie :: 't
  sdb_snap :: "snap option"
  sdb_snapDestructs :: "hash set"
  sdb_snapAccounts :: "hash \<Rightarrow> bytes option"
  sdb_snapStorage :: "hash \<Rightarrow> (hash \<Rightarrow> bytes option) option"
  sdb_stateObjects :: "address \<Rightarrow> 't stateObject option"
  sdb_stateObjectsPending :: "address set"
  sdb_stateObjectsDirty :: "address set"
  sdb_dbErr :: "state_error option"
  sdb_refund :: u64
  sdb_thash :: hash
  sdb_bhash :: hash
  sdb_txIndex :: int
  sdb_logs :: "hash \<Rightarrow> Log list option"
  sdb_logSize :: u64
  sdb_preimages :: "hash \<Rightarrow> bytes option"
  sdb_accessList :: accessList
  sdb_journal :: "'t journal"
  sdb_validRevisions :: "(int \<times> nat) list"
  sdb_nextRevisionId :: int

section \<open>The journal\<close>

definition newJournal :: "'t journal" where
  "newJournal = \<lparr>j_entries = [], j_dirties = (\<lambda>_. None)\<rparr>"

fun dirtied :: "'t journalEntry \<Rightarrow> address option" where
  "dirtied (createObjectChange a) = Some a"
| "dirtied (resetObjectChange _ _) = None"
| "dirtied (suicideChange a _ _) = Some a"
| "dirtied (balanceChange a _) = Some a"
| "dirtied (nonceChange a _) = Some a"
| "dirtied (storageChange a _ _) = Some a"
| "dirtied (codeChange a _ _) = Some a"
| "dirtied (refundChange _) = None"
| "dirtied (addLogChange _) = None"
| "dirtied (addPreimageChange _) = None"
| "dirtied (touchChange a) = Some a"
| "dirtied (accessListAddAccountChange _) = None"
| "dirtied (accessListAddSlotChange _ _) = None"

definition dirty_count :: "'t journal \<Rightarrow> address \<Rightarrow> int" where
  "dirty_count j a = (case j_dirties j a of None \<Rightarrow> 0 | Some n \<Rightarrow> n)"

definition journal_dirty :: "'t journal \<Rightarrow> address \<Rightarrow> 't journal" where
  "journal_dirty j a = j\<lparr>j_dirties := (j_dirties j)(a \<mapsto> dirty_count j a + 1)\<rparr>"

definition journal_append :: "'t journal \<Rightarrow> 't journalEntry \<Rightarrow> 't journal" where
  "journal_append j entry =
     (let j = j\<lparr>j_entries := j_entries j @ [entry]\<rparr>
      in case dirtied entry of None \<Rightarrow> j | Some a \<Rightarrow> journal_dirty j a)"

text \<open>Dropping the dirty tracking of an entry that has been taken back.\<close>

definition journal_undirty :: "'t journal \<Rightarrow> 't journalEntry \<Rightarrow> 't journal" where
  "journal_undirty j entry =
     (case dirtied entry of
        None \<Rightarrow> j
      | Some a \<Rightarrow>
          j\<lparr>j_dirties := (j_dirties j)(a := if dirty_count j a - 1 = 0 then None else Some (dirty_count j a - 1))\<rparr>)"

definition journal_length :: "'t journal \<Rightarrow> nat" where
  "journal_length j = length (j_entries j)"

definition sdb_append :: "'t StateDB \<Rightarrow> 't journalEntry \<Rightarrow> 't StateDB" where
  "sdb_append s entry = s\<lparr>sdb_journal := journal_append (sdb_journal s) entry\<rparr>"

definition ripemd :: address where
  "ripemd = 3"

section \<open>Objects of the state\<close>

text \<open>\<^verbatim>\<open>New\<close> after \<^verbatim>\<open>OpenTrie\<close> has given the trie of the root; it returns the error of \<^verbatim>\<open>OpenTrie\<close> and no state otherwise.\<close>

definition New :: "'t state_env \<Rightarrow> hash \<Rightarrow> 't \<Rightarrow> snap option \<Rightarrow> 't StateDB" where
  "New env root tr sn =
     \<lparr>sdb_originalRoot = root, sdb_trie = tr, sdb_snap = sn,
      sdb_snapDestructs = {}, sdb_snapAccounts = (\<lambda>_. None), sdb_snapStorage = (\<lambda>_. None),
      sdb_stateObjects = (\<lambda>_. None), sdb_stateObjectsPending = {}, sdb_stateObjectsDirty = {}, sdb_dbErr = None,
      sdb_refund = 0, sdb_thash = 0, sdb_bhash = 0, sdb_txIndex = 0, sdb_logs = (\<lambda>_. None), sdb_logSize = 0,
      sdb_preimages = (\<lambda>_. None), sdb_accessList = newAccessList, sdb_journal = newJournal,
      sdb_validRevisions = [], sdb_nextRevisionId = 0\<rparr>"

definition sdb_setError :: "'t StateDB \<Rightarrow> state_error option \<Rightarrow> 't StateDB" where
  "sdb_setError s err = s\<lparr>sdb_dbErr := first_error (sdb_dbErr s) err\<rparr>"

definition setStateObject :: "'t StateDB \<Rightarrow> 't stateObject \<Rightarrow> 't StateDB" where
  "setStateObject s obj = s\<lparr>sdb_stateObjects := (sdb_stateObjects s)(so_address obj \<mapsto> obj)\<rparr>"

text \<open>The account as the snapshot or the trie has it, and the error of the trie.\<close>

definition load_trie_object :: "'t state_env \<Rightarrow> 't \<Rightarrow> address \<Rightarrow> state_error option \<times> 't stateObject option" where
  "load_trie_object env tr addr =
     (case se_TryGet env tr (addr_Bytes addr) of
        Inl err \<Rightarrow> (Some (ErrGetStateObject addr err), None)
      | Inr enc \<Rightarrow>
          (if length enc = 0 then (None, None)
           else case decode_account enc of
                  None \<Rightarrow> (None, None)
                | Some data \<Rightarrow>
                    (None, Some (newObject (se_keccak env) addr (acc_Nonce data) (Some (acc_Balance data))
                       (acc_Root data) (Some (acc_CodeHash data))))))"

definition load_object ::
  "'t state_env \<Rightarrow> 't \<Rightarrow> snap option \<Rightarrow> address \<Rightarrow> state_error option \<times> 't stateObject option" where
  "load_object env tr sn addr =
     (case sn of
        None \<Rightarrow> load_trie_object env tr addr
      | Some sp \<Rightarrow>
          (case snap_Account sp (se_keccak env (addr_Bytes addr)) of
             Inr None \<Rightarrow> (None, None)
           | Inr (Some acc) \<Rightarrow>
               (let codeHash = (if length (sa_CodeHash acc) = 0 then emptyCodeHash (se_keccak env) else sa_CodeHash acc);
                    root = (if BytesToHash (sa_Root acc) = 0 then emptyRoot else BytesToHash (sa_Root acc))
                in (None, Some (newObject (se_keccak env) addr (sa_Nonce acc) (Some (sa_Balance acc)) root (Some codeHash))))
           | Inl _ \<Rightarrow> load_trie_object env tr addr))"

definition getDeletedStateObject ::
  "'t state_env \<Rightarrow> 't StateDB \<Rightarrow> address \<Rightarrow> 't stateObject option \<times> 't StateDB" where
  "getDeletedStateObject env s addr =
     (case sdb_stateObjects s addr of
        Some obj \<Rightarrow> (Some obj, s)
      | None \<Rightarrow>
          (case load_object env (sdb_trie s) (sdb_snap s) addr of
             (err, None) \<Rightarrow> (None, sdb_setError s err)
           | (err, Some obj) \<Rightarrow> (Some obj, setStateObject s obj)))"

definition getStateObject ::
  "'t state_env \<Rightarrow> 't StateDB \<Rightarrow> address \<Rightarrow> 't stateObject option \<times> 't StateDB" where
  "getStateObject env s addr =
     (case getDeletedStateObject env s addr of
        (Some obj, s) \<Rightarrow> (if \<not> so_deleted obj then Some obj else None, s)
      | (None, s) \<Rightarrow> (None, s))"

definition createObject ::
  "'t state_env \<Rightarrow> 't StateDB \<Rightarrow> address \<Rightarrow> ('t stateObject \<times> 't stateObject option) \<times> 't StateDB" where
  "createObject env s addr =
     (let (prev, s) = getDeletedStateObject env s addr;
          (prevdestruct, s) =
            (case (sdb_snap s, prev) of
               (Some _, Some p) \<Rightarrow>
                 (so_addrHash p \<in> sdb_snapDestructs s,
                  s\<lparr>sdb_snapDestructs := insert (so_addrHash p) (sdb_snapDestructs s)\<rparr>)
             | _ \<Rightarrow> (False, s));
          newobj = obj_setNonce (newObject (se_keccak env) addr 0 None 0 None) 0;
          s = (case prev of
                 None \<Rightarrow> sdb_append s (createObjectChange addr)
               | Some p \<Rightarrow> sdb_append s (resetObjectChange p prevdestruct));
          s = setStateObject s newobj
      in ((newobj, case prev of Some p \<Rightarrow> (if \<not> so_deleted p then Some p else None) | None \<Rightarrow> None), s))"

definition GetOrNewStateObject ::
  "'t state_env \<Rightarrow> 't StateDB \<Rightarrow> address \<Rightarrow> 't stateObject \<times> 't StateDB" where
  "GetOrNewStateObject env s addr =
     (case getStateObject env s addr of
        (Some obj, s) \<Rightarrow> (obj, s)
      | (None, s) \<Rightarrow> (case createObject env s addr of ((obj, _), s) \<Rightarrow> (obj, s)))"

definition CreateAccount :: "'t state_env \<Rightarrow> 't StateDB \<Rightarrow> address \<Rightarrow> 't StateDB" where
  "CreateAccount env s addr =
     (case createObject env s addr of
        ((newObj, Some prev), s) \<Rightarrow> setStateObject s (obj_setBalance newObj (acc_Balance (so_data prev)))
      | ((newObj, None), s) \<Rightarrow> s)"

section \<open>Readers\<close>

definition Exist :: "'t state_env \<Rightarrow> 't StateDB \<Rightarrow> address \<Rightarrow> bool \<times> 't StateDB" where
  "Exist env s addr = (case getStateObject env s addr of (obj, s) \<Rightarrow> (obj \<noteq> None, s))"

definition Empty :: "'t state_env \<Rightarrow> 't StateDB \<Rightarrow> address \<Rightarrow> bool \<times> 't StateDB" where
  "Empty env s addr =
     (case getStateObject env s addr of
        (None, s) \<Rightarrow> (True, s)
      | (Some so, s) \<Rightarrow> (obj_empty (se_keccak env) so, s))"

definition GetBalance :: "'t state_env \<Rightarrow> 't StateDB \<Rightarrow> address \<Rightarrow> int \<times> 't StateDB" where
  "GetBalance env s addr =
     (case getStateObject env s addr of (None, s) \<Rightarrow> (0, s) | (Some obj, s) \<Rightarrow> (acc_Balance (so_data obj), s))"

definition GetNonce :: "'t state_env \<Rightarrow> 't StateDB \<Rightarrow> address \<Rightarrow> u64 \<times> 't StateDB" where
  "GetNonce env s addr =
     (case getStateObject env s addr of (None, s) \<Rightarrow> (0, s) | (Some obj, s) \<Rightarrow> (acc_Nonce (so_data obj), s))"

definition GetCode :: "'t state_env \<Rightarrow> 't StateDB \<Rightarrow> address \<Rightarrow> bytes option \<times> 't StateDB" where
  "GetCode env s addr =
     (case getStateObject env s addr of
        (None, s) \<Rightarrow> (None, s)
      | (Some obj, s) \<Rightarrow> (case obj_Code env obj of (code, obj) \<Rightarrow> (code, setStateObject s obj)))"

definition GetCodeSize :: "'t state_env \<Rightarrow> 't StateDB \<Rightarrow> address \<Rightarrow> int \<times> 't StateDB" where
  "GetCodeSize env s addr =
     (case getStateObject env s addr of
        (None, s) \<Rightarrow> (0, s)
      | (Some obj, s) \<Rightarrow> (case obj_CodeSize env obj of (sz, obj) \<Rightarrow> (sz, setStateObject s obj)))"

definition GetCodeHash :: "'t state_env \<Rightarrow> 't StateDB \<Rightarrow> address \<Rightarrow> hash \<times> 't StateDB" where
  "GetCodeHash env s addr =
     (case getStateObject env s addr of
        (None, s) \<Rightarrow> (0, s)
      | (Some obj, s) \<Rightarrow> (BytesToHash (acc_CodeHash (so_data obj)), s))"

definition GetState :: "'t state_env \<Rightarrow> 't StateDB \<Rightarrow> address \<Rightarrow> hash \<Rightarrow> hash \<times> 't StateDB" where
  "GetState env s addr key =
     (case getStateObject env s addr of
        (None, s) \<Rightarrow> (0, s)
      | (Some obj, s) \<Rightarrow>
          (case obj_GetState env (sdb_snap s) (sdb_snapDestructs s) obj key of (v, obj) \<Rightarrow> (v, setStateObject s obj)))"

definition GetCommittedState :: "'t state_env \<Rightarrow> 't StateDB \<Rightarrow> address \<Rightarrow> hash \<Rightarrow> hash \<times> 't StateDB" where
  "GetCommittedState env s addr key =
     (case getStateObject env s addr of
        (None, s) \<Rightarrow> (0, s)
      | (Some obj, s) \<Rightarrow>
          (case obj_GetCommittedState env (sdb_snap s) (sdb_snapDestructs s) obj key of
             (v, obj) \<Rightarrow> (v, setStateObject s obj)))"

definition HasSuicided :: "'t state_env \<Rightarrow> 't StateDB \<Rightarrow> address \<Rightarrow> bool \<times> 't StateDB" where
  "HasSuicided env s addr =
     (case getStateObject env s addr of (None, s) \<Rightarrow> (False, s) | (Some obj, s) \<Rightarrow> (so_suicided obj, s))"

definition GetLogs :: "'t StateDB \<Rightarrow> hash \<Rightarrow> Log list" where
  "GetLogs s h = (case sdb_logs s h of None \<Rightarrow> [] | Some l \<Rightarrow> l)"

definition GetRefund :: "'t StateDB \<Rightarrow> u64" where
  "GetRefund s = sdb_refund s"

section \<open>Setters\<close>

definition obj_touch :: "'t StateDB \<Rightarrow> 't stateObject \<Rightarrow> 't StateDB" where
  "obj_touch s obj =
     (let s = sdb_append s (touchChange (so_address obj))
      in if so_address obj = ripemd then s\<lparr>sdb_journal := journal_dirty (sdb_journal s) (so_address obj)\<rparr> else s)"

definition obj_SetBalance :: "'t StateDB \<Rightarrow> 't stateObject \<Rightarrow> int \<Rightarrow> 't StateDB" where
  "obj_SetBalance s obj amount =
     setStateObject (sdb_append s (balanceChange (so_address obj) (acc_Balance (so_data obj)))) (obj_setBalance obj amount)"

definition obj_AddBalance :: "'t state_env \<Rightarrow> 't StateDB \<Rightarrow> 't stateObject \<Rightarrow> int \<Rightarrow> 't StateDB" where
  "obj_AddBalance env s obj amount =
     (if amount = 0 then (if obj_empty (se_keccak env) obj then obj_touch s obj else s)
      else obj_SetBalance s obj (acc_Balance (so_data obj) + amount))"

definition obj_SubBalance :: "'t StateDB \<Rightarrow> 't stateObject \<Rightarrow> int \<Rightarrow> 't StateDB" where
  "obj_SubBalance s obj amount =
     (if amount = 0 then s else obj_SetBalance s obj (acc_Balance (so_data obj) - amount))"

definition obj_SetNonce :: "'t StateDB \<Rightarrow> 't stateObject \<Rightarrow> u64 \<Rightarrow> 't StateDB" where
  "obj_SetNonce s obj nonce =
     setStateObject (sdb_append s (nonceChange (so_address obj) (acc_Nonce (so_data obj)))) (obj_setNonce obj nonce)"

definition obj_SetCode :: "'t state_env \<Rightarrow> 't StateDB \<Rightarrow> 't stateObject \<Rightarrow> hash \<Rightarrow> bytes option \<Rightarrow> 't StateDB" where
  "obj_SetCode env s obj codeHash code =
     (let (prevcode, obj) = obj_Code env obj
      in setStateObject (sdb_append s (codeChange (so_address obj) prevcode (acc_CodeHash (so_data obj))))
           (obj_setCode obj codeHash code))"

definition obj_SetState :: "'t state_env \<Rightarrow> 't StateDB \<Rightarrow> 't stateObject \<Rightarrow> hash \<Rightarrow> hash \<Rightarrow> 't StateDB" where
  "obj_SetState env s obj key value =
     (case so_fakeStorage obj of
        Some fake \<Rightarrow> setStateObject s (obj\<lparr>so_fakeStorage := Some (fake(key \<mapsto> value))\<rparr>)
      | None \<Rightarrow>
          (let (prev, obj) = obj_GetState env (sdb_snap s) (sdb_snapDestructs s) obj key
           in if prev = value then setStateObject s obj
              else setStateObject (sdb_append s (storageChange (so_address obj) key prev)) (obj_setState obj key value)))"

definition AddBalance :: "'t state_env \<Rightarrow> 't StateDB \<Rightarrow> address \<Rightarrow> int \<Rightarrow> 't StateDB" where
  "AddBalance env s addr amount =
     (case GetOrNewStateObject env s addr of (obj, s) \<Rightarrow> obj_AddBalance env s obj amount)"

definition SubBalance :: "'t state_env \<Rightarrow> 't StateDB \<Rightarrow> address \<Rightarrow> int \<Rightarrow> 't StateDB" where
  "SubBalance env s addr amount =
     (case GetOrNewStateObject env s addr of (obj, s) \<Rightarrow> obj_SubBalance s obj amount)"

definition SetBalance :: "'t state_env \<Rightarrow> 't StateDB \<Rightarrow> address \<Rightarrow> int \<Rightarrow> 't StateDB" where
  "SetBalance env s addr amount =
     (case GetOrNewStateObject env s addr of (obj, s) \<Rightarrow> obj_SetBalance s obj amount)"

definition SetNonce :: "'t state_env \<Rightarrow> 't StateDB \<Rightarrow> address \<Rightarrow> u64 \<Rightarrow> 't StateDB" where
  "SetNonce env s addr nonce =
     (case GetOrNewStateObject env s addr of (obj, s) \<Rightarrow> obj_SetNonce s obj nonce)"

text \<open>The hash of a \<^verbatim>\<open>nil\<close> slice is that of the empty one.\<close>

definition SetCode :: "'t state_env \<Rightarrow> 't StateDB \<Rightarrow> address \<Rightarrow> bytes option \<Rightarrow> 't StateDB" where
  "SetCode env s addr code =
     (case GetOrNewStateObject env s addr of
        (obj, s) \<Rightarrow> obj_SetCode env s obj (se_keccak env (case code of None \<Rightarrow> [] | Some c \<Rightarrow> c)) code)"

definition SetState :: "'t state_env \<Rightarrow> 't StateDB \<Rightarrow> address \<Rightarrow> hash \<Rightarrow> hash \<Rightarrow> 't StateDB" where
  "SetState env s addr key value =
     (case GetOrNewStateObject env s addr of (obj, s) \<Rightarrow> obj_SetState env s obj key value)"

definition SetStorage :: "'t state_env \<Rightarrow> 't StateDB \<Rightarrow> address \<Rightarrow> Storage \<Rightarrow> 't StateDB" where
  "SetStorage env s addr storage =
     (case GetOrNewStateObject env s addr of (obj, s) \<Rightarrow> setStateObject s (obj_SetStorage obj storage))"

definition Suicide :: "'t state_env \<Rightarrow> 't StateDB \<Rightarrow> address \<Rightarrow> bool \<times> 't StateDB" where
  "Suicide env s addr =
     (case getStateObject env s addr of
        (None, s) \<Rightarrow> (False, s)
      | (Some obj, s) \<Rightarrow>
          (True, setStateObject
             (sdb_append s (suicideChange addr (so_suicided obj) (acc_Balance (so_data obj))))
             (obj_setBalance (markSuicided obj) 0)))"

definition AddLog :: "'t StateDB \<Rightarrow> Log \<Rightarrow> 't StateDB" where
  "AddLog s log =
     (let s = sdb_append s (addLogChange (sdb_thash s));
          log = log\<lparr>log_TxHash := sdb_thash s, log_BlockHash := sdb_bhash s,
                    log_TxIndex := word_of_int (sdb_txIndex s), log_Index := sdb_logSize s\<rparr>
      in s\<lparr>sdb_logs := (sdb_logs s)(sdb_thash s \<mapsto> GetLogs s (sdb_thash s) @ [log]),
           sdb_logSize := sdb_logSize s + 1\<rparr>)"

definition AddPreimage :: "'t StateDB \<Rightarrow> hash \<Rightarrow> bytes \<Rightarrow> 't StateDB" where
  "AddPreimage s h preimage =
     (if sdb_preimages s h = None
      then (sdb_append s (addPreimageChange h))\<lparr>sdb_preimages := (sdb_preimages s)(h \<mapsto> preimage)\<rparr>
      else s)"

definition AddRefund :: "'t StateDB \<Rightarrow> u64 \<Rightarrow> 't StateDB" where
  "AddRefund s gas = (sdb_append s (refundChange (sdb_refund s)))\<lparr>sdb_refund := sdb_refund s + gas\<rparr>"

definition SubRefund :: "'t StateDB \<Rightarrow> u64 \<Rightarrow> 't StateDB option" where
  "SubRefund s gas =
     (if gas > sdb_refund s then None
      else Some ((sdb_append s (refundChange (sdb_refund s)))\<lparr>sdb_refund := sdb_refund s - gas\<rparr>))"

definition AddAddressToAccessList :: "'t StateDB \<Rightarrow> address \<Rightarrow> 't StateDB" where
  "AddAddressToAccessList s addr =
     (case AddAddress (sdb_accessList s) addr of
        (changed, al) \<Rightarrow>
          (let s = s\<lparr>sdb_accessList := al\<rparr>
           in if changed then sdb_append s (accessListAddAccountChange addr) else s))"

definition AddSlotToAccessList :: "'t StateDB \<Rightarrow> address \<Rightarrow> hash \<Rightarrow> 't StateDB option" where
  "AddSlotToAccessList s addr slot =
     (case AddSlot (sdb_accessList s) addr slot of
        None \<Rightarrow> None
      | Some ((addrMod, slotMod), al) \<Rightarrow>
          (let s = s\<lparr>sdb_accessList := al\<rparr>;
               s = (if addrMod then sdb_append s (accessListAddAccountChange addr) else s);
               s = (if slotMod then sdb_append s (accessListAddSlotChange addr slot) else s)
           in Some s))"

definition AddressInAccessList :: "'t StateDB \<Rightarrow> address \<Rightarrow> bool" where
  "AddressInAccessList s addr = ContainsAddress (sdb_accessList s) addr"

definition SlotInAccessList :: "'t StateDB \<Rightarrow> address \<Rightarrow> hash \<Rightarrow> (bool \<times> bool) option" where
  "SlotInAccessList s addr slot = Contains (sdb_accessList s) addr slot"

definition sdb_Prepare :: "'t StateDB \<Rightarrow> hash \<Rightarrow> hash \<Rightarrow> int \<Rightarrow> 't StateDB" where
  "sdb_Prepare s thash bhash ti =
     s\<lparr>sdb_thash := thash, sdb_bhash := bhash, sdb_txIndex := ti, sdb_accessList := newAccessList\<rparr>"

section \<open>Snapshots\<close>

text \<open>Changing the live object of an address; there must be one.\<close>

definition with_object ::
  "'t state_env \<Rightarrow> 't StateDB \<Rightarrow> address \<Rightarrow> ('t stateObject \<Rightarrow> 't stateObject) \<Rightarrow> 't StateDB option" where
  "with_object env s addr f =
     (case getStateObject env s addr of (None, _) \<Rightarrow> None | (Some obj, s) \<Rightarrow> Some (setStateObject s (f obj)))"

fun entry_revert :: "'t state_env \<Rightarrow> 't StateDB \<Rightarrow> 't journalEntry \<Rightarrow> 't StateDB option" where
  "entry_revert env s (createObjectChange a) =
     Some (s\<lparr>sdb_stateObjects := (sdb_stateObjects s)(a := None),
             sdb_stateObjectsDirty := sdb_stateObjectsDirty s - {a}\<rparr>)"
| "entry_revert env s (resetObjectChange prev prevdestruct) =
     (let s = setStateObject s prev
      in Some (if \<not> prevdestruct \<and> sdb_snap s \<noteq> None
               then s\<lparr>sdb_snapDestructs := sdb_snapDestructs s - {so_addrHash prev}\<rparr> else s))"
| "entry_revert env s (suicideChange a prev prevbalance) =
     (case getStateObject env s a of
        (None, s) \<Rightarrow> Some s
      | (Some obj, s) \<Rightarrow> Some (setStateObject s (obj_setBalance (obj\<lparr>so_suicided := prev\<rparr>) prevbalance)))"
| "entry_revert env s (balanceChange a prev) = with_object env s a (\<lambda>obj. obj_setBalance obj prev)"
| "entry_revert env s (nonceChange a prev) = with_object env s a (\<lambda>obj. obj_setNonce obj prev)"
| "entry_revert env s (storageChange a key prevalue) = with_object env s a (\<lambda>obj. obj_setState obj key prevalue)"
| "entry_revert env s (codeChange a prevcode prevhash) =
     with_object env s a (\<lambda>obj. obj_setCode obj (BytesToHash prevhash) prevcode)"
| "entry_revert env s (refundChange prev) = Some (s\<lparr>sdb_refund := prev\<rparr>)"
| "entry_revert env s (addLogChange txhash) =
     (let logs = GetLogs s txhash
      in if length logs = 0 then None
         else Some (s\<lparr>sdb_logs := (sdb_logs s)(txhash := if length logs = 1 then None else Some (butlast logs)),
                      sdb_logSize := sdb_logSize s - 1\<rparr>))"
| "entry_revert env s (addPreimageChange h) = Some (s\<lparr>sdb_preimages := (sdb_preimages s)(h := None)\<rparr>)"
| "entry_revert env s (touchChange a) = Some s"
| "entry_revert env s (accessListAddAccountChange a) =
     Some (s\<lparr>sdb_accessList := DeleteAddress (sdb_accessList s) a\<rparr>)"
| "entry_revert env s (accessListAddSlotChange a slot) =
     map_option (\<lambda>al. s\<lparr>sdb_accessList := al\<rparr>) (DeleteSlot (sdb_accessList s) a slot)"

text \<open>The loop of \<^verbatim>\<open>journal.revert\<close>, over the entries from the last one on.\<close>

fun revert_loop :: "'t state_env \<Rightarrow> 't journalEntry list \<Rightarrow> 't StateDB \<Rightarrow> 't StateDB option" where
  "revert_loop env [] s = Some s"
| "revert_loop env (e # es) s =
     (case entry_revert env s e of
        None \<Rightarrow> None
      | Some s \<Rightarrow> revert_loop env es (s\<lparr>sdb_journal := journal_undirty (sdb_journal s) e\<rparr>))"

definition journal_revert :: "'t state_env \<Rightarrow> 't StateDB \<Rightarrow> nat \<Rightarrow> 't StateDB option" where
  "journal_revert env s snapshot =
     (let entries = j_entries (sdb_journal s)
      in if length entries < snapshot then None
         else map_option
                (\<lambda>s. s\<lparr>sdb_journal := (sdb_journal s)\<lparr>j_entries := take snapshot (j_entries (sdb_journal s))\<rparr>\<rparr>)
                (revert_loop env (rev (drop snapshot entries)) s))"

definition Snapshot :: "'t StateDB \<Rightarrow> int \<times> 't StateDB" where
  "Snapshot s =
     (let id = sdb_nextRevisionId s
      in (id, s\<lparr>sdb_nextRevisionId := sdb_nextRevisionId s + 1,
                sdb_validRevisions := sdb_validRevisions s @ [(id, journal_length (sdb_journal s))]\<rparr>))"

text \<open>\<^verbatim>\<open>sort.Search\<close>: the least index at which a monotone predicate holds, by bisection.\<close>

function search_loop :: "(nat \<Rightarrow> bool) \<Rightarrow> nat \<Rightarrow> nat \<Rightarrow> nat" where
  "search_loop f i j =
     (if i < j
      then let h = (i + j) div 2 in if \<not> f h then search_loop f (h + 1) j else search_loop f i h
      else i)"
  by pat_completeness auto
termination
  by (relation "measure (\<lambda>(f, i, j). j - i)") (auto simp: Let_def)

declare search_loop.simps [simp del]

definition sort_Search :: "nat \<Rightarrow> (nat \<Rightarrow> bool) \<Rightarrow> nat" where
  "sort_Search n f = search_loop f 0 n"

definition RevertToSnapshot :: "'t state_env \<Rightarrow> 't StateDB \<Rightarrow> int \<Rightarrow> 't StateDB option" where
  "RevertToSnapshot env s revid =
     (let revisions = sdb_validRevisions s;
          idx = sort_Search (length revisions) (\<lambda>i. fst (revisions ! i) \<ge> revid)
      in if idx = length revisions \<or> fst (revisions ! idx) \<noteq> revid then None
         else map_option (\<lambda>s. s\<lparr>sdb_validRevisions := take idx (sdb_validRevisions s)\<rparr>)
                (journal_revert env s (snd (revisions ! idx))))"

section \<open>The end of a transaction\<close>

definition clearJournalAndRefund :: "'t StateDB \<Rightarrow> 't StateDB" where
  "clearJournalAndRefund s =
     (let s = (if length (j_entries (sdb_journal s)) > 0 then s\<lparr>sdb_journal := newJournal, sdb_refund := 0\<rparr> else s)
      in s\<lparr>sdb_validRevisions := []\<rparr>)"

text \<open>The body of the loop over the dirty addresses.\<close>

definition finalise_one :: "'t state_env \<Rightarrow> bool \<Rightarrow> address \<Rightarrow> 't StateDB \<Rightarrow> 't StateDB" where
  "finalise_one env deleteEmptyObjects addr s =
     (case sdb_stateObjects s addr of
        None \<Rightarrow> s
      | Some obj \<Rightarrow>
          (let s = (if so_suicided obj \<or> deleteEmptyObjects \<and> obj_empty (se_keccak env) obj
              then (let s = s\<lparr>sdb_stateObjects := (sdb_stateObjects s)(addr \<mapsto> obj\<lparr>so_deleted := True\<rparr>)\<rparr>
                 in if sdb_snap s \<noteq> None
                    then s\<lparr>sdb_snapDestructs := insert (so_addrHash obj) (sdb_snapDestructs s),
                           sdb_snapAccounts := (sdb_snapAccounts s)(so_addrHash obj := None),
                           sdb_snapStorage := (sdb_snapStorage s)(so_addrHash obj := None)\<rparr>
                    else s)
              else s\<lparr>sdb_stateObjects := (sdb_stateObjects s)(addr \<mapsto> obj_finalise obj)\<rparr>)
           in s\<lparr>sdb_stateObjectsPending := insert addr (sdb_stateObjectsPending s),
                sdb_stateObjectsDirty := insert addr (sdb_stateObjectsDirty s)\<rparr>))"

definition Finalise :: "'t state_env \<Rightarrow> address list \<Rightarrow> bool \<Rightarrow> 't StateDB \<Rightarrow> 't StateDB" where
  "Finalise env order deleteEmptyObjects s =
     clearJournalAndRefund (fold (finalise_one env deleteEmptyObjects) order s)"

text \<open>\<^verbatim>\<open>Copy\<close>: a pending or dirty address without an object is a nil dereference.\<close>

definition sdb_Copy :: "'t state_env \<Rightarrow> 't StateDB \<Rightarrow> 't StateDB option" where
  "sdb_Copy env s =
     (let changed = sdb_stateObjectsPending s \<union> sdb_stateObjectsDirty s;
          dirties = {a. j_dirties (sdb_journal s) a \<noteq> None \<and> sdb_stateObjects s a \<noteq> None}
      in if \<exists>a \<in> changed. sdb_stateObjects s a = None then None
         else Some \<lparr>sdb_originalRoot = 0, sdb_trie = sdb_trie s, sdb_snap = None,
           sdb_snapDestructs = {}, sdb_snapAccounts = (\<lambda>_. None), sdb_snapStorage = (\<lambda>_. None),
           sdb_stateObjects =
             (\<lambda>a. if a \<in> dirties \<or> a \<in> changed
                  then map_option (deepCopy (se_keccak env)) (sdb_stateObjects s a) else None),
           sdb_stateObjectsPending = dirties \<union> sdb_stateObjectsPending s,
           sdb_stateObjectsDirty = dirties \<union> sdb_stateObjectsDirty s,
           sdb_dbErr = None, sdb_refund = sdb_refund s, sdb_thash = 0, sdb_bhash = 0, sdb_txIndex = 0,
           sdb_logs = sdb_logs s, sdb_logSize = sdb_logSize s, sdb_preimages = sdb_preimages s,
           sdb_accessList = al_Copy (sdb_accessList s), sdb_journal = newJournal,
           sdb_validRevisions = [], sdb_nextRevisionId = 0\<rparr>)"

end
