(* ===== verification/State_Revert.thy ===== *)
theory State_Revert
  imports State_DB
begin

text \<open>
  Snapshots restore the state. \<open>sdb_eq\<close> relates two states that no reader can tell apart (they may differ
  in what they have cached and in remembered database errors). Every operation appends entries to the
  journal whose reversal gives back an equal state, reversing an entry respects \<open>sdb_eq\<close>, and so going back to a
  snapshot undoes any run of operations, nested snapshots and reversals included.

  \<open>db_ok\<close> is what is relied on of the database: stored accounts have 32-byte code hashes, an account that is
  absent has no storage, and the hash function does not collide on addresses.
\<close>

section \<open>The object of an address\<close>

definition view_object :: "'t state_env \<Rightarrow> 't StateDB \<Rightarrow> address \<Rightarrow> 't stateObject option" where
  "view_object env s a =
     (case sdb_stateObjects s a of
        Some obj \<Rightarrow> Some obj
      | None \<Rightarrow> snd (load_object env (sdb_trie s) (sdb_snap s) a))"

lemma view_object_frame [simp]:
  "view_object env (s\<lparr>sdb_dbErr := x1\<rparr>) a = view_object env s a"
  "view_object env (s\<lparr>sdb_refund := x2\<rparr>) a = view_object env s a"
  "view_object env (s\<lparr>sdb_logs := x3\<rparr>) a = view_object env s a"
  "view_object env (s\<lparr>sdb_logSize := x4\<rparr>) a = view_object env s a"
  "view_object env (s\<lparr>sdb_preimages := x5\<rparr>) a = view_object env s a"
  "view_object env (s\<lparr>sdb_accessList := x6\<rparr>) a = view_object env s a"
  "view_object env (s\<lparr>sdb_journal := x7\<rparr>) a = view_object env s a"
  "view_object env (s\<lparr>sdb_snapDestructs := x8\<rparr>) a = view_object env s a"
  "view_object env (s\<lparr>sdb_stateObjectsDirty := x9\<rparr>) a = view_object env s a"
  "view_object env (s\<lparr>sdb_validRevisions := x10\<rparr>) a = view_object env s a"
  "view_object env (s\<lparr>sdb_nextRevisionId := x11\<rparr>) a = view_object env s a"
  "view_object env (sdb_append s e) a = view_object env s a"
  "view_object env (sdb_setError s err) a = view_object env s a"
  by (simp_all add: view_object_def sdb_append_def sdb_setError_def cong: option.case_cong)

lemma view_object_set:
  "view_object env (setStateObject s obj) a = (if a = so_address obj then Some obj else view_object env s a)"
  by (simp add: view_object_def setStateObject_def cong: option.case_cong)

lemma getDeletedStateObject_fst: "fst (getDeletedStateObject env s a) = view_object env s a"
  by (auto simp: getDeletedStateObject_def view_object_def split: option.split prod.split)

definition live_object :: "'t state_env \<Rightarrow> 't StateDB \<Rightarrow> address \<Rightarrow> 't stateObject option" where
  "live_object env s a =
     (case view_object env s a of Some obj \<Rightarrow> (if so_deleted obj then None else Some obj) | None \<Rightarrow> None)"

lemma getStateObject_fst: "fst (getStateObject env s a) = live_object env s a"
proof -
  obtain r s' where "getDeletedStateObject env s a = (r, s')" by fastforce
  moreover from this have "r = view_object env s a" using getDeletedStateObject_fst [of env s a] by simp
  ultimately show ?thesis by (simp add: getStateObject_def live_object_def split: option.split)
qed

definition sdb_rest where
  "sdb_rest s =
     ((sdb_originalRoot s, sdb_trie s, sdb_snap s, sdb_snapDestructs s, sdb_snapAccounts s, sdb_snapStorage s,
       sdb_stateObjectsPending s, sdb_stateObjectsDirty s),
      (sdb_refund s, sdb_thash s, sdb_bhash s, sdb_txIndex s, sdb_logs s, sdb_logSize s, sdb_preimages s,
       sdb_accessList s))"

lemma sdb_rest_eq: "sdb_rest s = sdb_rest t \<longleftrightarrow>
  sdb_originalRoot s = sdb_originalRoot t \<and> sdb_trie s = sdb_trie t \<and> sdb_snap s = sdb_snap t
  \<and> sdb_snapDestructs s = sdb_snapDestructs t \<and> sdb_snapAccounts s = sdb_snapAccounts t
  \<and> sdb_snapStorage s = sdb_snapStorage t \<and> sdb_stateObjectsPending s = sdb_stateObjectsPending t
  \<and> sdb_stateObjectsDirty s = sdb_stateObjectsDirty t \<and> sdb_refund s = sdb_refund t \<and> sdb_thash s = sdb_thash t
  \<and> sdb_bhash s = sdb_bhash t \<and> sdb_txIndex s = sdb_txIndex t \<and> sdb_logs s = sdb_logs t
  \<and> sdb_logSize s = sdb_logSize t \<and> sdb_preimages s = sdb_preimages t \<and> sdb_accessList s = sdb_accessList t"
  by (auto simp: sdb_rest_def)

text \<open>Reading an object into the cache changes the cache and the remembered error only.\<close>

definition cached :: "'t state_env \<Rightarrow> 't StateDB \<Rightarrow> 't StateDB \<Rightarrow> bool" where
  "cached env s t =
     (sdb_rest t = sdb_rest s \<and> sdb_journal t = sdb_journal s \<and> sdb_validRevisions t = sdb_validRevisions s
      \<and> sdb_nextRevisionId t = sdb_nextRevisionId s
      \<and> (\<forall>a. view_object env t a = view_object env s a)
      \<and> (\<forall>a. sdb_stateObjects s a \<noteq> None \<longrightarrow> sdb_stateObjects t a = sdb_stateObjects s a))"

lemma load_object_address:
  "load_object env tr sn a = (e, Some obj) \<Longrightarrow>
   so_address obj = a \<and> so_addrHash obj = se_keccak env (addr_Bytes a) \<and> so_fakeStorage obj = None
   \<and> \<not> so_deleted obj \<and> \<not> so_suicided obj"
  by (auto simp: load_object_def load_trie_object_def newObject_def Let_def
      split: option.splits sum.splits if_splits)

lemma getDeletedStateObject_cached:
  assumes "getDeletedStateObject env s a = (r, t)"
  shows "cached env s t" "r \<noteq> None \<Longrightarrow> sdb_stateObjects t a = r" "r = view_object env s a"
proof -
  show r: "r = view_object env s a" using getDeletedStateObject_fst [of env s a] assms by simp
  show "cached env s t"
  proof (cases "sdb_stateObjects s a")
    case None
    obtain e x where l: "load_object env (sdb_trie s) (sdb_snap s) a = (e, x)" by fastforce
    show ?thesis
    proof (cases x)
      case None
      then have "t = sdb_setError s e" using assms \<open>sdb_stateObjects s a = None\<close> l
        by (simp add: getDeletedStateObject_def)
      then show ?thesis by (simp add: cached_def sdb_rest_eq) (simp add: sdb_setError_def)
    next
      case (Some obj)
      then have t: "t = setStateObject s obj" and "so_address obj = a"
        using assms \<open>sdb_stateObjects s a = None\<close> l load_object_address [of env _ _ a e obj]
        by (auto simp: getDeletedStateObject_def)
      moreover have "view_object env s a = Some obj" using None l Some by (simp add: view_object_def)
      ultimately show ?thesis using None by (auto simp: cached_def view_object_set sdb_rest_eq) (auto simp: setStateObject_def)
    qed
  qed (use assms in \<open>auto simp: getDeletedStateObject_def cached_def\<close>)
  show "sdb_stateObjects t a = r" if "r \<noteq> None"
    using assms that load_object_address [of env "sdb_trie s" "sdb_snap s" a]
    by (auto simp: getDeletedStateObject_def setStateObject_def split: option.splits prod.splits)
qed

lemma getStateObject_cached:
  assumes "getStateObject env s a = (r, t)"
  shows "cached env s t" "r \<noteq> None \<Longrightarrow> sdb_stateObjects t a = r" "r = live_object env s a"
proof -
  show "r = live_object env s a" using getStateObject_fst [of env s a] assms by simp
  obtain r' t' where g: "getDeletedStateObject env s a = (r', t')" by fastforce
  then have *: "t = t'" "r \<noteq> None \<Longrightarrow> r = r'" using assms by (auto simp: getStateObject_def split: option.splits if_splits)
  then show "cached env s t" "r \<noteq> None \<Longrightarrow> sdb_stateObjects t a = r"
    using getDeletedStateObject_cached [OF g] by auto
qed

section \<open>Equal states\<close>

definition obj_rel :: "'t state_env \<Rightarrow> 't StateDB \<Rightarrow> 't stateObject option \<Rightarrow> 't stateObject option \<Rightarrow> bool" where
  "obj_rel env s = rel_option (obj_eq env (sdb_snap s) (sdb_snapDestructs s))"

definition sdb_eq :: "'t state_env \<Rightarrow> 't StateDB \<Rightarrow> 't StateDB \<Rightarrow> bool" where
  "sdb_eq env s t =
     (sdb_rest s = sdb_rest t \<and> (\<forall>a. obj_rel env s (view_object env s a) (view_object env t a)))"

lemma sdb_eq_refl [simp]: "sdb_eq env s s"
  by (simp add: sdb_eq_def obj_rel_def option.rel_refl)

lemma sdb_eq_sym: "sdb_eq env s t \<Longrightarrow> sdb_eq env t s"
  unfolding sdb_eq_def obj_rel_def sdb_rest_eq
  by (metis (mono_tags, lifting) obj_eq_sym option.rel_sel)

lemma sdb_eq_trans:
  assumes "sdb_eq env s t" "sdb_eq env t u"
  shows "sdb_eq env s u"
proof -
  have "obj_rel env s (view_object env s a) (view_object env u a)" for a
  proof -
    have "obj_rel env s (view_object env s a) (view_object env t a)"
      "obj_rel env s (view_object env t a) (view_object env u a)"
      using assms by (auto simp: sdb_eq_def sdb_rest_eq obj_rel_def)
    then show ?thesis
      unfolding obj_rel_def by (auto simp: option_rel_Some1 option_rel_Some2 elim!: option.rel_cases intro: obj_eq_trans)
  qed
  then show ?thesis using assms by (simp add: sdb_eq_def)
qed

lemma cached_eq: "cached env s t \<Longrightarrow> sdb_eq env t s"
  by (simp add: cached_def sdb_eq_def obj_rel_def option.rel_refl)

text \<open>Fields that an equality does not compare.\<close>

lemma sdb_eq_frame [simp]:
  "sdb_eq env (s\<lparr>sdb_journal := j\<rparr>) t = sdb_eq env s t" "sdb_eq env s (t\<lparr>sdb_journal := j\<rparr>) = sdb_eq env s t"
  "sdb_eq env (s\<lparr>sdb_validRevisions := r\<rparr>) t = sdb_eq env s t"
  "sdb_eq env s (t\<lparr>sdb_validRevisions := r\<rparr>) = sdb_eq env s t"
  "sdb_eq env (s\<lparr>sdb_nextRevisionId := n\<rparr>) t = sdb_eq env s t"
  "sdb_eq env s (t\<lparr>sdb_nextRevisionId := n\<rparr>) = sdb_eq env s t"
  "sdb_eq env (s\<lparr>sdb_dbErr := e\<rparr>) t = sdb_eq env s t" "sdb_eq env s (t\<lparr>sdb_dbErr := e\<rparr>) = sdb_eq env s t"
  "sdb_eq env (sdb_append s x) t = sdb_eq env s t" "sdb_eq env s (sdb_append t x) = sdb_eq env s t"
  by (simp_all add: sdb_eq_def sdb_rest_eq obj_rel_def sdb_append_def)

lemma sdb_eq_live:
  assumes "sdb_eq env s t"
  shows "obj_rel env s (live_object env s a) (live_object env t a)"
proof -
  have "obj_rel env s (view_object env s a) (view_object env t a)" using assms by (simp add: sdb_eq_def)
  then show ?thesis
    by (auto simp: obj_rel_def live_object_def obj_eq_def elim!: option.rel_cases)
qed

section \<open>Writing to equal objects\<close>

lemma obj_views_setBalance [simp]:
  "code_view env (obj_setBalance o1 b) = code_view env o1"
  "committed_view env sn d (obj_setBalance o1 b) = committed_view env sn d o1"
  "state_view env sn d (obj_setBalance o1 b) = state_view env sn d o1"
proof -
  show "code_view env (obj_setBalance o1 b) = code_view env o1"
    by (simp add: code_view_eq obj_setBalance_def cong: option.case_cong)
  have "trie_of env (obj_setBalance o1 b) = trie_of env o1" by (rule trie_of_cong) (simp_all add: obj_setBalance_def)
  then show c: "committed_view env sn d (obj_setBalance o1 b) = committed_view env sn d o1"
    by (intro committed_view_cong) (simp_all add: obj_setBalance_def)
  show "state_view env sn d (obj_setBalance o1 b) = state_view env sn d o1"
    by (rule state_view_cong [OF _ _ c]) (simp_all add: obj_setBalance_def)
qed

lemma obj_views_setNonce [simp]:
  "code_view env (obj_setNonce o1 n) = code_view env o1"
  "committed_view env sn d (obj_setNonce o1 n) = committed_view env sn d o1"
  "state_view env sn d (obj_setNonce o1 n) = state_view env sn d o1"
proof -
  show "code_view env (obj_setNonce o1 n) = code_view env o1"
    by (simp add: code_view_eq obj_setNonce_def cong: option.case_cong)
  have "trie_of env (obj_setNonce o1 n) = trie_of env o1" by (rule trie_of_cong) (simp_all add: obj_setNonce_def)
  then show c: "committed_view env sn d (obj_setNonce o1 n) = committed_view env sn d o1"
    by (intro committed_view_cong) (simp_all add: obj_setNonce_def)
  show "state_view env sn d (obj_setNonce o1 n) = state_view env sn d o1"
    by (rule state_view_cong [OF _ _ c]) (simp_all add: obj_setNonce_def)
qed

lemma obj_views_suicided [simp]:
  "code_view env (o1\<lparr>so_suicided := x\<rparr>) = code_view env o1"
  "committed_view env sn d (o1\<lparr>so_suicided := x\<rparr>) = committed_view env sn d o1"
  "state_view env sn d (o1\<lparr>so_suicided := x\<rparr>) = state_view env sn d o1"
proof -
  show "code_view env (o1\<lparr>so_suicided := x\<rparr>) = code_view env o1"
    by (rule code_view_cong) simp_all
  have "trie_of env (o1\<lparr>so_suicided := x\<rparr>) = trie_of env o1" by (rule trie_of_cong) simp_all
  then show c: "committed_view env sn d (o1\<lparr>so_suicided := x\<rparr>) = committed_view env sn d o1"
    by (intro committed_view_cong) simp_all
  show "state_view env sn d (o1\<lparr>so_suicided := x\<rparr>) = state_view env sn d o1"
    by (rule state_view_cong [OF _ _ c]) simp_all
qed

lemma obj_views_setState:
  "code_view env (obj_setState o1 k v) = code_view env o1"
  "committed_view env sn d (obj_setState o1 k v) = committed_view env sn d o1"
  "so_fakeStorage o1 = None \<Longrightarrow> state_view env sn d (obj_setState o1 k v) = (state_view env sn d o1)(k := v)"
proof -
  show "code_view env (obj_setState o1 k v) = code_view env o1"
    by (rule code_view_cong) (simp_all add: obj_setState_def)
  have "trie_of env (obj_setState o1 k v) = trie_of env o1" by (rule trie_of_cong) (simp_all add: obj_setState_def)
  then show c: "committed_view env sn d (obj_setState o1 k v) = committed_view env sn d o1"
    by (intro committed_view_cong) (simp_all add: obj_setState_def)
  show "state_view env sn d (obj_setState o1 k v) = (state_view env sn d o1)(k := v)" if "so_fakeStorage o1 = None"
  proof
    fix x
    have f: "so_fakeStorage (obj_setState o1 k v) = None"
      "so_dirtyStorage (obj_setState o1 k v) x = (if x = k then Some v else so_dirtyStorage o1 x)"
      using that by (simp_all add: obj_setState_def)
    show "state_view env sn d (obj_setState o1 k v) x = ((state_view env sn d o1)(k := v)) x"
      by (simp add: state_view_eq f that c cong: option.case_cong)
  qed
qed

lemma obj_views_setCode:
  "code_view env (obj_setCode o1 h c) =
     (case c of
        Some c \<Rightarrow> Some c
      | None \<Rightarrow>
          (if hash_Bytes h = emptyCodeHash (se_keccak env) then None
           else fst (se_ContractCode env (so_addrHash o1) (BytesToHash (hash_Bytes h)))))"
  "committed_view env sn d (obj_setCode o1 h c) = committed_view env sn d o1"
  "state_view env sn d (obj_setCode o1 h c) = state_view env sn d o1"
proof -
  show "code_view env (obj_setCode o1 h c) =
     (case c of
        Some c \<Rightarrow> Some c
      | None \<Rightarrow>
          (if hash_Bytes h = emptyCodeHash (se_keccak env) then None
           else fst (se_ContractCode env (so_addrHash o1) (BytesToHash (hash_Bytes h)))))"
    by (simp add: code_view_eq obj_setCode_def cong: option.case_cong)
  have "trie_of env (obj_setCode o1 h c) = trie_of env o1" by (rule trie_of_cong) (simp_all add: obj_setCode_def)
  then show c: "committed_view env sn d (obj_setCode o1 h c) = committed_view env sn d o1"
    by (intro committed_view_cong) (simp_all add: obj_setCode_def)
  show "state_view env sn d (obj_setCode o1 h c) = state_view env sn d o1"
    by (rule state_view_cong [OF _ _ c]) (simp_all add: obj_setCode_def)
qed

lemma obj_set_sel [simp]:
  "so_address (obj_setBalance o1 b) = so_address o1" "so_addrHash (obj_setBalance o1 b) = so_addrHash o1"
  "so_fakeStorage (obj_setBalance o1 b) = so_fakeStorage o1" "so_deleted (obj_setBalance o1 b) = so_deleted o1"
  "so_suicided (obj_setBalance o1 b) = so_suicided o1" "so_data (obj_setBalance o1 b) = (so_data o1)\<lparr>acc_Balance := b\<rparr>"
  "so_address (obj_setNonce o1 n) = so_address o1" "so_addrHash (obj_setNonce o1 n) = so_addrHash o1"
  "so_fakeStorage (obj_setNonce o1 n) = so_fakeStorage o1" "so_deleted (obj_setNonce o1 n) = so_deleted o1"
  "so_suicided (obj_setNonce o1 n) = so_suicided o1" "so_data (obj_setNonce o1 n) = (so_data o1)\<lparr>acc_Nonce := n\<rparr>"
  "so_address (obj_setState o1 k v) = so_address o1" "so_addrHash (obj_setState o1 k v) = so_addrHash o1"
  "so_fakeStorage (obj_setState o1 k v) = so_fakeStorage o1" "so_deleted (obj_setState o1 k v) = so_deleted o1"
  "so_suicided (obj_setState o1 k v) = so_suicided o1" "so_data (obj_setState o1 k v) = so_data o1"
  "so_address (obj_setCode o1 h c) = so_address o1" "so_addrHash (obj_setCode o1 h c) = so_addrHash o1"
  "so_fakeStorage (obj_setCode o1 h c) = so_fakeStorage o1" "so_deleted (obj_setCode o1 h c) = so_deleted o1"
  "so_suicided (obj_setCode o1 h c) = so_suicided o1"
  "so_data (obj_setCode o1 h c) = (so_data o1)\<lparr>acc_CodeHash := hash_Bytes h\<rparr>"
  by (simp_all add: obj_setBalance_def obj_setNonce_def obj_setState_def obj_setCode_def)

lemma obj_eq_setBalance: "obj_eq env sn d o1 o2 \<Longrightarrow> obj_eq env sn d (obj_setBalance o1 b) (obj_setBalance o2 b)"
  by (simp add: obj_eq_def)

lemma obj_eq_setNonce: "obj_eq env sn d o1 o2 \<Longrightarrow> obj_eq env sn d (obj_setNonce o1 n) (obj_setNonce o2 n)"
  by (simp add: obj_eq_def)

lemma obj_eq_suicided: "obj_eq env sn d o1 o2 \<Longrightarrow> obj_eq env sn d (o1\<lparr>so_suicided := x\<rparr>) (o2\<lparr>so_suicided := x\<rparr>)"
  by (simp add: obj_eq_def)

lemma obj_eq_setState:
  "obj_eq env sn d o1 o2 \<Longrightarrow> so_fakeStorage o1 = None \<Longrightarrow> obj_eq env sn d (obj_setState o1 k v) (obj_setState o2 k v)"
  by (simp add: obj_eq_def obj_views_setState)

lemma obj_eq_setCode: "obj_eq env sn d o1 o2 \<Longrightarrow> obj_eq env sn d (obj_setCode o1 h c) (obj_setCode o2 h c)"
  by (simp add: obj_eq_def obj_views_setCode cong: option.case_cong)

text \<open>An object sees the set of destructed accounts through its own hash only.\<close>

lemma views_destructs:
  assumes "so_addrHash o1 \<in> d \<longleftrightarrow> so_addrHash o1 \<in> d'"
  shows "committed_view env sn d o1 = committed_view env sn d' o1" "state_view env sn d o1 = state_view env sn d' o1"
proof -
  have "stored_value env sn d o1 = stored_value env sn d' o1"
    using assms by (intro ext) (simp add: stored_value_def split: option.split)
  then show c: "committed_view env sn d o1 = committed_view env sn d' o1"
    by (intro ext) (simp add: committed_view_eq cong: option.case_cong)
  show "state_view env sn d o1 = state_view env sn d' o1"
    using c by (intro ext) (simp add: state_view_eq cong: option.case_cong)
qed

lemma obj_eq_destructs:
  assumes "so_addrHash o1 \<in> d \<longleftrightarrow> so_addrHash o1 \<in> d'"
  shows "obj_eq env sn d o1 o2 = obj_eq env sn d' o1 o2"
  using views_destructs [OF assms, of env sn] views_destructs [of o2 d d' env sn] assms
  by (auto simp: obj_eq_def)

section \<open>Well-formed states\<close>

definition obj_ok :: "'t state_env \<Rightarrow> address \<Rightarrow> 't stateObject \<Rightarrow> bool" where
  "obj_ok env a o1 =
     (so_address o1 = a \<and> so_addrHash o1 = se_keccak env (addr_Bytes a) \<and> so_fakeStorage o1 = None
      \<and> length (acc_CodeHash (so_data o1)) = 32)"

definition state_ok :: "'t state_env \<Rightarrow> 't StateDB \<Rightarrow> bool" where
  "state_ok env s =
     ((\<forall>a o1. view_object env s a = Some o1 \<longrightarrow> obj_ok env a o1)
      \<and> (\<forall>h. sdb_logs s h \<noteq> Some [])
      \<and> al_ok (sdb_accessList s)
      \<and> (\<forall>a \<in> sdb_stateObjectsDirty s. view_object env s a \<noteq> None))"

definition addr_inj :: "'t state_env \<Rightarrow> bool" where
  "addr_inj env = (\<forall>a b. se_keccak env (addr_Bytes a) = se_keccak env (addr_Bytes b) \<longrightarrow> a = b)"

lemma state_okD: "state_ok env s \<Longrightarrow> view_object env s a = Some o1 \<Longrightarrow> obj_ok env a o1"
  by (simp add: state_ok_def)

lemma state_ok_live: "state_ok env s \<Longrightarrow> live_object env s a = Some o1 \<Longrightarrow> obj_ok env a o1 \<and> view_object env s a = Some o1"
  by (auto simp: state_ok_def live_object_def split: option.splits if_splits)

lemma obj_ok_eq: "obj_eq env sn d o1 o2 \<Longrightarrow> obj_ok env a o1 \<longleftrightarrow> obj_ok env a o2"
  by (simp add: obj_eq_def obj_ok_def)

lemma state_ok_eq:
  assumes "sdb_eq env s t" "state_ok env s"
  shows "state_ok env t"
proof -
  have v: "obj_rel env s (view_object env s a) (view_object env t a)" for a using assms(1) by (simp add: sdb_eq_def)
  have "obj_ok env a o2" if vt: "view_object env t a = Some o2" for a o2
  proof -
    obtain o1 where "view_object env s a = Some o1" "obj_eq env (sdb_snap s) (sdb_snapDestructs s) o1 o2"
      using v [of a] vt by (auto simp: obj_rel_def option_rel_Some2)
    then show ?thesis using state_okD [OF assms(2)] obj_ok_eq by metis
  qed
  moreover have "view_object env t a \<noteq> None" if "view_object env s a \<noteq> None" for a
    using v [of a] that by (auto simp: obj_rel_def option_rel_Some1)
  ultimately show ?thesis using assms by (auto simp: state_ok_def sdb_eq_def sdb_rest_eq)
qed

lemma state_ok_frame [simp]:
  "state_ok env (s\<lparr>sdb_journal := j\<rparr>) = state_ok env s"
  "state_ok env (s\<lparr>sdb_validRevisions := r\<rparr>) = state_ok env s"
  "state_ok env (s\<lparr>sdb_nextRevisionId := n\<rparr>) = state_ok env s"
  "state_ok env (s\<lparr>sdb_refund := g\<rparr>) = state_ok env s"
  "state_ok env (s\<lparr>sdb_preimages := p\<rparr>) = state_ok env s"
  "state_ok env (sdb_append s e) = state_ok env s"
  by (simp_all add: state_ok_def sdb_append_def)

text \<open>Putting equal objects into equal states.\<close>

lemma rest_setStateObject [simp]: "sdb_rest (setStateObject s o1) = sdb_rest s"
  by (simp add: sdb_rest_eq setStateObject_def)

lemma setStateObject_sel [simp]:
  "sdb_snap (setStateObject s o1) = sdb_snap s" "sdb_snapDestructs (setStateObject s o1) = sdb_snapDestructs s"
  "sdb_journal (setStateObject s o1) = sdb_journal s" "sdb_validRevisions (setStateObject s o1) = sdb_validRevisions s"
  "sdb_nextRevisionId (setStateObject s o1) = sdb_nextRevisionId s"
  "sdb_accessList (setStateObject s o1) = sdb_accessList s" "sdb_logs (setStateObject s o1) = sdb_logs s"
  "sdb_stateObjectsDirty (setStateObject s o1) = sdb_stateObjectsDirty s" "sdb_trie (setStateObject s o1) = sdb_trie s"
  by (simp_all add: setStateObject_def)

lemma sdb_eq_set:
  assumes "sdb_eq env s t" "obj_eq env (sdb_snap s) (sdb_snapDestructs s) o1 o2"
  shows "sdb_eq env (setStateObject s o1) (setStateObject t o2)"
proof -
  have "so_address o1 = so_address o2" using assms(2) by (simp add: obj_eq_def)
  then show ?thesis using assms by (simp add: sdb_eq_def obj_rel_def view_object_set)
qed

lemma sdb_eq_set_same:
  assumes "sdb_eq env s t" "view_object env t a = Some o2" "so_address o1 = a"
    "obj_eq env (sdb_snap s) (sdb_snapDestructs s) o1 o2"
  shows "sdb_eq env (setStateObject s o1) t"
  using assms by (simp add: sdb_eq_def obj_rel_def view_object_set)

lemma state_ok_set:
  assumes "state_ok env s" "obj_ok env (so_address o1) o1"
  shows "state_ok env (setStateObject s o1)"
  using assms by (auto simp: state_ok_def view_object_set)

section \<open>Reversing an entry respects equality\<close>

lemma with_object_some:
  assumes "with_object env s a f = Some s'"
  obtains o1 r where "live_object env s a = Some o1" "getStateObject env s a = (Some o1, r)" "cached env s r"
    "s' = setStateObject r (f o1)"
proof -
  obtain x r where g: "getStateObject env s a = (x, r)" by fastforce
  then obtain o1 where "x = Some o1" "s' = setStateObject r (f o1)"
    using assms by (auto simp: with_object_def split: option.splits)
  then show thesis using getStateObject_cached [OF g] g that by metis
qed

lemma with_object_eq:
  assumes "sdb_eq env s t" "with_object env s a f = Some s'"
    and "\<And>o1 o2. live_object env s a = Some o1 \<Longrightarrow> obj_eq env (sdb_snap s) (sdb_snapDestructs s) o1 o2 \<Longrightarrow>
      obj_eq env (sdb_snap s) (sdb_snapDestructs s) (f o1) (f o2)"
  shows "\<exists>t'. with_object env t a f = Some t' \<and> sdb_eq env s' t'"
proof -
  obtain o1 r where s: "live_object env s a = Some o1" "cached env s r" "s' = setStateObject r (f o1)"
    using with_object_some [OF assms(2)] by metis
  obtain o2 where o2: "live_object env t a = Some o2" "obj_eq env (sdb_snap s) (sdb_snapDestructs s) o1 o2"
    using sdb_eq_live [OF assms(1), of a] s(1) by (auto simp: obj_rel_def option_rel_Some1)
  obtain x q where g: "getStateObject env t a = (x, q)" by fastforce
  then have x: "x = Some o2" "cached env t q" using getStateObject_cached [OF g] o2(1) by auto
  have "sdb_eq env r q"
    using sdb_eq_trans [OF sdb_eq_trans [OF cached_eq [OF s(2)] assms(1)] sdb_eq_sym [OF cached_eq [OF x(2)]]] .
  moreover have "sdb_snap r = sdb_snap s" "sdb_snapDestructs r = sdb_snapDestructs s"
    using s(2) by (auto simp: cached_def sdb_rest_eq)
  ultimately have "sdb_eq env s' (setStateObject q (f o2))"
    using sdb_eq_set assms(3) [OF s(1) o2(2)] s(3) by metis
  then show ?thesis using g x(1) by (simp add: with_object_def)
qed

lemma create_revert_eq:
  assumes "sdb_eq env s t"
  shows "sdb_eq env
      (s\<lparr>sdb_stateObjects := (sdb_stateObjects s)(a := None), sdb_stateObjectsDirty := sdb_stateObjectsDirty s - {a}\<rparr>)
      (t\<lparr>sdb_stateObjects := (sdb_stateObjects t)(a := None), sdb_stateObjectsDirty := sdb_stateObjectsDirty t - {a}\<rparr>)"
    (is "sdb_eq env ?s ?t")
proof -
  have rest: "sdb_rest s = sdb_rest t" using assms by (simp add: sdb_eq_def)
  have "view_object env (u\<lparr>sdb_stateObjects := (sdb_stateObjects u)(a := None), sdb_stateObjectsDirty := x\<rparr>) b
      = (if b = a then snd (load_object env (sdb_trie u) (sdb_snap u) a) else view_object env u b)" for u b x
    by (simp add: view_object_def cong: option.case_cong)
  then have "obj_rel env ?s (view_object env ?s b) (view_object env ?t b)" for b
    using assms rest by (auto simp: sdb_eq_def sdb_rest_eq obj_rel_def intro: option.rel_refl)
  then show ?thesis using rest by (simp add: sdb_eq_def sdb_rest_eq)
qed

lemma reset_revert_eq:
  assumes "sdb_eq env s t" "addr_inj env" "state_ok env s" "obj_ok env (so_address prev) prev"
  shows "sdb_eq env ((setStateObject s prev)\<lparr>sdb_snapDestructs := sdb_snapDestructs s - {so_addrHash prev}\<rparr>)
    ((setStateObject t prev)\<lparr>sdb_snapDestructs := sdb_snapDestructs t - {so_addrHash prev}\<rparr>)"
    (is "sdb_eq env ?s ?t")
proof -
  have rest: "sdb_rest s = sdb_rest t" using assms(1) by (simp add: sdb_eq_def)
  have "obj_rel env ?s (view_object env ?s b) (view_object env ?t b)" for b
  proof (cases "b = so_address prev")
    case False
    have "so_addrHash o1 \<noteq> so_addrHash prev" if "view_object env s b = Some o1" for o1
      using state_okD [OF assms(3) that] assms(2,4) False by (auto simp: obj_ok_def addr_inj_def)
    then have eq: "obj_eq env (sdb_snap s) (sdb_snapDestructs s) o1 o2
        = obj_eq env (sdb_snap s) (sdb_snapDestructs s - {so_addrHash prev}) o1 o2"
      if "view_object env s b = Some o1" for o1 o2
      by (intro obj_eq_destructs) (simp add: that)
    have "obj_rel env s (view_object env s b) (view_object env t b)" using assms(1) by (simp add: sdb_eq_def)
    then have "rel_option (obj_eq env (sdb_snap s) (sdb_snapDestructs s - {so_addrHash prev}))
        (view_object env s b) (view_object env t b)"
      using eq by (cases "view_object env s b") (auto simp: obj_rel_def option_rel_Some1)
    then show ?thesis using False by (simp add: view_object_set obj_rel_def)
  qed (simp add: view_object_set obj_rel_def)
  moreover have "sdb_rest ?s = sdb_rest ?t" using rest by (simp add: sdb_rest_eq setStateObject_def)
  ultimately show ?thesis by (simp add: sdb_eq_def)
qed

lemma entry_revert_eq:
  assumes "sdb_eq env s t" "addr_inj env" "state_ok env s" "entry_revert env s e = Some s'" "state_ok env s'"
  shows "\<exists>t'. entry_revert env t e = Some t' \<and> sdb_eq env s' t'"
proof (cases e)
  case (createObjectChange a)
  then show ?thesis using assms(4) create_revert_eq [OF assms(1)] by auto
next
  case (resetObjectChange prev d)
  have "view_object env s' (so_address prev) = Some prev"
    using assms(4) resetObjectChange by (auto simp: Let_def view_object_set)
  then have ok: "obj_ok env (so_address prev) prev" by (rule state_okD [OF assms(5)])
  have "sdb_snap s = sdb_snap t" using assms(1) by (simp add: sdb_eq_def sdb_rest_eq)
  then show ?thesis using assms(4) resetObjectChange reset_revert_eq [OF assms(1-3) ok]
      sdb_eq_set [OF assms(1) obj_eq_refl, of prev] by (auto simp: Let_def)
next
  case (suicideChange a p b)
  show ?thesis
  proof (cases "live_object env s a")
    case None
    then have n: "live_object env t a = None" using sdb_eq_live [OF assms(1), of a] by (auto simp: obj_rel_def)
    obtain x r where g: "getStateObject env s a = (x, r)" by fastforce
    obtain y q where h: "getStateObject env t a = (y, q)" by fastforce
    have "x = None" "y = None" using getStateObject_cached(3) [OF g] getStateObject_cached(3) [OF h] None n by simp_all
    then show ?thesis using suicideChange assms(1,4) g h getStateObject_cached(1) [OF g] getStateObject_cached(1) [OF h]
      by (auto intro: sdb_eq_trans [OF sdb_eq_trans [OF cached_eq _] sdb_eq_sym [OF cached_eq]])
  next
    case (Some o1)
    let ?f = "\<lambda>obj. obj_setBalance (obj\<lparr>so_suicided := p\<rparr>) b"
    obtain o2 where o2: "live_object env t a = Some o2"
      using sdb_eq_live [OF assms(1), of a] Some by (auto simp: obj_rel_def option_rel_Some1)
    have "entry_revert env u e = with_object env u a ?f" if "live_object env u a = Some ox" for u ox
      using getStateObject_fst [of env u a] that suicideChange
      by (auto simp: with_object_def split: prod.splits option.splits)
    then show ?thesis using with_object_eq [OF assms(1), of a ?f] assms(4) Some o2
      by (metis obj_eq_setBalance obj_eq_suicided)
  qed
next
  case (balanceChange a b)
  then show ?thesis using with_object_eq [OF assms(1), of a "\<lambda>obj. obj_setBalance obj b"] assms(4)
    by (simp add: obj_eq_setBalance)
next
  case (nonceChange a n)
  then show ?thesis using with_object_eq [OF assms(1), of a "\<lambda>obj. obj_setNonce obj n"] assms(4)
    by (simp add: obj_eq_setNonce)
next
  case (storageChange a k v)
  then show ?thesis using with_object_eq [OF assms(1), of a "\<lambda>obj. obj_setState obj k v"] assms(4)
      state_ok_live [OF assms(3), of a] by (simp add: obj_eq_setState obj_ok_def)
next
  case (codeChange a c h)
  then show ?thesis using with_object_eq [OF assms(1), of a "\<lambda>obj. obj_setCode obj (BytesToHash h) c"] assms(4)
    by (simp add: obj_eq_setCode)
qed (use assms(1,4) in \<open>auto simp: sdb_eq_def sdb_rest_eq obj_rel_def GetLogs_def Let_def split: if_splits\<close>)

end
