(* ===== verification/State_Snapshots.thy ===== *)
theory State_Snapshots
  imports State_Revert
begin

text \<open>
  Operations on the world state leave a journal that undoes them. \<open>state_op\<close> lists the operations of
  \<^verbatim>\<open>StateDB\<close> that execution uses, \<open>run_ops\<close> runs a sequence of them, and the theorem at the end says that
  \<^verbatim>\<open>RevertToSnapshot\<close> gives back the state of the snapshot: every reader returns what it returned then.
\<close>

section \<open>Runs that the journal undoes\<close>

abbreviation entries :: "'t StateDB \<Rightarrow> 't journalEntry list" where
  "entries s \<equiv> j_entries (sdb_journal s)"

text \<open>Every state that reversing the journal goes through is well-formed.\<close>

fun undo_ok :: "'t state_env \<Rightarrow> 't journalEntry list \<Rightarrow> 't StateDB \<Rightarrow> bool" where
  "undo_ok env [] s = state_ok env s"
| "undo_ok env (e # es) s =
     (state_ok env s \<and> (case entry_revert env s e of None \<Rightarrow> False | Some u \<Rightarrow> undo_ok env es u))"

lemma undo_ok_state_ok: "undo_ok env es s \<Longrightarrow> state_ok env s"
  by (cases es) auto

lemma undo_ok_eq:
  assumes "addr_inj env"
  shows "sdb_eq env s t \<Longrightarrow> undo_ok env es s \<Longrightarrow> undo_ok env es t"
proof (induction es arbitrary: s t)
  case Nil
  then show ?case using state_ok_eq by simp
next
  case (Cons e es)
  then obtain u where u: "entry_revert env s e = Some u" "undo_ok env es u" "state_ok env s"
    by (auto split: option.splits)
  obtain v where "entry_revert env t e = Some v" "sdb_eq env u v"
    using entry_revert_eq [OF Cons(2) assms u(3,1) undo_ok_state_ok [OF u(2)]] by blast
  then show ?case using Cons(1) [OF _ u(2)] state_ok_eq [OF Cons(2) u(3)] by simp
qed

lemma revert_loop_eq:
  assumes "addr_inj env"
  shows "sdb_eq env s t \<Longrightarrow> undo_ok env (es @ fs) s \<Longrightarrow>
    \<exists>u v. revert_loop env es s = Some u \<and> revert_loop env es t = Some v \<and> sdb_eq env u v \<and> undo_ok env fs u"
proof (induction es arbitrary: s t)
  case (Cons e es)
  then obtain u where u: "entry_revert env s e = Some u" "undo_ok env (es @ fs) u" "state_ok env s"
    by (auto split: option.splits)
  obtain v where v: "entry_revert env t e = Some v" "sdb_eq env u v"
    using entry_revert_eq [OF Cons(2) assms u(3,1) undo_ok_state_ok [OF u(2)]] by blast
  let ?u = "u\<lparr>sdb_journal := journal_undirty (sdb_journal u) e\<rparr>"
  let ?v = "v\<lparr>sdb_journal := journal_undirty (sdb_journal v) e\<rparr>"
  have eq: "sdb_eq env ?u ?v" using v(2) by simp
  have ok: "undo_ok env (es @ fs) ?u" by (rule undo_ok_eq [OF assms _ u(2)]) simp
  from Cons(1) [OF eq ok] show ?case using u(1) v(1) by simp
qed simp

text \<open>A step that journals one entry, and one that journals nothing.\<close>

definition same_revisions :: "'t StateDB \<Rightarrow> 't StateDB \<Rightarrow> bool" where
  "same_revisions s t =
     (sdb_validRevisions t = sdb_validRevisions s \<and> sdb_nextRevisionId t = sdb_nextRevisionId s)"

definition quiet :: "'t state_env \<Rightarrow> 't StateDB \<Rightarrow> 't StateDB \<Rightarrow> bool" where
  "quiet env s t = (sdb_eq env t s \<and> sdb_journal t = sdb_journal s \<and> same_revisions s t)"

definition journaled :: "'t journal \<Rightarrow> 't journalEntry \<Rightarrow> 't journal \<Rightarrow> bool" where
  "journaled j e k =
     (k = journal_append j e \<or> dirtied e = Some ripemd \<and> k = journal_dirty (journal_append j e) ripemd)"

definition jstep :: "'t state_env \<Rightarrow> 't StateDB \<Rightarrow> 't StateDB \<Rightarrow> bool" where
  "jstep env s t =
     (\<exists>e u. journaled (sdb_journal s) e (sdb_journal t) \<and> same_revisions s t \<and> state_ok env t
        \<and> entry_revert env t e = Some u \<and> sdb_eq env u s)"

inductive jsteps :: "'t state_env \<Rightarrow> 't StateDB \<Rightarrow> 't StateDB \<Rightarrow> bool" for env where
  none: "jsteps env s s"
| silent: "jsteps env s t \<Longrightarrow> quiet env t u \<Longrightarrow> jsteps env s u"
| entry: "jsteps env s t \<Longrightarrow> jstep env t u \<Longrightarrow> jsteps env s u"

lemma jsteps_trans: "jsteps env t u \<Longrightarrow> jsteps env s t \<Longrightarrow> jsteps env s u"
  by (induction rule: jsteps.induct) (auto intro: jsteps.intros)

lemma jsteps_quiet: "quiet env s t \<Longrightarrow> jsteps env s t"
  using jsteps.silent [OF jsteps.none] by blast

lemma jsteps_jstep: "jstep env s t \<Longrightarrow> jsteps env s t"
  using jsteps.entry [OF jsteps.none] by blast

lemma journaled_entries: "journaled j e k \<Longrightarrow> j_entries k = j_entries j @ [e]"
  by (auto simp: journaled_def journal_append_def journal_dirty_def Let_def split: option.splits)

lemma quiet_state_ok: "quiet env s t \<Longrightarrow> state_ok env s \<Longrightarrow> state_ok env t"
  using state_ok_eq [OF sdb_eq_sym] by (auto simp: quiet_def)

lemma jsteps_state_ok: "jsteps env s t \<Longrightarrow> state_ok env s \<Longrightarrow> state_ok env t"
  by (induction rule: jsteps.induct) (auto intro: quiet_state_ok simp: jstep_def)

lemma jsteps_undo_ok:
  assumes "jsteps env s t" "addr_inj env" "undo_ok env (rev (entries s)) s"
  shows "undo_ok env (rev (entries t)) t"
  using assms
proof (induction rule: jsteps.induct)
  case (silent s t u)
  then have "sdb_eq env t u" "entries u = entries t" using sdb_eq_sym by (auto simp: quiet_def)
  then show ?case using silent undo_ok_eq by metis
next
  case (entry s t u)
  then obtain e v where e: "journaled (sdb_journal t) e (sdb_journal u)" "state_ok env u"
    "entry_revert env u e = Some v" "sdb_eq env v t"
    by (auto simp: jstep_def)
  have "undo_ok env (rev (entries t)) v" using entry sdb_eq_sym [OF e(4)] undo_ok_eq by blast
  then show ?case using e(2,3) journaled_entries [OF e(1)] by simp
qed

text \<open>What was true of going back to the snapshot stays true.\<close>

definition goes_back :: "'t state_env \<Rightarrow> 't StateDB \<Rightarrow> 't StateDB \<Rightarrow> bool" where
  "goes_back env s0 s =
     (\<exists>es u. entries s = entries s0 @ es \<and> revert_loop env (rev es) s = Some u \<and> sdb_eq env u s0)"

lemma goes_back_refl: "goes_back env s s"
  by (simp add: goes_back_def)

lemma goes_back_eq:
  assumes "addr_inj env" "goes_back env s0 s" "undo_ok env (rev (entries s)) s" "sdb_eq env s t" "entries t = entries s"
  shows "goes_back env s0 t"
proof -
  obtain es u where e: "entries s = entries s0 @ es" "revert_loop env (rev es) s = Some u" "sdb_eq env u s0"
    using assms(2) by (auto simp: goes_back_def)
  have "undo_ok env (rev es @ rev (entries s0)) s" using assms(3) e(1) by simp
  from revert_loop_eq [OF assms(1,4) this] obtain v where "revert_loop env (rev es) t = Some v" "sdb_eq env u v"
    using e(2) by auto
  then show ?thesis using e assms(5) sdb_eq_trans [OF sdb_eq_sym] unfolding goes_back_def by metis
qed

lemma jsteps_goes_back:
  assumes "jsteps env s t" "addr_inj env" "undo_ok env (rev (entries s)) s" "goes_back env s0 s"
  shows "goes_back env s0 t"
  using assms
proof (induction rule: jsteps.induct)
  case (silent s t u)
  have eq: "sdb_eq env t u" "entries u = entries t" using silent(2) sdb_eq_sym by (auto simp: quiet_def)
  have "undo_ok env (rev (entries t)) t" using jsteps_undo_ok [OF silent(1,4,5)] .
  then show ?case using goes_back_eq [OF silent(4) silent.IH [OF silent(4-6)] _ eq] by simp
next
  case (entry s t u)
  then obtain e v where e: "journaled (sdb_journal t) e (sdb_journal u)"
    "entry_revert env u e = Some v" "sdb_eq env v t"
    by (auto simp: jstep_def)
  let ?v = "v\<lparr>sdb_journal := journal_undirty (sdb_journal v) e\<rparr>"
  obtain es w where g: "entries t = entries s0 @ es" "revert_loop env (rev es) t = Some w" "sdb_eq env w s0"
    using entry.IH [OF entry(4-6)] by (auto simp: goes_back_def)
  have "undo_ok env (rev es @ rev (entries s0)) t" using jsteps_undo_ok [OF entry(1,4,5)] g(1) by simp
  moreover have "sdb_eq env t ?v" using sdb_eq_sym [OF e(3)] by simp
  ultimately obtain x where x: "revert_loop env (rev es) ?v = Some x" "sdb_eq env w x"
    using revert_loop_eq [OF entry(4)] g(2) by fastforce
  have "entries u = entries s0 @ (es @ [e])" using journaled_entries [OF e(1)] g(1) by simp
  moreover have "revert_loop env (rev (es @ [e])) u = Some x" using e(2) x(1) by simp
  moreover have "sdb_eq env x s0" by (rule sdb_eq_trans [OF sdb_eq_sym [OF x(2)] g(3)])
  ultimately show ?case unfolding goes_back_def by blast
qed

section \<open>The operations\<close>

lemma quiet_cached: "cached env s t \<Longrightarrow> quiet env s t"
  using cached_eq by (auto simp: quiet_def cached_def same_revisions_def)

lemma quiet_trans: "quiet env s t \<Longrightarrow> quiet env t u \<Longrightarrow> quiet env s u"
  using sdb_eq_trans by (auto simp: quiet_def same_revisions_def)

lemma quiet_set:
  assumes "state_ok env s" "view_object env s a = Some o1" "obj_eq env (sdb_snap s) (sdb_snapDestructs s) o2 o1"
  shows "quiet env s (setStateObject s o2)"
proof -
  have "so_address o2 = a" using state_okD [OF assms(1,2)] assms(3) by (simp add: obj_ok_def obj_eq_def)
  then have "sdb_eq env (setStateObject s o2) s" using sdb_eq_set_same [OF sdb_eq_refl assms(2) _ assms(3)] by simp
  then show ?thesis by (simp add: quiet_def same_revisions_def)
qed

lemma getStateObject_quiet:
  assumes "getStateObject env s a = (r, t)"
  shows "quiet env s t" "r = Some o1 \<Longrightarrow> view_object env t a = Some o1 \<and> \<not> so_deleted o1"
proof -
  note g = getStateObject_cached [OF assms]
  show "quiet env s t" by (rule quiet_cached [OF g(1)])
  show "view_object env t a = Some o1 \<and> \<not> so_deleted o1" if "r = Some o1"
    using g(2,3) that by (auto simp: view_object_def live_object_def split: option.splits if_splits)
qed

text \<open>Writing an object and journaling how to take it back.\<close>

lemma jstep_set:
  assumes "state_ok env s" "view_object env s a = Some o1" "\<not> so_deleted o1"
    and new: "so_address o2 = a" "so_addrHash o2 = so_addrHash o1" "so_fakeStorage o2 = None" "\<not> so_deleted o2"
      "length (acc_CodeHash (so_data o2)) = 32"
    and rev: "\<And>t. live_object env t a \<noteq> None \<Longrightarrow> entry_revert env t e = with_object env t a f"
    and undone: "obj_eq env (sdb_snap s) (sdb_snapDestructs s) (f o2) o1"
  shows "jstep env s (setStateObject (sdb_append s e) o2)"
proof -
  let ?t = "setStateObject (sdb_append s e) o2"
  have ok1: "obj_ok env a o1" by (rule state_okD [OF assms(1,2)])
  then have ok2: "obj_ok env (so_address o2) o2" using new by (simp add: obj_ok_def)
  have live: "live_object env ?t a = Some o2" using new by (simp add: live_object_def view_object_set)
  obtain x r where g: "getStateObject env ?t a = (x, r)" by fastforce
  have x: "x = Some o2" "cached env ?t r" using getStateObject_cached [OF g] live by auto
  then have u: "entry_revert env ?t e = Some (setStateObject r (f o2))"
    using rev [of ?t] live g by (simp add: with_object_def)
  have fa: "so_address (f o2) = a" using undone ok1 by (simp add: obj_eq_def obj_ok_def)
  have "sdb_rest r = sdb_rest s" using x(2) by (simp add: cached_def) (simp add: sdb_append_def sdb_rest_eq)
  moreover have "view_object env (setStateObject r (f o2)) b = (if b = a then Some (f o2) else view_object env s b)" for b
    using x(2) new fa by (simp add: view_object_set cached_def)
  ultimately have "sdb_eq env (setStateObject r (f o2)) s"
    using undone assms(2) by (simp add: sdb_eq_def obj_rel_def option.rel_refl) (simp add: sdb_rest_eq)
  moreover have "state_ok env ?t" by (rule state_ok_set [OF _ ok2]) (simp add: assms(1))
  moreover have "same_revisions s ?t" "sdb_journal ?t = journal_append (sdb_journal s) e"
    by (simp_all add: same_revisions_def sdb_append_def)
  ultimately show ?thesis using u unfolding jstep_def journaled_def by blast
qed

lemma length_emptyCodeHash [simp]: "length (emptyCodeHash k) = 32"
  by (simp add: emptyCodeHash_def hash_Bytes_def length_word_bytes)

lemma length_hash_Bytes [simp]: "length (hash_Bytes h) = 32"
  by (simp add: hash_Bytes_def length_word_bytes)

definition fresh_object :: "'t state_env \<Rightarrow> address \<Rightarrow> 't stateObject" where
  "fresh_object env a = newObject (se_keccak env) a 0 None 0 None"

lemma fresh_object_sel [simp]:
  "so_address (fresh_object env a) = a" "so_addrHash (fresh_object env a) = se_keccak env (addr_Bytes a)"
  "so_fakeStorage (fresh_object env a) = None" "\<not> so_deleted (fresh_object env a)"
  "\<not> so_suicided (fresh_object env a)" "acc_CodeHash (so_data (fresh_object env a)) = emptyCodeHash (se_keccak env)"
  by (simp_all add: fresh_object_def newObject_def)

lemma fresh_object_nonce: "obj_setNonce (newObject (se_keccak env) a 0 None 0 None) 0 = fresh_object env a"
  by (simp add: obj_setNonce_def fresh_object_def newObject_def)

lemma obj_ok_fresh: "obj_ok env a (fresh_object env a)"
  by (simp add: obj_ok_def)

lemma create_new_jstep:
  assumes "state_ok env s" "view_object env s a = None" "obj_ok env a o2"
  shows "jstep env s (setStateObject (sdb_append s (createObjectChange a)) o2)"
    (is "jstep env s ?t")
proof -
  let ?u = "?t\<lparr>sdb_stateObjects := (sdb_stateObjects ?t)(a := None), sdb_stateObjectsDirty := sdb_stateObjectsDirty ?t - {a}\<rparr>"
  have a: "sdb_stateObjects s a = None" "snd (load_object env (sdb_trie s) (sdb_snap s) a) = None"
    using assms(2) by (auto simp: view_object_def split: option.splits)
  have o2: "so_address o2 = a" using assms(3) by (simp add: obj_ok_def)
  then have "view_object env ?u b = view_object env s b" for b
    using assms(2) a by (simp add: view_object_def setStateObject_def sdb_append_def cong: option.case_cong)
  moreover have "a \<notin> sdb_stateObjectsDirty s" using assms by (auto simp: state_ok_def)
  then have "sdb_rest ?u = sdb_rest s" by (simp add: sdb_rest_eq setStateObject_def sdb_append_def)
  ultimately have "sdb_eq env ?u s" by (simp add: sdb_eq_def obj_rel_def option.rel_refl)
  moreover have "entry_revert env ?t (createObjectChange a) = Some ?u" by simp
  moreover have "state_ok env ?t" using assms(1,3) o2 by (intro state_ok_set) simp_all
  moreover have "same_revisions s ?t" "sdb_journal ?t = journal_append (sdb_journal s) (createObjectChange a)"
    by (simp_all add: same_revisions_def sdb_append_def)
  ultimately show ?thesis unfolding jstep_def journaled_def by blast
qed

lemma create_reset_jstep:
  assumes "state_ok env s" "view_object env s a = Some p"
    and "d = (if sdb_snap s = None then sdb_snapDestructs s else insert (so_addrHash p) (sdb_snapDestructs s))"
    and "sdb_snap s \<noteq> None \<longrightarrow> was = (so_addrHash p \<in> sdb_snapDestructs s)" "obj_ok env a o2"
  shows "jstep env s
    (setStateObject (sdb_append (s\<lparr>sdb_snapDestructs := d\<rparr>) (resetObjectChange p was)) o2)"
    (is "jstep env s ?t")
proof -
  have pa: "so_address p = a" "so_address o2 = a" using state_okD [OF assms(1,2)] assms(5) by (simp_all add: obj_ok_def)
  let ?u = "(setStateObject ?t p)\<lparr>sdb_snapDestructs := sdb_snapDestructs s\<rparr>"
  have "sdb_snapDestructs ?t = d" "sdb_snap ?t = sdb_snap s" by (simp_all add: sdb_append_def)
  then have "entry_revert env ?t (resetObjectChange p was) = Some ?u"
    using assms(3,4) by (cases "sdb_snap s") (auto simp: Let_def insert_absorb setStateObject_def sdb_append_def)
  moreover have "view_object env ?u b = view_object env s b" for b
    using assms(2) pa by (simp add: view_object_set)
  then have "sdb_eq env ?u s" by (simp add: sdb_eq_def obj_rel_def option.rel_refl)
      (simp add: sdb_rest_eq setStateObject_def sdb_append_def)
  moreover have "state_ok env (s\<lparr>sdb_snapDestructs := d\<rparr>)" using assms(1) by (simp add: state_ok_def)
  then have "state_ok env ?t" using assms(5) pa by (intro state_ok_set) simp_all
  moreover have "same_revisions s ?t" "sdb_journal ?t = journal_append (sdb_journal s) (resetObjectChange p was)"
    by (simp_all add: same_revisions_def sdb_append_def)
  ultimately show ?thesis unfolding jstep_def journaled_def by blast
qed

lemma setStateObject_twice: "so_address o1 = so_address o2 \<Longrightarrow> setStateObject (setStateObject s o1) o2 = setStateObject s o2"
  by (simp add: setStateObject_def)

lemma createObject_shape:
  assumes "state_ok env s" "createObject env s a = ((o1, p), t)"
  obtains r where "t = setStateObject r (fresh_object env a)" "\<And>o2. obj_ok env a o2 \<Longrightarrow> jsteps env s (setStateObject r o2)"
    "o1 = fresh_object env a" "p = live_object env s a"
proof -
  obtain x q where g: "getDeletedStateObject env s a = (x, q)" by fastforce
  note c = getDeletedStateObject_cached [OF g]
  note q = quiet_cached [OF c(1)]
  have ok: "state_ok env q" by (rule quiet_state_ok [OF q assms(1)])
  have x: "view_object env q a = x" using c(1,3) by (simp add: cached_def)
  have o1: "o1 = fresh_object env a" "p = live_object env s a"
    using assms(2) g c(3) by (auto simp: createObject_def Let_def fresh_object_nonce live_object_def split: option.splits prod.splits)
  show thesis
  proof (cases x)
    case None
    let ?r = "sdb_append q (createObjectChange a)"
    have "t = setStateObject ?r (fresh_object env a)"
      using assms(2) g None by (auto simp: createObject_def Let_def fresh_object_nonce split: option.splits)
    then show ?thesis
      using that [of ?r] create_new_jstep [OF ok] x None o1 jsteps.entry [OF jsteps_quiet [OF q]] by blast
  next
    case (Some y)
    let ?d = "if sdb_snap q = None then sdb_snapDestructs q else insert (so_addrHash y) (sdb_snapDestructs q)"
    obtain was where w: "sdb_snap q \<noteq> None \<longrightarrow> was = (so_addrHash y \<in> sdb_snapDestructs q)"
      "t = setStateObject (sdb_append (q\<lparr>sdb_snapDestructs := ?d\<rparr>) (resetObjectChange y was)) (fresh_object env a)"
      using assms(2) g Some by (cases "sdb_snap q") (auto simp: createObject_def Let_def fresh_object_nonce)
    have vy: "view_object env q a = Some y" using x Some by simp
    show ?thesis
      by (rule that [OF w(2) _ o1]) (rule jsteps.entry [OF jsteps_quiet [OF q] create_reset_jstep [OF ok vy refl w(1)]])
  qed
qed

lemma createObject_jsteps:
  assumes "state_ok env s" "createObject env s a = ((o1, p), t)"
  shows "jsteps env s t" "view_object env t a = Some o1" "o1 = fresh_object env a"
proof -
  obtain r where r: "t = setStateObject r (fresh_object env a)" "\<And>o2. obj_ok env a o2 \<Longrightarrow> jsteps env s (setStateObject r o2)"
    "o1 = fresh_object env a"
    by (rule createObject_shape [OF assms]) blast
  then show "jsteps env s t" "view_object env t a = Some o1" "o1 = fresh_object env a"
    using obj_ok_fresh by (auto simp: view_object_set)
qed

lemma GetOrNew_jsteps:
  assumes "state_ok env s" "GetOrNewStateObject env s a = (o1, t)"
  shows "jsteps env s t" "view_object env t a = Some o1" "\<not> so_deleted o1" "state_ok env t"
proof -
  obtain x r where g: "getStateObject env s a = (x, r)" by fastforce
  note q = getStateObject_quiet [OF g]
  have ok: "state_ok env r" by (rule quiet_state_ok [OF q(1) assms(1)])
  have "jsteps env s t \<and> view_object env t a = Some o1 \<and> \<not> so_deleted o1"
  proof (cases x)
    case None
    obtain p where c: "createObject env r a = ((o1, p), t)"
      using assms(2) g None by (auto simp: GetOrNewStateObject_def split: prod.splits)
    note c = createObject_jsteps [OF ok c]
    then show ?thesis using jsteps_trans [OF c(1) jsteps_quiet [OF q(1)]] by simp
  next
    case (Some y)
    then have "o1 = y" "t = r" using assms(2) g by (auto simp: GetOrNewStateObject_def)
    then show ?thesis using q Some jsteps_quiet by auto
  qed
  then show "jsteps env s t" "view_object env t a = Some o1" "\<not> so_deleted o1" "state_ok env t"
    using jsteps_state_ok assms(1) by auto
qed

lemma SetBalance_jstep:
  assumes "state_ok env s" "view_object env s a = Some o1" "\<not> so_deleted o1"
  shows "jstep env s (obj_SetBalance s o1 b)"
proof -
  have ok: "obj_ok env a o1" by (rule state_okD [OF assms(1,2)])
  have "obj_setBalance (obj_setBalance o1 b) (acc_Balance (so_data o1)) = o1"
    by (cases o1; cases "so_data o1") (simp add: obj_setBalance_def)
  then show ?thesis
    using ok unfolding obj_SetBalance_def
    by (intro jstep_set [OF assms, where f = "\<lambda>obj. obj_setBalance obj (acc_Balance (so_data o1))"])
      (simp_all add: assms(3) obj_ok_def)
qed

lemma SetNonce_jstep:
  assumes "state_ok env s" "view_object env s a = Some o1" "\<not> so_deleted o1"
  shows "jstep env s (obj_SetNonce s o1 n)"
proof -
  have ok: "obj_ok env a o1" by (rule state_okD [OF assms(1,2)])
  have "obj_setNonce (obj_setNonce o1 n) (acc_Nonce (so_data o1)) = o1"
    by (cases o1; cases "so_data o1") (simp add: obj_setNonce_def)
  then show ?thesis
    using ok unfolding obj_SetNonce_def
    by (intro jstep_set [OF assms, where f = "\<lambda>obj. obj_setNonce obj (acc_Nonce (so_data o1))"])
      (simp_all add: assms(3) obj_ok_def)
qed

lemma touch_jstep:
  assumes "state_ok env s"
  shows "jstep env s (obj_touch s o1)"
proof -
  let ?e = "touchChange (so_address o1)"
  have "journaled (sdb_journal s) ?e (sdb_journal (obj_touch s o1))"
    by (simp add: journaled_def obj_touch_def Let_def sdb_append_def)
  moreover have "same_revisions s (obj_touch s o1)" "state_ok env (obj_touch s o1)" "sdb_eq env (obj_touch s o1) s"
    using assms by (simp_all add: obj_touch_def Let_def same_revisions_def sdb_append_def)
  ultimately show ?thesis unfolding jstep_def by (intro exI [of _ ?e]) auto
qed

lemma be_nat_inj: "length x = length y \<Longrightarrow> be_nat x = be_nat y \<Longrightarrow> x = y"
proof (induction x y rule: list_induct2)
  case (Cons b x c y)
  have "be_nat x < 256 ^ length x" "be_nat y < 256 ^ length x"
    using be_nat_less [of x] be_nat_less [of y] Cons(1) by simp_all
  then have "unat b = unat c" "be_nat x = be_nat y"
    using Cons(1,3) by (auto dest: arg_cong [where f = "\<lambda>n. n div 256 ^ length y"] arg_cong [where f = "\<lambda>n. n mod 256 ^ length y"])
  then show ?case using Cons(2) by (simp add: word_unat_eq_iff)
qed simp

lemma hash_Bytes_BytesToHash: "length b = 32 \<Longrightarrow> hash_Bytes (BytesToHash b) = b"
proof (rule be_nat_inj)
  assume b: "length b = 32"
  then have "be_nat b < 256 ^ 32" using be_nat_less [of b] by simp
  then show "be_nat (hash_Bytes (BytesToHash b)) = be_nat b"
    by (simp add: hash_Bytes_def BytesToHash_def be_nat_word_bytes bytes_word_def unat_of_nat)
qed simp

lemma SetCode_jstep:
  assumes "state_ok env s" "view_object env s a = Some o1" "\<not> so_deleted o1"
  shows "jstep env s (obj_SetCode env s o1 h c)"
proof -
  obtain prev o2 where code: "obj_Code env o1 = (prev, o2)" by fastforce
  note eq = Code_eq [OF code]
  have ok1: "obj_ok env a o1" by (rule state_okD [OF assms(1,2)])
  have sel: "so_address o2 = a" "so_addrHash o2 = so_addrHash o1" "so_data o2 = so_data o1" "so_fakeStorage o2 = None"
    "\<not> so_deleted o2" "length (acc_CodeHash (so_data o1)) = 32"
    using eq(1) [of undefined undefined] ok1 assms(3) by (simp_all add: obj_eq_def obj_ok_def)
  let ?f = "\<lambda>obj. obj_setCode obj (BytesToHash (acc_CodeHash (so_data o2))) prev"
  have "code_view env (?f (obj_setCode o2 h c)) = prev"
    using eq(2) sel code_view_eq [of env o1]
    by (auto simp: obj_views_setCode hash_Bytes_BytesToHash split: option.split option.splits if_splits)
  then have "obj_eq env (sdb_snap s) (sdb_snapDestructs s) (?f (obj_setCode o2 h c)) o1"
    using eq sel by (simp add: obj_eq_def obj_views_setCode hash_Bytes_BytesToHash)
  then have "jstep env s (setStateObject (sdb_append s (codeChange a prev (acc_CodeHash (so_data o2)))) (obj_setCode o2 h c))"
    by (intro jstep_set [OF assms, where f = ?f]) (simp_all add: sel)
  then show ?thesis by (simp add: obj_SetCode_def code sel(1))
qed

lemma SetState_jsteps:
  assumes "state_ok env s" "view_object env s a = Some o1" "\<not> so_deleted o1"
  shows "jsteps env s (obj_SetState env s o1 k v)"
proof -
  obtain prev o2 where g: "obj_GetState env (sdb_snap s) (sdb_snapDestructs s) o1 k = (prev, o2)" by fastforce
  note eq = GetState_eq [OF g]
  have ok1: "obj_ok env a o1" by (rule state_okD [OF assms(1,2)])
  then have fake: "so_fakeStorage o1 = None" by (simp add: obj_ok_def)
  have sel: "so_address o2 = a" "so_addrHash o2 = so_addrHash o1" "so_fakeStorage o2 = None"
    "\<not> so_deleted o2" "length (acc_CodeHash (so_data o2)) = 32"
    using eq(1) ok1 assms(3) by (simp_all add: obj_eq_def obj_ok_def)
  show ?thesis
  proof (cases "prev = v")
    case True
    then show ?thesis using jsteps_quiet [OF quiet_set [OF assms(1,2) eq(1)]] g fake by (simp add: obj_SetState_def)
  next
    case False
    let ?f = "\<lambda>obj. obj_setState obj k prev"
    have "obj_eq env (sdb_snap s) (sdb_snapDestructs s) (?f (obj_setState o2 k v)) o1"
      using eq sel by (simp add: obj_eq_def obj_views_setState fun_upd_idem)
    then have "jstep env s (setStateObject (sdb_append s (storageChange a k prev)) (obj_setState o2 k v))"
      by (intro jstep_set [OF assms, where f = ?f]) (simp_all add: sel)
    then show ?thesis using False g fake sel(1) jsteps_jstep by (simp add: obj_SetState_def)
  qed
qed

lemma Suicide_jsteps:
  assumes "state_ok env s" "Suicide env s a = (r, t)"
  shows "jsteps env s t"
proof -
  obtain x u where g: "getStateObject env s a = (x, u)" by fastforce
  note q = getStateObject_quiet [OF g]
  show ?thesis
  proof (cases x)
    case None
    then show ?thesis using assms(2) g jsteps_quiet [OF q(1)] by (simp add: Suicide_def)
  next
    case (Some o1)
    have ok: "state_ok env u" by (rule quiet_state_ok [OF q(1) assms(1)])
    have v: "view_object env u a = Some o1" "\<not> so_deleted o1" using q(2) Some by auto
    let ?e = "suicideChange a (so_suicided o1) (acc_Balance (so_data o1))"
    let ?f = "\<lambda>obj. obj_setBalance (obj\<lparr>so_suicided := so_suicided o1\<rparr>) (acc_Balance (so_data o1))"
    have "?f (obj_setBalance (markSuicided o1) 0) = o1"
      by (cases o1; cases "so_data o1") (simp add: obj_setBalance_def markSuicided_def)
    moreover have "entry_revert env w ?e = with_object env w a ?f" if "live_object env w a \<noteq> None" for w
      using getStateObject_fst [of env w a] that by (auto simp: with_object_def split: prod.splits option.splits)
    ultimately have "jstep env u (setStateObject (sdb_append u ?e) (obj_setBalance (markSuicided o1) 0))"
      using state_okD [OF ok v(1)] v(2)
      by (intro jstep_set [OF ok v, where f = ?f]) (simp_all add: markSuicided_def obj_ok_def)
    then show ?thesis using jsteps.entry [OF jsteps_quiet [OF q(1)]] assms(2) g Some by (simp add: Suicide_def)
  qed
qed

text \<open>The fields beside the accounts.\<close>

lemma jstep_field:
  assumes "state_ok env t" "sdb_journal t = journal_append (sdb_journal s) e" "same_revisions s t"
    "entry_revert env t e = Some u" "sdb_eq env u s"
  shows "jstep env s t"
  using assms unfolding jstep_def journaled_def by blast

lemma sdb_eqI: "sdb_rest u = sdb_rest s \<Longrightarrow> (\<And>a. view_object env u a = view_object env s a) \<Longrightarrow> sdb_eq env u s"
  by (simp add: sdb_eq_def obj_rel_def option.rel_refl)

lemma AddLog_jstep:
  assumes "state_ok env s"
  shows "jstep env s (AddLog s log)"
proof -
  obtain l where l: "sdb_logs (AddLog s log) = (sdb_logs s)(sdb_thash s \<mapsto> GetLogs s (sdb_thash s) @ [l])"
    by (simp add: AddLog_def Let_def GetLogs_def sdb_append_def)
  have sel: "sdb_logSize (AddLog s log) = sdb_logSize s + 1"
    "sdb_journal (AddLog s log) = journal_append (sdb_journal s) (addLogChange (sdb_thash s))"
    by (simp_all add: AddLog_def Let_def sdb_append_def)
  have old: "sdb_logs s (sdb_thash s) \<noteq> Some []" using assms by (simp add: state_ok_def)
  let ?u = "(AddLog s log)\<lparr>sdb_logs := sdb_logs s, sdb_logSize := sdb_logSize s\<rparr>"
  have u: "entry_revert env (AddLog s log) (addLogChange (sdb_thash s)) = Some ?u"
    using old sel by (cases "sdb_logs s (sdb_thash s)") (auto simp: GetLogs_def l Let_def fun_upd_idem)
  have "view_object env (AddLog s log) a = view_object env s a" for a by (simp add: AddLog_def Let_def)
  moreover have "sdb_rest ?u = sdb_rest s" by (simp add: sdb_rest_eq AddLog_def Let_def sdb_append_def)
  ultimately have "sdb_eq env ?u s" by (intro sdb_eqI) simp_all
  moreover have "state_ok env (AddLog s log)"
    using assms by (simp add: state_ok_def AddLog_def Let_def) (simp add: sdb_append_def)
  ultimately show ?thesis by (intro jstep_field [OF _ sel(2) _ u]) (simp_all add: same_revisions_def AddLog_def Let_def sdb_append_def)
qed

lemma AddPreimage_jsteps:
  assumes "state_ok env s"
  shows "jsteps env s (AddPreimage s h p)"
proof (cases "sdb_preimages s h")
  case None
  let ?t = "(sdb_append s (addPreimageChange h))\<lparr>sdb_preimages := (sdb_preimages s)(h \<mapsto> p)\<rparr>"
  let ?u = "?t\<lparr>sdb_preimages := (sdb_preimages ?t)(h := None)\<rparr>"
  have eq: "sdb_eq env ?u s"
    using None by (intro sdb_eqI) (simp_all, simp add: sdb_rest_eq sdb_append_def fun_upd_idem)
  have u: "entry_revert env ?t (addPreimageChange h) = Some ?u" by simp
  have "jstep env s ?t"
    by (rule jstep_field [OF _ _ _ u eq]) (simp_all add: assms, simp_all add: same_revisions_def sdb_append_def)
  then show ?thesis using None jsteps_jstep by (simp add: AddPreimage_def)
qed (simp add: AddPreimage_def jsteps.none)

lemma refund_jstep:
  assumes "state_ok env s"
  shows "jstep env s ((sdb_append s (refundChange (sdb_refund s)))\<lparr>sdb_refund := g\<rparr>)" (is "jstep env s ?t")
proof -
  let ?u = "?t\<lparr>sdb_refund := sdb_refund s\<rparr>"
  have eq: "sdb_eq env ?u s" by (intro sdb_eqI) (simp_all, simp add: sdb_rest_eq sdb_append_def)
  have u: "entry_revert env ?t (refundChange (sdb_refund s)) = Some ?u" by simp
  show ?thesis by (rule jstep_field [OF _ _ _ u eq]) (simp_all add: assms, simp_all add: same_revisions_def sdb_append_def)
qed

lemma accessList_jstep:
  assumes "state_ok env s" "al_ok al" "entry_revert env (sdb_append (s\<lparr>sdb_accessList := al\<rparr>) e)  e
      = Some ((sdb_append (s\<lparr>sdb_accessList := al\<rparr>) e)\<lparr>sdb_accessList := sdb_accessList s\<rparr>)"
  shows "jstep env s (sdb_append (s\<lparr>sdb_accessList := al\<rparr>) e)" (is "jstep env s ?t")
proof -
  have ok: "state_ok env ?t" using assms(1,2) by (simp add: state_ok_def) (simp add: sdb_append_def)
  have eq: "sdb_eq env (?t\<lparr>sdb_accessList := sdb_accessList s\<rparr>) s"
    by (intro sdb_eqI) (simp_all, simp add: sdb_rest_eq sdb_append_def)
  show ?thesis by (rule jstep_field [OF ok _ _ assms(3) eq]) (simp_all add: same_revisions_def sdb_append_def)
qed

lemma AddAddress_jsteps:
  assumes "state_ok env s"
  shows "jsteps env s (AddAddressToAccessList s a)"
proof -
  obtain c al where al: "AddAddress (sdb_accessList s) a = (c, al)" by fastforce
  show ?thesis
  proof (cases c)
    case True
    have "al_ok al" using al_ok_AddAddress [OF _ al] assms by (simp add: state_ok_def)
    then have "jstep env s (sdb_append (s\<lparr>sdb_accessList := al\<rparr>) (accessListAddAccountChange a))"
      using undo_AddAddress al True assms by (intro accessList_jstep) (simp_all add: sdb_append_def)
    then show ?thesis using True al jsteps_jstep by (simp add: AddAddressToAccessList_def Let_def)
  next
    case False
    then have "al = sdb_accessList s" using al by (auto simp: AddAddress_def split: if_splits)
    then show ?thesis using False al jsteps.none by (simp add: AddAddressToAccessList_def Let_def)
  qed
qed

lemma AddSlot_jsteps:
  assumes "state_ok env s" "AddSlotToAccessList s a k = Some t"
  shows "jsteps env s t"
proof -
  have ok: "al_ok (sdb_accessList s)" using assms(1) by (simp add: state_ok_def)
  obtain c d al where al: "AddSlot (sdb_accessList s) a k = Some ((c, d), al)" "al_ok al"
    by (rule AddSlot_some [OF ok])
  let ?mid = "(sdb_accessList s)\<lparr>al_addresses := (al_addresses (sdb_accessList s))(a \<mapsto> -1)\<rparr>"
  let ?slot = "accessListAddSlotChange a k"
  show ?thesis
  proof (cases d)
    case True
    then have "AddSlot (sdb_accessList s) a k = Some ((c, True), al)" using al(1) by simp
    note undo = undo_AddSlot [OF ok this]
    show ?thesis
    proof (cases c)
      case c: True
      let ?m = "sdb_append (s\<lparr>sdb_accessList := ?mid\<rparr>) (accessListAddAccountChange a)"
      have "AddAddress (sdb_accessList s) a = (True, ?mid)"
        using Contains_AddSlot [OF ok al(1)] c by (auto simp: AddAddress_def ContainsAddress_def)
      then have m: "jsteps env s ?m" using AddAddress_jsteps [OF assms(1), of a]
        by (simp add: AddAddressToAccessList_def Let_def)
      have "sdb_accessList ?m = ?mid" by (simp add: sdb_append_def)
      then have "jstep env ?m (sdb_append (?m\<lparr>sdb_accessList := al\<rparr>) ?slot)"
        using undo c al(2) jsteps_state_ok [OF m assms(1)] by (intro accessList_jstep) (simp_all add: sdb_append_def)
      moreover have "t = sdb_append (?m\<lparr>sdb_accessList := al\<rparr>) ?slot"
        using assms(2) al(1) True c by (simp add: AddSlotToAccessList_def Let_def sdb_append_def)
      ultimately show ?thesis using jsteps.entry [OF m] by simp
    next
      case False
      then have "jstep env s (sdb_append (s\<lparr>sdb_accessList := al\<rparr>) ?slot)"
        using undo al(2) assms(1) by (intro accessList_jstep) (simp_all add: sdb_append_def)
      then show ?thesis using assms(2) al(1) True False jsteps_jstep by (simp add: AddSlotToAccessList_def Let_def)
    qed
  next
    case False
    then have "al = sdb_accessList s" "\<not> c"
      using al(1) by (auto simp: AddSlot_def Let_def split: if_splits option.splits)
    then show ?thesis using assms(2) al(1) False jsteps.none by (simp add: AddSlotToAccessList_def Let_def)
  qed
qed

section \<open>Sequences of operations\<close>

datatype state_op =
    OpCreateAccount address
  | OpAddBalance address int
  | OpSubBalance address int
  | OpSetBalance address int
  | OpSetNonce address u64
  | OpSetCode address "bytes option"
  | OpSetState address hash hash
  | OpSuicide address
  | OpAddLog Log
  | OpAddPreimage hash bytes
  | OpAddRefund u64
  | OpSubRefund u64
  | OpAddAddress address
  | OpAddSlot address hash
  | OpExist address
  | OpEmpty address
  | OpGetBalance address
  | OpGetNonce address
  | OpGetCodeHash address
  | OpHasSuicided address
  | OpGetCode address
  | OpGetCodeSize address
  | OpGetState address hash
  | OpGetCommittedState address hash
  | OpGetRefund
  | OpAddressInAccessList address
  | OpSlotInAccessList address hash
  | OpSnapshot
  | OpRevertToSnapshot int

datatype op_result =
    Done
  | RBool bool
  | RBools bool bool
  | RInt int
  | RUint u64
  | RHash hash
  | RBytes "bytes option"

text \<open>An operation, its result and the new state.\<close>

fun run_op :: "'t state_env \<Rightarrow> state_op \<Rightarrow> 't StateDB \<Rightarrow> (op_result \<times> 't StateDB) option" where
  "run_op env (OpCreateAccount a) s = Some (Done, CreateAccount env s a)"
| "run_op env (OpAddBalance a v) s = Some (Done, AddBalance env s a v)"
| "run_op env (OpSubBalance a v) s = Some (Done, SubBalance env s a v)"
| "run_op env (OpSetBalance a v) s = Some (Done, SetBalance env s a v)"
| "run_op env (OpSetNonce a n) s = Some (Done, SetNonce env s a n)"
| "run_op env (OpSetCode a c) s = Some (Done, SetCode env s a c)"
| "run_op env (OpSetState a k v) s = Some (Done, SetState env s a k v)"
| "run_op env (OpSuicide a) s = Some (map_prod RBool (\<lambda>s. s) (Suicide env s a))"
| "run_op env (OpAddLog l) s = Some (Done, AddLog s l)"
| "run_op env (OpAddPreimage h p) s = Some (Done, AddPreimage s h p)"
| "run_op env (OpAddRefund g) s = Some (Done, AddRefund s g)"
| "run_op env (OpSubRefund g) s = map_option (Pair Done) (SubRefund s g)"
| "run_op env (OpAddAddress a) s = Some (Done, AddAddressToAccessList s a)"
| "run_op env (OpAddSlot a k) s = map_option (Pair Done) (AddSlotToAccessList s a k)"
| "run_op env (OpExist a) s = Some (map_prod RBool (\<lambda>s. s) (Exist env s a))"
| "run_op env (OpEmpty a) s = Some (map_prod RBool (\<lambda>s. s) (Empty env s a))"
| "run_op env (OpGetBalance a) s = Some (map_prod RInt (\<lambda>s. s) (GetBalance env s a))"
| "run_op env (OpGetNonce a) s = Some (map_prod RUint (\<lambda>s. s) (GetNonce env s a))"
| "run_op env (OpGetCodeHash a) s = Some (map_prod RHash (\<lambda>s. s) (GetCodeHash env s a))"
| "run_op env (OpHasSuicided a) s = Some (map_prod RBool (\<lambda>s. s) (HasSuicided env s a))"
| "run_op env (OpGetCode a) s = Some (map_prod RBytes (\<lambda>s. s) (GetCode env s a))"
| "run_op env (OpGetCodeSize a) s = Some (map_prod RInt (\<lambda>s. s) (GetCodeSize env s a))"
| "run_op env (OpGetState a k) s = Some (map_prod RHash (\<lambda>s. s) (GetState env s a k))"
| "run_op env (OpGetCommittedState a k) s = Some (map_prod RHash (\<lambda>s. s) (GetCommittedState env s a k))"
| "run_op env OpGetRefund s = Some (RUint (GetRefund s), s)"
| "run_op env (OpAddressInAccessList a) s = Some (RBool (AddressInAccessList s a), s)"
| "run_op env (OpSlotInAccessList a k) s = map_option (\<lambda>(x, y). (RBools x y, s)) (SlotInAccessList s a k)"
| "run_op env OpSnapshot s = Some (map_prod RInt (\<lambda>s. s) (Snapshot s))"
| "run_op env (OpRevertToSnapshot i) s = map_option (Pair Done) (RevertToSnapshot env s i)"

fun run_ops :: "'t state_env \<Rightarrow> state_op list \<Rightarrow> 't StateDB \<Rightarrow> (op_result list \<times> 't StateDB) option" where
  "run_ops env [] s = Some ([], s)"
| "run_ops env (op # ops) s =
     (case run_op env op s of
        None \<Rightarrow> None
      | Some (r, t) \<Rightarrow> map_option (map_prod (Cons r) (\<lambda>s. s)) (run_ops env ops t))"

lemma set_jsteps:
  assumes "state_ok env s" "GetOrNewStateObject env s a = (o1, t)"
    and "state_ok env t \<Longrightarrow> view_object env t a = Some o1 \<Longrightarrow> \<not> so_deleted o1 \<Longrightarrow> jsteps env t u"
  shows "jsteps env s u"
  using jsteps_trans [OF assms(3)] GetOrNew_jsteps [OF assms(1,2)] by blast

lemma CreateAccount_jsteps:
  assumes "state_ok env s"
  shows "jsteps env s (CreateAccount env s a)"
proof -
  obtain o1 p t where c: "createObject env s a = ((o1, p), t)" by (metis prod.exhaust)
  obtain r where r: "t = setStateObject r (fresh_object env a)" "\<And>o2. obj_ok env a o2 \<Longrightarrow> jsteps env s (setStateObject r o2)"
    "o1 = fresh_object env a"
    by (rule createObject_shape [OF assms c]) blast
  have "obj_ok env a (obj_setBalance (fresh_object env a) b)" for b by (simp add: obj_ok_def)
  then show ?thesis using c r r(2) [OF obj_ok_fresh]
    by (cases p) (simp_all add: CreateAccount_def setStateObject_twice)
qed

lemma read_quiet:
  assumes "state_ok env s" "getStateObject env s a = (Some o1, t)"
    "obj_eq env (sdb_snap t) (sdb_snapDestructs t) o2 o1"
  shows "quiet env s (setStateObject t o2)"
proof -
  note q = getStateObject_quiet [OF assms(2)]
  have "state_ok env t" by (rule quiet_state_ok [OF q(1) assms(1)])
  then show ?thesis using quiet_trans [OF q(1) quiet_set] q(2) assms(3) by blast
qed

lemma GetCode_quiet: "state_ok env s \<Longrightarrow> quiet env s (snd (GetCode env s a))"
  using getStateObject_quiet(1) read_quiet Code_eq(1)
  by (fastforce simp: GetCode_def split: prod.split option.split)

lemma GetCodeSize_quiet: "state_ok env s \<Longrightarrow> quiet env s (snd (GetCodeSize env s a))"
  using getStateObject_quiet(1) read_quiet CodeSize_eq
  by (fastforce simp: GetCodeSize_def split: prod.split option.split)

lemma GetState_quiet: "state_ok env s \<Longrightarrow> quiet env s (snd (GetState env s a k))"
  using getStateObject_quiet(1) read_quiet GetState_eq(1)
  by (fastforce simp: GetState_def split: prod.split option.split)

lemma GetCommittedState_quiet: "state_ok env s \<Longrightarrow> quiet env s (snd (GetCommittedState env s a k))"
  using getStateObject_quiet(1) read_quiet GetCommittedState_eq
  by (fastforce simp: GetCommittedState_def split: prod.split option.split)

lemma AddBalance_jsteps:
  assumes "state_ok env s"
  shows "jsteps env s (AddBalance env s a v)"
proof -
  obtain o1 t where g: "GetOrNewStateObject env s a = (o1, t)" by fastforce
  show ?thesis unfolding AddBalance_def g prod.case obj_AddBalance_def
    by (rule set_jsteps [OF assms g]) (simp add: jsteps.none jsteps_jstep touch_jstep SetBalance_jstep)
qed

lemma SubBalance_jsteps:
  assumes "state_ok env s"
  shows "jsteps env s (SubBalance env s a v)"
proof -
  obtain o1 t where g: "GetOrNewStateObject env s a = (o1, t)" by fastforce
  show ?thesis unfolding SubBalance_def g prod.case obj_SubBalance_def
    by (rule set_jsteps [OF assms g]) (simp add: jsteps.none jsteps_jstep SetBalance_jstep)
qed

lemma account_jsteps:
  assumes "state_ok env s"
  shows "jsteps env s (SetBalance env s a v)" "jsteps env s (SetNonce env s a n)" "jsteps env s (SetCode env s a c)"
    "jsteps env s (SetState env s a k w)"
proof -
  obtain o1 t where g: "GetOrNewStateObject env s a = (o1, t)" by fastforce
  show "jsteps env s (SetBalance env s a v)" unfolding SetBalance_def g prod.case
    by (rule set_jsteps [OF assms g]) (simp add: jsteps_jstep SetBalance_jstep)
  show "jsteps env s (SetNonce env s a n)" unfolding SetNonce_def g prod.case
    by (rule set_jsteps [OF assms g]) (simp add: jsteps_jstep SetNonce_jstep)
  show "jsteps env s (SetCode env s a c)" unfolding SetCode_def g prod.case
    by (rule set_jsteps [OF assms g]) (simp add: jsteps_jstep SetCode_jstep)
  show "jsteps env s (SetState env s a k w)" unfolding SetState_def g prod.case
    by (rule set_jsteps [OF assms g]) (simp add: SetState_jsteps)
qed

lemma read_account_quiet:
  "quiet env s (snd (Exist env s a))" "quiet env s (snd (Empty env s a))" "quiet env s (snd (GetBalance env s a))"
  "quiet env s (snd (GetNonce env s a))" "quiet env s (snd (GetCodeHash env s a))" "quiet env s (snd (HasSuicided env s a))"
proof -
  obtain x t where g: "getStateObject env s a = (x, t)" by fastforce
  note q = getStateObject_quiet(1) [OF g]
  show "quiet env s (snd (Exist env s a))" "quiet env s (snd (Empty env s a))" "quiet env s (snd (GetBalance env s a))"
    "quiet env s (snd (GetNonce env s a))" "quiet env s (snd (GetCodeHash env s a))" "quiet env s (snd (HasSuicided env s a))"
    using q by (cases x; simp add: g Exist_def Empty_def GetBalance_def GetNonce_def GetCodeHash_def HasSuicided_def)+
qed

lemmas code_quiets = GetCode_quiet GetCodeSize_quiet GetState_quiet GetCommittedState_quiet

lemma map_prod_snd: "map_prod f (\<lambda>s. s) x = (r, t) \<Longrightarrow> t = snd x"
  by (cases x) simp

lemmas write_jsteps = CreateAccount_jsteps AddBalance_jsteps SubBalance_jsteps account_jsteps AddPreimage_jsteps
  AddAddress_jsteps

lemma run_op_jsteps:
  assumes "state_ok env s" "run_op env op s = Some (r, t)" "op \<noteq> OpSnapshot" "\<And>i. op \<noteq> OpRevertToSnapshot i"
  shows "jsteps env s t"
proof (cases op)
  case (OpSuicide a)
  then show ?thesis using assms(2) Suicide_jsteps [OF assms(1), of a] by (cases "Suicide env s a") simp
next
  case (OpAddRefund g)
  then show ?thesis using assms(2) jsteps_jstep [OF refund_jstep [OF assms(1)]] by (auto simp: AddRefund_def)
next
  case (OpSubRefund g)
  then show ?thesis using assms(2) jsteps_jstep [OF refund_jstep [OF assms(1)]]
    by (auto simp: SubRefund_def split: if_splits)
next
  case (OpAddSlot a k)
  then show ?thesis using assms(2) AddSlot_jsteps [OF assms(1)] by auto
next
  case (OpSlotInAccessList a k)
  then show ?thesis using assms(2) jsteps.none by auto
qed (use assms(2-4) write_jsteps [OF assms(1)] jsteps_jstep [OF AddLog_jstep [OF assms(1)]] jsteps.none [of env s]
      code_quiets [OF assms(1), THEN jsteps_quiet] read_account_quiet [THEN jsteps_quiet, of env s] in
    \<open>auto dest!: map_prod_snd\<close>)

section \<open>Revisions\<close>

definition revisions_ok :: "'t StateDB \<Rightarrow> bool" where
  "revisions_ok s =
     (sorted_wrt (\<lambda>r q. fst r < fst q \<and> snd r \<le> snd q) (sdb_validRevisions s)
      \<and> (\<forall>r \<in> set (sdb_validRevisions s). fst r < sdb_nextRevisionId s \<and> snd r \<le> length (entries s)))"

text \<open>\<^verbatim>\<open>sort.Search\<close> finds the first index at which a monotone predicate holds.\<close>

lemma search_loop_spec:
  assumes "i \<le> j" "j \<le> n" "\<forall>k < i. \<not> f k" "\<forall>k. j \<le> k \<and> k < n \<longrightarrow> f k"
    and "\<forall>x y. x \<le> y \<and> y < n \<and> f x \<longrightarrow> f y"
  shows "search_loop f i j \<le> n \<and> (\<forall>k < search_loop f i j. \<not> f k) \<and> (\<forall>k. search_loop f i j \<le> k \<and> k < n \<longrightarrow> f k)"
  using assms
proof (induction f i j rule: search_loop.induct)
  case (1 f i j)
  show ?case
  proof (cases "i < j")
    case True
    let ?h = "(i + j) div 2"
    have h: "i \<le> ?h" "?h < j" "?h < n" using True 1(4) by linarith+
    show ?thesis
    proof (cases "f ?h")
      case False
      have s: "search_loop f i j = search_loop f (?h + 1) j"
        using True False by (simp add: search_loop.simps [of f i j] Let_def)
      have lo: "\<forall>k < ?h + 1. \<not> f k"
      proof (intro allI impI notI)
        fix k assume "k < ?h + 1" "f k"
        moreover from this have "k \<le> ?h" by linarith
        ultimately show False using 1(7) h(3) False by blast
      qed
      have "?h + 1 \<le> j" using h(2) by linarith
      from 1(1) [OF True refl False this 1(4) lo 1(6) 1(7)] show ?thesis unfolding s by blast
    next
      case f: True
      have s: "search_loop f i j = search_loop f i ?h" using True f by (simp add: search_loop.simps [of f i j] Let_def)
      have hi: "\<forall>k. ?h \<le> k \<and> k < n \<longrightarrow> f k" using 1(7) f by blast
      have "\<not> \<not> f ?h" "?h \<le> n" using f h(3) by simp_all
      from 1(2) [OF True refl this(1) h(1) this(2) 1(5) hi 1(7)] show ?thesis unfolding s by blast
    qed
  next
    case False
    then have "i = j" "search_loop f i j = i" using 1(3) by (simp, subst search_loop.simps, simp)
    then show ?thesis using 1(4-6) by simp
  qed
qed

lemma sort_Search_eq:
  assumes "i < n" "f i" "\<forall>k < i. \<not> f k" "\<forall>x y. x \<le> y \<and> y < n \<and> f x \<longrightarrow> f y"
  shows "sort_Search n f = i"
proof -
  let ?r = "search_loop f 0 n"
  have s: "?r \<le> n \<and> (\<forall>k < ?r. \<not> f k) \<and> (\<forall>k. ?r \<le> k \<and> k < n \<longrightarrow> f k)"
    by (rule search_loop_spec [OF _ _ _ _ assms(4)]) auto
  have "\<not> i < ?r" using s assms(2) by blast
  moreover have "\<not> ?r < i"
  proof
    assume r: "?r < i"
    then have "f ?r" using s assms(1) by auto
    then show False using assms(3) r by blast
  qed
  ultimately show ?thesis by (simp add: sort_Search_def)
qed

lemma search_loop_le: "i \<le> j \<Longrightarrow> search_loop f i j \<le> j"
proof (induction f i j rule: search_loop.induct)
  case (1 f i j)
  show ?case
  proof (cases "i < j")
    case True
    let ?h = "(i + j) div 2"
    have "i \<le> ?h" "?h + 1 \<le> j" using True by linarith+
    then show ?thesis using 1(1) [OF True refl] 1(2) [OF True refl] True
      by (cases "f ?h") (auto simp: search_loop.simps [of f i j] Let_def)
  next
    case False
    then show ?thesis using 1(3) by (subst search_loop.simps) simp
  qed
qed

lemma RevertToSnapshot_index:
  assumes "sorted_wrt (\<lambda>r q. fst r < fst q \<and> snd r \<le> snd q) (sdb_validRevisions s)"
    "i < length (sdb_validRevisions s)" "sdb_validRevisions s ! i = (rid, k)"
  shows "RevertToSnapshot env s rid =
    map_option (\<lambda>s. s\<lparr>sdb_validRevisions := take i (sdb_validRevisions s)\<rparr>) (journal_revert env s k)"
proof -
  let ?r = "sdb_validRevisions s"
  have less: "fst (?r ! x) < fst (?r ! y)" if "x < y" "y < length ?r" for x y
    using assms(1) that by (simp add: sorted_wrt_iff_nth_less)
  have "sort_Search (length ?r) (\<lambda>i. rid \<le> fst (?r ! i)) = i"
  proof (rule sort_Search_eq)
    show "\<forall>x. x < i \<longrightarrow> \<not> rid \<le> fst (?r ! x)" using less [of _ i] assms(2,3) by fastforce
    show "\<forall>x y. x \<le> y \<and> y < length ?r \<and> rid \<le> fst (?r ! x) \<longrightarrow> rid \<le> fst (?r ! y)"
      using less by (metis le_neq_implies_less less_imp_le order_trans)
  qed (use assms in simp_all)
  then show ?thesis using assms(2,3) by (simp add: RevertToSnapshot_def Let_def)
qed

lemma RevertToSnapshot_valid:
  assumes "RevertToSnapshot env s rid = Some t"
  obtains i k where "i < length (sdb_validRevisions s)" "sdb_validRevisions s ! i = (rid, k)"
proof -
  let ?i = "sort_Search (length (sdb_validRevisions s)) (\<lambda>i. rid \<le> fst (sdb_validRevisions s ! i))"
  have r: "?i \<noteq> length (sdb_validRevisions s)" "fst (sdb_validRevisions s ! ?i) = rid"
    using assms by (auto simp: RevertToSnapshot_def Let_def split: if_splits)
  have "?i \<le> length (sdb_validRevisions s)" using search_loop_le by (simp add: sort_Search_def)
  then show thesis using that [of ?i "snd (sdb_validRevisions s ! ?i)"] r by (metis le_neq_implies_less prod.collapse)
qed

section \<open>The invariant of a run\<close>

text \<open>The number of entries that dirty an address, except for the one that is never cleaned.\<close>

definition dirty_entries :: "'t journalEntry list \<Rightarrow> address \<Rightarrow> int option" where
  "dirty_entries es a =
     (let n = length (filter (\<lambda>e. dirtied e = Some a) es) in if n = 0 then None else Some (int n))"

definition journal_ok :: "'t StateDB \<Rightarrow> bool" where
  "journal_ok s = (\<forall>a. a \<noteq> ripemd \<longrightarrow> j_dirties (sdb_journal s) a = dirty_entries (entries s) a)"

definition state_inv :: "'t state_env \<Rightarrow> 't StateDB \<Rightarrow> bool" where
  "state_inv env s = (undo_ok env (rev (entries s)) s \<and> revisions_ok s \<and> journal_ok s)"

lemma cached_frame: "cached env s t \<Longrightarrow> sdb_journal t = sdb_journal s \<and> same_revisions s t"
  by (simp add: cached_def same_revisions_def)

lemma with_object_frame: "with_object env s a f = Some u \<Longrightarrow> sdb_journal u = sdb_journal s \<and> same_revisions s u"
  using cached_frame by (fastforce simp: same_revisions_def elim!: with_object_some)

lemma entry_revert_frame:
  assumes "entry_revert env s e = Some u"
  shows "sdb_journal u = sdb_journal s \<and> same_revisions s u"
proof (cases e)
  case (suicideChange a p b)
  obtain x r where g: "getStateObject env s a = (x, r)" by fastforce
  then show ?thesis using assms suicideChange cached_frame [OF getStateObject_cached(1) [OF g]]
    by (auto simp: same_revisions_def split: option.splits)
qed (use assms in \<open>auto dest: with_object_frame simp: same_revisions_def Let_def split: if_splits\<close>)

lemma revert_loop_frame:
  "revert_loop env es s = Some u \<Longrightarrow> entries u = entries s \<and> same_revisions s u"
proof (induction es arbitrary: s)
  case (Cons e es)
  then obtain v where v: "entry_revert env s e = Some v"
    "revert_loop env es (v\<lparr>sdb_journal := journal_undirty (sdb_journal v) e\<rparr>) = Some u"
    by (auto split: option.splits)
  have "j_entries (journal_undirty (sdb_journal v) e) = entries v"
    by (simp add: journal_undirty_def split: option.split)
  then show ?case using Cons(1) [OF v(2)] entry_revert_frame [OF v(1)] by (simp add: same_revisions_def)
qed (simp add: same_revisions_def)

lemma dirty_entries_snoc:
  "dirty_entries (es @ [e]) a =
     (if dirtied e = Some a then Some ((case dirty_entries es a of None \<Rightarrow> 0 | Some n \<Rightarrow> n) + 1) else dirty_entries es a)"
  by (simp add: dirty_entries_def Let_def)

lemma dirty_entries_pos: "dirty_entries es a = Some n \<Longrightarrow> 0 < n"
  by (auto simp: dirty_entries_def Let_def split: if_splits)

lemma undirty_entries:
  assumes "a \<noteq> ripemd \<Longrightarrow> j_dirties j a = dirty_entries (ds @ [e]) a" "a \<noteq> ripemd"
  shows "j_dirties (journal_undirty j e) a = dirty_entries ds a"
  using assms dirty_entries_pos [of ds a]
  by (cases "dirty_entries ds a")
    (auto simp: journal_undirty_def dirty_entries_snoc dirty_count_def split: option.splits if_splits)

lemma revert_loop_dirties:
  assumes "revert_loop env es s = Some u" "\<And>a. a \<noteq> ripemd \<Longrightarrow> j_dirties (sdb_journal s) a = dirty_entries (ds @ rev es) a"
    "a \<noteq> ripemd"
  shows "j_dirties (sdb_journal u) a = dirty_entries ds a"
  using assms
proof (induction es arbitrary: s)
  case (Cons e es)
  then obtain v where v: "entry_revert env s e = Some v"
    "revert_loop env es (v\<lparr>sdb_journal := journal_undirty (sdb_journal v) e\<rparr>) = Some u"
    by (auto split: option.splits)
  have "sdb_journal v = sdb_journal s" using entry_revert_frame [OF v(1)] by simp
  then have "j_dirties (journal_undirty (sdb_journal v) e) b = dirty_entries (ds @ rev es) b" if "b \<noteq> ripemd" for b
    using Cons(3) that by (intro undirty_entries) simp_all
  then show ?case using Cons(1) [OF v(2) _ Cons(4)] by simp
qed simp

lemma journaled_ok:
  assumes "journaled j e k" "a \<noteq> ripemd" "j_dirties j a = dirty_entries (j_entries j) a"
  shows "j_dirties k a = dirty_entries (j_entries k) a"
  using assms journaled_entries [OF assms(1)]
  by (auto simp: journaled_def journal_append_def journal_dirty_def dirty_count_def dirty_entries_snoc Let_def
      split: option.splits)

lemma jsteps_journal_ok: "jsteps env s t \<Longrightarrow> journal_ok s \<Longrightarrow> journal_ok t"
proof (induction rule: jsteps.induct)
  case (entry s t u)
  then obtain e where "journaled (sdb_journal t) e (sdb_journal u)" by (auto simp: jstep_def)
  then show ?case using entry journaled_ok unfolding journal_ok_def by blast
qed (auto simp: journal_ok_def quiet_def)

lemma jsteps_revisions:
  "jsteps env s t \<Longrightarrow> same_revisions s t \<and> length (entries s) \<le> length (entries t)"
proof (induction rule: jsteps.induct)
  case (entry s t u)
  then obtain e where "journaled (sdb_journal t) e (sdb_journal u)" "same_revisions t u" by (auto simp: jstep_def)
  then show ?case using entry journaled_entries by (fastforce simp: same_revisions_def)
qed (auto simp: same_revisions_def quiet_def)

lemma jsteps_state_inv:
  assumes "jsteps env s t" "addr_inj env" "state_inv env s"
  shows "state_inv env t"
  using jsteps_undo_ok [OF assms(1,2)] jsteps_journal_ok [OF assms(1)] jsteps_revisions [OF assms(1)] assms(3)
  by (fastforce simp: state_inv_def revisions_ok_def same_revisions_def)

lemma Snapshot_state_inv:
  assumes "addr_inj env" "state_inv env s" "Snapshot s = (rid, t)"
  shows "state_inv env t" "sdb_eq env t s" "entries t = entries s" "rid = sdb_nextRevisionId s"
    "sdb_nextRevisionId t = rid + 1" "sdb_validRevisions t = sdb_validRevisions s @ [(rid, length (entries s))]"
proof -
  show s: "sdb_eq env t s" "entries t = entries s" "rid = sdb_nextRevisionId s" "sdb_nextRevisionId t = rid + 1"
    "sdb_validRevisions t = sdb_validRevisions s @ [(rid, length (entries s))]"
    using assms(3) by (auto simp: Snapshot_def Let_def journal_length_def)
  have "undo_ok env (rev (entries t)) t" using undo_ok_eq [OF assms(1) sdb_eq_sym [OF s(1)]] assms(2) s(2)
    by (simp add: state_inv_def)
  moreover have "journal_ok t" using assms(2,3) by (auto simp: state_inv_def journal_ok_def Snapshot_def Let_def)
  moreover have "revisions_ok t" using assms(2) s by (fastforce simp: state_inv_def revisions_ok_def sorted_wrt_append)
  ultimately show "state_inv env t" by (simp add: state_inv_def)
qed

lemma revert_loop_append:
  "revert_loop env (xs @ ys) s = (case revert_loop env xs s of None \<Rightarrow> None | Some t \<Rightarrow> revert_loop env ys t)"
  by (induction xs arbitrary: s) (auto split: option.split)

lemma RevertToSnapshot_state:
  assumes "addr_inj env" "state_inv env s" "i < length (sdb_validRevisions s)" "sdb_validRevisions s ! i = (rid, k)"
  obtains u t where "RevertToSnapshot env s rid = Some t" "revert_loop env (rev (drop k (entries s))) s = Some u"
    "undo_ok env (rev (take k (entries s))) u" "sdb_eq env t u" "entries t = take k (entries s)" "state_inv env t"
    "sdb_validRevisions t = take i (sdb_validRevisions s)" "sdb_nextRevisionId t = sdb_nextRevisionId s"
proof -
  let ?e = "entries s"
  have inv: "undo_ok env (rev ?e) s" "revisions_ok s" "journal_ok s" using assms(2) by (simp_all add: state_inv_def)
  have mem: "(rid, k) \<in> set (sdb_validRevisions s)" using assms(3,4) nth_mem by metis
  have k: "k \<le> length ?e" using inv(2) mem by (auto simp: revisions_ok_def)
  have split: "rev ?e = rev (drop k ?e) @ rev (take k ?e)" by (simp flip: rev_append)
  obtain u where u: "revert_loop env (rev (drop k ?e)) s = Some u" "undo_ok env (rev (take k ?e)) u"
    using revert_loop_eq [OF assms(1) sdb_eq_refl, of "rev (drop k ?e)" "rev (take k ?e)" s] inv(1) split by auto
  note frame = revert_loop_frame [OF u(1)]
  let ?t = "u\<lparr>sdb_journal := (sdb_journal u)\<lparr>j_entries := take k (entries u)\<rparr>,
      sdb_validRevisions := take i (sdb_validRevisions u)\<rparr>"
  have r: "RevertToSnapshot env s rid = Some ?t"
    using RevertToSnapshot_index [OF _ assms(3,4)] inv(2) k u(1) by (simp add: revisions_ok_def journal_revert_def)
  have eq: "sdb_eq env ?t u" by simp
  have e: "entries ?t = take k ?e" using frame by simp
  have v: "sdb_validRevisions ?t = take i (sdb_validRevisions s)" "sdb_nextRevisionId ?t = sdb_nextRevisionId s"
    using frame by (simp_all add: same_revisions_def)
  have "undo_ok env (rev (entries ?t)) ?t" unfolding e by (rule undo_ok_eq [OF assms(1) _ u(2)]) simp
  moreover have "journal_ok ?t"
    using revert_loop_dirties [OF u(1), of "take k ?e"] inv(3) e by (simp add: journal_ok_def)
  moreover have "snd q \<le> k" if q: "q \<in> set (take i (sdb_validRevisions s))" for q
  proof -
    obtain x where "x < i" "q = sdb_validRevisions s ! x" using q assms(3) by (auto simp: in_set_conv_nth)
    moreover have "snd (sdb_validRevisions s ! x) \<le> snd (sdb_validRevisions s ! i)" if "x < i" for x
      using inv(2) assms(3) that by (simp add: revisions_ok_def sorted_wrt_iff_nth_less)
    ultimately show ?thesis using assms(4) by fastforce
  qed
  then have "revisions_ok ?t" using inv(2) k unfolding revisions_ok_def e v
    by (auto simp: sorted_wrt_take dest: in_set_takeD)
  ultimately have "state_inv env ?t" by (simp add: state_inv_def)
  then show thesis using that [OF r u eq e _ v] by blast
qed

text \<open>What holds after a snapshot, whatever is done, until it or an earlier one is gone back to.\<close>

definition run_inv :: "'t state_env \<Rightarrow> 't StateDB \<Rightarrow> int \<Rightarrow> 't StateDB \<Rightarrow> bool" where
  "run_inv env s0 rid s =
     (state_inv env s \<and> goes_back env s0 s
      \<and> (\<exists>rest. sdb_validRevisions s = sdb_validRevisions s0 @ (rid, length (entries s0)) # rest))"

lemma run_inv_revert:
  assumes "addr_inj env" "run_inv env s0 rid s" "RevertToSnapshot env s j = Some t" "rid < j"
  shows "run_inv env s0 rid t"
proof -
  let ?n = "length (sdb_validRevisions s0)" and ?k = "length (entries s0)"
  have inv: "state_inv env s" "goes_back env s0 s" using assms(2) by (simp_all add: run_inv_def)
  obtain rest where rest: "sdb_validRevisions s = sdb_validRevisions s0 @ (rid, ?k) # rest"
    using assms(2) by (auto simp: run_inv_def)
  obtain i k where i: "i < length (sdb_validRevisions s)" "sdb_validRevisions s ! i = (j, k)"
    by (rule RevertToSnapshot_valid [OF assms(3)])
  have sorted: "fst (sdb_validRevisions s ! x) < fst (sdb_validRevisions s ! y)
      \<and> snd (sdb_validRevisions s ! x) \<le> snd (sdb_validRevisions s ! y)" if "x < y" "y < length (sdb_validRevisions s)" for x y
    using inv(1) that by (simp add: state_inv_def revisions_ok_def sorted_wrt_iff_nth_less)
  have nth: "sdb_validRevisions s ! ?n = (rid, ?k)" by (simp add: rest)
  have n: "?n < i"
  proof (rule ccontr)
    assume "\<not> ?n < i"
    then consider "i = ?n" | "i < ?n" by linarith
    then show False
    proof cases
      case 2
      have "?n < length (sdb_validRevisions s)" by (simp add: rest)
      from sorted [OF 2 this] show False using nth i(2) assms(4) by simp
    qed (use nth i(2) assms(4) in simp)
  qed
  have k: "?k \<le> k" using sorted [OF n i(1)] nth i(2) by simp
  obtain u t' where t: "RevertToSnapshot env s j = Some t'" "revert_loop env (rev (drop k (entries s))) s = Some u"
    "undo_ok env (rev (take k (entries s))) u" "sdb_eq env t' u" "entries t' = take k (entries s)" "state_inv env t'"
    "sdb_validRevisions t' = take i (sdb_validRevisions s)"
    by (rule RevertToSnapshot_state [OF assms(1) inv(1) i]) blast
  have tt: "t' = t" using t(1) assms(3) by simp
  obtain es w where g: "entries s = entries s0 @ es" "revert_loop env (rev es) s = Some w" "sdb_eq env w s0"
    using inv(2) by (auto simp: goes_back_def)
  let ?m = "k - ?k"
  have take: "take k (entries s) = entries s0 @ take ?m es" "drop k (entries s) = drop ?m es" using g(1) k by simp_all
  have "rev es = rev (drop ?m es) @ rev (take ?m es)" by (simp flip: rev_append)
  then have "revert_loop env (rev (take ?m es)) u = Some w" using g(2) t(2) take(2) by (simp add: revert_loop_append)
  moreover have "undo_ok env (rev (take ?m es) @ rev (entries s0)) u" using t(3) take(1) by simp
  ultimately obtain x where "revert_loop env (rev (take ?m es)) t' = Some x" "sdb_eq env w x"
    using revert_loop_eq [OF assms(1) sdb_eq_sym [OF t(4)]] by fastforce
  moreover from this have "sdb_eq env x s0" using sdb_eq_trans [OF sdb_eq_sym g(3)] by blast
  ultimately have "goes_back env s0 t'" using t(5) take(1) unfolding goes_back_def by auto
  moreover have "take i (sdb_validRevisions s) = sdb_validRevisions s0 @ (rid, ?k) # take (i - ?n - 1) rest"
    using n by (simp add: rest take_Cons')
  ultimately show ?thesis using t(6,7) tt by (auto simp: run_inv_def)
qed

lemma run_inv_op:
  assumes "addr_inj env" "run_inv env s0 rid s" "run_op env op s = Some (r, t)" "\<And>j. op = OpRevertToSnapshot j \<Longrightarrow> rid < j"
  shows "run_inv env s0 rid t"
proof -
  have inv: "state_inv env s" "goes_back env s0 s" using assms(2) by (simp_all add: run_inv_def)
  have undo: "undo_ok env (rev (entries s)) s" using inv(1) by (simp add: state_inv_def)
  consider j where "op = OpRevertToSnapshot j" | "op = OpSnapshot"
    | "op \<noteq> OpSnapshot" "\<And>j. op \<noteq> OpRevertToSnapshot j" by blast
  then show ?thesis
  proof cases
    case 1
    then show ?thesis using run_inv_revert [OF assms(1,2)] assms(3,4) by auto
  next
    case 2
    obtain j t' where "Snapshot s = (j, t')" by fastforce
    moreover from this have "t' = t" using 2 assms(3) by simp
    ultimately have s: "Snapshot s = (j, t)" by simp
    note snap = Snapshot_state_inv [OF assms(1) inv(1) s]
    have "goes_back env s0 t" by (rule goes_back_eq [OF assms(1) inv(2) undo sdb_eq_sym [OF snap(2)] snap(3)])
    then show ?thesis using snap(1,6) assms(2) by (auto simp: run_inv_def)
  next
    case 3
    have j: "jsteps env s t" by (rule run_op_jsteps [OF undo_ok_state_ok [OF undo] assms(3) 3])
    have "sdb_validRevisions t = sdb_validRevisions s" using jsteps_revisions [OF j] by (simp add: same_revisions_def)
    then show ?thesis
      using jsteps_state_inv [OF j assms(1) inv(1)] jsteps_goes_back [OF j assms(1) undo inv(2)] assms(2)
      by (auto simp: run_inv_def)
  qed
qed

lemma run_inv_ops:
  assumes "addr_inj env" "run_inv env s0 rid s" "run_ops env ops s = Some (rs, t)"
    "\<And>j. OpRevertToSnapshot j \<in> set ops \<Longrightarrow> rid < j"
  shows "run_inv env s0 rid t"
  using assms(2-4)
proof (induction ops arbitrary: s rs)
  case (Cons op ops)
  then obtain r qs u where u: "run_op env op s = Some (r, u)" "run_ops env ops u = Some (qs, t)"
    by (auto split: option.splits)
  have "run_inv env s0 rid u" using run_inv_op [OF assms(1) Cons(2) u(1)] Cons(4) by simp
  then show ?case using Cons(1) [OF _ u(2)] Cons(4) by simp
qed simp

lemma Snapshot_run_inv:
  assumes "addr_inj env" "state_inv env s" "Snapshot s = (rid, t)"
  shows "run_inv env s rid t"
proof -
  note snap = Snapshot_state_inv [OF assms]
  have "undo_ok env (rev (entries s)) s" using assms(2) by (simp add: state_inv_def)
  then have "goes_back env s t"
    using goes_back_eq [OF assms(1) goes_back_refl _ sdb_eq_sym [OF snap(2)] snap(3)] by simp
  then show ?thesis using snap(1,6) by (simp add: run_inv_def)
qed

lemma run_inv_back:
  assumes "addr_inj env" "state_inv env s0" "run_inv env s0 rid s"
  obtains t where "RevertToSnapshot env s rid = Some t" "sdb_eq env t s0" "entries t = entries s0"
    "sdb_validRevisions t = sdb_validRevisions s0" "state_inv env t"
proof -
  let ?n = "length (sdb_validRevisions s0)" and ?k = "length (entries s0)"
  obtain rest where rest: "sdb_validRevisions s = sdb_validRevisions s0 @ (rid, ?k) # rest"
    using assms(3) by (auto simp: run_inv_def)
  have inv: "state_inv env s" "goes_back env s0 s" using assms(3) by (simp_all add: run_inv_def)
  have i: "?n < length (sdb_validRevisions s)" "sdb_validRevisions s ! ?n = (rid, ?k)" by (simp_all add: rest)
  obtain u t where t: "RevertToSnapshot env s rid = Some t" "revert_loop env (rev (drop ?k (entries s))) s = Some u"
    "sdb_eq env t u" "entries t = take ?k (entries s)" "state_inv env t"
    "sdb_validRevisions t = take ?n (sdb_validRevisions s)"
    by (rule RevertToSnapshot_state [OF assms(1) inv(1) i]) blast
  obtain es w where g: "entries s = entries s0 @ es" "revert_loop env (rev es) s = Some w" "sdb_eq env w s0"
    using inv(2) by (auto simp: goes_back_def)
  have "u = w" using t(2) g(1,2) by simp
  then have "sdb_eq env t s0" using sdb_eq_trans [OF t(3)] g(3) by simp
  then show thesis using that t(1,4,5,6) g(1) rest by simp
qed

end
