(* ===== verification/State_Refine.thy ===== *)
theory State_Refine
  imports State_Snapshots
begin

text \<open>
  The journaled state implements a simple abstract machine: a world is a map from addresses to accounts with the
  refund counter, the logs, the preimages and the access list; a snapshot saves the whole world, and going
  back to it puts the saved world back and drops the later snapshots. \<open>world_of\<close> reads a world off a
  \<^verbatim>\<open>StateDB\<close>, and the theorem says that any sequence of operations gives the same results and the same world
  on both, and panics on both or on neither.
\<close>

section \<open>The abstract machine\<close>

record account_state =
  as_nonce :: u64
  as_balance :: int
  as_codehash :: bytes
  as_code :: "bytes option"
  as_suicided :: bool
  as_storage :: "hash \<Rightarrow> hash"
  as_committed :: "hash \<Rightarrow> hash"

record world =
  w_accounts :: "address \<Rightarrow> account_state option"
  w_refund :: u64
  w_thash :: hash
  w_bhash :: hash
  w_txIndex :: int
  w_logs :: "hash \<Rightarrow> Log list"
  w_logSize :: u64
  w_preimages :: "hash \<Rightarrow> bytes option"
  w_addresses :: "address \<Rightarrow> bool"
  w_slots :: "address \<Rightarrow> hash \<Rightarrow> bool"

definition new_account :: "keccak \<Rightarrow> int \<Rightarrow> account_state" where
  "new_account k balance =
     \<lparr>as_nonce = 0, as_balance = balance, as_codehash = emptyCodeHash k, as_code = None, as_suicided = False,
      as_storage = (\<lambda>_. 0), as_committed = (\<lambda>_. 0)\<rparr>"

definition get_account :: "keccak \<Rightarrow> world \<Rightarrow> address \<Rightarrow> account_state" where
  "get_account k w a = (case w_accounts w a of None \<Rightarrow> new_account k 0 | Some x \<Rightarrow> x)"

definition put_account :: "world \<Rightarrow> address \<Rightarrow> account_state \<Rightarrow> world" where
  "put_account w a x = w\<lparr>w_accounts := (w_accounts w)(a \<mapsto> x)\<rparr>"

definition read_account :: "world \<Rightarrow> address \<Rightarrow> (account_state \<Rightarrow> 'r) \<Rightarrow> 'r \<Rightarrow> 'r" where
  "read_account w a f d = (case w_accounts w a of None \<Rightarrow> d | Some x \<Rightarrow> f x)"

definition account_empty :: "keccak \<Rightarrow> account_state \<Rightarrow> bool" where
  "account_empty k x = (as_nonce x = 0 \<and> as_balance x = 0 \<and> as_codehash x = emptyCodeHash k)"

definition world_log :: "world \<Rightarrow> Log \<Rightarrow> world" where
  "world_log w l =
     w\<lparr>w_logs := (w_logs w)(w_thash w := w_logs w (w_thash w) @
         [l\<lparr>log_TxHash := w_thash w, log_BlockHash := w_bhash w, log_TxIndex := word_of_int (w_txIndex w),
            log_Index := w_logSize w\<rparr>]),
       w_logSize := w_logSize w + 1\<rparr>"

fun world_op :: "keccak \<Rightarrow> state_op \<Rightarrow> world \<Rightarrow> (op_result \<times> world) option" where
  "world_op k (OpCreateAccount a) w =
     Some (Done, put_account w a (new_account k (read_account w a as_balance 0)))"
| "world_op k (OpAddBalance a v) w =
     (let x = get_account k w a in Some (Done, put_account w a (x\<lparr>as_balance := as_balance x + v\<rparr>)))"
| "world_op k (OpSubBalance a v) w =
     (let x = get_account k w a in Some (Done, put_account w a (x\<lparr>as_balance := as_balance x - v\<rparr>)))"
| "world_op k (OpSetBalance a v) w =
     (let x = get_account k w a in Some (Done, put_account w a (x\<lparr>as_balance := v\<rparr>)))"
| "world_op k (OpSetNonce a n) w =
     (let x = get_account k w a in Some (Done, put_account w a (x\<lparr>as_nonce := n\<rparr>)))"
| "world_op k (OpSetCode a c) w =
     (let x = get_account k w a
      in Some (Done, put_account w a
           (x\<lparr>as_code := c, as_codehash := hash_Bytes (k (case c of None \<Rightarrow> [] | Some c \<Rightarrow> c))\<rparr>)))"
| "world_op k (OpSetState a key v) w =
     (let x = get_account k w a in Some (Done, put_account w a (x\<lparr>as_storage := (as_storage x)(key := v)\<rparr>)))"
| "world_op k (OpSuicide a) w =
     Some (case w_accounts w a of
             None \<Rightarrow> (RBool False, w)
           | Some x \<Rightarrow> (RBool True, put_account w a (x\<lparr>as_suicided := True, as_balance := 0\<rparr>)))"
| "world_op k (OpAddLog l) w = Some (Done, world_log w l)"
| "world_op k (OpAddPreimage h p) w =
     Some (Done, if w_preimages w h = None then w\<lparr>w_preimages := (w_preimages w)(h \<mapsto> p)\<rparr> else w)"
| "world_op k (OpAddRefund g) w = Some (Done, w\<lparr>w_refund := w_refund w + g\<rparr>)"
| "world_op k (OpSubRefund g) w = (if g > w_refund w then None else Some (Done, w\<lparr>w_refund := w_refund w - g\<rparr>))"
| "world_op k (OpAddAddress a) w = Some (Done, w\<lparr>w_addresses := (w_addresses w)(a := True)\<rparr>)"
| "world_op k (OpAddSlot a key) w =
     Some (Done, w\<lparr>w_addresses := (w_addresses w)(a := True), w_slots := (w_slots w)(a := (w_slots w a)(key := True))\<rparr>)"
| "world_op k (OpExist a) w = Some (RBool (w_accounts w a \<noteq> None), w)"
| "world_op k (OpEmpty a) w = Some (RBool (read_account w a (account_empty k) True), w)"
| "world_op k (OpGetBalance a) w = Some (RInt (read_account w a as_balance 0), w)"
| "world_op k (OpGetNonce a) w = Some (RUint (read_account w a as_nonce 0), w)"
| "world_op k (OpGetCodeHash a) w = Some (RHash (read_account w a (\<lambda>x. BytesToHash (as_codehash x)) 0), w)"
| "world_op k (OpHasSuicided a) w = Some (RBool (read_account w a as_suicided False), w)"
| "world_op k (OpGetCode a) w = Some (RBytes (read_account w a as_code None), w)"
| "world_op k (OpGetCodeSize a) w =
     Some (RInt (read_account w a (\<lambda>x. case as_code x of None \<Rightarrow> 0 | Some c \<Rightarrow> int (length c)) 0), w)"
| "world_op k (OpGetState a key) w = Some (RHash (read_account w a (\<lambda>x. as_storage x key) 0), w)"
| "world_op k (OpGetCommittedState a key) w = Some (RHash (read_account w a (\<lambda>x. as_committed x key) 0), w)"
| "world_op k OpGetRefund w = Some (RUint (w_refund w), w)"
| "world_op k (OpAddressInAccessList a) w = Some (RBool (w_addresses w a), w)"
| "world_op k (OpSlotInAccessList a key) w = Some (RBools (w_addresses w a) (w_slots w a key), w)"
| "world_op k OpSnapshot w = None"
| "world_op k (OpRevertToSnapshot i) w = None"

text \<open>Snapshots save the world; the identifiers count up.\<close>

record machine =
  m_world :: world
  m_saved :: "(int \<times> world) list"
  m_next :: int

fun machine_op :: "keccak \<Rightarrow> state_op \<Rightarrow> machine \<Rightarrow> (op_result \<times> machine) option" where
  "machine_op k OpSnapshot m =
     Some (RInt (m_next m), m\<lparr>m_saved := m_saved m @ [(m_next m, m_world m)], m_next := m_next m + 1\<rparr>)"
| "machine_op k (OpRevertToSnapshot i) m =
     (case map_of (m_saved m) i of
        None \<Rightarrow> None
      | Some w \<Rightarrow> Some (Done, m\<lparr>m_world := w, m_saved := takeWhile (\<lambda>s. fst s < i) (m_saved m)\<rparr>))"
| "machine_op k op m = map_option (\<lambda>(r, w). (r, m\<lparr>m_world := w\<rparr>)) (world_op k op (m_world m))"

fun machine_ops :: "keccak \<Rightarrow> state_op list \<Rightarrow> machine \<Rightarrow> (op_result list \<times> machine) option" where
  "machine_ops k [] m = Some ([], m)"
| "machine_ops k (op # ops) m =
     (case machine_op k op m of
        None \<Rightarrow> None
      | Some (r, n) \<Rightarrow> map_option (map_prod (Cons r) (\<lambda>m. m)) (machine_ops k ops n))"

section \<open>Abstraction\<close>

definition account_of :: "'t state_env \<Rightarrow> 't StateDB \<Rightarrow> 't stateObject \<Rightarrow> account_state" where
  "account_of env s obj =
     \<lparr>as_nonce = acc_Nonce (so_data obj), as_balance = acc_Balance (so_data obj),
      as_codehash = acc_CodeHash (so_data obj), as_code = code_view env obj, as_suicided = so_suicided obj,
      as_storage = state_view env (sdb_snap s) (sdb_snapDestructs s) obj,
      as_committed = committed_view env (sdb_snap s) (sdb_snapDestructs s) obj\<rparr>"

definition world_of :: "'t state_env \<Rightarrow> 't StateDB \<Rightarrow> world" where
  "world_of env s =
     \<lparr>w_accounts = (\<lambda>a. map_option (account_of env s) (live_object env s a)),
      w_refund = sdb_refund s, w_thash = sdb_thash s, w_bhash = sdb_bhash s, w_txIndex = sdb_txIndex s,
      w_logs = GetLogs s, w_logSize = sdb_logSize s, w_preimages = sdb_preimages s,
      w_addresses = ContainsAddress (sdb_accessList s), w_slots = has_slot (sdb_accessList s)\<rparr>"

text \<open>What is relied on of the database.\<close>

definition db_ok :: "'t state_env \<Rightarrow> 't \<Rightarrow> snap option \<Rightarrow> bool" where
  "db_ok env tr sn =
     (addr_inj env
      \<and> (\<forall>a e obj. load_object env tr sn a = (e, Some obj) \<longrightarrow> length (acc_CodeHash (so_data obj)) = 32)
      \<and> (\<forall>h key. trie_value env (case se_OpenStorageTrie env h emptyRoot of Inr t \<Rightarrow> t | Inl _ \<Rightarrow> se_EmptyTrie env) key = 0)
      \<and> (\<forall>sp a key enc. sn = Some sp \<and> snd (load_object env tr sn a) = None
           \<and> snap_Storage sp (se_keccak env (addr_Bytes a)) key = Inr enc \<longrightarrow> fst (slot_value enc) = 0)
      \<and> (\<forall>h c. fst (se_ContractCodeSize env h c) =
           (case fst (se_ContractCode env h c) of None \<Rightarrow> 0 | Some code \<Rightarrow> int (length code))))"

lemma world_of_eq:
  assumes "sdb_eq env s t"
  shows "world_of env s = world_of env t"
proof -
  have "map_option (account_of env s) (live_object env s a) = map_option (account_of env t) (live_object env t a)" for a
  proof -
    have "obj_rel env s (live_object env s a) (live_object env t a)" by (rule sdb_eq_live [OF assms])
    moreover have "sdb_snap s = sdb_snap t" "sdb_snapDestructs s = sdb_snapDestructs t"
      using assms by (simp_all add: sdb_eq_def sdb_rest_eq)
    ultimately show ?thesis
      by (cases "live_object env s a") (auto simp: obj_rel_def option_rel_Some1 account_of_def obj_eq_def)
  qed
  then show ?thesis using assms by (auto simp: world_of_def sdb_eq_def sdb_rest_eq GetLogs_def)
qed

section \<open>The world after a write\<close>

lemma put_account_twice [simp]: "put_account (put_account w a x) a y = put_account w a y"
  by (simp add: put_account_def)

lemma put_account_same: "w_accounts w a = Some x \<Longrightarrow> put_account w a x = w"
  by (simp add: put_account_def fun_upd_idem)

lemma accounts_world_of [simp]: "w_accounts (world_of env s) a = map_option (account_of env s) (live_object env s a)"
  by (simp add: world_of_def)

lemma live_object_frame [simp]:
  "live_object env (s\<lparr>sdb_snapDestructs := d\<rparr>) a = live_object env s a"
  "live_object env (sdb_append s e) a = live_object env s a"
  by (simp_all add: live_object_def)

lemma live_object_set:
  "live_object env (setStateObject s o1) b =
     (if b = so_address o1 then (if so_deleted o1 then None else Some o1) else live_object env s b)"
  by (simp add: live_object_def view_object_set)

lemma account_of_frame [simp]:
  "account_of env (setStateObject s o1) = account_of env s" "account_of env (sdb_append s e) = account_of env s"
  by (simp_all add: account_of_def sdb_append_def fun_eq_iff)

lemma world_append [simp]: "world_of env (sdb_append s e) = world_of env s"
  by (simp add: world_of_def) (simp add: sdb_append_def GetLogs_def fun_eq_iff)

lemma world_set:
  assumes "so_address o1 = a" "\<not> so_deleted o1"
  shows "world_of env (setStateObject s o1) = put_account (world_of env s) a (account_of env s o1)"
  using assms by (simp add: world_of_def put_account_def live_object_set fun_eq_iff)
    (simp add: setStateObject_def GetLogs_def)

text \<open>A new object has no code and no storage.\<close>

lemma fresh_account:
  assumes "db_ok env (sdb_trie s) (sdb_snap s)"
    "sdb_snap s \<noteq> None \<Longrightarrow> se_keccak env (addr_Bytes a) \<notin> sdb_snapDestructs s \<Longrightarrow>
      snd (load_object env (sdb_trie s) (sdb_snap s) a) = None"
  shows "account_of env s (fresh_object env a) = new_account (se_keccak env) 0"
proof -
  let ?o = "fresh_object env a"
  have sel: "so_code ?o = None" "so_pendingStorage ?o = (\<lambda>_. None)" "so_originStorage ?o = (\<lambda>_. None)"
    "so_dirtyStorage ?o = (\<lambda>_. None)" "so_trie ?o = None" "acc_Root (so_data ?o) = emptyRoot"
    "acc_Nonce (so_data ?o) = 0" "acc_Balance (so_data ?o) = 0"
    by (simp_all add: fresh_object_def newObject_def)
  have "trie_of env ?o = (case se_OpenStorageTrie env (so_addrHash ?o) emptyRoot of Inr t \<Rightarrow> t | Inl _ \<Rightarrow> se_EmptyTrie env)"
    by (simp add: trie_of_def obj_getTrie_def sel split: sum.split)
  then have t: "trie_value env (trie_of env ?o) key = 0" for key using assms(1) by (simp add: db_ok_def)
  have "stored_value env (sdb_snap s) (sdb_snapDestructs s) ?o key = 0" for key
    using assms t by (auto simp: stored_value_def db_ok_def split: option.split sum.split)
  then have c: "committed_view env (sdb_snap s) (sdb_snapDestructs s) ?o = (\<lambda>_. 0)"
    by (intro ext) (simp add: committed_view_eq sel)
  then have "state_view env (sdb_snap s) (sdb_snapDestructs s) ?o = (\<lambda>_. 0)"
    by (intro ext) (simp add: state_view_eq sel)
  then show ?thesis using c by (simp add: account_of_def new_account_def sel code_view_eq)
qed

text \<open>The other accounts do not notice that an account has been destructed.\<close>

lemma world_destructs:
  assumes "state_ok env s" "addr_inj env"
  shows "put_account (world_of env (s\<lparr>sdb_snapDestructs := insert (se_keccak env (addr_Bytes a)) (sdb_snapDestructs s)\<rparr>)) a x
    = put_account (world_of env s) a x"
proof -
  let ?t = "s\<lparr>sdb_snapDestructs := insert (se_keccak env (addr_Bytes a)) (sdb_snapDestructs s)\<rparr>"
  have "map_option (account_of env ?t) (live_object env s b) = map_option (account_of env s) (live_object env s b)"
    if "b \<noteq> a" for b
  proof (cases "live_object env s b")
    case (Some o1)
    have "so_addrHash o1 \<noteq> se_keccak env (addr_Bytes a)"
      using state_ok_live [OF assms(1) Some] assms(2) that by (auto simp: obj_ok_def addr_inj_def)
    then show ?thesis
      using views_destructs [of o1 "sdb_snapDestructs ?t" "sdb_snapDestructs s"] by (simp add: Some account_of_def)
  qed simp
  then show ?thesis by (auto simp: world_of_def put_account_def fun_eq_iff GetLogs_def)
qed

lemma createObject_world:
  assumes "state_ok env s" "db_ok env (sdb_trie s) (sdb_snap s)" "createObject env s a = ((o1, p), t)"
  shows "world_of env t = put_account (world_of env s) a (new_account (se_keccak env) 0)"
    "account_of env t o1 = new_account (se_keccak env) 0"
proof -
  let ?k = "se_keccak env"
  have inj: "addr_inj env" using assms(2) by (simp add: db_ok_def)
  obtain x q where g: "getDeletedStateObject env s a = (x, q)" by fastforce
  note c = getDeletedStateObject_cached [OF g]
  have ok: "state_ok env q" by (rule quiet_state_ok [OF quiet_cached [OF c(1)] assms(1)])
  have q: "sdb_trie q = sdb_trie s" "sdb_snap q = sdb_snap s" "world_of env q = world_of env s"
    using c(1) world_of_eq [OF cached_eq [OF c(1)]] by (simp_all add: cached_def sdb_rest_eq)
  have o1: "o1 = fresh_object env a" using createObject_jsteps(3) [OF assms(1,3)] .
  have "world_of env t = put_account (world_of env s) a (new_account ?k 0) \<and> account_of env t o1 = new_account ?k 0"
  proof (cases "sdb_snap q = None \<or> x = None")
    case True
    then obtain e where t: "t = setStateObject (sdb_append q e) (fresh_object env a)"
      using assms(3) g by (cases x) (auto simp: createObject_def Let_def fresh_object_nonce split: option.splits)
    have "x = None \<Longrightarrow> snd (load_object env (sdb_trie q) (sdb_snap q) a) = None"
      using c(3) q(1,2) by (auto simp: view_object_def split: option.splits)
    then have f: "account_of env q (fresh_object env a) = new_account ?k 0"
      using True assms(2) q(1,2) by (intro fresh_account) auto
    show ?thesis using world_set [of "fresh_object env a" a env "sdb_append q e"] f q(3) by (simp add: t o1)
  next
    case False
    then obtain y where y: "x = Some y" by auto
    have "obj_ok env a y" using state_okD [OF assms(1)] c(3) y by metis
    then have h: "so_addrHash y = ?k (addr_Bytes a)" by (simp add: obj_ok_def)
    let ?q = "q\<lparr>sdb_snapDestructs := insert (?k (addr_Bytes a)) (sdb_snapDestructs q)\<rparr>"
    obtain e where t: "t = setStateObject (sdb_append ?q e) (fresh_object env a)"
      using assms(3) g False y h by (auto simp: createObject_def Let_def fresh_object_nonce)
    have f: "account_of env ?q (fresh_object env a) = new_account ?k 0"
      using assms(2) q(1,2) by (intro fresh_account) auto
    show ?thesis
      using world_set [of "fresh_object env a" a env "sdb_append ?q e"] f q(3) world_destructs [OF ok inj]
      by (simp add: t o1)
  qed
  then show "world_of env t = put_account (world_of env s) a (new_account ?k 0)" "account_of env t o1 = new_account ?k 0"
    by simp_all
qed

lemma GetOrNew_world:
  assumes "state_ok env s" "db_ok env (sdb_trie s) (sdb_snap s)" "GetOrNewStateObject env s a = (o1, t)"
  shows "world_of env t = put_account (world_of env s) a (get_account (se_keccak env) (world_of env s) a)"
    "account_of env t o1 = get_account (se_keccak env) (world_of env s) a"
proof -
  obtain x q where g: "getStateObject env s a = (x, q)" by fastforce
  note c = getStateObject_cached [OF g]
  have ok: "state_ok env q" by (rule quiet_state_ok [OF quiet_cached [OF c(1)] assms(1)])
  have q: "sdb_trie q = sdb_trie s" "sdb_snap q = sdb_snap s" "sdb_snapDestructs q = sdb_snapDestructs s"
    "world_of env q = world_of env s"
    using c(1) world_of_eq [OF cached_eq [OF c(1)]] by (simp_all add: cached_def sdb_rest_eq)
  have "world_of env t = put_account (world_of env s) a (get_account (se_keccak env) (world_of env s) a)
      \<and> account_of env t o1 = get_account (se_keccak env) (world_of env s) a"
  proof (cases x)
    case None
    obtain p where cr: "createObject env q a = ((o1, p), t)"
      using assms(3) g None by (auto simp: GetOrNewStateObject_def split: prod.splits)
    have "db_ok env (sdb_trie q) (sdb_snap q)" using assms(2) q by simp
    from createObject_world [OF ok this cr] show ?thesis using c(3) None q(4) by (simp add: get_account_def)
  next
    case (Some y)
    then have y: "o1 = y" "t = q" "live_object env s a = Some y"
      using assms(3) g c(3) by (auto simp: GetOrNewStateObject_def)
    have "account_of env q y = account_of env s y" using q by (simp add: account_of_def)
    then show ?thesis using y q(4) put_account_same [of "world_of env s" a "account_of env s y"]
      by (simp add: get_account_def)
  qed
  then show "world_of env t = put_account (world_of env s) a (get_account (se_keccak env) (world_of env s) a)"
    "account_of env t o1 = get_account (se_keccak env) (world_of env s) a" by simp_all
qed

section \<open>Each operation does to the world what the machine does\<close>

lemma account_of_obj_eq:
  "obj_eq env (sdb_snap s) (sdb_snapDestructs s) o1 o2 \<Longrightarrow> account_of env s o1 = account_of env s o2"
  by (simp add: account_of_def obj_eq_def)

lemma account_of_set [simp]:
  "account_of env s (obj_setBalance o1 b) = (account_of env s o1)\<lparr>as_balance := b\<rparr>"
  "account_of env s (obj_setNonce o1 n) = (account_of env s o1)\<lparr>as_nonce := n\<rparr>"
  "account_of env s (markSuicided o1) = (account_of env s o1)\<lparr>as_suicided := True\<rparr>"
  by (simp_all add: account_of_def markSuicided_def)

lemma markSuicided_sel [simp]:
  "so_address (markSuicided o1) = so_address o1" "so_deleted (markSuicided o1) = so_deleted o1"
  by (simp_all add: markSuicided_def)

lemma account_of_sel [simp]:
  "as_balance (account_of env s o1) = acc_Balance (so_data o1)" "as_nonce (account_of env s o1) = acc_Nonce (so_data o1)"
  "as_codehash (account_of env s o1) = acc_CodeHash (so_data o1)" "as_suicided (account_of env s o1) = so_suicided o1"
  "as_code (account_of env s o1) = code_view env o1"
  "as_storage (account_of env s o1) = state_view env (sdb_snap s) (sdb_snapDestructs s) o1"
  "as_committed (account_of env s o1) = committed_view env (sdb_snap s) (sdb_snapDestructs s) o1"
  by (simp_all add: account_of_def)

lemma account_of_setState:
  "so_fakeStorage o1 = None \<Longrightarrow>
   account_of env s (obj_setState o1 k v) = (account_of env s o1)\<lparr>as_storage := (as_storage (account_of env s o1))(k := v)\<rparr>"
  by (simp add: account_of_def obj_views_setState)

lemma account_of_setCode:
  "account_of env s (obj_setCode o1 (se_keccak env (case c of None \<Rightarrow> [] | Some c \<Rightarrow> c)) c) =
   (account_of env s o1)\<lparr>as_code := c, as_codehash := hash_Bytes (se_keccak env (case c of None \<Rightarrow> [] | Some c \<Rightarrow> c))\<rparr>"
  by (simp add: account_of_def obj_views_setCode emptyCodeHash_def split: option.split)

lemma account_same [simp]: "x\<lparr>as_balance := as_balance x\<rparr> = (x :: account_state)" "x\<lparr>as_storage := as_storage x\<rparr> = (x :: account_state)"
  by simp_all

lemma write_world:
  assumes "state_ok env s" "db_ok env (sdb_trie s) (sdb_snap s)" "GetOrNewStateObject env s a = (o1, t)"
    "so_address o2 = a" "\<not> so_deleted o2"
  shows "world_of env (setStateObject (sdb_append t e) o2) = put_account (world_of env s) a (account_of env t o2)"
    "world_of env (setStateObject t o2) = put_account (world_of env s) a (account_of env t o2)"
  using GetOrNew_world(1) [OF assms(1-3)] world_set [OF assms(4,5)] by simp_all

lemma GetOrNew_object:
  assumes "state_ok env s" "GetOrNewStateObject env s a = (o1, t)"
  shows "so_address o1 = a" "\<not> so_deleted o1" "so_fakeStorage o1 = None"
  using GetOrNew_jsteps [OF assms] state_okD [of env t a o1] by (auto simp: obj_ok_def)

lemma balance_world:
  fixes a :: address
  assumes "state_ok env s" "db_ok env (sdb_trie s) (sdb_snap s)"
  defines "x \<equiv> get_account (se_keccak env) (world_of env s) a"
  shows "world_of env (SetBalance env s a v) = put_account (world_of env s) a (x\<lparr>as_balance := v\<rparr>)"
    "world_of env (AddBalance env s a v) = put_account (world_of env s) a (x\<lparr>as_balance := as_balance x + v\<rparr>)"
    "world_of env (SubBalance env s a v) = put_account (world_of env s) a (x\<lparr>as_balance := as_balance x - v\<rparr>)"
    "world_of env (SetNonce env s a n) = put_account (world_of env s) a (x\<lparr>as_nonce := n\<rparr>)"
proof -
  obtain o1 t where g: "GetOrNewStateObject env s a = (o1, t)" by fastforce
  note w = GetOrNew_world [OF assms(1,2) g, folded x_def] and o1 = GetOrNew_object [OF assms(1) g]
  note wr = write_world(1) [OF assms(1,2) g, of "obj_setBalance o1 _"] write_world(1) [OF assms(1,2) g, of "obj_setNonce o1 _"]
  have bal: "acc_Balance (so_data o1) = as_balance x" using w(2) account_of_sel(1) by metis
  show "world_of env (SetBalance env s a v) = put_account (world_of env s) a (x\<lparr>as_balance := v\<rparr>)"
    using g wr o1 w(2) by (simp add: SetBalance_def obj_SetBalance_def)
  show "world_of env (SubBalance env s a v) = put_account (world_of env s) a (x\<lparr>as_balance := as_balance x - v\<rparr>)"
    using g wr o1 w bal by (simp add: SubBalance_def obj_SubBalance_def obj_SetBalance_def)
  have "world_of env (obj_touch t o1) = world_of env t"
    by (rule world_of_eq) (simp add: obj_touch_def Let_def)
  then show "world_of env (AddBalance env s a v) = put_account (world_of env s) a (x\<lparr>as_balance := as_balance x + v\<rparr>)"
    using g wr o1 w bal by (simp add: AddBalance_def obj_AddBalance_def obj_SetBalance_def)
  show "world_of env (SetNonce env s a n) = put_account (world_of env s) a (x\<lparr>as_nonce := n\<rparr>)"
    using g wr o1 w(2) by (simp add: SetNonce_def obj_SetNonce_def)
qed

lemma code_world:
  fixes a :: address
  assumes "state_ok env s" "db_ok env (sdb_trie s) (sdb_snap s)"
  defines "x \<equiv> get_account (se_keccak env) (world_of env s) a"
  shows "world_of env (SetCode env s a c) = put_account (world_of env s) a
    (x\<lparr>as_code := c, as_codehash := hash_Bytes (se_keccak env (case c of None \<Rightarrow> [] | Some c \<Rightarrow> c))\<rparr>)"
proof -
  obtain o1 t where g: "GetOrNewStateObject env s a = (o1, t)" by fastforce
  note w = GetOrNew_world [OF assms(1,2) g, folded x_def] and o1 = GetOrNew_object [OF assms(1) g]
  obtain prev o2 where code: "obj_Code env o1 = (prev, o2)" by fastforce
  note eq = Code_eq(1) [OF code, of "sdb_snap t" "sdb_snapDestructs t"]
  have "so_address o2 = a" "\<not> so_deleted o2" using eq o1 by (simp_all add: obj_eq_def)
  then show ?thesis
    using g code w(2) account_of_obj_eq [OF eq]
      write_world(1) [OF assms(1,2) g, of "obj_setCode o2 (se_keccak env (case c of None \<Rightarrow> [] | Some c \<Rightarrow> c)) c"]
    by (simp add: SetCode_def obj_SetCode_def account_of_setCode)
qed

lemma state_world:
  fixes a :: address
  assumes "state_ok env s" "db_ok env (sdb_trie s) (sdb_snap s)"
  defines "x \<equiv> get_account (se_keccak env) (world_of env s) a"
  shows "world_of env (SetState env s a k v) = put_account (world_of env s) a (x\<lparr>as_storage := (as_storage x)(k := v)\<rparr>)"
proof -
  obtain o1 t where g: "GetOrNewStateObject env s a = (o1, t)" by fastforce
  note w = GetOrNew_world [OF assms(1,2) g, folded x_def] and o1 = GetOrNew_object [OF assms(1) g]
  obtain prev o2 where st: "obj_GetState env (sdb_snap t) (sdb_snapDestructs t) o1 k = (prev, o2)" by fastforce
  note eq = GetState_eq [OF st]
  have o2: "so_address o2 = a" "\<not> so_deleted o2" "so_fakeStorage o2 = None" using eq(1) o1 by (simp_all add: obj_eq_def)
  have x: "account_of env t o2 = x" using account_of_obj_eq [OF eq(1)] w(2) by simp
  have prev: "prev = as_storage x k" using eq(2) w(2) account_of_sel(6) [of env t o1] by simp
  show ?thesis
  proof (cases "prev = v")
    case True
    then have "x\<lparr>as_storage := (as_storage x)(k := v)\<rparr> = x" using prev by (simp add: fun_upd_idem)
    then show ?thesis using g st True o1(3) write_world(2) [OF assms(1,2) g o2(1,2)] x
      by (simp add: SetState_def obj_SetState_def)
  next
    case False
    then show ?thesis using g st o1(3) o2 x write_world(1) [OF assms(1,2) g, of "obj_setState o2 k v"]
      by (simp add: SetState_def obj_SetState_def account_of_setState)
  qed
qed

lemma CreateAccount_world:
  assumes "state_ok env s" "db_ok env (sdb_trie s) (sdb_snap s)"
  shows "world_of env (CreateAccount env s a) =
    put_account (world_of env s) a (new_account (se_keccak env) (read_account (world_of env s) a as_balance 0))"
proof -
  obtain o1 p t where c: "createObject env s a = ((o1, p), t)" by (metis prod.exhaust)
  note w = createObject_world [OF assms c]
  have p: "p = live_object env s a" "o1 = fresh_object env a"
    by (rule createObject_shape [OF assms(1) c]; assumption)+
  show ?thesis
  proof (cases p)
    case None
    then have "live_object env s a = None" using p(1) by simp
    then show ?thesis using c w(1) None by (simp add: CreateAccount_def read_account_def)
  next
    case (Some q)
    have "(new_account (se_keccak env) 0)\<lparr>as_balance := acc_Balance (so_data q)\<rparr>
        = new_account (se_keccak env) (acc_Balance (so_data q))" by (simp add: new_account_def)
    moreover have "live_object env s a = Some q" using p(1) Some by simp
    ultimately show ?thesis
      using c w p(2) Some world_set [of "obj_setBalance o1 (acc_Balance (so_data q))" a env t]
      by (simp add: CreateAccount_def read_account_def)
  qed
qed

lemma Suicide_world:
  assumes "state_ok env s"
  shows "map_prod RBool (world_of env) (Suicide env s a) =
     (case w_accounts (world_of env s) a of
        None \<Rightarrow> (RBool False, world_of env s)
      | Some x \<Rightarrow> (RBool True, put_account (world_of env s) a (x\<lparr>as_suicided := True, as_balance := 0\<rparr>)))"
proof -
  obtain x q where g: "getStateObject env s a = (x, q)" by fastforce
  note c = getStateObject_cached [OF g]
  have q: "sdb_snap q = sdb_snap s" "sdb_snapDestructs q = sdb_snapDestructs s" "world_of env q = world_of env s"
    using c(1) world_of_eq [OF cached_eq [OF c(1)]] by (simp_all add: cached_def sdb_rest_eq)
  show ?thesis
  proof (cases x)
    case None
    then have "live_object env s a = None" using c(3) by simp
    then show ?thesis using None g q(3) by (simp add: Suicide_def)
  next
    case (Some o1)
    then have live: "live_object env s a = Some o1" using c(3) by simp
    have "so_address o1 = a" "\<not> so_deleted o1"
      using state_ok_live [OF assms live] live by (auto simp: obj_ok_def live_object_def split: option.splits if_splits)
    then have "world_of env (setStateObject (sdb_append q e) (obj_setBalance (markSuicided o1) 0)) =
        put_account (world_of env s) a ((account_of env q o1)\<lparr>as_suicided := True, as_balance := 0\<rparr>)" for e
      using world_set [of "obj_setBalance (markSuicided o1) 0" a env "sdb_append q e"] q(3) by simp
    moreover have "account_of env q o1 = account_of env s o1" using q by (simp add: account_of_def)
    ultimately show ?thesis using g live Some by (simp add: Suicide_def)
  qed
qed

lemma world_eqI:
  assumes "\<And>a. live_object env t a = live_object env s a" "sdb_snap t = sdb_snap s" "sdb_snapDestructs t = sdb_snapDestructs s"
  shows "w_accounts (world_of env t) = w_accounts (world_of env s)"
  using assms by (auto simp: account_of_def fun_eq_iff intro!: map_option_cong)

lemma AddLog_world: "world_of env (AddLog s l) = world_log (world_of env s) l"
proof (rule world.equality)
  show "w_accounts (world_of env (AddLog s l)) = w_accounts (world_log (world_of env s) l)"
    using world_eqI [of env "AddLog s l" s] by (simp add: world_log_def live_object_def AddLog_def Let_def)
      (simp add: sdb_append_def)
qed (simp_all add: world_of_def world_log_def AddLog_def Let_def GetLogs_def sdb_append_def fun_eq_iff)

lemma AddPreimage_world:
  "world_of env (AddPreimage s h p) =
     (let w = world_of env s in if w_preimages w h = None then w\<lparr>w_preimages := (w_preimages w)(h \<mapsto> p)\<rparr> else w)"
proof (cases "sdb_preimages s h")
  case None
  show ?thesis
  proof (rule world.equality)
    show "w_accounts (world_of env (AddPreimage s h p)) =
        w_accounts (let w = world_of env s in if w_preimages w h = None then w\<lparr>w_preimages := (w_preimages w)(h \<mapsto> p)\<rparr> else w)"
      using world_eqI [of env "AddPreimage s h p" s] None
      by (simp add: live_object_def AddPreimage_def Let_def) (simp add: sdb_append_def world_of_def)
  qed (use None in \<open>simp_all add: world_of_def AddPreimage_def Let_def GetLogs_def sdb_append_def fun_eq_iff\<close>)
qed (simp add: AddPreimage_def world_of_def)

lemma refund_world:
  "world_of env ((sdb_append s e)\<lparr>sdb_refund := g\<rparr>) = (world_of env s)\<lparr>w_refund := g\<rparr>"
proof (rule world.equality)
  show "w_accounts (world_of env ((sdb_append s e)\<lparr>sdb_refund := g\<rparr>)) = w_accounts ((world_of env s)\<lparr>w_refund := g\<rparr>)"
    using world_eqI [of env "(sdb_append s e)\<lparr>sdb_refund := g\<rparr>" s]
    by (simp add: live_object_def) (simp add: sdb_append_def)
qed (simp_all add: world_of_def GetLogs_def sdb_append_def fun_eq_iff)

lemma access_world:
  assumes "sdb_rest t = sdb_rest (s\<lparr>sdb_accessList := al\<rparr>)" "\<And>a. view_object env t a = view_object env s a"
  shows "world_of env t = (world_of env s)\<lparr>w_addresses := ContainsAddress al, w_slots := has_slot al\<rparr>"
proof (rule world.equality)
  show "w_accounts (world_of env t) =
      w_accounts ((world_of env s)\<lparr>w_addresses := ContainsAddress al, w_slots := has_slot al\<rparr>)"
    using world_eqI [of env t s] assms by (simp add: live_object_def sdb_rest_eq)
qed (use assms(1) in \<open>simp_all add: world_of_def sdb_rest_eq GetLogs_def fun_eq_iff\<close>)

lemma AddAddress_world:
  assumes "state_ok env s"
  shows "world_of env (AddAddressToAccessList s a) = (world_of env s)\<lparr>w_addresses := (w_addresses (world_of env s))(a := True)\<rparr>"
proof -
  obtain c al where al: "AddAddress (sdb_accessList s) a = (c, al)" by fastforce
  have "has_slot al = has_slot (sdb_accessList s)"
    using al by (auto simp: AddAddress_def has_slot_def Contains_def slot_map_def fun_eq_iff split: if_splits option.splits)
  moreover have "ContainsAddress al = (ContainsAddress (sdb_accessList s))(a := True)"
    using Contains_AddAddress [OF al] by (auto simp: fun_eq_iff)
  moreover have "world_of env (AddAddressToAccessList s a) = (world_of env s)\<lparr>w_addresses := ContainsAddress al, w_slots := has_slot al\<rparr>"
    by (rule access_world) (simp_all add: AddAddressToAccessList_def al Let_def, simp add: sdb_rest_eq sdb_append_def)
  ultimately show ?thesis by (simp add: world_of_def)
qed

lemma AddSlot_world:
  assumes "state_ok env s"
  obtains t where "AddSlotToAccessList s a k = Some t"
    "world_of env t = (world_of env s)\<lparr>w_addresses := (w_addresses (world_of env s))(a := True),
       w_slots := (w_slots (world_of env s))(a := (w_slots (world_of env s) a)(k := True))\<rparr>"
proof -
  have ok: "al_ok (sdb_accessList s)" using assms by (simp add: state_ok_def)
  obtain c d al where al: "AddSlot (sdb_accessList s) a k = Some ((c, d), al)" by (rule AddSlot_some [OF ok])
  note added = Contains_AddSlot [OF ok al]
  obtain t where t: "AddSlotToAccessList s a k = Some t" by (simp add: AddSlotToAccessList_def al Let_def)
  have "world_of env t = (world_of env s)\<lparr>w_addresses := ContainsAddress al, w_slots := has_slot al\<rparr>"
    by (rule access_world; use t in \<open>auto simp: AddSlotToAccessList_def al Let_def\<close>;
        auto simp: sdb_rest_eq sdb_append_def)
  moreover have "ContainsAddress al = (ContainsAddress (sdb_accessList s))(a := True)"
    "has_slot al = (has_slot (sdb_accessList s))(a := (has_slot (sdb_accessList s) a)(k := True))"
    using added by (auto simp: fun_eq_iff)
  ultimately show thesis using that [OF t] by (simp add: world_of_def)
qed

text \<open>The readers.\<close>

lemma read_world:
  "Exist env s a = (x1, t1) \<Longrightarrow> x1 = (w_accounts (world_of env s) a \<noteq> None)"
  "Empty env s a = (x2, t2) \<Longrightarrow> x2 = read_account (world_of env s) a (account_empty (se_keccak env)) True"
  "GetBalance env s a = (x3, t3) \<Longrightarrow> x3 = read_account (world_of env s) a as_balance 0"
  "GetNonce env s a = (x4, t4) \<Longrightarrow> x4 = read_account (world_of env s) a as_nonce 0"
  "GetCodeHash env s a = (x5, t5) \<Longrightarrow> x5 = read_account (world_of env s) a (\<lambda>x. BytesToHash (as_codehash x)) 0"
  "HasSuicided env s a = (x6, t6) \<Longrightarrow> x6 = read_account (world_of env s) a as_suicided False"
  "GetCode env s a = (x7, t7) \<Longrightarrow> x7 = read_account (world_of env s) a as_code None"
  "GetState env s a k = (x8, t8) \<Longrightarrow> x8 = read_account (world_of env s) a (\<lambda>x. as_storage x k) 0"
  "GetCommittedState env s a k = (x9, t9) \<Longrightarrow> x9 = read_account (world_of env s) a (\<lambda>x. as_committed x k) 0"
proof -
  obtain o1 q where g: "getStateObject env s a = (o1, q)" by fastforce
  have o1: "live_object env s a = o1" using getStateObject_cached(3) [OF g] by simp
  have q: "sdb_snap q = sdb_snap s" "sdb_snapDestructs q = sdb_snapDestructs s"
    using getStateObject_cached(1) [OF g] by (simp_all add: cached_def sdb_rest_eq)
  note simps = g o1 q read_account_def account_empty_def obj_empty_def
  show "Exist env s a = (x1, t1) \<Longrightarrow> x1 = (w_accounts (world_of env s) a \<noteq> None)"
    "Empty env s a = (x2, t2) \<Longrightarrow> x2 = read_account (world_of env s) a (account_empty (se_keccak env)) True"
    "GetBalance env s a = (x3, t3) \<Longrightarrow> x3 = read_account (world_of env s) a as_balance 0"
    "GetNonce env s a = (x4, t4) \<Longrightarrow> x4 = read_account (world_of env s) a as_nonce 0"
    "GetCodeHash env s a = (x5, t5) \<Longrightarrow> x5 = read_account (world_of env s) a (\<lambda>x. BytesToHash (as_codehash x)) 0"
    "HasSuicided env s a = (x6, t6) \<Longrightarrow> x6 = read_account (world_of env s) a as_suicided False"
    by (cases o1; simp add: simps Exist_def Empty_def GetBalance_def GetNonce_def GetCodeHash_def HasSuicided_def)+
  show "GetCode env s a = (x7, t7) \<Longrightarrow> x7 = read_account (world_of env s) a as_code None"
    by (cases o1) (auto simp: simps GetCode_def code_view_def split: prod.splits)
  show "GetState env s a k = (x8, t8) \<Longrightarrow> x8 = read_account (world_of env s) a (\<lambda>x. as_storage x k) 0"
    by (cases o1) (auto simp: simps GetState_def state_view_def split: prod.splits)
  show "GetCommittedState env s a k = (x9, t9) \<Longrightarrow> x9 = read_account (world_of env s) a (\<lambda>x. as_committed x k) 0"
    by (cases o1) (auto simp: simps GetCommittedState_def committed_view_def split: prod.splits)
qed

lemma GetCodeSize_world:
  assumes "db_ok env tr sn" "GetCodeSize env s a = (x, t)"
  shows "x = read_account (world_of env s) a (\<lambda>x. case as_code x of None \<Rightarrow> 0 | Some c \<Rightarrow> int (length c)) 0"
proof -
  obtain o1 q where g: "getStateObject env s a = (o1, q)" by fastforce
  have o1: "live_object env s a = o1" using getStateObject_cached(3) [OF g] by simp
  have "fst (obj_CodeSize env o2) = (case code_view env o2 of None \<Rightarrow> 0 | Some c \<Rightarrow> int (length c))" for o2
    using assms(1) by (auto simp: obj_CodeSize_def code_view_eq db_ok_def Let_def split: option.split prod.split dest: arg_cong [of _ _ fst])
  then have "n = (case code_view env o2 of None \<Rightarrow> 0 | Some c \<Rightarrow> int (length c))" if "obj_CodeSize env o2 = (n, o3)" for n o2 o3
    using that by (metis fst_conv)
  then show ?thesis using assms(2) by (cases o1) (auto simp: g o1 GetCodeSize_def read_account_def split: prod.splits)
qed

lemma quiet_world: "quiet env s t \<Longrightarrow> world_of env t = world_of env s"
  using world_of_eq by (auto simp: quiet_def)

lemma run_op_world:
  assumes "state_ok env s" "db_ok env (sdb_trie s) (sdb_snap s)" "op \<noteq> OpSnapshot" "\<And>i. op \<noteq> OpRevertToSnapshot i"
  shows "map_option (map_prod (\<lambda>r. r) (world_of env)) (run_op env op s) = world_op (se_keccak env) op (world_of env s)"
proof (cases op)
  case (OpSuicide a)
  have "map_prod (\<lambda>r. r) (world_of env) (map_prod RBool (\<lambda>s. s) (Suicide env s a)) = map_prod RBool (world_of env) (Suicide env s a)"
    by (cases "Suicide env s a") simp
  then show ?thesis using OpSuicide Suicide_world [OF assms(1)] by simp
next
  case (OpAddSlot a k)
  obtain t where "AddSlotToAccessList s a k = Some t"
    "world_of env t = (world_of env s)\<lparr>w_addresses := (w_addresses (world_of env s))(a := True),
       w_slots := (w_slots (world_of env s))(a := (w_slots (world_of env s) a)(k := True))\<rparr>"
    by (rule AddSlot_world [OF assms(1)])
  then show ?thesis using OpAddSlot by simp
next
  case (OpSlotInAccessList a k)
  have "al_ok (sdb_accessList s)" using assms(1) by (simp add: state_ok_def)
  then show ?thesis using OpSlotInAccessList Contains_total
    by (simp add: SlotInAccessList_def) (simp add: world_of_def)
next
  case (OpGetCode a)
  then show ?thesis using read_world(7) quiet_world [OF GetCode_quiet [OF assms(1)], of a]
    by (cases "GetCode env s a") auto
next
  case (OpGetCodeSize a)
  then show ?thesis using GetCodeSize_world [OF assms(2)] quiet_world [OF GetCodeSize_quiet [OF assms(1)], of a]
    by (cases "GetCodeSize env s a") auto
next
  case (OpGetState a k)
  then show ?thesis using read_world(8) quiet_world [OF GetState_quiet [OF assms(1)], of a k]
    by (cases "GetState env s a k") auto
next
  case (OpGetCommittedState a k)
  then show ?thesis using read_world(9) quiet_world [OF GetCommittedState_quiet [OF assms(1)], of a k]
    by (cases "GetCommittedState env s a k") auto
next
  case (OpExist a)
  then show ?thesis using read_world(1) [of env s a] quiet_world [OF read_account_quiet(1), of env s a]
    by (cases "Exist env s a") auto
next
  case (OpEmpty a)
  then show ?thesis using read_world(2) [of env s a] quiet_world [OF read_account_quiet(2), of env s a]
    by (cases "Empty env s a") auto
next
  case (OpGetBalance a)
  then show ?thesis using read_world(3) [of env s a] quiet_world [OF read_account_quiet(3), of env s a]
    by (cases "GetBalance env s a") auto
next
  case (OpGetNonce a)
  then show ?thesis using read_world(4) [of env s a] quiet_world [OF read_account_quiet(4), of env s a]
    by (cases "GetNonce env s a") auto
next
  case (OpGetCodeHash a)
  then show ?thesis using read_world(5) [of env s a] quiet_world [OF read_account_quiet(5), of env s a]
    by (cases "GetCodeHash env s a") auto
next
  case (OpHasSuicided a)
  then show ?thesis using read_world(6) [of env s a] quiet_world [OF read_account_quiet(6), of env s a]
    by (cases "HasSuicided env s a") auto
next
  case (OpAddRefund g)
  then show ?thesis by (simp add: AddRefund_def refund_world) (simp add: world_of_def)
next
  case (OpSubRefund g)
  then show ?thesis by (simp add: SubRefund_def refund_world) (simp add: world_of_def)
next
  case (OpGetRefund)
  then show ?thesis by (simp add: GetRefund_def) (simp add: world_of_def)
next
  case (OpAddressInAccessList a)
  then show ?thesis by (simp add: AddressInAccessList_def) (simp add: world_of_def)
next
  case (OpAddPreimage h p)
  then show ?thesis using AddPreimage_world [of env s h p] by (simp add: Let_def)
qed (use assms(3,4) CreateAccount_world [OF assms(1,2)] balance_world [OF assms(1,2)] code_world [OF assms(1,2)]
    state_world [OF assms(1,2)] AddLog_world AddAddress_world [OF assms(1)] in \<open>simp_all add: Let_def\<close>)

section \<open>The simulation\<close>

text \<open>The trie and the snapshot of a state do not change.\<close>

lemma entry_revert_base:
  assumes "entry_revert env s e = Some u"
  shows "sdb_trie u = sdb_trie s \<and> sdb_snap u = sdb_snap s"
proof -
  have c: "sdb_trie t = sdb_trie s \<and> sdb_snap t = sdb_snap s" if "getStateObject env s a = (x, t)" for a x t
    using getStateObject_cached(1) [OF that] by (simp add: cached_def sdb_rest_eq)
  have w: "sdb_trie u = sdb_trie s \<and> sdb_snap u = sdb_snap s" if "with_object env s a f = Some u" for a f
    using that c by (auto simp: with_object_def split: prod.splits option.splits)
  show ?thesis
    using assms by (cases e) (auto dest: w c simp: Let_def split: if_splits prod.splits option.splits)
qed

lemma jsteps_base: "jsteps env s t \<Longrightarrow> sdb_trie t = sdb_trie s \<and> sdb_snap t = sdb_snap s"
proof (induction rule: jsteps.induct)
  case (entry s t u)
  then obtain e v where "entry_revert env u e = Some v" "sdb_eq env v t" by (auto simp: jstep_def)
  then show ?case using entry_revert_base [of env u e v] entry by (simp add: sdb_eq_def sdb_rest_eq)
qed (auto simp: quiet_def sdb_eq_def sdb_rest_eq)

lemma revert_loop_base: "revert_loop env es s = Some u \<Longrightarrow> sdb_trie u = sdb_trie s \<and> sdb_snap u = sdb_snap s"
proof (induction es arbitrary: s)
  case (Cons e es)
  then show ?case using entry_revert_base [of env s e] by (fastforce split: option.splits)
qed simp

definition saved_worlds :: "'t state_env \<Rightarrow> 't StateDB \<Rightarrow> (int \<times> world) list \<Rightarrow> bool" where
  "saved_worlds env s saved =
     list_all2 (\<lambda>r q. fst q = fst r \<and> (\<exists>u. revert_loop env (rev (drop (snd r) (entries s))) s = Some u \<and> world_of env u = snd q))
       (sdb_validRevisions s) saved"

definition simulates :: "'t state_env \<Rightarrow> 't \<Rightarrow> snap option \<Rightarrow> 't StateDB \<Rightarrow> machine \<Rightarrow> bool" where
  "simulates env tr sn s m =
     (state_inv env s \<and> sdb_trie s = tr \<and> sdb_snap s = sn \<and> m_world m = world_of env s
      \<and> m_next m = sdb_nextRevisionId s \<and> saved_worlds env s (m_saved m))"

text \<open>Going back further than a state that is only written to.\<close>

lemma saved_worlds_goes_back:
  assumes "addr_inj env" "state_inv env s" "goes_back env s t" "same_revisions s t" "saved_worlds env s saved"
  shows "saved_worlds env t saved"
proof -
  obtain es u where g: "entries t = entries s @ es" "revert_loop env (rev es) t = Some u" "sdb_eq env u s"
    using assms(3) by (auto simp: goes_back_def)
  have "\<exists>v. revert_loop env (rev (drop k (entries t))) t = Some v \<and> world_of env v = w"
    if r: "(i, k) \<in> set (sdb_validRevisions s)" "revert_loop env (rev (drop k (entries s))) s = Some x" "world_of env x = w"
    for i k x w
  proof -
    have inv: "undo_ok env (rev (entries s)) s" "k \<le> length (entries s)"
      using assms(2) r(1) by (auto simp: state_inv_def revisions_ok_def)
    have "rev (entries s) = rev (drop k (entries s)) @ rev (take k (entries s))" by (simp flip: rev_append)
    then obtain v where v: "revert_loop env (rev (drop k (entries s))) u = Some v" "sdb_eq env x v"
      using revert_loop_eq [OF assms(1) sdb_eq_sym [OF g(3)], of "rev (drop k (entries s))" "rev (take k (entries s))"]
        inv(1) r(2) by auto
    have "rev (drop k (entries t)) = rev es @ rev (drop k (entries s))" using g(1) inv(2) by simp
    then show ?thesis using g(2) r(3) v(1) world_of_eq [OF v(2)] by (simp add: revert_loop_append)
  qed
  then show ?thesis using assms(4,5) unfolding saved_worlds_def same_revisions_def
    by (auto simp: list_all2_conv_all_nth) (metis nth_mem prod.collapse)
qed

lemma saved_nth:
  assumes "saved_worlds env s saved"
  shows "length saved = length (sdb_validRevisions s)"
    "j < length saved \<Longrightarrow> fst (saved ! j) = fst (sdb_validRevisions s ! j)
      \<and> (\<exists>u. revert_loop env (rev (drop (snd (sdb_validRevisions s ! j)) (entries s))) s = Some u \<and> world_of env u = snd (saved ! j))"
  using assms by (auto simp: saved_worlds_def list_all2_conv_all_nth)

lemma simulates_Snapshot:
  assumes "db_ok env tr sn" "simulates env tr sn s m" "Snapshot s = (rid, t)"
  shows "simulates env tr sn t (m\<lparr>m_saved := m_saved m @ [(m_next m, m_world m)], m_next := m_next m + 1\<rparr>)"
    "rid = m_next m"
proof -
  have inj: "addr_inj env" using assms(1) by (simp add: db_ok_def)
  have sim: "state_inv env s" "m_next m = sdb_nextRevisionId s" "m_world m = world_of env s"
    "saved_worlds env s (m_saved m)" "sdb_trie s = tr" "sdb_snap s = sn"
    using assms(2) by (simp_all add: simulates_def)
  note snap = Snapshot_state_inv [OF inj sim(1) assms(3)]
  show rid: "rid = m_next m" using snap(4) sim(2) by simp
  have old: "\<exists>v. revert_loop env (rev (drop (snd r) (entries t))) t = Some v \<and> world_of env v = snd q"
    if r: "r \<in> set (sdb_validRevisions s)" "\<exists>u. revert_loop env (rev (drop (snd r) (entries s))) s = Some u \<and> world_of env u = snd q" for r q
  proof -
    let ?e = "entries s"
    have "rev ?e = rev (drop (snd r) ?e) @ rev (take (snd r) ?e)" by (simp flip: rev_append)
    then have "undo_ok env (rev (drop (snd r) ?e) @ rev (take (snd r) ?e)) s" using sim(1) by (simp add: state_inv_def)
    from revert_loop_eq [OF inj sdb_eq_sym [OF snap(2)] this] r(2) obtain v where
      "revert_loop env (rev (drop (snd r) ?e)) t = Some v" "world_of env v = snd q" using world_of_eq by fastforce
    then show ?thesis using snap(3) by simp
  qed
  have "saved_worlds env t (m_saved m @ [(m_next m, m_world m)])"
    unfolding saved_worlds_def snap(6)
  proof (rule list_all2_appendI)
    show "list_all2 (\<lambda>r q. fst q = fst r \<and> (\<exists>u. revert_loop env (rev (drop (snd r) (entries t))) t = Some u \<and> world_of env u = snd q))
        (sdb_validRevisions s) (m_saved m)"
      using sim(4) old unfolding saved_worlds_def list_all2_conv_all_nth by (meson nth_mem)
    show "list_all2 (\<lambda>r q. fst q = fst r \<and> (\<exists>u. revert_loop env (rev (drop (snd r) (entries t))) t = Some u \<and> world_of env u = snd q))
        [(rid, length (entries s))] [(m_next m, m_world m)]"
      using snap(3) rid sim(3) world_of_eq [OF snap(2)] by simp
  qed
  moreover have "sdb_trie t = tr" "sdb_snap t = sn" using snap(2) sim(5,6) by (simp_all add: sdb_eq_def sdb_rest_eq)
  ultimately show "simulates env tr sn t (m\<lparr>m_saved := m_saved m @ [(m_next m, m_world m)], m_next := m_next m + 1\<rparr>)"
    using snap(1,5) rid sim(3) world_of_eq [OF snap(2)] by (simp add: simulates_def)
qed

lemma simulates_Revert:
  assumes "db_ok env tr sn" "simulates env tr sn s m"
  shows "rel_option (\<lambda>x y. fst x = fst y \<and> simulates env tr sn (snd x) (snd y))
    (run_op env (OpRevertToSnapshot i) s) (machine_op (se_keccak env) (OpRevertToSnapshot i) m)"
proof -
  have inj: "addr_inj env" using assms(1) by (simp add: db_ok_def)
  have sim: "state_inv env s" "m_next m = sdb_nextRevisionId s" "saved_worlds env s (m_saved m)"
    "sdb_trie s = tr" "sdb_snap s = sn"
    using assms(2) by (simp_all add: simulates_def)
  let ?r = "sdb_validRevisions s" and ?q = "m_saved m" and ?e = "entries s"
  have sorted: "fst (?r ! x) < fst (?r ! y) \<and> snd (?r ! x) \<le> snd (?r ! y)" if "x < y" "y < length ?r" for x y
    using sim(1) that by (simp add: state_inv_def revisions_ok_def sorted_wrt_iff_nth_less)
  note len = saved_nth(1) [OF sim(3)] and nth = saved_nth(2) [OF sim(3)]
  have dist: "distinct (map fst ?q)"
    unfolding distinct_conv_nth using sorted nth len by (auto simp: linorder_neq_iff)
  show ?thesis
  proof (cases "\<exists>j < length ?r. fst (?r ! j) = i")
    case False
    then have "RevertToSnapshot env s i = None"
      using RevertToSnapshot_valid [of env s i] by (cases "RevertToSnapshot env s i") (metis fst_conv)+
    moreover have "i \<notin> fst ` set ?q" using False nth len by (force simp: in_set_conv_nth)
    then have "map_of ?q i = None" by (simp add: map_of_eq_None_iff)
    ultimately show ?thesis by simp
  next
    case True
    then obtain j k where j: "j < length ?r" "?r ! j = (i, k)" by (metis prod.collapse)
    obtain w where w: "?q ! j = (i, w)" "\<exists>u. revert_loop env (rev (drop k ?e)) s = Some u \<and> world_of env u = w"
      using nth [of j] j len by (metis fst_conv prod.collapse snd_conv)
    have mem: "(i, w) \<in> set ?q" using w(1) j(1) len nth_mem by metis
    then have mo: "map_of ?q i = Some w" using dist by simp
    obtain u t where t: "RevertToSnapshot env s i = Some t" "revert_loop env (rev (drop k ?e)) s = Some u"
      "undo_ok env (rev (take k ?e)) u" "sdb_eq env t u" "entries t = take k ?e" "state_inv env t"
      "sdb_validRevisions t = take j ?r" "sdb_nextRevisionId t = sdb_nextRevisionId s"
      by (rule RevertToSnapshot_state [OF inj sim(1) j])
    have tw: "takeWhile (\<lambda>x. fst x < i) ?q = take j ?q"
    proof (rule takeWhile_eq_take_P_nth)
      show "fst (?q ! x) < i" if "x < j" "x < length ?q" for x using sorted [OF that(1) j(1)] nth [OF that(2)] j(2) by simp
      show "\<not> fst (?q ! j) < i" if "j < length ?q" using w(1) by simp
    qed
    have "\<exists>v. revert_loop env (rev (drop (snd (?r ! x)) (take k ?e))) t = Some v \<and> world_of env v = snd (?q ! x)" if x: "x < j" for x
    proof -
      let ?n = "snd (?r ! x)"
      have n: "?n \<le> k" using sorted [OF x j(1)] j(2) by simp
      obtain v where v: "revert_loop env (rev (drop ?n ?e)) s = Some v" "world_of env v = snd (?q ! x)"
        using nth [of x] x j(1) len by auto
      have "rev (drop ?n ?e) = rev (drop k ?e) @ rev (drop ?n (take k ?e))"
        unfolding rev_append [symmetric] using n drop_append [of ?n "take k ?e" "drop k ?e"] by (cases "k \<le> length ?e") auto
      then have lu: "revert_loop env (rev (drop ?n (take k ?e))) u = Some v" using v(1) t(2) by (simp add: revert_loop_append)
      have "rev (take k ?e) = rev (drop ?n (take k ?e)) @ rev (take ?n ?e)"
        using n by (simp flip: rev_append) (metis append_take_drop_id min.absorb1 take_take)
      then obtain x' where "revert_loop env (rev (drop ?n (take k ?e))) t = Some x'" "sdb_eq env v x'"
        using revert_loop_eq [OF inj sdb_eq_sym [OF t(4)]] t(3) lu by fastforce
      then show ?thesis using v(2) world_of_eq by fastforce
    qed
    then have "saved_worlds env t (take j ?q)"
      using t(5,7) nth len j(1) by (simp add: saved_worlds_def list_all2_conv_all_nth)
    moreover have "world_of env t = w" using world_of_eq [OF t(4)] t(2) w(2) by auto
    moreover have "sdb_trie t = tr" "sdb_snap t = sn"
      using revert_loop_base [OF t(2)] t(4) sim(4,5) by (simp_all add: sdb_eq_def sdb_rest_eq)
    ultimately show ?thesis using t(1,6,8) mo tw sim(2) by (simp add: simulates_def)
  qed
qed

lemma simulates_write:
  assumes "db_ok env tr sn" "simulates env tr sn s m" "op \<noteq> OpSnapshot" "\<And>i. op \<noteq> OpRevertToSnapshot i"
  shows "rel_option (\<lambda>x y. fst x = fst y \<and> simulates env tr sn (snd x) (snd y))
    (run_op env op s) (machine_op (se_keccak env) op m)"
proof -
  have inj: "addr_inj env" using assms(1) by (simp add: db_ok_def)
  have sim: "state_inv env s" "m_next m = sdb_nextRevisionId s" "m_world m = world_of env s"
    "saved_worlds env s (m_saved m)" "sdb_trie s = tr" "sdb_snap s = sn"
    using assms(2) by (simp_all add: simulates_def)
  have undo: "undo_ok env (rev (entries s)) s" using sim(1) by (simp add: state_inv_def)
  have ok: "state_ok env s" by (rule undo_ok_state_ok [OF undo])
  have mop: "machine_op (se_keccak env) op m = map_option (\<lambda>(r, w). (r, m\<lparr>m_world := w\<rparr>)) (world_op (se_keccak env) op (world_of env s))"
    using assms(3) sim(3) by (cases op) (use assms(4) in simp_all)
  have w: "world_op (se_keccak env) op (world_of env s) = map_option (map_prod (\<lambda>r. r) (world_of env)) (run_op env op s)"
    using run_op_world [OF ok _ assms(3,4)] assms(1) sim(5,6) by simp
  show ?thesis
  proof (cases "run_op env op s")
    case None
    then show ?thesis using mop w by simp
  next
    case (Some x)
    then obtain r t where rt: "run_op env op s = Some (r, t)" by (cases x) simp
    have j: "jsteps env s t" by (rule run_op_jsteps [OF ok rt assms(3,4)])
    have same: "same_revisions s t" using jsteps_revisions [OF j] by simp
    have "saved_worlds env t (m_saved m)"
      by (rule saved_worlds_goes_back [OF inj sim(1) jsteps_goes_back [OF j inj undo goes_back_refl] same sim(4)])
    then have "simulates env tr sn t (m\<lparr>m_world := world_of env t\<rparr>)"
      using jsteps_state_inv [OF j inj sim(1)] jsteps_base [OF j] sim same by (simp add: simulates_def same_revisions_def)
    then show ?thesis using mop w rt by simp
  qed
qed

lemma simulates_op:
  assumes "db_ok env tr sn" "simulates env tr sn s m"
  shows "rel_option (\<lambda>x y. fst x = fst y \<and> simulates env tr sn (snd x) (snd y))
    (run_op env op s) (machine_op (se_keccak env) op m)"
proof (cases "op = OpSnapshot")
  case True
  obtain i t where "Snapshot s = (i, t)" by fastforce
  then show ?thesis using True simulates_Snapshot [OF assms] by simp
next
  case False
  then show ?thesis using simulates_write [OF assms] simulates_Revert [OF assms] by blast
qed

lemma simulates_ops:
  assumes "db_ok env tr sn" "simulates env tr sn s m"
  shows "rel_option (\<lambda>x y. fst x = fst y \<and> simulates env tr sn (snd x) (snd y))
    (run_ops env ops s) (machine_ops (se_keccak env) ops m)"
  using assms(2)
proof (induction ops arbitrary: s m)
  case (Cons op ops)
  show ?case
  proof (cases "run_op env op s")
    case None
    then show ?thesis using simulates_op [OF assms(1) Cons.prems, of op] by simp
  next
    case (Some x)
    then obtain r t n where x: "x = (r, t)" "machine_op (se_keccak env) op m = Some (r, n)" "simulates env tr sn t n"
      using simulates_op [OF assms(1) Cons.prems, of op] by (cases x) (auto simp: option_rel_Some1)
    show ?thesis
      using Cons.IH [OF x(3)] Some x(1,2)
      by (cases "run_ops env ops t"; cases "machine_ops (se_keccak env) ops n") auto
  qed
qed simp

end
