(* ===== verification/State_Properties.thy ===== *)
theory State_Properties
  imports State_Refine
begin

text \<open>
  What the journaled state guarantees to its callers, from a state that \<^verbatim>\<open>New\<close> has opened and whatever sequence of
  operations ran on it: the invariant, which operations can panic, that going back to a snapshot restores
  the state, and that the state implements the abstract machine.
\<close>

section \<open>The initial state\<close>

lemma view_New: "view_object env (New env root tr sn) a = snd (load_object env tr sn a)"
  by (simp add: view_object_def New_def)

lemma New_state_inv:
  assumes "\<And>a e o1. load_object env tr sn a = (e, Some o1) \<Longrightarrow> length (acc_CodeHash (so_data o1)) = 32"
  shows "state_inv env (New env root tr sn)"
proof -
  have "obj_ok env a o1" if "view_object env (New env root tr sn) a = Some o1" for a o1
    using that assms [of a] load_object_address [of env tr sn a]
    by (cases "load_object env tr sn a") (auto simp: view_New obj_ok_def)
  then have "state_ok env (New env root tr sn)"
    by (simp add: state_ok_def) (simp add: New_def al_ok_def newAccessList_def)
  then show ?thesis
    by (simp add: state_inv_def revisions_ok_def journal_ok_def dirty_entries_def) (simp add: New_def newJournal_def)
qed

lemma run_op_state_inv:
  assumes "addr_inj env" "state_inv env s" "run_op env op s = Some (r, t)"
  shows "state_inv env t"
proof -
  consider j where "op = OpRevertToSnapshot j" | "op = OpSnapshot"
    | "op \<noteq> OpSnapshot" "\<And>j. op \<noteq> OpRevertToSnapshot j" by blast
  then show ?thesis
  proof cases
    case 1
    then have t: "RevertToSnapshot env s j = Some t" using assms(3) by auto
    obtain i k where i: "i < length (sdb_validRevisions s)" "sdb_validRevisions s ! i = (j, k)"
      by (rule RevertToSnapshot_valid [OF t])
    obtain t' where "RevertToSnapshot env s j = Some t'" "state_inv env t'"
      by (rule RevertToSnapshot_state [OF assms(1,2) i]) blast
    then show ?thesis using t by simp
  next
    case 2
    then show ?thesis using assms(3) Snapshot_state_inv(1) [OF assms(1,2)] by (cases "Snapshot s") auto
  next
    case 3
    have "state_ok env s" using assms(2) undo_ok_state_ok by (auto simp: state_inv_def)
    then show ?thesis using jsteps_state_inv [OF run_op_jsteps [OF _ assms(3) 3] assms(1,2)] by simp
  qed
qed

lemma run_ops_state_inv:
  assumes "addr_inj env" "state_inv env s" "run_ops env ops s = Some (rs, t)"
  shows "state_inv env t"
  using assms(2,3)
proof (induction ops arbitrary: s rs)
  case (Cons op ops)
  then obtain r qs u where u: "run_op env op s = Some (r, u)" "run_ops env ops u = Some (qs, t)"
    by (auto split: option.splits)
  show ?case by (rule Cons(1) [OF run_op_state_inv [OF assms(1) Cons(2) u(1)] u(2)])
qed simp

lemma run_op_total:
  assumes "addr_inj env" "state_inv env s"
  shows "run_op env op s = None \<longleftrightarrow>
    (\<exists>g. op = OpSubRefund g \<and> sdb_refund s < g)
    \<or> (\<exists>i. op = OpRevertToSnapshot i \<and> i \<notin> fst ` set (sdb_validRevisions s))"
proof (cases op)
  case (OpRevertToSnapshot i)
  show ?thesis
  proof (cases "i \<in> fst ` set (sdb_validRevisions s)")
    case True
    then obtain x k where x: "x < length (sdb_validRevisions s)" "sdb_validRevisions s ! x = (i, k)"
      by (auto simp: in_set_conv_nth)
    obtain t where "RevertToSnapshot env s i = Some t" by (rule RevertToSnapshot_state [OF assms x]) blast
    then show ?thesis using OpRevertToSnapshot True by simp
  next
    case False
    then have "RevertToSnapshot env s i = None"
      using RevertToSnapshot_valid [of env s i] nth_mem [of _ "sdb_validRevisions s"]
      by (cases "RevertToSnapshot env s i") (simp, metis fst_conv image_eqI)
    then show ?thesis using OpRevertToSnapshot False by simp
  qed
next
  case (OpAddSlot a k)
  have "al_ok (sdb_accessList s)" using assms(2) undo_ok_state_ok [of env "rev (entries s)" s]
    by (simp add: state_inv_def state_ok_def)
  then show ?thesis using OpAddSlot AddSlot_some [of "sdb_accessList s" a k]
    by (cases "AddSlot (sdb_accessList s) a k") (auto simp: AddSlotToAccessList_def Let_def)
next
  case (OpSlotInAccessList a k)
  have "al_ok (sdb_accessList s)" using assms(2) undo_ok_state_ok [of env "rev (entries s)" s]
    by (simp add: state_inv_def state_ok_def)
  then show ?thesis using OpSlotInAccessList Contains_total by (simp add: SlotInAccessList_def)
qed (simp_all add: SubRefund_def)

definition accounts_ok :: "'t state_env \<Rightarrow> 't \<Rightarrow> snap option \<Rightarrow> bool" where
  "accounts_ok env tr sn =
     (\<forall>a e obj. load_object env tr sn a = (e, Some obj) \<longrightarrow> length (acc_CodeHash (so_data obj)) = 32)"

lemma New_run_state_inv:
  assumes "addr_inj env" "accounts_ok env tr sn" "run_ops env ops (New env root tr sn) = Some (rs, s)"
  shows "state_inv env s"
proof -
  have "state_inv env (New env root tr sn)" using New_state_inv [of env tr sn root] assms(2) by (auto simp: accounts_ok_def)
  from run_ops_state_inv [OF assms(1) this assms(3)] show ?thesis .
qed

section \<open>A database without accounts\<close>

definition bare_env :: "unit state_env" where
  "bare_env =
     \<lparr>se_keccak = bytes_word, se_TryGet = (\<lambda>_ _. Inr []), se_TryUpdate = (\<lambda>t _ _. (None, t)),
      se_TryDelete = (\<lambda>t _. (None, t)), se_TrieHash = (\<lambda>_. emptyRoot), se_OpenStorageTrie = (\<lambda>_ _. Inr ()),
      se_EmptyTrie = (), se_ContractCode = (\<lambda>_ _. (None, None)), se_ContractCodeSize = (\<lambda>_ _. (0, None))\<rparr>"

lemma bare_addr_inj: "addr_inj bare_env"
proof -
  have "a = b" if "(bytes_word (addr_Bytes a) :: hash) = bytes_word (addr_Bytes b)" for a b
  proof -
    have "be_nat (addr_Bytes c) < 2 ^ 256" for c using be_nat_less [of "addr_Bytes c"] by (simp add: addr_Bytes_def)
    then have "be_nat (addr_Bytes c) = unat (bytes_word (addr_Bytes c) :: hash)" for c
      by (simp add: bytes_word_def unat_of_nat)
    then have "be_nat (addr_Bytes a) = be_nat (addr_Bytes b)" using that by simp
    then have "addr_Bytes a = addr_Bytes b" by (rule be_nat_inj [rotated]) (simp add: addr_Bytes_def)
    then show ?thesis by (simp add: addr_Bytes_def word_bytes_inj)
  qed
  then show ?thesis by (simp add: addr_inj_def bare_env_def)
qed

lemma bare_load [simp]: "load_object bare_env () None a = (None, None)"
  by (simp add: load_object_def load_trie_object_def bare_env_def)

lemma bare_ok: "accounts_ok bare_env () None" "db_ok bare_env () None"
proof -
  show "accounts_ok bare_env () None" by (simp add: accounts_ok_def)
  show "db_ok bare_env () None"
    unfolding db_ok_def using bare_addr_inj by (simp add: trie_value_def) (simp add: bare_env_def slot_value_def)
qed

lemma bare_live: "live_object bare_env (New bare_env 0 () None) a = None"
  by (simp add: live_object_def view_New)

definition bare_ops :: "state_op list" where
  "bare_ops = [OpAddBalance 7 100, OpSetNonce 7 1]"

definition bare_later :: "state_op list" where
  "bare_later = [OpSetState 7 1 5, OpSnapshot, OpSuicide 7, OpRevertToSnapshot 1, OpCreateAccount 7, OpGetState 7 1]"

definition new_machine :: "'t state_env \<Rightarrow> hash \<Rightarrow> 't \<Rightarrow> snap option \<Rightarrow> machine" where
  "new_machine env root tr sn = \<lparr>m_world = world_of env (New env root tr sn), m_saved = [], m_next = 0\<rparr>"

lemma simulates_New:
  assumes "db_ok env tr sn"
  shows "simulates env tr sn (New env root tr sn) (new_machine env root tr sn)"
proof -
  have "state_inv env (New env root tr sn)" using New_state_inv [of env tr sn root] assms by (auto simp: db_ok_def)
  then show ?thesis by (simp add: simulates_def new_machine_def saved_worlds_def) (simp add: New_def)
qed

lemma bare_later_run:
  assumes "run_ops bare_env bare_ops (New bare_env 0 () None) = Some (rs, s)" "Snapshot s = (rid, t)"
  shows "run_ops bare_env bare_later t \<noteq> None" "rid = 0"
proof -
  let ?k = "se_keccak bare_env" and ?m = "new_machine bare_env 0 () None"
  obtain n where n: "machine_ops ?k bare_ops ?m = Some (rs, n)" "simulates bare_env () None s n"
    using simulates_ops [OF bare_ok(2) simulates_New [OF bare_ok(2)], of bare_ops 0] assms(1)
    by (cases "machine_ops ?k bare_ops ?m") auto
  have m: "m_next n = 0" "m_saved n = []" using n(1) by (auto simp: bare_ops_def new_machine_def Let_def)
  note snap = simulates_Snapshot [OF bare_ok(2) n(2) assms(2)]
  show "rid = 0" using snap(2) m(1) by simp
  have "machine_ops ?k bare_later (n\<lparr>m_saved := m_saved n @ [(m_next n, m_world n)], m_next := m_next n + 1\<rparr>) \<noteq> None"
    using m by (simp add: bare_later_def Let_def split: option.split)
  then show "run_ops bare_env bare_later t \<noteq> None"
    using simulates_ops [OF bare_ok(2) snap(1), of bare_later] by (cases "run_ops bare_env bare_later t") auto
qed

lemma bare_run: "run_ops bare_env bare_ops (New bare_env 0 () None) \<noteq> None"
  by (simp add: bare_ops_def)

section \<open>Properties\<close>

text \<open>C3. Whatever ran on a state that was opened on a database, the state is well-formed: each object is under its
  own address, every entry of the journal can be reversed, the revisions are increasing and within the journal, and the
  counts of dirty accounts are those of the journal. An operation on it panics only where the code means it
  to: when more gas is taken from the refund counter than it has, and when the revision to go back to is not valid.\<close>

theorem run_ops_well_formed:
  assumes "addr_inj env" "accounts_ok env tr sn" "run_ops env ops (New env root tr sn) = Some (rs, s)"
  shows "state_inv env s \<and>
    (run_op env op s = None \<longleftrightarrow>
      (\<exists>g. op = OpSubRefund g \<and> sdb_refund s < g)
      \<or> (\<exists>i. op = OpRevertToSnapshot i \<and> i \<notin> fst ` set (sdb_validRevisions s)))"
  by (rule conjI [OF New_run_state_inv [OF assms] run_op_total [OF assms(1) New_run_state_inv [OF assms]]])

theorem run_ops_well_formed_witness:
  "\<exists>rs s. run_ops bare_env bare_ops (New bare_env 0 () None) = Some (rs, s) \<and> state_inv bare_env s
     \<and> run_op bare_env (OpAddSlot 7 1) s \<noteq> None"
proof -
  obtain rs s where "run_ops bare_env bare_ops (New bare_env 0 () None) = Some (rs, s)" using bare_run by auto
  then show ?thesis using run_ops_well_formed [OF bare_addr_inj bare_ok(1), of bare_ops 0 rs s "OpAddSlot 7 1"] by auto
qed

text \<open>C2. Going back to a snapshot never panics and restores the state: if a snapshot was taken, and then operations
  ran that went back to later snapshots only, then \<^verbatim>\<open>RevertToSnapshot\<close> gives a state with the same
  objects, balances, storage, code, refund counter, logs, preimages and access list, with the
  same journal entries and the same valid revisions as when the snapshot was taken.\<close>

theorem RevertToSnapshot_restores:
  assumes "addr_inj env" "accounts_ok env tr sn" "run_ops env ops (New env root tr sn) = Some (rs, s)"
    "Snapshot s = (rid, t)" "run_ops env later t = Some (qs, u)"
    "\<And>j. OpRevertToSnapshot j \<in> set later \<Longrightarrow> rid < j"
  shows "\<exists>v. RevertToSnapshot env u rid = Some v \<and> sdb_eq env v s
    \<and> j_entries (sdb_journal v) = j_entries (sdb_journal s) \<and> sdb_validRevisions v = sdb_validRevisions s"
proof -
  note inv = New_run_state_inv [OF assms(1-3)]
  have "run_inv env s rid u" by (rule run_inv_ops [OF assms(1) Snapshot_run_inv [OF assms(1) inv assms(4)] assms(5,6)])
  then show ?thesis using run_inv_back [OF assms(1) inv] by blast
qed

theorem RevertToSnapshot_restores_witness:
  "\<exists>rs s t qs u v. run_ops bare_env bare_ops (New bare_env 0 () None) = Some (rs, s) \<and> Snapshot s = (0, t)
     \<and> run_ops bare_env bare_later t = Some (qs, u) \<and> RevertToSnapshot bare_env u 0 = Some v \<and> sdb_eq bare_env v s"
proof -
  obtain rs s where s: "run_ops bare_env bare_ops (New bare_env 0 () None) = Some (rs, s)" using bare_run by auto
  obtain rid t where t: "Snapshot s = (rid, t)" by fastforce
  note later = bare_later_run [OF s t]
  obtain qs u where u: "run_ops bare_env bare_later t = Some (qs, u)" using later(1) by auto
  have "rid < j" if "OpRevertToSnapshot j \<in> set bare_later" for j using that later(2) by (simp add: bare_later_def)
  from RevertToSnapshot_restores [OF bare_addr_inj bare_ok(1) s t u this] show ?thesis using s t u later(2) by blast
qed

text \<open>C1. The journaled state refines the abstract machine, in which an account is a value, a write changes
  the map of accounts, a snapshot saves the whole world and going back puts the saved world back: on every
  sequence of the operations that the virtual machine has on a state (\<open>state_op\<close>; \<^verbatim>\<open>Prepare\<close>, \<^verbatim>\<open>Finalise\<close> and \<^verbatim>\<open>SetStorage\<close>,
  which come between transactions or from a tracer, are not among them) both return the same results and end in the same
  world, and both panic or neither does.\<close>

theorem StateDB_refines:
  assumes "db_ok env tr sn"
  shows "map_option (map_prod (\<lambda>rs. rs) (world_of env)) (run_ops env ops (New env root tr sn)) =
    map_option (map_prod (\<lambda>rs. rs) m_world) (machine_ops (se_keccak env) ops (new_machine env root tr sn))"
proof -
  have "rel_option (\<lambda>x y. fst x = fst y \<and> simulates env tr sn (snd x) (snd y))
    (run_ops env ops (New env root tr sn)) (machine_ops (se_keccak env) ops (new_machine env root tr sn))"
    by (rule simulates_ops [OF assms simulates_New [OF assms]])
  then show ?thesis by (cases rule: option.rel_cases) (auto simp: simulates_def)
qed

theorem StateDB_refines_witness:
  "\<exists>t. run_ops bare_env [OpAddBalance 7 100, OpSnapshot, OpSetState 7 1 5, OpGetState 7 1, OpRevertToSnapshot 0,
      OpGetState 7 1, OpGetBalance 7] (New bare_env 0 () None) =
    Some ([Done, RInt 0, Done, RHash 5, Done, RHash 0, RInt 100], t)" (is "\<exists>t. run_ops _ ?ops ?s = _")
proof -
  have "w_accounts (m_world (new_machine bare_env 0 () None)) a = None" for a by (simp add: new_machine_def bare_live)
  moreover have "m_saved (new_machine bare_env 0 () None) = []" "m_next (new_machine bare_env 0 () None) = 0"
    by (simp_all add: new_machine_def)
  ultimately have "map_option fst (machine_ops (se_keccak bare_env) ?ops (new_machine bare_env 0 () None)) =
      Some [Done, RInt 0, Done, RHash 5, Done, RHash 0, RInt 100]"
    by (simp add: Let_def read_account_def put_account_def get_account_def new_account_def)
  moreover have "map_option fst (run_ops bare_env ?ops ?s) =
      map_option fst (machine_ops (se_keccak bare_env) ?ops (new_machine bare_env 0 () None))"
    using arg_cong [OF StateDB_refines [OF bare_ok(2), of ?ops 0], of "map_option fst"]
    by (simp add: option.map_comp comp_def del: run_ops.simps machine_ops.simps)
  ultimately show ?thesis by (auto simp del: run_ops.simps machine_ops.simps)
qed

end
