(* ===== verification/VM_Memory.thy ===== *)
theory VM_Memory
  imports U256_Lib
begin

text \<open>
  The stack and the memory of the virtual machine: \<^verbatim>\<open>core/vm/stack.go\<close>, \<^verbatim>\<open>stack_table.go\<close>, \<^verbatim>\<open>memory.go\<close>,
  \<^verbatim>\<open>common.go\<close>, \<^verbatim>\<open>memory_table.go\<close>, \<^verbatim>\<open>errors.go\<close> and \<^verbatim>\<open>memoryGasCost\<close> of \<^verbatim>\<open>gas_table.go\<close>.

  A stack is the list of its words with the top first, that is, \<^verbatim>\<open>data\<close> reversed. A computation of the
  machine ends with a value, with a panic, or has used up the fuel that bounds the recursion of the
  interpreter. \<open>SliceTooLong\<close> stands for a slice of 2 to the 63 bytes or more, which Go cannot have.
\<close>

section \<open>Outcomes and errors\<close>

datatype vm_panic =
    IndexOutOfRange
  | InvalidMemory
  | RefundBelowZero
  | NotInAccessList
  | InvalidRevision
  | TypeAssertion
  | ModExpBounds
  | AnalysisIndex
  | SliceTooLong

datatype 'a outcome = Return 'a | Panic vm_panic | NoFuel

fun obind :: "'a outcome \<Rightarrow> ('a \<Rightarrow> 'b outcome) \<Rightarrow> 'b outcome" where
  "obind (Return x) f = f x"
| "obind (Panic p) f = Panic p"
| "obind NoFuel f = NoFuel"

definition or_panic :: "vm_panic \<Rightarrow> 'a option \<Rightarrow> 'a outcome" where
  "or_panic p x = (case x of None \<Rightarrow> Panic p | Some y \<Rightarrow> Return y)"

lemma or_panic_simps [simp]: "or_panic p None = Panic p" "or_panic p (Some x) = Return x"
  by (simp_all add: or_panic_def)

datatype vm_error =
    ErrInvalidSubroutineEntry
  | ErrOutOfGas
  | ErrCodeStoreOutOfGas
  | ErrDepth
  | ErrInsufficientBalance
  | ErrContractAddressCollision
  | ErrExecutionReverted
  | ErrMaxCodeSizeExceeded
  | ErrInvalidJump
  | ErrWriteProtection
  | ErrReturnDataOutOfBounds
  | ErrGasUintOverflow
  | ErrInvalidRetsub
  | ErrReturnStackExceeded
  | ErrStackUnderflow int int
  | ErrStackOverflow int int
  | ErrInvalidOpCode byte
  | ErrReentrancySentry
  | ErrPrecompile string

section \<open>Checked arithmetic\<close>

lemma uint_less_unat: "uint w < 2 ^ k \<longleftrightarrow> unat w < 2 ^ k"
  using nat_less_eq_zless [of "uint w" "2 ^ k"] by (simp add: nat_power_eq)

lemma unat_ucast_64: "unat (w :: u256) < 2 ^ 64 \<Longrightarrow> unat (ucast w :: u64) = unat w"
  by (simp add: unsigned_ucast_eq take_bit_nat_eq_self)

definition SafeAdd :: "u64 \<Rightarrow> u64 \<Rightarrow> u64 \<times> bool" where
  "SafeAdd x y = (x + y, unat x + unat y \<ge> 2 ^ 64)"

definition SafeMul :: "u64 \<Rightarrow> u64 \<Rightarrow> u64 \<times> bool" where
  "SafeMul x y = (x * y, unat x * unat y \<ge> 2 ^ 64)"

lemma SafeAdd_unat: "SafeAdd x y = (z, False) \<longleftrightarrow> z = x + y \<and> unat z = unat x + unat y"
  using unat_add_lem [of x y] by (auto simp: SafeAdd_def not_le)

lemma SafeMul_unat: "SafeMul x y = (z, False) \<longleftrightarrow> z = x * y \<and> unat z = unat x * unat y"
  using unat_mult_lem [of x y] by (auto simp: SafeMul_def not_le)

section \<open>The stack\<close>

type_synonym Stack = "u256 list"

definition Back :: "Stack \<Rightarrow> nat \<Rightarrow> u256 outcome" where
  "Back st n = (if n < length st then Return (st ! n) else Panic IndexOutOfRange)"

definition st_swap :: "Stack \<Rightarrow> nat \<Rightarrow> Stack outcome" where
  "st_swap st n =
     (if 0 < n \<and> n \<le> length st then Return (st[n - 1 := st ! 0, 0 := st ! (n - 1)]) else Panic IndexOutOfRange)"

definition st_dup :: "Stack \<Rightarrow> nat \<Rightarrow> Stack outcome" where
  "st_dup st n = (if 0 < n \<and> n \<le> length st then Return (st ! (n - 1) # st) else Panic IndexOutOfRange)"

definition minStack :: "int \<Rightarrow> int \<Rightarrow> int" where
  "minStack pops push = pops"

definition maxStack :: "int \<Rightarrow> int \<Rightarrow> int" where
  "maxStack pop push = 1024 + pop - push"

definition minSwapStack :: "int \<Rightarrow> int" where
  "minSwapStack n = minStack n n"

definition maxSwapStack :: "int \<Rightarrow> int" where
  "maxSwapStack n = maxStack n n"

definition minDupStack :: "int \<Rightarrow> int" where
  "minDupStack n = minStack n (n + 1)"

definition maxDupStack :: "int \<Rightarrow> int" where
  "maxDupStack n = maxStack n (n + 1)"

lemmas stack_limits = minStack_def maxStack_def minSwapStack_def maxSwapStack_def minDupStack_def maxDupStack_def

lemma Back_in [simp]: "n < length st \<Longrightarrow> Back st n = Return (st ! n)"
  by (simp add: Back_def)

section \<open>The memory\<close>

record Memory =
  mem_store :: bytes
  mem_lastGasCost :: u64

definition NewMemory :: Memory where
  "NewMemory = \<lparr>mem_store = [], mem_lastGasCost = 0\<rparr>"

definition go_len :: "'a list \<Rightarrow> u64" where
  "go_len xs = word_of_nat (length xs)"

text \<open>\<^verbatim>\<open>copy(dst[off:off+size], value)\<close>\<close>

definition copy_into :: "bytes \<Rightarrow> nat \<Rightarrow> nat \<Rightarrow> bytes \<Rightarrow> bytes" where
  "copy_into dst off n value = (let v = take n value in take off dst @ v @ drop (off + length v) dst)"

definition mem_Set :: "Memory \<Rightarrow> u64 \<Rightarrow> u64 \<Rightarrow> bytes \<Rightarrow> Memory outcome" where
  "mem_Set m offset sz value =
     (if sz > 0
      then if offset + sz > go_len (mem_store m) then Panic InvalidMemory
           else if offset + sz < offset then Panic IndexOutOfRange
           else Return (m\<lparr>mem_store := copy_into (mem_store m) (unat offset) (unat sz) value\<rparr>)
      else Return m)"

definition mem_Set32 :: "uint256_lib \<Rightarrow> Memory \<Rightarrow> u64 \<Rightarrow> u256 \<Rightarrow> Memory outcome" where
  "mem_Set32 U m offset val =
     (if offset + 32 > go_len (mem_store m) then Panic InvalidMemory
      else if offset + 32 < offset then Panic IndexOutOfRange
      else let store = copy_into (mem_store m) (unat offset) 32 (replicate 32 0)
           in Return (m\<lparr>mem_store := take (unat offset) store @ U_WriteToSlice U val (drop (unat offset) store)\<rparr>))"

definition mem_set_byte :: "Memory \<Rightarrow> u64 \<Rightarrow> byte \<Rightarrow> Memory outcome" where
  "mem_set_byte m i b =
     (if unat i < length (mem_store m) then Return (m\<lparr>mem_store := (mem_store m)[unat i := b]\<rparr>)
      else Panic IndexOutOfRange)"

definition mem_Resize :: "Memory \<Rightarrow> u64 \<Rightarrow> Memory" where
  "mem_Resize m sz =
     (if go_len (mem_store m) < sz
      then m\<lparr>mem_store := mem_store m @ replicate (unat (sz - go_len (mem_store m))) 0\<rparr> else m)"

text \<open>
  The arguments are \<^verbatim>\<open>int64\<close> values. A slice expression beyond the length of the memory is a panic here; in
  Go it would be one only beyond its capacity. The safety theorem shows that it is never reached.
\<close>

definition mem_GetPtr :: "Memory \<Rightarrow> int \<Rightarrow> int \<Rightarrow> bytes outcome" where
  "mem_GetPtr m offset sz =
     (if sz = 0 then Return []
      else if int (length (mem_store m)) > offset
      then if 0 \<le> offset \<and> 0 \<le> sz \<and> offset + sz \<le> int (length (mem_store m))
           then Return (take (nat sz) (drop (nat offset) (mem_store m)))
           else Panic IndexOutOfRange
      else Return [])"

definition mem_GetCopy :: "Memory \<Rightarrow> int \<Rightarrow> int \<Rightarrow> bytes outcome" where
  "mem_GetCopy m offset sz =
     (if sz = 0 then Return []
      else if int (length (mem_store m)) > offset
      then if 0 \<le> offset \<and> 0 \<le> sz \<and> offset + sz \<le> int (length (mem_store m))
           then Return (take (nat sz) (drop (nat offset) (mem_store m)))
           else Panic IndexOutOfRange
      else Return [])"

definition mem_Len :: "Memory \<Rightarrow> int" where
  "mem_Len m = int (length (mem_store m))"

section \<open>Helpers\<close>

definition calcMemSize64WithUint :: "uint256_lib \<Rightarrow> u256 \<Rightarrow> u64 \<Rightarrow> u64 \<times> bool" where
  "calcMemSize64WithUint U off length64 =
     (if length64 = 0 then (0, False)
      else case U_Uint64WithOverflow U off of
             (offset64, overflow) \<Rightarrow>
               if overflow then (0, True) else let val = offset64 + length64 in (val, val < offset64))"

definition calcMemSize64 :: "uint256_lib \<Rightarrow> u256 \<Rightarrow> u256 \<Rightarrow> u64 \<times> bool" where
  "calcMemSize64 U off l = (if \<not> U_IsUint64 U l then (0, True) else calcMemSize64WithUint U off (U_Uint64 U l))"

definition RightPadBytes :: "bytes \<Rightarrow> int \<Rightarrow> bytes" where
  "RightPadBytes b l = (if l \<le> int (length b) then b else b @ replicate (nat l - length b) 0)"

definition getData :: "bytes \<Rightarrow> u64 \<Rightarrow> u64 \<Rightarrow> bytes outcome" where
  "getData data start sz =
     (if 2 ^ 63 \<le> length data then Panic SliceTooLong
      else let len = go_len data;
               start = (if start > len then len else start);
               end = start + sz;
               end = (if end > len then len else end)
           in if end < start then Panic IndexOutOfRange
              else Return (RightPadBytes (take (unat end - unat start) (drop (unat start) data)) (sint sz)))"

definition toWordSize :: "u64 \<Rightarrow> u64" where
  "toWordSize sz = (if sz > 0xFFFFFFFFFFFFFFFF - 31 then 0xFFFFFFFFFFFFFFFF div 32 + 1 else (sz + 31) div 32)"

definition allZero :: "bytes \<Rightarrow> bool" where
  "allZero b = list_all (\<lambda>x. x = 0) b"

section \<open>The memory an instruction needs\<close>

definition mem_back :: "uint256_lib \<Rightarrow> Stack \<Rightarrow> nat \<Rightarrow> nat \<Rightarrow> (u64 \<times> bool) outcome" where
  "mem_back U st off l = obind (Back st off) (\<lambda>x. obind (Back st l) (\<lambda>n. Return (calcMemSize64 U x n)))"

definition mem_back_uint :: "uint256_lib \<Rightarrow> Stack \<Rightarrow> nat \<Rightarrow> u64 \<Rightarrow> (u64 \<times> bool) outcome" where
  "mem_back_uint U st off l = obind (Back st off) (\<lambda>x. Return (calcMemSize64WithUint U x l))"

definition memorySha3 where "memorySha3 U st = mem_back U st 0 1"
definition memoryCallDataCopy where "memoryCallDataCopy U st = mem_back U st 0 2"
definition memoryReturnDataCopy where "memoryReturnDataCopy U st = mem_back U st 0 2"
definition memoryCodeCopy where "memoryCodeCopy U st = mem_back U st 0 2"
definition memoryExtCodeCopy where "memoryExtCodeCopy U st = mem_back U st 1 3"
definition memoryMLoad where "memoryMLoad U st = mem_back_uint U st 0 32"
definition memoryMStore8 where "memoryMStore8 U st = mem_back_uint U st 0 1"
definition memoryMStore where "memoryMStore U st = mem_back_uint U st 0 32"
definition memoryCreate where "memoryCreate U st = mem_back U st 1 2"
definition memoryCreate2 where "memoryCreate2 U st = mem_back U st 1 2"
definition memoryReturn where "memoryReturn U st = mem_back U st 0 1"
definition memoryRevert where "memoryRevert U st = mem_back U st 0 1"
definition memoryLog where "memoryLog U st = mem_back U st 0 1"

text \<open>The larger of two regions; the first one is the region of the returned data.\<close>

definition mem_larger :: "(u64 \<times> bool) outcome \<Rightarrow> (u64 \<times> bool) outcome \<Rightarrow> (u64 \<times> bool) outcome" where
  "mem_larger a b =
     obind a (\<lambda>(x, overflow).
       if overflow then Return (0, True)
       else obind b (\<lambda>(y, overflow).
              if overflow then Return (0, True) else Return (if x > y then x else y, False)))"

definition memoryCall :: "uint256_lib \<Rightarrow> Stack \<Rightarrow> (u64 \<times> bool) outcome" where
  "memoryCall U st = mem_larger (mem_back U st 5 6) (mem_back U st 3 4)"

definition memoryDelegateCall :: "uint256_lib \<Rightarrow> Stack \<Rightarrow> (u64 \<times> bool) outcome" where
  "memoryDelegateCall U st = mem_larger (mem_back U st 4 5) (mem_back U st 2 3)"

definition memoryStaticCall :: "uint256_lib \<Rightarrow> Stack \<Rightarrow> (u64 \<times> bool) outcome" where
  "memoryStaticCall U st = mem_larger (mem_back U st 4 5) (mem_back U st 2 3)"

lemmas memory_size_defs = memorySha3_def memoryCallDataCopy_def memoryReturnDataCopy_def memoryCodeCopy_def
  memoryExtCodeCopy_def memoryMLoad_def memoryMStore8_def memoryMStore_def memoryCreate_def memoryCreate2_def
  memoryReturn_def memoryRevert_def memoryLog_def memoryCall_def memoryDelegateCall_def memoryStaticCall_def

section \<open>The price of memory\<close>

definition memoryGasCost :: "Memory \<Rightarrow> u64 \<Rightarrow> (vm_error + u64) \<times> Memory" where
  "memoryGasCost mem newMemSize =
     (if newMemSize = 0 then (Inr 0, mem)
      else if newMemSize > 0x1FFFFFFFE0 then (Inl ErrGasUintOverflow, mem)
      else let newMemSizeWords = toWordSize newMemSize;
               newMemSize = newMemSizeWords * 32
           in if newMemSize > go_len (mem_store mem)
              then let square = newMemSizeWords * newMemSizeWords;
                       linCoef = newMemSizeWords * 3;
                       quadCoef = square div 512;
                       newTotalFee = linCoef + quadCoef;
                       fee = newTotalFee - mem_lastGasCost mem
                   in (Inr fee, mem\<lparr>mem_lastGasCost := newTotalFee\<rparr>)
              else (Inr 0, mem))"

end
