(* ===== verification/VM_Analysis.thy ===== *)
theory VM_Analysis
  imports VM_Memory
begin

text \<open>
  Contracts and the analysis of their jump destinations: \<^verbatim>\<open>core/vm/analysis.go\<close> and \<^verbatim>\<open>core/vm/contract.go\<close>.

  \<open>starts\<close> says where the instructions of a code begin; the bits that \<^verbatim>\<open>codeBitmap\<close> sets are exactly
  the other positions, the data of the \<^verbatim>\<open>PUSH\<close> instructions. The map \<^verbatim>\<open>jumpdests\<close>, which a contract shares with
  the contracts it calls, is passed along with the contract. \<^verbatim>\<open>caller\<close>, which is read by
  \<^verbatim>\<open>AsDelegate\<close> only, is an argument of it. An analysis that was cached under the hash of the code but is
  shorter than the code, as it can only be if two codes have the same hash, is the panic \<open>AnalysisIndex\<close>.
\<close>

section \<open>Bit vectors\<close>

type_synonym bitvec = bytes

definition bv_or :: "bitvec \<Rightarrow> nat \<Rightarrow> byte \<Rightarrow> bitvec outcome" where
  "bv_or bits i b = (if i < length bits then Return (bits[i := bits ! i OR b]) else Panic IndexOutOfRange)"

definition bv_set :: "bitvec \<Rightarrow> nat \<Rightarrow> bitvec outcome" where
  "bv_set bits pos = bv_or bits (pos div 8) (drop_bit (pos mod 8) 0x80)"

definition bv_set8 :: "bitvec \<Rightarrow> nat \<Rightarrow> bitvec outcome" where
  "bv_set8 bits pos =
     obind (bv_or bits (pos div 8) (drop_bit (pos mod 8) 0xFF))
       (\<lambda>bits. bv_or bits (pos div 8 + 1) (NOT (drop_bit (pos mod 8) 0xFF)))"

definition codeSegment :: "bitvec \<Rightarrow> nat \<Rightarrow> bool outcome" where
  "codeSegment bits pos =
     (if pos div 8 < length bits then Return (bits ! (pos div 8) AND drop_bit (pos mod 8) 0x80 = 0)
      else Panic AnalysisIndex)"

section \<open>The analysis\<close>

abbreviation OP_JUMPDEST :: byte where "OP_JUMPDEST \<equiv> 0x5b"
abbreviation OP_BEGINSUB :: byte where "OP_BEGINSUB \<equiv> 0x5c"
abbreviation OP_PUSH1 :: byte where "OP_PUSH1 \<equiv> 0x60"
abbreviation OP_PUSH32 :: byte where "OP_PUSH32 \<equiv> 0x7f"

function set_push :: "bitvec \<Rightarrow> nat \<Rightarrow> nat \<Rightarrow> (bitvec \<times> nat) outcome" where
  "set_push bits pc numbits =
     (if numbits \<ge> 8 then obind (bv_set8 bits pc) (\<lambda>bits. set_push bits (pc + 8) (numbits - 8))
      else if numbits > 0 then obind (bv_set bits pc) (\<lambda>bits. set_push bits (pc + 1) (numbits - 1))
      else Return (bits, pc))"
  by pat_completeness auto
termination by (relation "measure (\<lambda>(bits, pc, n). n)") auto

declare set_push.simps [simp del]

lemma set_push_pc: "set_push bits pc n = Return (bits', pc') \<Longrightarrow> pc' = pc + n"
proof (induction n arbitrary: bits pc rule: less_induct)
  case (less n)
  consider "n = 0" | "0 < n" "n < 8" | "8 \<le> n" by linarith
  then show ?case
  proof cases
    case 1
    then show ?thesis using less.prems by (simp add: set_push.simps)
  next
    case 2
    then obtain b where "set_push b (pc + 1) (n - 1) = Return (bits', pc')"
      using less.prems by (subst (asm) set_push.simps) (cases "bv_set bits pc", auto)
    from less.IH [OF _ this] 2 show ?thesis by simp
  next
    case 3
    then obtain b where "set_push b (pc + 8) (n - 8) = Return (bits', pc')"
      using less.prems by (subst (asm) set_push.simps) (cases "bv_set8 bits pc", auto)
    from less.IH [OF _ this] 3 show ?thesis by simp
  qed
qed

function codeBitmap_loop :: "bytes \<Rightarrow> bitvec \<Rightarrow> nat \<Rightarrow> bitvec outcome" where
  "codeBitmap_loop code bits pc =
     (if pc < length code
      then let op = code ! pc
           in if OP_PUSH1 \<le> op \<and> op \<le> OP_PUSH32
              then (case set_push bits (pc + 1) (unat (op - OP_PUSH1 + 1)) of
                      Return (bits, pc') \<Rightarrow> codeBitmap_loop code bits pc'
                    | Panic p \<Rightarrow> Panic p
                    | NoFuel \<Rightarrow> NoFuel)
              else codeBitmap_loop code bits (pc + 1)
      else Return bits)"
  by pat_completeness auto
termination
  by (relation "measure (\<lambda>(code, bits, pc). length code - pc)") (auto dest: set_push_pc)

declare codeBitmap_loop.simps [simp del]

definition codeBitmap :: "bytes \<Rightarrow> bitvec outcome" where
  "codeBitmap code = codeBitmap_loop code (replicate (length code div 8 + 1 + 4) 0) 0"

section \<open>Contracts\<close>

type_synonym jumpdests = "hash \<Rightarrow> bitvec option"

record Contract =
  c_CallerAddress :: address
  c_self :: address
  c_analysis :: "bitvec option"
  c_Code :: bytes
  c_CodeHash :: hash
  c_CodeAddr :: "address option"
  c_Input :: bytes
  c_Gas :: u64
  c_value :: int

datatype ContractRef = AccountRef address | ContractPtr Contract

fun ref_Address :: "ContractRef \<Rightarrow> address" where
  "ref_Address (AccountRef a) = a"
| "ref_Address (ContractPtr c) = c_self c"

definition NewContract ::
  "ContractRef \<Rightarrow> address \<Rightarrow> int \<Rightarrow> u64 \<Rightarrow> jumpdests \<Rightarrow> Contract \<times> jumpdests" where
  "NewContract caller self value gas parent_jumpdests =
     (\<lparr>c_CallerAddress = ref_Address caller, c_self = self, c_analysis = None, c_Code = [], c_CodeHash = 0,
       c_CodeAddr = None, c_Input = [], c_Gas = gas, c_value = value\<rparr>,
      case caller of ContractPtr _ \<Rightarrow> parent_jumpdests | AccountRef _ \<Rightarrow> (\<lambda>_. None))"

definition isCode :: "Contract \<Rightarrow> jumpdests \<Rightarrow> u64 \<Rightarrow> (bool \<times> Contract \<times> jumpdests) outcome" where
  "isCode c jd udest =
     (case c_analysis c of
        Some a \<Rightarrow> obind (codeSegment a (unat udest)) (\<lambda>r. Return (r, c, jd))
      | None \<Rightarrow>
          (if c_CodeHash c \<noteq> 0
           then obind (case jd (c_CodeHash c) of
                         Some a \<Rightarrow> Return (a, jd)
                       | None \<Rightarrow> obind (codeBitmap (c_Code c)) (\<lambda>a. Return (a, jd(c_CodeHash c \<mapsto> a))))
                  (\<lambda>(a, jd). obind (codeSegment a (unat udest)) (\<lambda>r. Return (r, c\<lparr>c_analysis := Some a\<rparr>, jd)))
           else obind (codeBitmap (c_Code c))
                  (\<lambda>a. obind (codeSegment a (unat udest)) (\<lambda>r. Return (r, c\<lparr>c_analysis := Some a\<rparr>, jd)))))"

definition validJumpdest ::
  "uint256_lib \<Rightarrow> Contract \<Rightarrow> jumpdests \<Rightarrow> u256 \<Rightarrow> (bool \<times> Contract \<times> jumpdests) outcome" where
  "validJumpdest U c jd dest =
     (case U_Uint64WithOverflow U dest of
        (udest, overflow) \<Rightarrow>
          if overflow \<or> udest \<ge> go_len (c_Code c) then Return (False, c, jd)
          else if c_Code c ! unat udest \<noteq> OP_JUMPDEST then Return (False, c, jd)
          else isCode c jd udest)"

definition validJumpSubdest :: "Contract \<Rightarrow> jumpdests \<Rightarrow> u64 \<Rightarrow> (bool \<times> Contract \<times> jumpdests) outcome" where
  "validJumpSubdest c jd udest =
     (if sint udest < 0 \<or> udest \<ge> go_len (c_Code c) then Return (False, c, jd)
      else if c_Code c ! unat udest \<noteq> OP_BEGINSUB then Return (False, c, jd)
      else isCode c jd udest)"

definition AsDelegate :: "ContractRef \<Rightarrow> Contract \<Rightarrow> Contract outcome" where
  "AsDelegate caller c =
     (case caller of
        ContractPtr parent \<Rightarrow> Return (c\<lparr>c_CallerAddress := c_CallerAddress parent, c_value := c_value parent\<rparr>)
      | AccountRef _ \<Rightarrow> Panic TypeAssertion)"

definition GetByte :: "Contract \<Rightarrow> u64 \<Rightarrow> byte" where
  "GetByte c n = (if n < go_len (c_Code c) then c_Code c ! unat n else 0)"

definition GetOp :: "Contract \<Rightarrow> u64 \<Rightarrow> byte" where
  "GetOp c n = GetByte c n"

definition UseGas :: "Contract \<Rightarrow> u64 \<Rightarrow> bool \<times> Contract" where
  "UseGas c gas = (if c_Gas c < gas then (False, c) else (True, c\<lparr>c_Gas := c_Gas c - gas\<rparr>))"

definition SetCallCode :: "Contract \<Rightarrow> address option \<Rightarrow> hash \<Rightarrow> bytes \<Rightarrow> Contract" where
  "SetCallCode c addr h code = c\<lparr>c_Code := code, c_CodeHash := h, c_CodeAddr := addr\<rparr>"

text \<open>\<^verbatim>\<open>codeAndHash\<close>, whose hash is computed when it is first asked for, is the pair of the code and the hash.\<close>

definition SetCodeOptionalHash :: "Contract \<Rightarrow> address option \<Rightarrow> bytes \<times> hash \<Rightarrow> Contract" where
  "SetCodeOptionalHash c addr cah = c\<lparr>c_Code := fst cah, c_CodeHash := snd cah, c_CodeAddr := addr\<rparr>"

section \<open>The analysis marks the push data\<close>

definition push_len :: "byte \<Rightarrow> nat" where
  "push_len op = (if OP_PUSH1 \<le> op \<and> op \<le> OP_PUSH32 then unat (op - OP_PUSH1 + 1) else 0)"

inductive starts :: "bytes \<Rightarrow> nat \<Rightarrow> bool" for code where
  starts_zero: "starts code 0"
| starts_next: "starts code pc \<Longrightarrow> pc < length code \<Longrightarrow> starts code (pc + 1 + push_len (code ! pc))"

lemma starts_gap:
  assumes "starts code pc" "starts code m" "pc < m"
  shows "pc + 1 + push_len (code ! pc) \<le> m"
  using assms
proof (induction "pc + m" arbitrary: pc m rule: less_induct)
  case less
  from less.prems(2) show ?case
  proof (cases rule: starts.cases)
    case starts_zero
    then show ?thesis using less.prems(3) by simp
  next
    case (starts_next q)
    consider "pc < q" | "pc = q" | "q < pc" by linarith
    then show ?thesis
    proof cases
      case 1
      then show ?thesis using less.hyps [OF _ less.prems(1) starts_next(2)] starts_next(1) by simp
    next
      case 2
      then show ?thesis using starts_next(1) by simp
    next
      case 3
      then show ?thesis using less.hyps [OF _ starts_next(2) less.prems(1)] starts_next(1) less.prems(3) by simp
    qed
  qed
qed

definition bv_bit :: "bitvec \<Rightarrow> nat \<Rightarrow> bool" where
  "bv_bit bits n = bit (bits ! (n div 8)) (7 - n mod 8)"

lemma less_8_cases: "k < 8 \<Longrightarrow> (k :: nat) \<in> {0, 1, 2, 3, 4, 5, 6, 7}"
  by auto

lemma drop_bit_80: "k < 8 \<Longrightarrow> drop_bit k (0x80 :: byte) = 2 ^ (7 - k)"
  using less_8_cases [of k] by (auto simp: drop_bit_eq_div)

lemma bit_drop_80: "k < 8 \<Longrightarrow> m < 8 \<Longrightarrow> bit (drop_bit k (0x80 :: byte)) (7 - m) \<longleftrightarrow> k = m"
  by (auto simp: drop_bit_80 bit_2_iff bit_exp_iff)

lemma bit_drop_FF: "k < 8 \<Longrightarrow> m < 8 \<Longrightarrow> bit (drop_bit k (0xFF :: byte)) (7 - m) \<longleftrightarrow> k \<le> m"
proof -
  assume "k < 8" "m < 8"
  have "(0xFF :: byte) = - 1" by simp
  then show ?thesis using \<open>k < 8\<close> \<open>m < 8\<close> by (simp only: bit_drop_bit_eq bit_minus_1_iff) auto
qed

lemma codeSegment_bit: "pos div 8 < length bits \<Longrightarrow> codeSegment bits pos = Return (\<not> bv_bit bits pos)"
  by (simp add: codeSegment_def bv_bit_def drop_bit_80 and_exp_eq_0_iff_not_bit)

lemma bv_or_bit:
  assumes "i < length bits"
  shows "bv_or bits i b = Return (bits[i := bits ! i OR b])"
    "n div 8 < length bits \<Longrightarrow> bv_bit (bits[i := bits ! i OR b]) n \<longleftrightarrow> bv_bit bits n \<or> n div 8 = i \<and> bit b (7 - n mod 8)"
  using assms by (auto simp: bv_or_def bv_bit_def nth_list_update bit_or_iff)

lemma same_byte: "n div 8 = pos div 8 \<and> n mod 8 = pos mod 8 \<longleftrightarrow> n = (pos :: nat)"
  by (metis div_mult_mod_eq)

lemma bv_set_bit:
  assumes "pos div 8 < length bits"
  shows "\<exists>b. bv_set bits pos = Return b \<and> length b = length bits
    \<and> (\<forall>n. n div 8 < length bits \<longrightarrow> (bv_bit b n \<longleftrightarrow> bv_bit bits n \<or> n = pos))"
proof -
  have "n div 8 = pos div 8 \<and> bit (drop_bit (pos mod 8) (0x80 :: byte)) (7 - n mod 8) \<longleftrightarrow> n = pos" for n
    using bit_drop_80 [of "pos mod 8" "n mod 8"] same_byte [of n pos] by auto
  then show ?thesis using bv_or_bit [OF assms] by (simp add: bv_set_def)
qed

lemma byte_range:
  assumes "b < 8" "d < (8 :: nat)"
  shows "a = c \<and> d \<le> b \<or> a = c + 1 \<and> b < d \<longleftrightarrow> 8 * c + d \<le> 8 * a + b \<and> 8 * a + b < 8 * c + d + 8"
  using assms by auto

lemma bv_set8_bit:
  assumes "pos div 8 + 1 < length bits"
  shows "\<exists>b. bv_set8 bits pos = Return b \<and> length b = length bits
    \<and> (\<forall>n. n div 8 < length bits \<longrightarrow> (bv_bit b n \<longleftrightarrow> bv_bit bits n \<or> pos \<le> n \<and> n < pos + 8))"
proof -
  let ?k = "pos mod 8" and ?i = "pos div 8"
  let ?x = "drop_bit ?k (0xFF :: byte)"
  have x: "bit ?x (7 - n mod 8) \<longleftrightarrow> ?k \<le> n mod 8" "bit (NOT ?x) (7 - n mod 8) \<longleftrightarrow> n mod 8 < ?k" for n
    using bit_drop_FF [of ?k "n mod 8"] by (auto simp: bit_not_iff not_le)
  have range: "n div 8 = ?i \<and> ?k \<le> n mod 8 \<or> n div 8 = ?i + 1 \<and> n mod 8 < ?k \<longleftrightarrow> pos \<le> n \<and> n < pos + 8" for n
    using byte_range [of "n mod 8" ?k "n div 8" ?i] by simp
  let ?b = "bits[?i := bits ! ?i OR ?x]"
  have "?i < length bits" using assms by simp
  note b1 = bv_or_bit [OF this, where b = ?x]
  have "?i + 1 < length ?b" using assms by simp
  note b2 = bv_or_bit [OF this, where b = "NOT ?x"]
  show ?thesis
    unfolding bv_set8_def b1(1) obind.simps b2(1)
  proof (intro exI conjI allI impI)
    fix n
    assume n: "n div 8 < length bits"
    then show "bv_bit (?b[?i + 1 := ?b ! (?i + 1) OR NOT ?x]) n \<longleftrightarrow> bv_bit bits n \<or> pos \<le> n \<and> n < pos + 8"
      using b1(2) [OF n] b2(2) [of n] x [of n] range [of n] by (simp only: length_list_update) blast
  qed simp_all
qed

lemma set_push_spec:
  assumes "length bits = L div 8 + 5" "pc + n \<le> L + 32"
  shows "\<exists>b. set_push bits pc n = Return (b, pc + n) \<and> length b = length bits
    \<and> (\<forall>m. m div 8 < length bits \<longrightarrow> (bv_bit b m \<longleftrightarrow> bv_bit bits m \<or> pc \<le> m \<and> m < pc + n))"
  using assms
proof (induction n arbitrary: bits pc rule: less_induct)
  case (less n)
  consider "n = 0" | "0 < n" "n < 8" | "8 \<le> n" by linarith
  then show ?case
  proof cases
    case 1
    then show ?thesis by (auto simp: set_push.simps)
  next
    case 2
    have "pc div 8 < length bits" using less.prems 2 by linarith
    from bv_set_bit [OF this] obtain b where b: "bv_set bits pc = Return b" "length b = length bits"
      "\<And>m. m div 8 < length bits \<Longrightarrow> bv_bit b m \<longleftrightarrow> bv_bit bits m \<or> m = pc" by blast
    have "\<exists>c. set_push b (pc + 1) (n - 1) = Return (c, pc + 1 + (n - 1)) \<and> length c = length b
      \<and> (\<forall>m. m div 8 < length b \<longrightarrow> (bv_bit c m \<longleftrightarrow> bv_bit b m \<or> pc + 1 \<le> m \<and> m < pc + 1 + (n - 1)))"
      using less.IH [of "n - 1" b "pc + 1"] less.prems 2 b(2) by simp
    then show ?thesis using b 2 by (subst set_push.simps) auto
  next
    case 3
    have "pc div 8 + 1 < length bits" using less.prems 3 by linarith
    from bv_set8_bit [OF this] obtain b where b: "bv_set8 bits pc = Return b" "length b = length bits"
      "\<And>m. m div 8 < length bits \<Longrightarrow> bv_bit b m \<longleftrightarrow> bv_bit bits m \<or> pc \<le> m \<and> m < pc + 8" by blast
    have "\<exists>c. set_push b (pc + 8) (n - 8) = Return (c, pc + 8 + (n - 8)) \<and> length c = length b
      \<and> (\<forall>m. m div 8 < length b \<longrightarrow> (bv_bit c m \<longleftrightarrow> bv_bit b m \<or> pc + 8 \<le> m \<and> m < pc + 8 + (n - 8)))"
      using less.IH [of "n - 8" b "pc + 8"] less.prems 3 b(2) by simp
    then show ?thesis using b 3 by (subst set_push.simps) auto
  qed
qed

lemma push_len_le: "push_len op \<le> 32"
proof -
  have "unat (op - 0x60 + 1) \<le> 32" if "0x60 \<le> op" "op \<le> 0x7f"
    using that by (simp add: word_le_nat_alt unat_word_ariths unat_sub_if')
  then show ?thesis by (simp add: push_len_def)
qed

lemma codeBitmap_loop_spec:
  assumes "length bits = length code div 8 + 5" "starts code pc" "pc \<le> length code + 32"
    "\<And>m. m div 8 < length bits \<Longrightarrow> bv_bit bits m \<longleftrightarrow> m < pc \<and> \<not> starts code m"
  shows "\<exists>b. codeBitmap_loop code bits pc = Return b \<and> length b = length bits
    \<and> (\<forall>m < length code. bv_bit b m \<longleftrightarrow> \<not> starts code m)"
  using assms
proof (induction "length code - pc" arbitrary: bits pc rule: less_induct)
  case less
  show ?case
  proof (cases "pc < length code")
    case False
    have "m div 8 < length bits" if "m < length code" for m using that less.prems(1) by linarith
    then show ?thesis using less.prems(4) False by (subst codeBitmap_loop.simps) auto
  next
    case True
    let ?n = "push_len (code ! pc)"
    have range: "pc + 1 + ?n \<le> length code + 32" using push_len_le [of "code ! pc"] True by simp
    obtain b where b: "set_push bits (pc + 1) ?n = Return (b, pc + 1 + ?n)" "length b = length bits"
      "\<And>m. m div 8 < length bits \<Longrightarrow> bv_bit b m \<longleftrightarrow> bv_bit bits m \<or> pc + 1 \<le> m \<and> m < pc + 1 + ?n"
      using set_push_spec [OF less.prems(1), of "pc + 1" ?n] range by auto
    have gap: "\<not> starts code m" if "pc + 1 \<le> m" "m < pc + 1 + ?n" for m
      using starts_gap [OF less.prems(2), of m] that by fastforce
    have inv: "bv_bit b m \<longleftrightarrow> m < pc + 1 + ?n \<and> \<not> starts code m" if "m div 8 < length b" for m
      using b(2,3) that less.prems(2,4) gap [of m] by (cases "m = pc"; cases "m < pc") auto
    have "codeBitmap_loop code bits pc = codeBitmap_loop code b (pc + 1 + ?n)"
    proof (cases "OP_PUSH1 \<le> code ! pc \<and> code ! pc \<le> OP_PUSH32")
      case True
      then have "?n = unat (code ! pc - OP_PUSH1 + 1)" by (simp only: push_len_def simp_thms if_True)
      then show ?thesis using \<open>pc < length code\<close> True b(1) by (subst codeBitmap_loop.simps) (simp only: Let_def simp_thms if_True outcome.case prod.case)
    next
      case False
      then have n: "?n = 0" by (simp only: push_len_def simp_thms if_False)
      then have "b = bits" using b(1) by (simp add: set_push.simps)
      then show ?thesis using True False n by (subst codeBitmap_loop.simps) (auto simp: Let_def)
    qed
    moreover have "\<exists>c. codeBitmap_loop code b (pc + 1 + ?n) = Return c \<and> length c = length b
        \<and> (\<forall>m < length code. bv_bit c m \<longleftrightarrow> \<not> starts code m)"
      using less.hyps [of "pc + 1 + ?n" b] starts_next [OF less.prems(2) True] True range less.prems(1) b(2) inv by simp
    ultimately show ?thesis using b(2) by simp
  qed
qed

lemma codeBitmap_spec:
  "\<exists>bits. codeBitmap code = Return bits \<and> length bits = length code div 8 + 5
    \<and> (\<forall>pos < length code. codeSegment bits pos = Return (starts code pos))"
proof -
  let ?b = "replicate (length code div 8 + 1 + 4) (0 :: byte)"
  have "bv_bit ?b m \<longleftrightarrow> m < 0 \<and> \<not> starts code m" if "m div 8 < length ?b" for m using that by (simp add: bv_bit_def)
  then obtain b where b: "codeBitmap_loop code ?b 0 = Return b" "length b = length ?b"
    "\<And>m. m < length code \<Longrightarrow> bv_bit b m \<longleftrightarrow> \<not> starts code m"
    using codeBitmap_loop_spec [of ?b code 0] starts_zero by auto
  have "codeSegment b pos = Return (starts code pos)" if "pos < length code" for pos
    using codeSegment_bit [of pos b] b(2,3) that by simp
  then show ?thesis using b(1,2) by (auto simp: codeBitmap_def)
qed

section \<open>Jumps\<close>

definition analysis_ok :: "Contract \<Rightarrow> jumpdests \<Rightarrow> bool" where
  "analysis_ok c jd =
     ((\<forall>a. c_analysis c = Some a \<longrightarrow> codeBitmap (c_Code c) = Return a)
      \<and> (c_CodeHash c \<noteq> 0 \<longrightarrow> (\<forall>a. jd (c_CodeHash c) = Some a \<longrightarrow> codeBitmap (c_Code c) = Return a)))"

lemma isCode_correct:
  assumes "analysis_ok c jd" "unat udest < length (c_Code c)"
  shows "\<exists>c' jd'. isCode c jd udest = Return (starts (c_Code c) (unat udest), c', jd')
    \<and> analysis_ok c' jd' \<and> c' = c\<lparr>c_analysis := c_analysis c'\<rparr>"
proof -
  obtain bits where b: "codeBitmap (c_Code c) = Return bits"
    "codeSegment bits (unat udest) = Return (starts (c_Code c) (unat udest))"
    using codeBitmap_spec [of "c_Code c"] assms(2) by blast
  show ?thesis
  proof (cases "c_analysis c")
    case (Some a)
    then have "a = bits" using assms(1) b(1) by (simp add: analysis_ok_def)
    then show ?thesis using Some b(2) assms(1) by (simp add: isCode_def)
  next
    case None
    then show ?thesis using b assms(1) by (auto simp: isCode_def analysis_ok_def split: option.split)
  qed
qed

text \<open>C4. A jump is accepted exactly when its destination is within the code, is a \<^verbatim>\<open>JUMPDEST\<close> and is the start of an
  instruction, so that the data of a \<^verbatim>\<open>PUSH\<close> can never be jumped to; the analysis never reads out of its bit
  vector, and what is cached of it stays the analysis of the code.\<close>

theorem validJumpdest_iff:
  assumes "uint256 U" "analysis_ok c jd" "length (c_Code c) < 2 ^ 63"
  shows "\<exists>c' jd'. validJumpdest U c jd dest =
      Return (unat dest < length (c_Code c) \<and> c_Code c ! unat dest = OP_JUMPDEST \<and> starts (c_Code c) (unat dest), c', jd')
    \<and> analysis_ok c' jd' \<and> c' = c\<lparr>c_analysis := c_analysis c'\<rparr>"
proof -
  have len: "unat (go_len (c_Code c)) = length (c_Code c)"
    using assms(3) by (simp add: go_len_def unat_of_nat)
  have dest: "uint dest < 2 ^ 64 \<longleftrightarrow> unat dest < 2 ^ 64" "unat dest < 2 ^ 64 \<Longrightarrow> unat (ucast dest :: u64) = unat dest"
    by (rule uint_less_unat) (rule unat_ucast_64)
  show ?thesis
  proof (cases "uint dest < 2 ^ 64 \<and> (ucast dest :: u64) < go_len (c_Code c)")
    case False
    then have "\<not> unat dest < length (c_Code c)"
      using len dest assms(3) by (auto simp: word_less_nat_alt)
    then show ?thesis using False assms(2) uint256.Uint64WithOverflow [OF assms(1)]
      by (auto simp: validJumpdest_def not_le)
  next
    case True
    then have u: "unat (ucast dest :: u64) = unat dest" "unat dest < length (c_Code c)"
      using len dest by (auto simp: word_less_nat_alt)
    show ?thesis
      using True u assms(2) isCode_correct [OF assms(2), of "ucast dest"] uint256.Uint64WithOverflow [OF assms(1)]
      by (auto simp: validJumpdest_def not_le)
  qed
qed

theorem validJumpdest_iff_witness:
  "\<exists>c' jd'. validJumpdest word_uint256
      \<lparr>c_CallerAddress = 0, c_self = 0, c_analysis = None, c_Code = [0x60, 0x5b, 0x5b], c_CodeHash = 0, c_CodeAddr = None,
       c_Input = [], c_Gas = 0, c_value = 0\<rparr> (\<lambda>_. None) 1 = Return (False, c', jd')"
proof -
  let ?c = "\<lparr>c_CallerAddress = 0, c_self = 0, c_analysis = None, c_Code = [0x60, 0x5b, 0x5b], c_CodeHash = 0,
    c_CodeAddr = None, c_Input = [], c_Gas = 0, c_value = 0\<rparr>"
  have "\<not> starts (c_Code ?c) 1"
    using starts_gap [OF starts_zero, of "c_Code ?c" 1] by (auto simp: push_len_def)
  then show ?thesis
    using validJumpdest_iff [OF word_u256.uint256_axioms, of ?c "\<lambda>_. None" 1] by (simp add: analysis_ok_def) blast
qed

end
