(* ===== verification/VM_State.thy ===== *)
theory VM_State
  imports VM_Analysis State_DB Chain_Params
begin

text \<open>
  The state of the virtual machine: the contexts and the \<^verbatim>\<open>EVM\<close> of \<^verbatim>\<open>core/vm/evm.go\<close>, the call context of
  \<^verbatim>\<open>core/vm/interpreter.go\<close>, and the transfer functions of \<^verbatim>\<open>core/evm.go\<close>.

  What does not change during a transaction is in the record \<open>vm_env\<close>: the package of 256-bit integers, the state
  database, the block and transaction contexts, the rules of the block and the options. \<open>EVM\<close> holds what
  changes: the state, the call depth, \<^verbatim>\<open>callGasTemp\<close>, the read-only flag and the return data of the interpreter, and
  the map of analyses that the contracts of a call tree share. A \<open>vm\<close> is a running frame: the program counter, the
  stacks, the memory and the contract, with the \<open>EVM\<close>. Tracers and cancellation are not modelled.
\<close>

record 't BlockContext =
  bc_CanTransfer :: "'t StateDB \<Rightarrow> address \<Rightarrow> int \<Rightarrow> bool \<times> 't StateDB"
  bc_Transfer :: "'t StateDB \<Rightarrow> address \<Rightarrow> address \<Rightarrow> int \<Rightarrow> 't StateDB"
  bc_GetHash :: "u64 \<Rightarrow> hash"
  bc_Coinbase :: address
  bc_GasLimit :: u64
  bc_BlockNumber :: int
  bc_Time :: int
  bc_Difficulty :: int

record TxContext =
  tc_Origin :: address
  tc_GasPrice :: int

datatype PrecompiledContract =
    ecrecover
  | sha256hash
  | ripemd160hash
  | dataCopy
  | bigModExp bool
  | bn256AddByzantium
  | bn256ScalarMulByzantium
  | bn256PairingByzantium
  | bn256AddIstanbul
  | bn256ScalarMulIstanbul
  | bn256PairingIstanbul
  | blake2F

text \<open>The cryptographic code that a precompiled contract calls is outside of the model.\<close>

type_synonym precompile_run = "PrecompiledContract \<Rightarrow> bytes \<Rightarrow> bytes \<times> vm_error option"

record 't vm_env =
  ve_u :: uint256_lib
  ve_db :: "'t state_env"
  ve_Context :: "'t BlockContext"
  ve_Tx :: TxContext
  ve_ChainID :: int
  ve_rules :: Rules
  ve_NoRecursion :: bool
  ve_EnablePreimageRecording :: bool
  ve_crypto :: precompile_run

record 't EVM =
  evm_StateDB :: "'t StateDB"
  evm_depth :: int
  evm_callGasTemp :: u64
  evm_jumpdests :: jumpdests
  in_readOnly :: bool
  in_returnData :: bytes

record 't vm =
  vm_pc :: u64
  vm_stack :: Stack
  vm_rstack :: "u32 list"
  vm_mem :: Memory
  vm_contract :: Contract
  vm_evm :: "'t EVM"

abbreviation vm_gas :: "'t vm \<Rightarrow> u64" where
  "vm_gas vm \<equiv> c_Gas (vm_contract vm)"

definition vm_db :: "'t vm \<Rightarrow> 't StateDB" where
  "vm_db vm = evm_StateDB (vm_evm vm)"

definition set_db :: "'t vm \<Rightarrow> 't StateDB \<Rightarrow> 't vm" where
  "set_db vm s = vm\<lparr>vm_evm := (vm_evm vm)\<lparr>evm_StateDB := s\<rparr>\<rparr>"

definition set_gas :: "'t vm \<Rightarrow> u64 \<Rightarrow> 't vm" where
  "set_gas vm g = vm\<lparr>vm_contract := (vm_contract vm)\<lparr>c_Gas := g\<rparr>\<rparr>"

abbreviation vm_self :: "'t vm \<Rightarrow> address" where
  "vm_self vm \<equiv> c_self (vm_contract vm)"

section \<open>Transfers\<close>

definition CanTransfer :: "'t state_env \<Rightarrow> 't StateDB \<Rightarrow> address \<Rightarrow> int \<Rightarrow> bool \<times> 't StateDB" where
  "CanTransfer env db addr amount = (let (b, db) = GetBalance env db addr in (b \<ge> amount, db))"

definition Transfer :: "'t state_env \<Rightarrow> 't StateDB \<Rightarrow> address \<Rightarrow> address \<Rightarrow> int \<Rightarrow> 't StateDB" where
  "Transfer env db sender recipient amount =
     (let db = SubBalance env db sender amount in AddBalance env db recipient amount)"

text \<open>The hashes of the ancestors (\<^verbatim>\<open>GetHashFn\<close>) and the author of the header that the engine names are arguments.\<close>

definition NewEVMBlockContext ::
  "'t state_env \<Rightarrow> int Header \<Rightarrow> (u64 \<Rightarrow> hash) \<Rightarrow> (int Header \<Rightarrow> address) \<Rightarrow> address option \<Rightarrow> 't BlockContext" where
  "NewEVMBlockContext env header getHash engine_Author author =
     \<lparr>bc_CanTransfer = CanTransfer env, bc_Transfer = Transfer env, bc_GetHash = getHash,
      bc_Coinbase = (case author of None \<Rightarrow> engine_Author header | Some a \<Rightarrow> a),
      bc_GasLimit = h_GasLimit header, bc_BlockNumber = h_Number header, bc_Time = uint (h_Time header),
      bc_Difficulty = h_Difficulty header\<rparr>"

end
