(* ===== verification/VM_Gas.thy ===== *)
theory VM_Gas
  imports VM_State
begin

text \<open>
  The price of the instructions: \<^verbatim>\<open>core/vm/gas.go\<close>, \<^verbatim>\<open>core/vm/gas_table.go\<close> and \<^verbatim>\<open>core/vm/operations_acl.go\<close>.

  A gas function may change the state (the refund counter, the access list), \<^verbatim>\<open>callGasTemp\<close>, the gas of the
  contract and the price already paid for the memory, so it maps frames to frames.
\<close>

section \<open>Parameters\<close>

abbreviation GasQuickStep :: u64 where "GasQuickStep \<equiv> 2"
abbreviation GasFastestStep :: u64 where "GasFastestStep \<equiv> 3"
abbreviation GasFastStep :: u64 where "GasFastStep \<equiv> 5"
abbreviation GasMidStep :: u64 where "GasMidStep \<equiv> 8"
abbreviation GasSlowStep :: u64 where "GasSlowStep \<equiv> 10"
abbreviation GasExtStep :: u64 where "GasExtStep \<equiv> 20"

abbreviation CallValueTransferGas :: u64 where "CallValueTransferGas \<equiv> 9000"
abbreviation CallNewAccountGas :: u64 where "CallNewAccountGas \<equiv> 25000"
abbreviation CallStipend :: u64 where "CallStipend \<equiv> 2300"
abbreviation LogDataGas :: u64 where "LogDataGas \<equiv> 8"
abbreviation LogGas :: u64 where "LogGas \<equiv> 375"
abbreviation LogTopicGas :: u64 where "LogTopicGas \<equiv> 375"
abbreviation CopyGas :: u64 where "CopyGas \<equiv> 3"
abbreviation Sha3Gas :: u64 where "Sha3Gas \<equiv> 30"
abbreviation Sha3WordGas :: u64 where "Sha3WordGas \<equiv> 6"
abbreviation ExpGas :: u64 where "ExpGas \<equiv> 10"
abbreviation ExpByteFrontier :: u64 where "ExpByteFrontier \<equiv> 10"
abbreviation ExpByteEIP158 :: u64 where "ExpByteEIP158 \<equiv> 50"
abbreviation SstoreSetGas :: u64 where "SstoreSetGas \<equiv> 20000"
abbreviation SstoreResetGas :: u64 where "SstoreResetGas \<equiv> 5000"
abbreviation SstoreClearGas :: u64 where "SstoreClearGas \<equiv> 5000"
abbreviation SstoreRefundGas :: u64 where "SstoreRefundGas \<equiv> 15000"
abbreviation NetSstoreNoopGas :: u64 where "NetSstoreNoopGas \<equiv> 200"
abbreviation NetSstoreInitGas :: u64 where "NetSstoreInitGas \<equiv> 20000"
abbreviation NetSstoreCleanGas :: u64 where "NetSstoreCleanGas \<equiv> 5000"
abbreviation NetSstoreDirtyGas :: u64 where "NetSstoreDirtyGas \<equiv> 200"
abbreviation NetSstoreClearRefund :: u64 where "NetSstoreClearRefund \<equiv> 15000"
abbreviation NetSstoreResetRefund :: u64 where "NetSstoreResetRefund \<equiv> 4800"
abbreviation NetSstoreResetClearRefund :: u64 where "NetSstoreResetClearRefund \<equiv> 19800"
abbreviation SstoreSentryGasEIP2200 :: u64 where "SstoreSentryGasEIP2200 \<equiv> 2300"
abbreviation SstoreSetGasEIP2200 :: u64 where "SstoreSetGasEIP2200 \<equiv> 20000"
abbreviation SstoreResetGasEIP2200 :: u64 where "SstoreResetGasEIP2200 \<equiv> 5000"
abbreviation SstoreClearsScheduleRefundEIP2200 :: u64 where "SstoreClearsScheduleRefundEIP2200 \<equiv> 15000"
abbreviation SloadGasEIP2200 :: u64 where "SloadGasEIP2200 \<equiv> 800"
abbreviation SelfdestructGasEIP150 :: u64 where "SelfdestructGasEIP150 \<equiv> 5000"
abbreviation CreateBySelfdestructGas :: u64 where "CreateBySelfdestructGas \<equiv> 25000"
abbreviation SelfdestructRefundGas :: u64 where "SelfdestructRefundGas \<equiv> 24000"
abbreviation ColdAccountAccessCostEIP2929 :: u64 where "ColdAccountAccessCostEIP2929 \<equiv> 2600"
abbreviation ColdSloadCostEIP2929 :: u64 where "ColdSloadCostEIP2929 \<equiv> 2100"
abbreviation WarmStorageReadCostEIP2929 :: u64 where "WarmStorageReadCostEIP2929 \<equiv> 100"

section \<open>Gas functions\<close>

type_synonym 't gas_result = "((vm_error + u64) \<times> 't vm) outcome"
type_synonym 't gasFunc = "'t vm_env \<Rightarrow> 't vm \<Rightarrow> u64 \<Rightarrow> 't gas_result"

text \<open>Adding to a price: the error \<^verbatim>\<open>ErrGasUintOverflow\<close> on overflow.\<close>

definition gas_add :: "u64 \<Rightarrow> u64 \<Rightarrow> vm_error + u64" where
  "gas_add x y = (case SafeAdd x y of (z, overflow) \<Rightarrow> if overflow then Inl ErrGasUintOverflow else Inr z)"

definition gas_mul :: "u64 \<Rightarrow> u64 \<Rightarrow> vm_error + u64" where
  "gas_mul x y = (case SafeMul x y of (z, overflow) \<Rightarrow> if overflow then Inl ErrGasUintOverflow else Inr z)"

definition gas_bind :: "vm_error + u64 \<Rightarrow> (u64 \<Rightarrow> vm_error + u64) \<Rightarrow> vm_error + u64" where
  "gas_bind x f = (case x of Inl e \<Rightarrow> Inl e | Inr g \<Rightarrow> f g)"

definition back_uint64 :: "'t vm_env \<Rightarrow> u256 \<Rightarrow> vm_error + u64" where
  "back_uint64 env x =
     (case U_Uint64WithOverflow (ve_u env) x of (n, overflow) \<Rightarrow> if overflow then Inl ErrGasUintOverflow else Inr n)"

text \<open>The price of the memory, which is remembered in the memory, and what is added to it.\<close>

definition with_memory_gas ::
  "'t vm \<Rightarrow> u64 \<Rightarrow> (u64 \<Rightarrow> 't vm \<Rightarrow> 't gas_result) \<Rightarrow> 't gas_result" where
  "with_memory_gas vm memorySize f =
     (case memoryGasCost (vm_mem vm) memorySize of
        (Inl e, m) \<Rightarrow> Return (Inl e, vm\<lparr>vm_mem := m\<rparr>)
      | (Inr gas, m) \<Rightarrow> f gas (vm\<lparr>vm_mem := m\<rparr>))"

definition memoryCopierGas :: "nat \<Rightarrow> 't gasFunc" where
  "memoryCopierGas stackpos env vm memorySize =
     with_memory_gas vm memorySize (\<lambda>gas vm.
       obind (Back (vm_stack vm) stackpos) (\<lambda>x.
         Return (gas_bind (back_uint64 env x) (\<lambda>words.
                   gas_bind (gas_mul (toWordSize words) CopyGas) (\<lambda>words. gas_add gas words)), vm)))"

definition gasCallDataCopy :: "'t gasFunc" where "gasCallDataCopy = memoryCopierGas 2"
definition gasCodeCopy :: "'t gasFunc" where "gasCodeCopy = memoryCopierGas 2"
definition gasExtCodeCopy :: "'t gasFunc" where "gasExtCodeCopy = memoryCopierGas 3"
definition gasReturnDataCopy :: "'t gasFunc" where "gasReturnDataCopy = memoryCopierGas 2"

definition read_db :: "'t vm \<Rightarrow> ('t StateDB \<Rightarrow> 'r \<times> 't StateDB) \<Rightarrow> ('r \<Rightarrow> 't vm \<Rightarrow> 'a) \<Rightarrow> 'a" where
  "read_db vm f g = (let (r, s) = f (vm_db vm) in g r (set_db vm s))"

definition vm_AddRefund :: "'t vm \<Rightarrow> u64 \<Rightarrow> 't vm" where
  "vm_AddRefund vm g = set_db vm (AddRefund (vm_db vm) g)"

definition vm_SubRefund :: "'t vm \<Rightarrow> u64 \<Rightarrow> 't vm outcome" where
  "vm_SubRefund vm g = obind (or_panic RefundBelowZero (SubRefund (vm_db vm) g)) (\<lambda>s. Return (set_db vm s))"

text \<open>
  The refunds of a slot that was already changed (2.2 of the rules): \<open>clear\<close> is the refund for clearing it,
  \<open>reset_clear\<close> and \<open>reset\<close> those for giving it back its original value, zero or not.
\<close>

definition dirty_refunds ::
  "u64 \<Rightarrow> u64 \<Rightarrow> u64 \<Rightarrow> hash \<Rightarrow> hash \<Rightarrow> hash \<Rightarrow> 't vm \<Rightarrow> 't vm outcome" where
  "dirty_refunds clear reset_clear reset original current value vm =
     obind (if original \<noteq> 0
            then if current = 0 then vm_SubRefund vm clear
                 else Return (if value = 0 then vm_AddRefund vm clear else vm)
            else Return vm)
       (\<lambda>vm. Return
          (if original = value then if original = 0 then vm_AddRefund vm reset_clear else vm_AddRefund vm reset
           else vm))"

definition gasSStore :: "'t gasFunc" where
  "gasSStore env vm memorySize =
     (let U = ve_u env in
      obind (Back (vm_stack vm) 1) (\<lambda>y.
      obind (Back (vm_stack vm) 0) (\<lambda>x.
      read_db vm (\<lambda>s. GetState (ve_db env) s (vm_self vm) (U_Bytes32 U x)) (\<lambda>current vm.
        if rIsPetersburg (ve_rules env) \<or> \<not> rIsConstantinople (ve_rules env)
        then if current = 0 \<and> U_Sign U y \<noteq> 0 then Return (Inr SstoreSetGas, vm)
             else if current \<noteq> 0 \<and> U_Sign U y = 0 then Return (Inr SstoreClearGas, vm_AddRefund vm SstoreRefundGas)
             else Return (Inr SstoreResetGas, vm)
        else let value = U_Bytes32 U y in
          if current = value then Return (Inr NetSstoreNoopGas, vm)
          else read_db vm (\<lambda>s. GetCommittedState (ve_db env) s (vm_self vm) (U_Bytes32 U x)) (\<lambda>original vm.
            if original = current
            then if original = 0 then Return (Inr NetSstoreInitGas, vm)
                 else Return (Inr NetSstoreCleanGas, if value = 0 then vm_AddRefund vm NetSstoreClearRefund else vm)
            else obind (dirty_refunds NetSstoreClearRefund NetSstoreResetClearRefund NetSstoreResetRefund
                          original current value vm)
                   (\<lambda>vm. Return (Inr NetSstoreDirtyGas, vm)))))))"

definition gasSStoreEIP2200 :: "'t gasFunc" where
  "gasSStoreEIP2200 env vm memorySize =
     (if vm_gas vm \<le> SstoreSentryGasEIP2200 then Return (Inl ErrReentrancySentry, vm)
      else let U = ve_u env in
      obind (Back (vm_stack vm) 1) (\<lambda>y.
      obind (Back (vm_stack vm) 0) (\<lambda>x.
      read_db vm (\<lambda>s. GetState (ve_db env) s (vm_self vm) (U_Bytes32 U x)) (\<lambda>current vm.
        let value = U_Bytes32 U y in
        if current = value then Return (Inr SloadGasEIP2200, vm)
        else read_db vm (\<lambda>s. GetCommittedState (ve_db env) s (vm_self vm) (U_Bytes32 U x)) (\<lambda>original vm.
          if original = current
          then if original = 0 then Return (Inr SstoreSetGasEIP2200, vm)
               else Return (Inr SstoreResetGasEIP2200,
                            if value = 0 then vm_AddRefund vm SstoreClearsScheduleRefundEIP2200 else vm)
          else obind (dirty_refunds SstoreClearsScheduleRefundEIP2200 (SstoreSetGasEIP2200 - SloadGasEIP2200)
                        (SstoreResetGasEIP2200 - SloadGasEIP2200) original current value vm)
                 (\<lambda>vm. Return (Inr SloadGasEIP2200, vm)))))))"

definition makeGasLog :: "u64 \<Rightarrow> 't gasFunc" where
  "makeGasLog n env vm memorySize =
     obind (Back (vm_stack vm) 1) (\<lambda>x.
       case back_uint64 env x of
         Inl e \<Rightarrow> Return (Inl e, vm)
       | Inr requestedSize \<Rightarrow>
           with_memory_gas vm memorySize (\<lambda>gas vm.
             Return (gas_bind (gas_add gas LogGas) (\<lambda>gas.
                     gas_bind (gas_add gas (n * LogTopicGas)) (\<lambda>gas.
                     gas_bind (gas_mul requestedSize LogDataGas) (\<lambda>memorySizeGas.
                     gas_add gas memorySizeGas))), vm)))"

definition word_gas :: "nat \<Rightarrow> 't gasFunc" where
  "word_gas stackpos env vm memorySize =
     with_memory_gas vm memorySize (\<lambda>gas vm.
       obind (Back (vm_stack vm) stackpos) (\<lambda>x.
         Return (gas_bind (back_uint64 env x) (\<lambda>wordGas.
                   gas_bind (gas_mul (toWordSize wordGas) Sha3WordGas) (\<lambda>wordGas. gas_add gas wordGas)), vm)))"

definition gasSha3 :: "'t gasFunc" where "gasSha3 = word_gas 1"

definition pureMemoryGascost :: "'t gasFunc" where
  "pureMemoryGascost env vm memorySize = with_memory_gas vm memorySize (\<lambda>gas vm. Return (Inr gas, vm))"

definition gasCreate2 :: "'t gasFunc" where "gasCreate2 = word_gas 2"

definition exp_gas :: "u64 \<Rightarrow> 't gasFunc" where
  "exp_gas byteGas env vm memorySize =
     obind (Back (vm_stack vm) 1) (\<lambda>x.
       let expByteLen = word_of_nat ((U_BitLen (ve_u env) x + 7) div 8)
       in Return (gas_add (expByteLen * byteGas) ExpGas, vm))"

definition gasExpFrontier :: "'t gasFunc" where "gasExpFrontier = exp_gas ExpByteFrontier"
definition gasExpEIP158 :: "'t gasFunc" where "gasExpEIP158 = exp_gas ExpByteEIP158"

section \<open>The gas of calls\<close>

definition callGas :: "uint256_lib \<Rightarrow> bool \<Rightarrow> u64 \<Rightarrow> u64 \<Rightarrow> u256 \<Rightarrow> vm_error + u64" where
  "callGas U isEip150 availableGas base callCost =
     (let availableGas = availableGas - base;
          gas = availableGas - availableGas div 64
      in if isEip150 \<and> (\<not> U_IsUint64 U callCost \<or> gas < U_Uint64 U callCost) then Inr gas
         else if \<not> U_IsUint64 U callCost then Inl ErrGasUintOverflow
         else Inr (U_Uint64 U callCost))"

text \<open>The end of the gas functions of calls: the gas of the callee is added to the price.\<close>

definition finish_call_gas :: "'t vm_env \<Rightarrow> u64 \<Rightarrow> 't vm \<Rightarrow> 't gas_result" where
  "finish_call_gas env gas vm =
     obind (Back (vm_stack vm) 0) (\<lambda>x.
       case callGas (ve_u env) (rIsEIP150 (ve_rules env)) (vm_gas vm) gas x of
         Inl e \<Rightarrow> Return (Inl e, vm\<lparr>vm_evm := (vm_evm vm)\<lparr>evm_callGasTemp := 0\<rparr>\<rparr>)
       | Inr g \<Rightarrow> Return (gas_add gas g, vm\<lparr>vm_evm := (vm_evm vm)\<lparr>evm_callGasTemp := g\<rparr>\<rparr>))"

definition gasCall :: "'t gasFunc" where
  "gasCall env vm memorySize =
     (let U = ve_u env in
      obind (Back (vm_stack vm) 2) (\<lambda>v.
      obind (Back (vm_stack vm) 1) (\<lambda>a.
      let transfersValue = \<not> U_IsZero U v;
          address = U_Bytes20 U a;
          finish = (\<lambda>gas vm.
            let gas = (if transfersValue then gas + CallValueTransferGas else gas) in
            with_memory_gas vm memorySize (\<lambda>memoryGas vm.
              case gas_add gas memoryGas of
                Inl e \<Rightarrow> Return (Inl e, vm)
              | Inr gas \<Rightarrow> finish_call_gas env gas vm))
      in if rIsEIP158 (ve_rules env)
         then if transfersValue
              then read_db vm (\<lambda>s. Empty (ve_db env) s address) (\<lambda>empty vm. finish (if empty then CallNewAccountGas else 0) vm)
              else finish 0 vm
         else read_db vm (\<lambda>s. Exist (ve_db env) s address) (\<lambda>exist vm. finish (if \<not> exist then CallNewAccountGas else 0) vm))))"

definition gasCallCode :: "'t gasFunc" where
  "gasCallCode env vm memorySize =
     with_memory_gas vm memorySize (\<lambda>memoryGas vm.
       obind (Back (vm_stack vm) 2) (\<lambda>v.
         case gas_add (if U_Sign (ve_u env) v \<noteq> 0 then CallValueTransferGas else 0) memoryGas of
           Inl e \<Rightarrow> Return (Inl e, vm)
         | Inr gas \<Rightarrow> finish_call_gas env gas vm))"

definition gasDelegateCall :: "'t gasFunc" where
  "gasDelegateCall env vm memorySize = with_memory_gas vm memorySize (finish_call_gas env)"

definition gasStaticCall :: "'t gasFunc" where
  "gasStaticCall env vm memorySize = with_memory_gas vm memorySize (finish_call_gas env)"

text \<open>The refund of a contract that destructs itself for the first time.\<close>

definition suicide_refund :: "'t vm_env \<Rightarrow> u64 \<Rightarrow> 't vm \<Rightarrow> 't gas_result" where
  "suicide_refund env gas vm =
     read_db vm (\<lambda>s. HasSuicided (ve_db env) s (vm_self vm)) (\<lambda>suicided vm.
       Return (Inr gas, if \<not> suicided then vm_AddRefund vm SelfdestructRefundGas else vm))"

text \<open>\<^verbatim>\<open>Empty(address) && GetBalance(self).Sign() != 0\<close>\<close>

definition new_by_suicide :: "'t vm_env \<Rightarrow> address \<Rightarrow> 't vm \<Rightarrow> (bool \<Rightarrow> 't vm \<Rightarrow> 'a) \<Rightarrow> 'a" where
  "new_by_suicide env address vm f =
     read_db vm (\<lambda>s. Empty (ve_db env) s address) (\<lambda>empty vm.
       if empty then read_db vm (\<lambda>s. GetBalance (ve_db env) s (vm_self vm)) (\<lambda>b vm. f (sgn b \<noteq> 0) vm)
       else f False vm)"

definition gasSelfdestruct :: "'t gasFunc" where
  "gasSelfdestruct env vm memorySize =
     (if rIsEIP150 (ve_rules env)
      then obind (Back (vm_stack vm) 0) (\<lambda>a.
             let address = U_Bytes20 (ve_u env) a in
             if rIsEIP158 (ve_rules env)
             then new_by_suicide env address vm (\<lambda>new vm.
                    suicide_refund env (if new then SelfdestructGasEIP150 + CreateBySelfdestructGas else SelfdestructGasEIP150) vm)
             else read_db vm (\<lambda>s. Exist (ve_db env) s address) (\<lambda>exist vm.
                    suicide_refund env (if \<not> exist then SelfdestructGasEIP150 + CreateBySelfdestructGas else SelfdestructGasEIP150) vm))
      else suicide_refund env 0 vm)"

section \<open>Access lists\<close>

definition vm_AddSlotToAccessList :: "'t vm \<Rightarrow> address \<Rightarrow> hash \<Rightarrow> 't vm outcome" where
  "vm_AddSlotToAccessList vm a k =
     obind (or_panic IndexOutOfRange (AddSlotToAccessList (vm_db vm) a k)) (\<lambda>s. Return (set_db vm s))"

definition vm_SlotInAccessList :: "'t vm \<Rightarrow> address \<Rightarrow> hash \<Rightarrow> (bool \<times> bool) outcome" where
  "vm_SlotInAccessList vm a k = or_panic IndexOutOfRange (SlotInAccessList (vm_db vm) a k)"

definition gasSStoreEIP2929 :: "'t gasFunc" where
  "gasSStoreEIP2929 env vm memorySize =
     (if vm_gas vm \<le> SstoreSentryGasEIP2200 then Return (Inl ErrReentrancySentry, vm)
      else let U = ve_u env in
      obind (Back (vm_stack vm) 1) (\<lambda>y.
      obind (Back (vm_stack vm) 0) (\<lambda>x.
      let slot = U_Bytes32 U x in
      read_db vm (\<lambda>s. GetState (ve_db env) s (vm_self vm) slot) (\<lambda>current vm.
      obind (vm_SlotInAccessList vm (vm_self vm) slot) (\<lambda>(addrPresent, slotPresent).
      obind (if \<not> slotPresent
             then obind (vm_AddSlotToAccessList vm (vm_self vm) slot) (\<lambda>vm.
                    if \<not> addrPresent then Panic NotInAccessList else Return (ColdSloadCostEIP2929, vm))
             else Return (0, vm)) (\<lambda>(cost, vm).
        let value = U_Bytes32 U y in
        if current = value then Return (Inr (cost + WarmStorageReadCostEIP2929), vm)
        else read_db vm (\<lambda>s. GetCommittedState (ve_db env) s (vm_self vm) (U_Bytes32 U x)) (\<lambda>original vm.
          if original = current
          then if original = 0 then Return (Inr (cost + SstoreSetGasEIP2200), vm)
               else Return (Inr (cost + (SstoreResetGasEIP2200 - ColdSloadCostEIP2929)),
                            if value = 0 then vm_AddRefund vm SstoreClearsScheduleRefundEIP2200 else vm)
          else obind (dirty_refunds SstoreClearsScheduleRefundEIP2200 (SstoreSetGasEIP2200 - WarmStorageReadCostEIP2929)
                        ((SstoreResetGasEIP2200 - ColdSloadCostEIP2929) - WarmStorageReadCostEIP2929)
                        original current value vm)
                 (\<lambda>vm. Return (Inr (cost + WarmStorageReadCostEIP2929), vm)))))))))"

definition gasSLoadEIP2929 :: "'t gasFunc" where
  "gasSLoadEIP2929 env vm memorySize =
     obind (Back (vm_stack vm) 0) (\<lambda>loc.
     let slot = U_Bytes32 (ve_u env) loc in
     obind (vm_SlotInAccessList vm (vm_self vm) slot) (\<lambda>(_, slotPresent).
       if \<not> slotPresent
       then obind (vm_AddSlotToAccessList vm (vm_self vm) slot) (\<lambda>vm. Return (Inr ColdSloadCostEIP2929, vm))
       else Return (Inr WarmStorageReadCostEIP2929, vm)))"

definition vm_AddAddressToAccessList :: "'t vm \<Rightarrow> address \<Rightarrow> 't vm" where
  "vm_AddAddressToAccessList vm a = set_db vm (AddAddressToAccessList (vm_db vm) a)"

definition gasExtCodeCopyEIP2929 :: "'t gasFunc" where
  "gasExtCodeCopyEIP2929 env vm memorySize =
     obind (gasExtCodeCopy env vm memorySize) (\<lambda>(r, vm).
       case r of
         Inl e \<Rightarrow> Return (Inl e, vm)
       | Inr gas \<Rightarrow>
           obind (Back (vm_stack vm) 0) (\<lambda>a.
             let addr = U_Bytes20 (ve_u env) a in
             if \<not> AddressInAccessList (vm_db vm) addr
             then Return (gas_add gas (ColdAccountAccessCostEIP2929 - WarmStorageReadCostEIP2929),
                          vm_AddAddressToAccessList vm addr)
             else Return (Inr gas, vm)))"

definition gasEip2929AccountCheck :: "'t gasFunc" where
  "gasEip2929AccountCheck env vm memorySize =
     obind (Back (vm_stack vm) 0) (\<lambda>a.
       let addr = U_Bytes20 (ve_u env) a in
       if \<not> AddressInAccessList (vm_db vm) addr
       then Return (Inr (ColdAccountAccessCostEIP2929 - WarmStorageReadCostEIP2929), vm_AddAddressToAccessList vm addr)
       else Return (Inr 0, vm))"

definition makeCallVariantGasCallEIP2929 :: "'t gasFunc \<Rightarrow> 't gasFunc" where
  "makeCallVariantGasCallEIP2929 oldCalculator env vm memorySize =
     obind (Back (vm_stack vm) 1) (\<lambda>a.
       let addr = U_Bytes20 (ve_u env) a in
       if \<not> AddressInAccessList (vm_db vm) addr
       then let vm = vm_AddAddressToAccessList vm addr;
                (ok, c) = UseGas (vm_contract vm) (ColdAccountAccessCostEIP2929 - WarmStorageReadCostEIP2929);
                vm = vm\<lparr>vm_contract := c\<rparr>
            in if \<not> ok then Return (Inl ErrOutOfGas, vm) else oldCalculator env vm memorySize
       else oldCalculator env vm memorySize)"

definition gasCallEIP2929 :: "'t gasFunc" where
  "gasCallEIP2929 = makeCallVariantGasCallEIP2929 gasCall"

definition gasDelegateCallEIP2929 :: "'t gasFunc" where
  "gasDelegateCallEIP2929 = makeCallVariantGasCallEIP2929 gasDelegateCall"

definition gasStaticCallEIP2929 :: "'t gasFunc" where
  "gasStaticCallEIP2929 = makeCallVariantGasCallEIP2929 gasStaticCall"

definition gasCallCodeEIP2929 :: "'t gasFunc" where
  "gasCallCodeEIP2929 = makeCallVariantGasCallEIP2929 gasCallCode"

definition gasSelfdestructEIP2929 :: "'t gasFunc" where
  "gasSelfdestructEIP2929 env vm memorySize =
     obind (Back (vm_stack vm) 0) (\<lambda>a.
       let address = U_Bytes20 (ve_u env) a;
           (gas, vm) = (if \<not> AddressInAccessList (vm_db vm) address
                        then (ColdAccountAccessCostEIP2929, vm_AddAddressToAccessList vm address) else (0, vm))
       in new_by_suicide env address vm (\<lambda>new vm.
            suicide_refund env (if new then gas + CreateBySelfdestructGas else gas) vm))"

end
