(* ===== verification/VM_Instructions.thy ===== *)
theory VM_Instructions
  imports VM_Gas
begin

text \<open>
  The instructions: \<^verbatim>\<open>core/vm/instructions.go\<close>, with \<^verbatim>\<open>opSelfBalance\<close> and \<^verbatim>\<open>opChainID\<close> of \<^verbatim>\<open>core/vm/eips.go\<close>.

  An instruction maps a frame to the bytes and the error it returns and the new frame. The calls of the \<^verbatim>\<open>EVM\<close> that
  start other frames are the argument \<open>vm_calls\<close>, which the interpreter provides. What a call returns is
  either a new slice or, from the data copy contract, the slice of its input: \<^verbatim>\<open>opCall\<close> and its variants write the
  result to the memory before the interpreter copies it, so the second one is read again afterwards.
\<close>

datatype ret_slice = Fresh bytes | InputSlice bytes

fun ret_bytes :: "ret_slice \<Rightarrow> bytes" where
  "ret_bytes (Fresh b) = b"
| "ret_bytes (InputSlice b) = b"

type_synonym 't call_result = "((ret_slice \<times> u64 \<times> vm_error option) \<times> 't EVM) outcome"
type_synonym 't create_result = "((bytes \<times> address \<times> u64 \<times> vm_error option) \<times> 't EVM) outcome"

record 't vm_calls =
  call_Call :: "ContractRef \<Rightarrow> address \<Rightarrow> bytes \<Rightarrow> u64 \<Rightarrow> int \<Rightarrow> 't EVM \<Rightarrow> 't call_result"
  call_CallCode :: "ContractRef \<Rightarrow> address \<Rightarrow> bytes \<Rightarrow> u64 \<Rightarrow> int \<Rightarrow> 't EVM \<Rightarrow> 't call_result"
  call_DelegateCall :: "ContractRef \<Rightarrow> address \<Rightarrow> bytes \<Rightarrow> u64 \<Rightarrow> 't EVM \<Rightarrow> 't call_result"
  call_StaticCall :: "ContractRef \<Rightarrow> address \<Rightarrow> bytes \<Rightarrow> u64 \<Rightarrow> 't EVM \<Rightarrow> 't call_result"
  call_Create :: "ContractRef \<Rightarrow> bytes \<Rightarrow> u64 \<Rightarrow> int \<Rightarrow> 't EVM \<Rightarrow> 't create_result"
  call_Create2 :: "ContractRef \<Rightarrow> bytes \<Rightarrow> u64 \<Rightarrow> int \<Rightarrow> u256 \<Rightarrow> 't EVM \<Rightarrow> 't create_result"

type_synonym 't exec_result = "((bytes \<times> vm_error option) \<times> 't vm) outcome"
type_synonym 't executionFunc = "'t vm_env \<Rightarrow> 't vm_calls \<Rightarrow> 't vm \<Rightarrow> 't exec_result"

abbreviation finish :: "'t vm \<Rightarrow> 't exec_result" where
  "finish vm \<equiv> Return (([], None), vm)"

abbreviation fails :: "vm_error \<Rightarrow> 't vm \<Rightarrow> 't exec_result" where
  "fails e vm \<equiv> Return (([], Some e), vm)"

section \<open>Arithmetic\<close>

text \<open>An instruction that replaces the top word, the two top words or the three top words.\<close>

definition un_op :: "(uint256_lib \<Rightarrow> u256 \<Rightarrow> u256) \<Rightarrow> 't executionFunc" where
  "un_op f env calls vm =
     (case vm_stack vm of
        x # r \<Rightarrow> finish (vm\<lparr>vm_stack := f (ve_u env) x # r\<rparr>)
      | _ \<Rightarrow> Panic IndexOutOfRange)"

definition bin_op :: "(uint256_lib \<Rightarrow> u256 \<Rightarrow> u256 \<Rightarrow> u256) \<Rightarrow> 't executionFunc" where
  "bin_op f env calls vm =
     (case vm_stack vm of
        x # y # r \<Rightarrow> finish (vm\<lparr>vm_stack := f (ve_u env) x y # r\<rparr>)
      | _ \<Rightarrow> Panic IndexOutOfRange)"

definition tern_op :: "(uint256_lib \<Rightarrow> u256 \<Rightarrow> u256 \<Rightarrow> u256 \<Rightarrow> u256) \<Rightarrow> 't executionFunc" where
  "tern_op f env calls vm =
     (case vm_stack vm of
        x # y # z # r \<Rightarrow> finish (vm\<lparr>vm_stack := f (ve_u env) x y z # r\<rparr>)
      | _ \<Rightarrow> Panic IndexOutOfRange)"

definition push_op :: "('t vm_env \<Rightarrow> 't vm \<Rightarrow> u256) \<Rightarrow> 't executionFunc" where
  "push_op f env calls vm = finish (vm\<lparr>vm_stack := f env vm # vm_stack vm\<rparr>)"

definition u_bool :: "uint256_lib \<Rightarrow> bool \<Rightarrow> u256" where
  "u_bool U b = (if b then U_SetOne U else U_Clear U)"

definition opAdd :: "'t executionFunc" where "opAdd = bin_op U_Add"
definition opSub :: "'t executionFunc" where "opSub = bin_op U_Sub"
definition opMul :: "'t executionFunc" where "opMul = bin_op U_Mul"
definition opDiv :: "'t executionFunc" where "opDiv = bin_op U_Div"
definition opSdiv :: "'t executionFunc" where "opSdiv = bin_op U_SDiv"
definition opMod :: "'t executionFunc" where "opMod = bin_op U_Mod"
definition opSmod :: "'t executionFunc" where "opSmod = bin_op U_SMod"
definition opExp :: "'t executionFunc" where "opExp = bin_op U_Exp"
definition opSignExtend :: "'t executionFunc" where "opSignExtend = bin_op (\<lambda>U back num. U_ExtendSign U num back)"
definition opNot :: "'t executionFunc" where "opNot = un_op U_Not"
definition opLt :: "'t executionFunc" where "opLt = bin_op (\<lambda>U x y. u_bool U (U_Lt U x y))"
definition opGt :: "'t executionFunc" where "opGt = bin_op (\<lambda>U x y. u_bool U (U_Gt U x y))"
definition opSlt :: "'t executionFunc" where "opSlt = bin_op (\<lambda>U x y. u_bool U (U_Slt U x y))"
definition opSgt :: "'t executionFunc" where "opSgt = bin_op (\<lambda>U x y. u_bool U (U_Sgt U x y))"
definition opEq :: "'t executionFunc" where "opEq = bin_op (\<lambda>U x y. u_bool U (U_Eq U x y))"
definition opIszero :: "'t executionFunc" where "opIszero = un_op (\<lambda>U x. u_bool U (U_IsZero U x))"
definition opAnd :: "'t executionFunc" where "opAnd = bin_op U_And"
definition opOr :: "'t executionFunc" where "opOr = bin_op U_Or"
definition opXor :: "'t executionFunc" where "opXor = bin_op U_Xor"
definition opByte :: "'t executionFunc" where "opByte = bin_op (\<lambda>U th val. U_Byte U val th)"

definition opAddmod :: "'t executionFunc" where
  "opAddmod = tern_op (\<lambda>U x y z. if U_IsZero U z then U_Clear U else U_AddMod U x y z)"

definition opMulmod :: "'t executionFunc" where
  "opMulmod = tern_op (\<lambda>U x y z. U_MulMod U x y z)"

definition opSHL :: "'t executionFunc" where
  "opSHL = bin_op (\<lambda>U shift value.
     if U_LtUint64 U shift 256 then U_Lsh U value (U_Uint64 U shift) else U_Clear U)"

definition opSHR :: "'t executionFunc" where
  "opSHR = bin_op (\<lambda>U shift value.
     if U_LtUint64 U shift 256 then U_Rsh U value (U_Uint64 U shift) else U_Clear U)"

definition opSAR :: "'t executionFunc" where
  "opSAR = bin_op (\<lambda>U shift value.
     if U_GtUint64 U shift 256 then if U_Sign U value \<ge> 0 then U_Clear U else U_SetAllOne U
     else U_SRsh U value (U_Uint64 U shift))"

definition opSha3 :: "'t executionFunc" where
  "opSha3 env calls vm =
     (let U = ve_u env in
      case vm_stack vm of
        offset # sz # r \<Rightarrow>
          obind (mem_GetPtr (vm_mem vm) (sint (U_Uint64 U offset)) (sint (U_Uint64 U sz))) (\<lambda>data.
            let h = se_keccak (ve_db env) data;
                vm = (if ve_EnablePreimageRecording env then set_db vm (AddPreimage (vm_db vm) h data) else vm)
            in finish (vm\<lparr>vm_stack := U_SetBytes U (hash_Bytes h) # r\<rparr>))
      | _ \<Rightarrow> Panic IndexOutOfRange)"

section \<open>The environment\<close>

definition opAddress :: "'t executionFunc" where
  "opAddress = push_op (\<lambda>env vm. U_SetBytes (ve_u env) (addr_Bytes (vm_self vm)))"

definition opBalance :: "'t executionFunc" where
  "opBalance env calls vm =
     (case vm_stack vm of
        slot # r \<Rightarrow>
          read_db vm (\<lambda>s. GetBalance (ve_db env) s (U_Bytes20 (ve_u env) slot)) (\<lambda>b vm.
            finish (vm\<lparr>vm_stack := fst (U_FromBig (ve_u env) b) # r\<rparr>))
      | _ \<Rightarrow> Panic IndexOutOfRange)"

definition opOrigin :: "'t executionFunc" where
  "opOrigin = push_op (\<lambda>env vm. U_SetBytes (ve_u env) (addr_Bytes (tc_Origin (ve_Tx env))))"

definition opCaller :: "'t executionFunc" where
  "opCaller = push_op (\<lambda>env vm. U_SetBytes (ve_u env) (addr_Bytes (c_CallerAddress (vm_contract vm))))"

definition opCallValue :: "'t executionFunc" where
  "opCallValue = push_op (\<lambda>env vm. fst (U_FromBig (ve_u env) (c_value (vm_contract vm))))"

definition opCallDataLoad :: "'t executionFunc" where
  "opCallDataLoad env calls vm =
     (let U = ve_u env in
      case vm_stack vm of
        x # r \<Rightarrow>
          (case U_Uint64WithOverflow U x of
             (offset, overflow) \<Rightarrow>
               if \<not> overflow
               then obind (getData (c_Input (vm_contract vm)) offset 32) (\<lambda>data.
                      finish (vm\<lparr>vm_stack := U_SetBytes U data # r\<rparr>))
               else finish (vm\<lparr>vm_stack := U_Clear U # r\<rparr>))
      | _ \<Rightarrow> Panic IndexOutOfRange)"

definition opCallDataSize :: "'t executionFunc" where
  "opCallDataSize = push_op (\<lambda>env vm. U_SetUint64 (ve_u env) (go_len (c_Input (vm_contract vm))))"

text \<open>The offset in the data of a copy; one that does not fit is beyond all data.\<close>

definition data_offset :: "uint256_lib \<Rightarrow> u256 \<Rightarrow> u64" where
  "data_offset U x = (case U_Uint64WithOverflow U x of (n, overflow) \<Rightarrow> if overflow then 0xffffffffffffffff else n)"

definition copy_data :: "'t vm_env \<Rightarrow> 't vm \<Rightarrow> u256 \<Rightarrow> u256 \<Rightarrow> u256 \<Rightarrow> bytes \<Rightarrow> 't exec_result" where
  "copy_data env vm memOffset dataOffset len data =
     (let U = ve_u env in
      obind (getData data (data_offset U dataOffset) (U_Uint64 U len)) (\<lambda>d.
      obind (mem_Set (vm_mem vm) (U_Uint64 U memOffset) (U_Uint64 U len) d) (\<lambda>m.
        finish (vm\<lparr>vm_mem := m\<rparr>))))"

definition opCallDataCopy :: "'t executionFunc" where
  "opCallDataCopy env calls vm =
     (case vm_stack vm of
        memOffset # dataOffset # len # r \<Rightarrow>
          copy_data env (vm\<lparr>vm_stack := r\<rparr>) memOffset dataOffset len (c_Input (vm_contract vm))
      | _ \<Rightarrow> Panic IndexOutOfRange)"

definition opReturnDataSize :: "'t executionFunc" where
  "opReturnDataSize = push_op (\<lambda>env vm. U_SetUint64 (ve_u env) (go_len (in_returnData (vm_evm vm))))"

definition opReturnDataCopy :: "'t executionFunc" where
  "opReturnDataCopy env calls vm =
     (let U = ve_u env; ret = in_returnData (vm_evm vm) in
      case vm_stack vm of
        memOffset # dataOffset # len # r \<Rightarrow>
          (let vm = vm\<lparr>vm_stack := r\<rparr> in
           case U_Uint64WithOverflow U dataOffset of
             (offset64, overflow) \<Rightarrow>
               if overflow then fails ErrReturnDataOutOfBounds vm
               else case U_Uint64WithOverflow U (U_Add U dataOffset len) of
                      (end64, overflow) \<Rightarrow>
                        if overflow \<or> go_len ret < end64 then fails ErrReturnDataOutOfBounds vm
                        else if end64 < offset64 then Panic IndexOutOfRange
                        else obind (mem_Set (vm_mem vm) (U_Uint64 U memOffset) (U_Uint64 U len)
                                      (take (unat end64 - unat offset64) (drop (unat offset64) ret)))
                               (\<lambda>m. finish (vm\<lparr>vm_mem := m\<rparr>)))
      | _ \<Rightarrow> Panic IndexOutOfRange)"

definition opExtCodeSize :: "'t executionFunc" where
  "opExtCodeSize env calls vm =
     (case vm_stack vm of
        slot # r \<Rightarrow>
          read_db vm (\<lambda>s. GetCodeSize (ve_db env) s (U_Bytes20 (ve_u env) slot)) (\<lambda>n vm.
            finish (vm\<lparr>vm_stack := U_SetUint64 (ve_u env) (word_of_int n) # r\<rparr>))
      | _ \<Rightarrow> Panic IndexOutOfRange)"

definition opCodeSize :: "'t executionFunc" where
  "opCodeSize = push_op (\<lambda>env vm. U_SetUint64 (ve_u env) (go_len (c_Code (vm_contract vm))))"

definition opCodeCopy :: "'t executionFunc" where
  "opCodeCopy env calls vm =
     (case vm_stack vm of
        memOffset # codeOffset # len # r \<Rightarrow>
          copy_data env (vm\<lparr>vm_stack := r\<rparr>) memOffset codeOffset len (c_Code (vm_contract vm))
      | _ \<Rightarrow> Panic IndexOutOfRange)"

definition code_bytes :: "bytes option \<Rightarrow> bytes" where
  "code_bytes c = (case c of None \<Rightarrow> [] | Some b \<Rightarrow> b)"

definition opExtCodeCopy :: "'t executionFunc" where
  "opExtCodeCopy env calls vm =
     (case vm_stack vm of
        a # memOffset # codeOffset # len # r \<Rightarrow>
          read_db (vm\<lparr>vm_stack := r\<rparr>) (\<lambda>s. GetCode (ve_db env) s (U_Bytes20 (ve_u env) a)) (\<lambda>code vm.
            copy_data env vm memOffset codeOffset len (code_bytes code))
      | _ \<Rightarrow> Panic IndexOutOfRange)"

definition opExtCodeHash :: "'t executionFunc" where
  "opExtCodeHash env calls vm =
     (let U = ve_u env in
      case vm_stack vm of
        slot # r \<Rightarrow>
          read_db vm (\<lambda>s. Empty (ve_db env) s (U_Bytes20 U slot)) (\<lambda>empty vm.
            if empty then finish (vm\<lparr>vm_stack := U_Clear U # r\<rparr>)
            else read_db vm (\<lambda>s. GetCodeHash (ve_db env) s (U_Bytes20 U slot)) (\<lambda>h vm.
                   finish (vm\<lparr>vm_stack := U_SetBytes U (hash_Bytes h) # r\<rparr>)))
      | _ \<Rightarrow> Panic IndexOutOfRange)"

definition opGasprice :: "'t executionFunc" where
  "opGasprice = push_op (\<lambda>env vm. fst (U_FromBig (ve_u env) (tc_GasPrice (ve_Tx env))))"

definition opBlockhash :: "'t executionFunc" where
  "opBlockhash env calls vm =
     (let U = ve_u env in
      case vm_stack vm of
        num # r \<Rightarrow>
          (case U_Uint64WithOverflow U num of
             (num64, overflow) \<Rightarrow>
               if overflow then finish (vm\<lparr>vm_stack := U_Clear U # r\<rparr>)
               else let upper = big_Uint64 (bc_BlockNumber (ve_Context env));
                        lower = (if upper < 257 then 0 else upper - 256)
                    in if num64 \<ge> lower \<and> num64 < upper
                       then finish (vm\<lparr>vm_stack := U_SetBytes U (hash_Bytes (bc_GetHash (ve_Context env) num64)) # r\<rparr>)
                       else finish (vm\<lparr>vm_stack := U_Clear U # r\<rparr>))
      | _ \<Rightarrow> Panic IndexOutOfRange)"

definition opCoinbase :: "'t executionFunc" where
  "opCoinbase = push_op (\<lambda>env vm. U_SetBytes (ve_u env) (addr_Bytes (bc_Coinbase (ve_Context env))))"

definition opTimestamp :: "'t executionFunc" where
  "opTimestamp = push_op (\<lambda>env vm. fst (U_FromBig (ve_u env) (bc_Time (ve_Context env))))"

definition opNumber :: "'t executionFunc" where
  "opNumber = push_op (\<lambda>env vm. fst (U_FromBig (ve_u env) (bc_BlockNumber (ve_Context env))))"

definition opDifficulty :: "'t executionFunc" where
  "opDifficulty = push_op (\<lambda>env vm. fst (U_FromBig (ve_u env) (bc_Difficulty (ve_Context env))))"

definition opGasLimit :: "'t executionFunc" where
  "opGasLimit = push_op (\<lambda>env vm. U_SetUint64 (ve_u env) (bc_GasLimit (ve_Context env)))"

definition opSelfBalance :: "'t executionFunc" where
  "opSelfBalance env calls vm =
     read_db vm (\<lambda>s. GetBalance (ve_db env) s (vm_self vm)) (\<lambda>b vm.
       finish (vm\<lparr>vm_stack := fst (U_FromBig (ve_u env) b) # vm_stack vm\<rparr>))"

definition opChainID :: "'t executionFunc" where
  "opChainID = push_op (\<lambda>env vm. fst (U_FromBig (ve_u env) (ve_ChainID env)))"

section \<open>Stack, memory, storage and jumps\<close>

definition opPop :: "'t executionFunc" where
  "opPop env calls vm =
     (case vm_stack vm of _ # r \<Rightarrow> finish (vm\<lparr>vm_stack := r\<rparr>) | _ \<Rightarrow> Panic IndexOutOfRange)"

definition opMload :: "'t executionFunc" where
  "opMload env calls vm =
     (let U = ve_u env in
      case vm_stack vm of
        v # r \<Rightarrow>
          obind (mem_GetPtr (vm_mem vm) (sint (U_Uint64 U v)) 32) (\<lambda>b.
            finish (vm\<lparr>vm_stack := U_SetBytes U b # r\<rparr>))
      | _ \<Rightarrow> Panic IndexOutOfRange)"

definition opMstore :: "'t executionFunc" where
  "opMstore env calls vm =
     (let U = ve_u env in
      case vm_stack vm of
        mStart # val # r \<Rightarrow>
          obind (mem_Set32 U (vm_mem vm) (U_Uint64 U mStart) val) (\<lambda>m. finish (vm\<lparr>vm_stack := r, vm_mem := m\<rparr>))
      | _ \<Rightarrow> Panic IndexOutOfRange)"

definition opMstore8 :: "'t executionFunc" where
  "opMstore8 env calls vm =
     (let U = ve_u env in
      case vm_stack vm of
        off # val # r \<Rightarrow>
          obind (mem_set_byte (vm_mem vm) (U_Uint64 U off) (ucast (U_Uint64 U val))) (\<lambda>m.
            finish (vm\<lparr>vm_stack := r, vm_mem := m\<rparr>))
      | _ \<Rightarrow> Panic IndexOutOfRange)"

definition opSload :: "'t executionFunc" where
  "opSload env calls vm =
     (let U = ve_u env in
      case vm_stack vm of
        loc # r \<Rightarrow>
          read_db vm (\<lambda>s. GetState (ve_db env) s (vm_self vm) (U_Bytes32 U loc)) (\<lambda>val vm.
            finish (vm\<lparr>vm_stack := U_SetBytes U (hash_Bytes val) # r\<rparr>))
      | _ \<Rightarrow> Panic IndexOutOfRange)"

definition opSstore :: "'t executionFunc" where
  "opSstore env calls vm =
     (let U = ve_u env in
      case vm_stack vm of
        loc # val # r \<Rightarrow>
          finish (set_db (vm\<lparr>vm_stack := r\<rparr>)
            (SetState (ve_db env) (vm_db vm) (vm_self vm) (U_Bytes32 U loc) (U_Bytes32 U val)))
      | _ \<Rightarrow> Panic IndexOutOfRange)"

text \<open>A jump to a position that the analysis of the contract accepts.\<close>

definition set_analysis :: "'t vm \<Rightarrow> Contract \<Rightarrow> jumpdests \<Rightarrow> 't vm" where
  "set_analysis vm c jd = vm\<lparr>vm_contract := c, vm_evm := (vm_evm vm)\<lparr>evm_jumpdests := jd\<rparr>\<rparr>"

definition jump_to :: "'t vm_env \<Rightarrow> 't vm \<Rightarrow> u256 \<Rightarrow> 't exec_result" where
  "jump_to env vm pos =
     obind (validJumpdest (ve_u env) (vm_contract vm) (evm_jumpdests (vm_evm vm)) pos) (\<lambda>(valid, c, jd).
       let vm = set_analysis vm c jd
       in if \<not> valid then fails ErrInvalidJump vm else finish (vm\<lparr>vm_pc := U_Uint64 (ve_u env) pos\<rparr>))"

definition opJump :: "'t executionFunc" where
  "opJump env calls vm =
     (case vm_stack vm of
        pos # r \<Rightarrow> jump_to env (vm\<lparr>vm_stack := r\<rparr>) pos
      | _ \<Rightarrow> Panic IndexOutOfRange)"

definition opJumpi :: "'t executionFunc" where
  "opJumpi env calls vm =
     (case vm_stack vm of
        pos # cond # r \<Rightarrow>
          (let vm = vm\<lparr>vm_stack := r\<rparr>
           in if \<not> U_IsZero (ve_u env) cond then jump_to env vm pos else finish (vm\<lparr>vm_pc := vm_pc vm + 1\<rparr>))
      | _ \<Rightarrow> Panic IndexOutOfRange)"

definition opJumpdest :: "'t executionFunc" where
  "opJumpdest env calls vm = finish vm"

definition opBeginSub :: "'t executionFunc" where
  "opBeginSub env calls vm = fails ErrInvalidSubroutineEntry vm"

definition opJumpSub :: "'t executionFunc" where
  "opJumpSub env calls vm =
     (let U = ve_u env in
      if length (vm_rstack vm) \<ge> 1023 then fails ErrReturnStackExceeded vm
      else case vm_stack vm of
        pos # r \<Rightarrow>
          (let vm = vm\<lparr>vm_stack := r\<rparr> in
           if \<not> U_IsUint64 U pos then fails ErrInvalidJump vm
           else obind (validJumpSubdest (vm_contract vm) (evm_jumpdests (vm_evm vm)) (U_Uint64 U pos)) (\<lambda>(valid, c, jd).
                  let vm = set_analysis vm c jd
                  in if \<not> valid then fails ErrInvalidJump vm
                     else finish (vm\<lparr>vm_rstack := ucast (vm_pc vm) # vm_rstack vm, vm_pc := U_Uint64 U pos + 1\<rparr>)))
      | _ \<Rightarrow> Panic IndexOutOfRange)"

definition opReturnSub :: "'t executionFunc" where
  "opReturnSub env calls vm =
     (case vm_rstack vm of
        [] \<Rightarrow> fails ErrInvalidRetsub vm
      | p # r \<Rightarrow> finish (vm\<lparr>vm_rstack := r, vm_pc := ucast p + 1\<rparr>))"

definition opPc :: "'t executionFunc" where
  "opPc = push_op (\<lambda>env vm. U_SetUint64 (ve_u env) (vm_pc vm))"

definition opMsize :: "'t executionFunc" where
  "opMsize = push_op (\<lambda>env vm. U_SetUint64 (ve_u env) (word_of_int (mem_Len (vm_mem vm))))"

definition opGas :: "'t executionFunc" where
  "opGas = push_op (\<lambda>env vm. U_SetUint64 (ve_u env) (vm_gas vm))"

definition opPush1 :: "'t executionFunc" where
  "opPush1 env calls vm =
     (let U = ve_u env; code = c_Code (vm_contract vm); pc = vm_pc vm + 1;
          integer = (if pc < go_len code then U_SetUint64 U (ucast (code ! unat pc)) else U_Clear U)
      in finish (vm\<lparr>vm_pc := pc, vm_stack := integer # vm_stack vm\<rparr>))"

definition makePush :: "u64 \<Rightarrow> int \<Rightarrow> 't executionFunc" where
  "makePush sz pushByteSize env calls vm =
     (let code = c_Code (vm_contract vm);
          codeLen = int (length code);
          startMin = (if sint (vm_pc vm + 1) < codeLen then sint (vm_pc vm + 1) else codeLen);
          endMin = (if startMin + pushByteSize < codeLen then startMin + pushByteSize else codeLen)
      in if startMin < 0 then Panic SliceTooLong
         else let integer = U_SetBytes (ve_u env)
                    (RightPadBytes (take (nat (endMin - startMin)) (drop (nat startMin) code)) pushByteSize)
              in finish (vm\<lparr>vm_pc := vm_pc vm + sz, vm_stack := integer # vm_stack vm\<rparr>))"

definition makeDup :: "nat \<Rightarrow> 't executionFunc" where
  "makeDup n env calls vm = obind (st_dup (vm_stack vm) n) (\<lambda>st. finish (vm\<lparr>vm_stack := st\<rparr>))"

definition makeSwap :: "nat \<Rightarrow> 't executionFunc" where
  "makeSwap n env calls vm = obind (st_swap (vm_stack vm) (n + 1)) (\<lambda>st. finish (vm\<lparr>vm_stack := st\<rparr>))"

definition makeLog :: "nat \<Rightarrow> 't executionFunc" where
  "makeLog n env calls vm =
     (let U = ve_u env in
      case vm_stack vm of
        mStart # mSize # r \<Rightarrow>
          (if length r < n then Panic IndexOutOfRange
           else obind (mem_GetCopy (vm_mem vm) (sint (U_Uint64 U mStart)) (sint (U_Uint64 U mSize))) (\<lambda>d.
             finish (set_db (vm\<lparr>vm_stack := drop n r\<rparr>)
               (AddLog (vm_db vm)
                 \<lparr>log_Address = vm_self vm, log_Topics = map (U_Bytes32 U) (take n r), log_Data = d,
                  log_BlockNumber = big_Uint64 (bc_BlockNumber (ve_Context env)), log_TxHash = 0, log_TxIndex = 0,
                  log_BlockHash = 0, log_Index = 0, log_Removed = False\<rparr>))))
      | _ \<Rightarrow> Panic IndexOutOfRange)"

section \<open>Ends\<close>

definition opReturn :: "'t executionFunc" where
  "opReturn env calls vm =
     (let U = ve_u env in
      case vm_stack vm of
        offset # sz # r \<Rightarrow>
          obind (mem_GetPtr (vm_mem vm) (sint (U_Uint64 U offset)) (sint (U_Uint64 U sz))) (\<lambda>ret.
            Return ((ret, None), vm\<lparr>vm_stack := r\<rparr>))
      | _ \<Rightarrow> Panic IndexOutOfRange)"

definition opRevert :: "'t executionFunc" where
  "opRevert env calls vm =
     (let U = ve_u env in
      case vm_stack vm of
        offset # sz # r \<Rightarrow>
          obind (mem_GetPtr (vm_mem vm) (sint (U_Uint64 U offset)) (sint (U_Uint64 U sz))) (\<lambda>ret.
            Return ((ret, None), vm\<lparr>vm_stack := r\<rparr>))
      | _ \<Rightarrow> Panic IndexOutOfRange)"

definition opStop :: "'t executionFunc" where
  "opStop env calls vm = finish vm"

definition opSuicide :: "'t executionFunc" where
  "opSuicide env calls vm =
     (case vm_stack vm of
        beneficiary # r \<Rightarrow>
          read_db (vm\<lparr>vm_stack := r\<rparr>) (\<lambda>s. GetBalance (ve_db env) s (vm_self vm)) (\<lambda>balance vm.
            let s = AddBalance (ve_db env) (vm_db vm) (U_Bytes20 (ve_u env) beneficiary) balance
            in finish (set_db vm (snd (Suicide (ve_db env) s (vm_self vm)))))
      | _ \<Rightarrow> Panic IndexOutOfRange)"

section \<open>Calls\<close>

definition big_value :: "uint256_lib \<Rightarrow> u256 \<Rightarrow> int" where
  "big_value U v = (if \<not> U_IsZero U v then U_ToBig U v else 0)"

definition vm_caller :: "'t vm \<Rightarrow> ContractRef" where
  "vm_caller vm = ContractPtr (vm_contract vm)"

text \<open>
  What \<^verbatim>\<open>opCreate\<close> and \<^verbatim>\<open>opCreate2\<close> do with the result of the creation: \<open>failed\<close> says which errors leave zero on
  the stack.
\<close>

definition after_create ::
  "'t vm_env \<Rightarrow> (vm_error option \<Rightarrow> bool) \<Rightarrow> 't vm \<Rightarrow> 't create_result \<Rightarrow> 't exec_result" where
  "after_create env failed vm result =
     obind result (\<lambda>((res, addr, returnGas, suberr), evm).
       let stackvalue = (if failed suberr then U_Clear (ve_u env) else U_SetBytes (ve_u env) (addr_Bytes addr));
           vm = set_gas (vm\<lparr>vm_stack := stackvalue # vm_stack vm, vm_evm := evm\<rparr>) (vm_gas vm + returnGas)
       in Return ((if suberr = Some ErrExecutionReverted then res else [], None), vm))"

definition opCreate :: "'t executionFunc" where
  "opCreate env calls vm =
     (let U = ve_u env in
      case vm_stack vm of
        value # offset # sz # r \<Rightarrow>
          obind (mem_GetCopy (vm_mem vm) (sint (U_Uint64 U offset)) (sint (U_Uint64 U sz))) (\<lambda>input.
            let gas = vm_gas vm;
                gas = (if rIsEIP150 (ve_rules env) then gas - gas div 64 else gas);
                vm = vm\<lparr>vm_stack := r, vm_contract := snd (UseGas (vm_contract vm) gas)\<rparr>
            in after_create env
                 (\<lambda>suberr. if rIsHomestead (ve_rules env) \<and> suberr = Some ErrCodeStoreOutOfGas then True
                           else suberr \<noteq> None \<and> suberr \<noteq> Some ErrCodeStoreOutOfGas)
                 vm (call_Create calls (vm_caller vm) input gas (big_value U value) (vm_evm vm)))
      | _ \<Rightarrow> Panic IndexOutOfRange)"

definition opCreate2 :: "'t executionFunc" where
  "opCreate2 env calls vm =
     (let U = ve_u env in
      case vm_stack vm of
        endowment # offset # sz # salt # r \<Rightarrow>
          obind (mem_GetCopy (vm_mem vm) (sint (U_Uint64 U offset)) (sint (U_Uint64 U sz))) (\<lambda>input.
            let gas = vm_gas vm;
                gas = gas - gas div 64;
                vm = vm\<lparr>vm_stack := r, vm_contract := snd (UseGas (vm_contract vm) gas)\<rparr>
            in after_create env (\<lambda>suberr. suberr \<noteq> None) vm
                 (call_Create2 calls (vm_caller vm) input gas (big_value U endowment) salt (vm_evm vm)))
      | _ \<Rightarrow> Panic IndexOutOfRange)"

text \<open>
  What the four call instructions do with the result: the success on the stack, the returned data into the
  memory, the gas back. A result that is the slice of the input, in the memory at \<open>inOffset\<close>, is what
  the memory has there after the write.
\<close>

definition after_call ::
  "'t vm_env \<Rightarrow> 't vm \<Rightarrow> u256 \<Rightarrow> u256 \<Rightarrow> u256 \<Rightarrow> u256 \<Rightarrow> 't call_result \<Rightarrow> 't exec_result" where
  "after_call env vm inOffset inSize retOffset retSize result =
     (let U = ve_u env in
      obind result (\<lambda>((ret, returnGas, err), evm).
        let vm = vm\<lparr>vm_stack := (if err \<noteq> None then U_Clear U else U_SetOne U) # vm_stack vm, vm_evm := evm\<rparr> in
        obind (if err = None \<or> err = Some ErrExecutionReverted
               then mem_Set (vm_mem vm) (U_Uint64 U retOffset) (U_Uint64 U retSize) (ret_bytes ret)
               else Return (vm_mem vm)) (\<lambda>m.
        obind (case ret of
                 Fresh b \<Rightarrow> Return b
               | InputSlice _ \<Rightarrow> mem_GetPtr m (sint (U_Uint64 U inOffset)) (sint (U_Uint64 U inSize))) (\<lambda>res.
          Return ((res, None), set_gas (vm\<lparr>vm_mem := m\<rparr>) (vm_gas vm + returnGas))))))"

definition call_args :: "'t vm_env \<Rightarrow> 't vm \<Rightarrow> u256 \<Rightarrow> u256 \<Rightarrow> bytes outcome" where
  "call_args env vm inOffset inSize =
     mem_GetPtr (vm_mem vm) (sint (U_Uint64 (ve_u env) inOffset)) (sint (U_Uint64 (ve_u env) inSize))"

definition call_gas :: "'t vm_env \<Rightarrow> 't vm \<Rightarrow> u256 \<Rightarrow> u64" where
  "call_gas env vm value =
     (if \<not> U_IsZero (ve_u env) value then evm_callGasTemp (vm_evm vm) + CallStipend else evm_callGasTemp (vm_evm vm))"

definition opCall :: "'t executionFunc" where
  "opCall env calls vm =
     (let U = ve_u env in
      case vm_stack vm of
        _ # addr # value # inOffset # inSize # retOffset # retSize # r \<Rightarrow>
          (let vm = vm\<lparr>vm_stack := r\<rparr> in
           obind (call_args env vm inOffset inSize) (\<lambda>args.
             after_call env vm inOffset inSize retOffset retSize
               (call_Call calls (vm_caller vm) (U_Bytes20 U addr) args (call_gas env vm value) (big_value U value) (vm_evm vm))))
      | _ \<Rightarrow> Panic IndexOutOfRange)"

definition opCallCode :: "'t executionFunc" where
  "opCallCode env calls vm =
     (let U = ve_u env in
      case vm_stack vm of
        _ # addr # value # inOffset # inSize # retOffset # retSize # r \<Rightarrow>
          (let vm = vm\<lparr>vm_stack := r\<rparr> in
           obind (call_args env vm inOffset inSize) (\<lambda>args.
             after_call env vm inOffset inSize retOffset retSize
               (call_CallCode calls (vm_caller vm) (U_Bytes20 U addr) args (call_gas env vm value) (big_value U value) (vm_evm vm))))
      | _ \<Rightarrow> Panic IndexOutOfRange)"

definition opDelegateCall :: "'t executionFunc" where
  "opDelegateCall env calls vm =
     (let U = ve_u env in
      case vm_stack vm of
        _ # addr # inOffset # inSize # retOffset # retSize # r \<Rightarrow>
          (let vm = vm\<lparr>vm_stack := r\<rparr> in
           obind (call_args env vm inOffset inSize) (\<lambda>args.
             after_call env vm inOffset inSize retOffset retSize
               (call_DelegateCall calls (vm_caller vm) (U_Bytes20 U addr) args (evm_callGasTemp (vm_evm vm)) (vm_evm vm))))
      | _ \<Rightarrow> Panic IndexOutOfRange)"

definition opStaticCall :: "'t executionFunc" where
  "opStaticCall env calls vm =
     (let U = ve_u env in
      case vm_stack vm of
        _ # addr # inOffset # inSize # retOffset # retSize # r \<Rightarrow>
          (let vm = vm\<lparr>vm_stack := r\<rparr> in
           obind (call_args env vm inOffset inSize) (\<lambda>args.
             after_call env vm inOffset inSize retOffset retSize
               (call_StaticCall calls (vm_caller vm) (U_Bytes20 U addr) args (evm_callGasTemp (vm_evm vm)) (vm_evm vm))))
      | _ \<Rightarrow> Panic IndexOutOfRange)"

end
