(* ===== verification/VM_Tables.thy ===== *)
theory VM_Tables
  imports VM_Instructions
begin

text \<open>
  The instruction tables: \<^verbatim>\<open>core/vm/opcodes.go\<close>, \<^verbatim>\<open>core/vm/jump_table.go\<close> and \<^verbatim>\<open>core/vm/eips.go\<close>.

  A table maps a byte to an operation or to nothing. In Go a table is an array of pointers and the functions
  of \<^verbatim>\<open>eips.go\<close> write to the operations in place; here a table is a value.
\<close>

section \<open>Opcodes\<close>

abbreviation OP_STOP :: byte where "OP_STOP \<equiv> 0x00"
abbreviation OP_ADD :: byte where "OP_ADD \<equiv> 0x01"
abbreviation OP_MUL :: byte where "OP_MUL \<equiv> 0x02"
abbreviation OP_SUB :: byte where "OP_SUB \<equiv> 0x03"
abbreviation OP_DIV :: byte where "OP_DIV \<equiv> 0x04"
abbreviation OP_SDIV :: byte where "OP_SDIV \<equiv> 0x05"
abbreviation OP_MOD :: byte where "OP_MOD \<equiv> 0x06"
abbreviation OP_SMOD :: byte where "OP_SMOD \<equiv> 0x07"
abbreviation OP_ADDMOD :: byte where "OP_ADDMOD \<equiv> 0x08"
abbreviation OP_MULMOD :: byte where "OP_MULMOD \<equiv> 0x09"
abbreviation OP_EXP :: byte where "OP_EXP \<equiv> 0x0a"
abbreviation OP_SIGNEXTEND :: byte where "OP_SIGNEXTEND \<equiv> 0x0b"
abbreviation OP_LT :: byte where "OP_LT \<equiv> 0x10"
abbreviation OP_GT :: byte where "OP_GT \<equiv> 0x11"
abbreviation OP_SLT :: byte where "OP_SLT \<equiv> 0x12"
abbreviation OP_SGT :: byte where "OP_SGT \<equiv> 0x13"
abbreviation OP_EQ :: byte where "OP_EQ \<equiv> 0x14"
abbreviation OP_ISZERO :: byte where "OP_ISZERO \<equiv> 0x15"
abbreviation OP_AND :: byte where "OP_AND \<equiv> 0x16"
abbreviation OP_OR :: byte where "OP_OR \<equiv> 0x17"
abbreviation OP_XOR :: byte where "OP_XOR \<equiv> 0x18"
abbreviation OP_NOT :: byte where "OP_NOT \<equiv> 0x19"
abbreviation OP_BYTE :: byte where "OP_BYTE \<equiv> 0x1a"
abbreviation OP_SHL :: byte where "OP_SHL \<equiv> 0x1b"
abbreviation OP_SHR :: byte where "OP_SHR \<equiv> 0x1c"
abbreviation OP_SAR :: byte where "OP_SAR \<equiv> 0x1d"
abbreviation OP_SHA3 :: byte where "OP_SHA3 \<equiv> 0x20"
abbreviation OP_ADDRESS :: byte where "OP_ADDRESS \<equiv> 0x30"
abbreviation OP_BALANCE :: byte where "OP_BALANCE \<equiv> 0x31"
abbreviation OP_ORIGIN :: byte where "OP_ORIGIN \<equiv> 0x32"
abbreviation OP_CALLER :: byte where "OP_CALLER \<equiv> 0x33"
abbreviation OP_CALLVALUE :: byte where "OP_CALLVALUE \<equiv> 0x34"
abbreviation OP_CALLDATALOAD :: byte where "OP_CALLDATALOAD \<equiv> 0x35"
abbreviation OP_CALLDATASIZE :: byte where "OP_CALLDATASIZE \<equiv> 0x36"
abbreviation OP_CALLDATACOPY :: byte where "OP_CALLDATACOPY \<equiv> 0x37"
abbreviation OP_CODESIZE :: byte where "OP_CODESIZE \<equiv> 0x38"
abbreviation OP_CODECOPY :: byte where "OP_CODECOPY \<equiv> 0x39"
abbreviation OP_GASPRICE :: byte where "OP_GASPRICE \<equiv> 0x3a"
abbreviation OP_EXTCODESIZE :: byte where "OP_EXTCODESIZE \<equiv> 0x3b"
abbreviation OP_EXTCODECOPY :: byte where "OP_EXTCODECOPY \<equiv> 0x3c"
abbreviation OP_RETURNDATASIZE :: byte where "OP_RETURNDATASIZE \<equiv> 0x3d"
abbreviation OP_RETURNDATACOPY :: byte where "OP_RETURNDATACOPY \<equiv> 0x3e"
abbreviation OP_EXTCODEHASH :: byte where "OP_EXTCODEHASH \<equiv> 0x3f"
abbreviation OP_BLOCKHASH :: byte where "OP_BLOCKHASH \<equiv> 0x40"
abbreviation OP_COINBASE :: byte where "OP_COINBASE \<equiv> 0x41"
abbreviation OP_TIMESTAMP :: byte where "OP_TIMESTAMP \<equiv> 0x42"
abbreviation OP_NUMBER :: byte where "OP_NUMBER \<equiv> 0x43"
abbreviation OP_DIFFICULTY :: byte where "OP_DIFFICULTY \<equiv> 0x44"
abbreviation OP_GASLIMIT :: byte where "OP_GASLIMIT \<equiv> 0x45"
abbreviation OP_CHAINID :: byte where "OP_CHAINID \<equiv> 0x46"
abbreviation OP_SELFBALANCE :: byte where "OP_SELFBALANCE \<equiv> 0x47"
abbreviation OP_POP :: byte where "OP_POP \<equiv> 0x50"
abbreviation OP_MLOAD :: byte where "OP_MLOAD \<equiv> 0x51"
abbreviation OP_MSTORE :: byte where "OP_MSTORE \<equiv> 0x52"
abbreviation OP_MSTORE8 :: byte where "OP_MSTORE8 \<equiv> 0x53"
abbreviation OP_SLOAD :: byte where "OP_SLOAD \<equiv> 0x54"
abbreviation OP_SSTORE :: byte where "OP_SSTORE \<equiv> 0x55"
abbreviation OP_JUMP :: byte where "OP_JUMP \<equiv> 0x56"
abbreviation OP_JUMPI :: byte where "OP_JUMPI \<equiv> 0x57"
abbreviation OP_PC :: byte where "OP_PC \<equiv> 0x58"
abbreviation OP_MSIZE :: byte where "OP_MSIZE \<equiv> 0x59"
abbreviation OP_GAS :: byte where "OP_GAS \<equiv> 0x5a"
abbreviation OP_RETURNSUB :: byte where "OP_RETURNSUB \<equiv> 0x5d"
abbreviation OP_JUMPSUB :: byte where "OP_JUMPSUB \<equiv> 0x5e"
abbreviation OP_CREATE :: byte where "OP_CREATE \<equiv> 0xf0"
abbreviation OP_CALL :: byte where "OP_CALL \<equiv> 0xf1"
abbreviation OP_CALLCODE :: byte where "OP_CALLCODE \<equiv> 0xf2"
abbreviation OP_RETURN :: byte where "OP_RETURN \<equiv> 0xf3"
abbreviation OP_DELEGATECALL :: byte where "OP_DELEGATECALL \<equiv> 0xf4"
abbreviation OP_CREATE2 :: byte where "OP_CREATE2 \<equiv> 0xf5"
abbreviation OP_STATICCALL :: byte where "OP_STATICCALL \<equiv> 0xfa"
abbreviation OP_REVERT :: byte where "OP_REVERT \<equiv> 0xfd"
abbreviation OP_SELFDESTRUCT :: byte where "OP_SELFDESTRUCT \<equiv> 0xff"
abbreviation OP_PUSH :: "nat \<Rightarrow> byte" where "OP_PUSH n \<equiv> 0x5f + word_of_nat n"
abbreviation OP_DUP :: "nat \<Rightarrow> byte" where "OP_DUP n \<equiv> 0x7f + word_of_nat n"
abbreviation OP_SWAP :: "nat \<Rightarrow> byte" where "OP_SWAP n \<equiv> 0x8f + word_of_nat n"
abbreviation OP_LOG :: "nat \<Rightarrow> byte" where "OP_LOG n \<equiv> 0xa0 + word_of_nat n"

section \<open>Operations\<close>

abbreviation BalanceGasFrontier :: u64 where "BalanceGasFrontier \<equiv> 20"
abbreviation BalanceGasEIP150 :: u64 where "BalanceGasEIP150 \<equiv> 400"
abbreviation BalanceGasEIP1884 :: u64 where "BalanceGasEIP1884 \<equiv> 700"
abbreviation ExtcodeSizeGasFrontier :: u64 where "ExtcodeSizeGasFrontier \<equiv> 20"
abbreviation ExtcodeSizeGasEIP150 :: u64 where "ExtcodeSizeGasEIP150 \<equiv> 700"
abbreviation SloadGasFrontier :: u64 where "SloadGasFrontier \<equiv> 50"
abbreviation SloadGasEIP150 :: u64 where "SloadGasEIP150 \<equiv> 200"
abbreviation SloadGasEIP1884 :: u64 where "SloadGasEIP1884 \<equiv> 800"
abbreviation ExtcodeHashGasConstantinople :: u64 where "ExtcodeHashGasConstantinople \<equiv> 400"
abbreviation ExtcodeHashGasEIP1884 :: u64 where "ExtcodeHashGasEIP1884 \<equiv> 700"
abbreviation ExtcodeCopyBaseFrontier :: u64 where "ExtcodeCopyBaseFrontier \<equiv> 20"
abbreviation ExtcodeCopyBaseEIP150 :: u64 where "ExtcodeCopyBaseEIP150 \<equiv> 700"
abbreviation CallGasFrontier :: u64 where "CallGasFrontier \<equiv> 40"
abbreviation CallGasEIP150 :: u64 where "CallGasEIP150 \<equiv> 700"
abbreviation CreateGas :: u64 where "CreateGas \<equiv> 32000"
abbreviation Create2Gas :: u64 where "Create2Gas \<equiv> 32000"
abbreviation JumpdestGas :: u64 where "JumpdestGas \<equiv> 1"

abbreviation gasReturn :: "'t gasFunc" where "gasReturn \<equiv> pureMemoryGascost"
abbreviation gasRevert :: "'t gasFunc" where "gasRevert \<equiv> pureMemoryGascost"
abbreviation gasMLoad :: "'t gasFunc" where "gasMLoad \<equiv> pureMemoryGascost"
abbreviation gasMStore8 :: "'t gasFunc" where "gasMStore8 \<equiv> pureMemoryGascost"
abbreviation gasMStore :: "'t gasFunc" where "gasMStore \<equiv> pureMemoryGascost"
abbreviation gasCreate :: "'t gasFunc" where "gasCreate \<equiv> pureMemoryGascost"

record 't operation =
  op_execute :: "'t executionFunc"
  op_constantGas :: u64
  op_dynamicGas :: "'t gasFunc option"
  op_minStack :: int
  op_maxStack :: int
  op_memorySize :: "(uint256_lib \<Rightarrow> Stack \<Rightarrow> (u64 \<times> bool) outcome) option"
  op_halts :: bool
  op_jumps :: bool
  op_writes :: bool
  op_reverts :: bool
  op_returns :: bool

definition new_op :: "'t executionFunc \<Rightarrow> u64 \<Rightarrow> int \<Rightarrow> int \<Rightarrow> 't operation" where
  "new_op execute constantGas minS maxS =
     \<lparr>op_execute = execute, op_constantGas = constantGas, op_dynamicGas = None, op_minStack = minS, op_maxStack = maxS,
      op_memorySize = None, op_halts = False, op_jumps = False, op_writes = False, op_reverts = False, op_returns = False\<rparr>"

type_synonym 't JumpTable = "byte \<Rightarrow> 't operation option"

section \<open>The tables of the forks\<close>

definition frontier_arithmetic :: "(byte \<times> 't operation) list" where
  "frontier_arithmetic =
     [
      (OP_STOP, (new_op opStop 0 (minStack 0 0) (maxStack 0 0))\<lparr>op_halts := True\<rparr>),
      (OP_ADD, new_op opAdd GasFastestStep (minStack 2 1) (maxStack 2 1)),
      (OP_MUL, new_op opMul GasFastStep (minStack 2 1) (maxStack 2 1)),
      (OP_SUB, new_op opSub GasFastestStep (minStack 2 1) (maxStack 2 1)),
      (OP_DIV, new_op opDiv GasFastStep (minStack 2 1) (maxStack 2 1)),
      (OP_SDIV, new_op opSdiv GasFastStep (minStack 2 1) (maxStack 2 1)),
      (OP_MOD, new_op opMod GasFastStep (minStack 2 1) (maxStack 2 1)),
      (OP_SMOD, new_op opSmod GasFastStep (minStack 2 1) (maxStack 2 1)),
      (OP_ADDMOD, new_op opAddmod GasMidStep (minStack 3 1) (maxStack 3 1)),
      (OP_MULMOD, new_op opMulmod GasMidStep (minStack 3 1) (maxStack 3 1)),
      (OP_EXP, (new_op opExp 0 (minStack 2 1) (maxStack 2 1))\<lparr>op_dynamicGas := Some gasExpFrontier\<rparr>),
      (OP_SIGNEXTEND, new_op opSignExtend GasFastStep (minStack 2 1) (maxStack 2 1)),
      (OP_LT, new_op opLt GasFastestStep (minStack 2 1) (maxStack 2 1)),
      (OP_GT, new_op opGt GasFastestStep (minStack 2 1) (maxStack 2 1)),
      (OP_SLT, new_op opSlt GasFastestStep (minStack 2 1) (maxStack 2 1)),
      (OP_SGT, new_op opSgt GasFastestStep (minStack 2 1) (maxStack 2 1)),
      (OP_EQ, new_op opEq GasFastestStep (minStack 2 1) (maxStack 2 1)),
      (OP_ISZERO, new_op opIszero GasFastestStep (minStack 1 1) (maxStack 1 1)),
      (OP_AND, new_op opAnd GasFastestStep (minStack 2 1) (maxStack 2 1)),
      (OP_XOR, new_op opXor GasFastestStep (minStack 2 1) (maxStack 2 1)),
      (OP_OR, new_op opOr GasFastestStep (minStack 2 1) (maxStack 2 1)),
      (OP_NOT, new_op opNot GasFastestStep (minStack 1 1) (maxStack 1 1)),
      (OP_BYTE, new_op opByte GasFastestStep (minStack 2 1) (maxStack 2 1))]"

definition frontier_environment :: "(byte \<times> 't operation) list" where
  "frontier_environment =
     [
      (OP_SHA3, (new_op opSha3 Sha3Gas (minStack 2 1) (maxStack 2 1))\<lparr>op_dynamicGas := Some gasSha3, op_memorySize := Some memorySha3\<rparr>),
      (OP_ADDRESS, new_op opAddress GasQuickStep (minStack 0 1) (maxStack 0 1)),
      (OP_BALANCE, new_op opBalance BalanceGasFrontier (minStack 1 1) (maxStack 1 1)),
      (OP_ORIGIN, new_op opOrigin GasQuickStep (minStack 0 1) (maxStack 0 1)),
      (OP_CALLER, new_op opCaller GasQuickStep (minStack 0 1) (maxStack 0 1)),
      (OP_CALLVALUE, new_op opCallValue GasQuickStep (minStack 0 1) (maxStack 0 1)),
      (OP_CALLDATALOAD, new_op opCallDataLoad GasFastestStep (minStack 1 1) (maxStack 1 1)),
      (OP_CALLDATASIZE, new_op opCallDataSize GasQuickStep (minStack 0 1) (maxStack 0 1)),
      (OP_CALLDATACOPY, (new_op opCallDataCopy GasFastestStep (minStack 3 0) (maxStack 3 0))\<lparr>op_dynamicGas := Some gasCallDataCopy, op_memorySize := Some memoryCallDataCopy\<rparr>),
      (OP_CODESIZE, new_op opCodeSize GasQuickStep (minStack 0 1) (maxStack 0 1)),
      (OP_CODECOPY, (new_op opCodeCopy GasFastestStep (minStack 3 0) (maxStack 3 0))\<lparr>op_dynamicGas := Some gasCodeCopy, op_memorySize := Some memoryCodeCopy\<rparr>),
      (OP_GASPRICE, new_op opGasprice GasQuickStep (minStack 0 1) (maxStack 0 1)),
      (OP_EXTCODESIZE, new_op opExtCodeSize ExtcodeSizeGasFrontier (minStack 1 1) (maxStack 1 1)),
      (OP_EXTCODECOPY, (new_op opExtCodeCopy ExtcodeCopyBaseFrontier (minStack 4 0) (maxStack 4 0))\<lparr>op_dynamicGas := Some gasExtCodeCopy, op_memorySize := Some memoryExtCodeCopy\<rparr>),
      (OP_BLOCKHASH, new_op opBlockhash GasExtStep (minStack 1 1) (maxStack 1 1)),
      (OP_COINBASE, new_op opCoinbase GasQuickStep (minStack 0 1) (maxStack 0 1)),
      (OP_TIMESTAMP, new_op opTimestamp GasQuickStep (minStack 0 1) (maxStack 0 1)),
      (OP_NUMBER, new_op opNumber GasQuickStep (minStack 0 1) (maxStack 0 1)),
      (OP_DIFFICULTY, new_op opDifficulty GasQuickStep (minStack 0 1) (maxStack 0 1)),
      (OP_GASLIMIT, new_op opGasLimit GasQuickStep (minStack 0 1) (maxStack 0 1))]"

definition frontier_memory :: "(byte \<times> 't operation) list" where
  "frontier_memory =
     [
      (OP_POP, new_op opPop GasQuickStep (minStack 1 0) (maxStack 1 0)),
      (OP_MLOAD, (new_op opMload GasFastestStep (minStack 1 1) (maxStack 1 1))\<lparr>op_dynamicGas := Some gasMLoad, op_memorySize := Some memoryMLoad\<rparr>),
      (OP_MSTORE, (new_op opMstore GasFastestStep (minStack 2 0) (maxStack 2 0))\<lparr>op_dynamicGas := Some gasMStore, op_memorySize := Some memoryMStore\<rparr>),
      (OP_MSTORE8, (new_op opMstore8 GasFastestStep (minStack 2 0) (maxStack 2 0))\<lparr>op_dynamicGas := Some gasMStore8, op_memorySize := Some memoryMStore8\<rparr>),
      (OP_SLOAD, new_op opSload SloadGasFrontier (minStack 1 1) (maxStack 1 1)),
      (OP_SSTORE, (new_op opSstore 0 (minStack 2 0) (maxStack 2 0))\<lparr>op_dynamicGas := Some gasSStore, op_writes := True\<rparr>),
      (OP_JUMP, (new_op opJump GasMidStep (minStack 1 0) (maxStack 1 0))\<lparr>op_jumps := True\<rparr>),
      (OP_JUMPI, (new_op opJumpi GasSlowStep (minStack 2 0) (maxStack 2 0))\<lparr>op_jumps := True\<rparr>),
      (OP_PC, new_op opPc GasQuickStep (minStack 0 1) (maxStack 0 1)),
      (OP_MSIZE, new_op opMsize GasQuickStep (minStack 0 1) (maxStack 0 1)),
      (OP_GAS, new_op opGas GasQuickStep (minStack 0 1) (maxStack 0 1)),
      (OP_JUMPDEST, new_op opJumpdest JumpdestGas (minStack 0 0) (maxStack 0 0)),
      (OP_PUSH1, new_op opPush1 GasFastestStep (minStack 0 1) (maxStack 0 1))]"

definition frontier_push :: "(byte \<times> 't operation) list" where
  "frontier_push =
     map (\<lambda>n. (OP_PUSH n, new_op (makePush (word_of_nat n) (int n)) GasFastestStep (minStack 0 1) (maxStack 0 1))) [2..<33]"

definition frontier_dup :: "(byte \<times> 't operation) list" where
  "frontier_dup =
     map (\<lambda>n. (OP_DUP n, new_op (makeDup n) GasFastestStep (minDupStack (int n)) (maxDupStack (int n)))) [1..<17]"

definition frontier_swap :: "(byte \<times> 't operation) list" where
  "frontier_swap =
     map (\<lambda>n. (OP_SWAP n, new_op (makeSwap n) GasFastestStep (minSwapStack (int n + 1)) (maxSwapStack (int n + 1)))) [1..<17]"

definition frontier_log :: "(byte \<times> 't operation) list" where
  "frontier_log =
     map (\<lambda>n. (OP_LOG n, (new_op (makeLog n) 0 (minStack (int n + 2) 0) (maxStack (int n + 2) 0))
       \<lparr>op_dynamicGas := Some (makeGasLog (word_of_nat n)), op_memorySize := Some memoryLog, op_writes := True\<rparr>)) [0..<5]"

definition frontier_closures :: "(byte \<times> 't operation) list" where
  "frontier_closures =
     [
      (OP_CREATE, (new_op opCreate CreateGas (minStack 3 1) (maxStack 3 1))\<lparr>op_dynamicGas := Some gasCreate, op_memorySize := Some memoryCreate, op_writes := True, op_returns := True\<rparr>),
      (OP_CALL, (new_op opCall CallGasFrontier (minStack 7 1) (maxStack 7 1))\<lparr>op_dynamicGas := Some gasCall, op_memorySize := Some memoryCall, op_returns := True\<rparr>),
      (OP_CALLCODE, (new_op opCallCode CallGasFrontier (minStack 7 1) (maxStack 7 1))\<lparr>op_dynamicGas := Some gasCallCode, op_memorySize := Some memoryCall, op_returns := True\<rparr>),
      (OP_RETURN, (new_op opReturn 0 (minStack 2 0) (maxStack 2 0))\<lparr>op_dynamicGas := Some gasReturn, op_memorySize := Some memoryReturn, op_halts := True\<rparr>),
      (OP_SELFDESTRUCT, (new_op opSuicide 0 (minStack 1 0) (maxStack 1 0))\<lparr>op_dynamicGas := Some gasSelfdestruct, op_halts := True, op_writes := True\<rparr>)]"

definition newFrontierInstructionSet :: "'t JumpTable" where
  "newFrontierInstructionSet =
     map_of (frontier_arithmetic @ frontier_environment @ frontier_memory @ frontier_push @ frontier_dup @ frontier_swap
       @ frontier_log @ frontier_closures)"

text \<open>A change to an operation that the table has, as in \<^verbatim>\<open>jt[SLOAD].constantGas = g\<close>.\<close>

definition set_constantGas :: "byte \<Rightarrow> u64 \<Rightarrow> 't JumpTable \<Rightarrow> 't JumpTable" where
  "set_constantGas b g jt = jt(b := map_option (\<lambda>op. op\<lparr>op_constantGas := g\<rparr>) (jt b))"

definition set_dynamicGas :: "byte \<Rightarrow> 't gasFunc \<Rightarrow> 't JumpTable \<Rightarrow> 't JumpTable" where
  "set_dynamicGas b f jt = jt(b := map_option (\<lambda>op. op\<lparr>op_dynamicGas := Some f\<rparr>) (jt b))"

definition newHomesteadInstructionSet :: "'t JumpTable" where
  "newHomesteadInstructionSet =
     newFrontierInstructionSet(OP_DELEGATECALL \<mapsto>
       (new_op opDelegateCall CallGasFrontier (minStack 6 1) (maxStack 6 1))
         \<lparr>op_dynamicGas := Some gasDelegateCall, op_memorySize := Some memoryDelegateCall, op_returns := True\<rparr>)"

definition newTangerineWhistleInstructionSet :: "'t JumpTable" where
  "newTangerineWhistleInstructionSet =
     set_constantGas OP_DELEGATECALL CallGasEIP150 (set_constantGas OP_CALLCODE CallGasEIP150
       (set_constantGas OP_CALL CallGasEIP150 (set_constantGas OP_EXTCODECOPY ExtcodeCopyBaseEIP150
         (set_constantGas OP_SLOAD SloadGasEIP150 (set_constantGas OP_EXTCODESIZE ExtcodeSizeGasEIP150
           (set_constantGas OP_BALANCE BalanceGasEIP150 newHomesteadInstructionSet))))))"

definition newSpuriousDragonInstructionSet :: "'t JumpTable" where
  "newSpuriousDragonInstructionSet = set_dynamicGas OP_EXP gasExpEIP158 newTangerineWhistleInstructionSet"

definition newByzantiumInstructionSet :: "'t JumpTable" where
  "newByzantiumInstructionSet =
     newSpuriousDragonInstructionSet(
       OP_STATICCALL \<mapsto> (new_op opStaticCall CallGasEIP150 (minStack 6 1) (maxStack 6 1))
         \<lparr>op_dynamicGas := Some gasStaticCall, op_memorySize := Some memoryStaticCall, op_returns := True\<rparr>,
       OP_RETURNDATASIZE \<mapsto> new_op opReturnDataSize GasQuickStep (minStack 0 1) (maxStack 0 1),
       OP_RETURNDATACOPY \<mapsto> (new_op opReturnDataCopy GasFastestStep (minStack 3 0) (maxStack 3 0))
         \<lparr>op_dynamicGas := Some gasReturnDataCopy, op_memorySize := Some memoryReturnDataCopy\<rparr>,
       OP_REVERT \<mapsto> (new_op opRevert 0 (minStack 2 0) (maxStack 2 0))
         \<lparr>op_dynamicGas := Some gasRevert, op_memorySize := Some memoryRevert, op_reverts := True, op_returns := True\<rparr>)"

definition newConstantinopleInstructionSet :: "'t JumpTable" where
  "newConstantinopleInstructionSet =
     newByzantiumInstructionSet(
       OP_SHL \<mapsto> new_op opSHL GasFastestStep (minStack 2 1) (maxStack 2 1),
       OP_SHR \<mapsto> new_op opSHR GasFastestStep (minStack 2 1) (maxStack 2 1),
       OP_SAR \<mapsto> new_op opSAR GasFastestStep (minStack 2 1) (maxStack 2 1),
       OP_EXTCODEHASH \<mapsto> new_op opExtCodeHash ExtcodeHashGasConstantinople (minStack 1 1) (maxStack 1 1),
       OP_CREATE2 \<mapsto> (new_op opCreate2 Create2Gas (minStack 4 1) (maxStack 4 1))
         \<lparr>op_dynamicGas := Some gasCreate2, op_memorySize := Some memoryCreate2, op_writes := True, op_returns := True\<rparr>)"

section \<open>EIPs\<close>

definition enable1884 :: "'t JumpTable \<Rightarrow> 't JumpTable" where
  "enable1884 jt =
     (set_constantGas OP_EXTCODEHASH ExtcodeHashGasEIP1884 (set_constantGas OP_BALANCE BalanceGasEIP1884
       (set_constantGas OP_SLOAD SloadGasEIP1884 jt)))
       (OP_SELFBALANCE \<mapsto> new_op opSelfBalance GasFastStep (minStack 0 1) (maxStack 0 1))"

definition enable1344 :: "'t JumpTable \<Rightarrow> 't JumpTable" where
  "enable1344 jt = jt(OP_CHAINID \<mapsto> new_op opChainID GasQuickStep (minStack 0 1) (maxStack 0 1))"

definition enable2200 :: "'t JumpTable \<Rightarrow> 't JumpTable" where
  "enable2200 jt = set_dynamicGas OP_SSTORE gasSStoreEIP2200 (set_constantGas OP_SLOAD SloadGasEIP2200 jt)"

definition enable2315 :: "'t JumpTable \<Rightarrow> 't JumpTable" where
  "enable2315 jt = jt(
     OP_BEGINSUB \<mapsto> new_op opBeginSub GasQuickStep (minStack 0 0) (maxStack 0 0),
     OP_JUMPSUB \<mapsto> (new_op opJumpSub GasSlowStep (minStack 1 0) (maxStack 1 0))\<lparr>op_jumps := True\<rparr>,
     OP_RETURNSUB \<mapsto> (new_op opReturnSub GasFastStep (minStack 0 0) (maxStack 0 0))\<lparr>op_jumps := True\<rparr>)"

definition enable2929 :: "'t JumpTable \<Rightarrow> 't JumpTable" where
  "enable2929 jt =
     set_dynamicGas OP_SELFDESTRUCT gasSelfdestructEIP2929 (set_constantGas OP_SELFDESTRUCT SelfdestructGasEIP150
     (set_dynamicGas OP_DELEGATECALL gasDelegateCallEIP2929 (set_constantGas OP_DELEGATECALL WarmStorageReadCostEIP2929
     (set_dynamicGas OP_STATICCALL gasStaticCallEIP2929 (set_constantGas OP_STATICCALL WarmStorageReadCostEIP2929
     (set_dynamicGas OP_CALLCODE gasCallCodeEIP2929 (set_constantGas OP_CALLCODE WarmStorageReadCostEIP2929
     (set_dynamicGas OP_CALL gasCallEIP2929 (set_constantGas OP_CALL WarmStorageReadCostEIP2929
     (set_dynamicGas OP_BALANCE gasEip2929AccountCheck (set_constantGas OP_BALANCE WarmStorageReadCostEIP2929
     (set_dynamicGas OP_EXTCODEHASH gasEip2929AccountCheck (set_constantGas OP_EXTCODEHASH WarmStorageReadCostEIP2929
     (set_dynamicGas OP_EXTCODESIZE gasEip2929AccountCheck (set_constantGas OP_EXTCODESIZE WarmStorageReadCostEIP2929
     (set_dynamicGas OP_EXTCODECOPY gasExtCodeCopyEIP2929 (set_constantGas OP_EXTCODECOPY WarmStorageReadCostEIP2929
     (set_dynamicGas OP_SLOAD gasSLoadEIP2929 (set_constantGas OP_SLOAD 0
     (set_dynamicGas OP_SSTORE gasSStoreEIP2929 jt))))))))))))))))))))"

definition newIstanbulInstructionSet :: "'t JumpTable" where
  "newIstanbulInstructionSet = enable2200 (enable1884 (enable1344 newConstantinopleInstructionSet))"

definition newYoloV3InstructionSet :: "'t JumpTable" where
  "newYoloV3InstructionSet = enable2929 (enable2315 newIstanbulInstructionSet)"

end
