(* ===== verification/VM_Precompiles.thy ===== *)
theory VM_Precompiles
  imports VM_Instructions
begin

text \<open>
  The precompiled contracts: \<^verbatim>\<open>core/vm/contracts.go\<close> and the choice of a contract of \<^verbatim>\<open>core/vm/evm.go\<close>. The prices of
  all contracts, the data copy and the modular exponentiation are definitions. The results of the hash and curve
  contracts are the function \<^verbatim>\<open>ve_crypto\<close> of the environment.
\<close>

section \<open>Prices and results\<close>

text \<open>
  The number at a position of the input. \<open>ModExpBounds\<close> is the slice panic of \<^verbatim>\<open>getData\<close> when the end of the
  range wraps around.
\<close>

definition modexp_data :: "bytes \<Rightarrow> u64 \<Rightarrow> u64 \<Rightarrow> int outcome" where
  "modexp_data input start sz =
     (case getData input start sz of
        Return b \<Rightarrow> Return (int (be_nat b))
      | Panic SliceTooLong \<Rightarrow> Panic SliceTooLong
      | Panic _ \<Rightarrow> Panic ModExpBounds
      | NoFuel \<Rightarrow> NoFuel)"

definition modexpMultComplexity :: "int \<Rightarrow> int" where
  "modexpMultComplexity x =
     (if x \<le> 64 then x * x
      else if x \<le> 1024 then x * x div 4 + (96 * x - 3072)
      else x * x div 16 + (480 * x - 199680))"

definition modexp_rest :: "bytes \<Rightarrow> bytes" where
  "modexp_rest input = (if length input > 96 then drop 96 input else [])"

definition modexp_price :: "bool \<Rightarrow> int \<Rightarrow> int \<Rightarrow> int \<Rightarrow> int \<Rightarrow> u64" where
  "modexp_price eip2565 baseLen expLen modLen expHead =
     (let bitlen = bit_len (nat expHead);
          msb = (if bitlen > 0 then int bitlen - 1 else 0);
          adjExpLen = (if expLen > 32 then 8 * (expLen - 32) else 0) + msb;
          gas = max modLen baseLen
      in if eip2565
         then let gas = (gas + 7) div 8;
                  gas = gas * gas * max adjExpLen 1 div 3
              in if bit_len (nat gas) > 64 then 0xFFFFFFFFFFFFFFFF
                 else if big_Uint64 gas < 200 then 200 else big_Uint64 gas
         else let gas = modexpMultComplexity gas * max adjExpLen 1 div 20
              in if bit_len (nat gas) > 64 then 0xFFFFFFFFFFFFFFFF else big_Uint64 gas)"

definition bigModExp_RequiredGas :: "bool \<Rightarrow> bytes \<Rightarrow> u64 outcome" where
  "bigModExp_RequiredGas eip2565 input =
     obind (modexp_data input 0 32) (\<lambda>baseLen.
     obind (modexp_data input 32 32) (\<lambda>expLen.
     obind (modexp_data input 64 32) (\<lambda>modLen.
     let input = modexp_rest input in
     obind (if int (length input) \<le> baseLen then Return 0
            else modexp_data input (big_Uint64 baseLen) (if expLen > 32 then 32 else big_Uint64 expLen)) (\<lambda>expHead.
       Return (modexp_price eip2565 baseLen expLen modLen expHead)))))"

definition LeftPadBytes :: "bytes \<Rightarrow> int \<Rightarrow> bytes" where
  "LeftPadBytes b l = (if l \<le> int (length b) then b else replicate (nat l - length b) 0 @ b)"

definition bigModExp_Run :: "bytes \<Rightarrow> bytes outcome" where
  "bigModExp_Run input =
     obind (modexp_data input 0 32) (\<lambda>b.
     obind (modexp_data input 32 32) (\<lambda>e.
     obind (modexp_data input 64 32) (\<lambda>m.
     let baseLen = big_Uint64 b; expLen = big_Uint64 e; modLen = big_Uint64 m; input = modexp_rest input in
     if baseLen = 0 \<and> modLen = 0 then Return []
     else obind (modexp_data input 0 baseLen) (\<lambda>base.
          obind (modexp_data input baseLen expLen) (\<lambda>e.
          obind (modexp_data input (baseLen + expLen) modLen) (\<lambda>m.
            if m = 0 then Return (LeftPadBytes [] (sint modLen))
            else Return (LeftPadBytes (be_bytes (nat (base ^ nat e mod m))) (sint modLen))))))))"

definition per_word :: "bytes \<Rightarrow> u64" where
  "per_word input = word_of_nat (length input + 31) div 32"

fun RequiredGas :: "PrecompiledContract \<Rightarrow> bytes \<Rightarrow> u64 outcome" where
  "RequiredGas ecrecover input = Return 3000"
| "RequiredGas sha256hash input = Return (per_word input * 12 + 60)"
| "RequiredGas ripemd160hash input = Return (per_word input * 120 + 600)"
| "RequiredGas dataCopy input = Return (per_word input * 3 + 15)"
| "RequiredGas (bigModExp eip2565) input = bigModExp_RequiredGas eip2565 input"
| "RequiredGas bn256AddByzantium input = Return 500"
| "RequiredGas bn256ScalarMulByzantium input = Return 40000"
| "RequiredGas bn256PairingByzantium input = Return (100000 + word_of_nat (length input div 192) * 80000)"
| "RequiredGas bn256AddIstanbul input = Return 150"
| "RequiredGas bn256ScalarMulIstanbul input = Return 6000"
| "RequiredGas bn256PairingIstanbul input = Return (45000 + word_of_nat (length input div 192) * 34000)"
| "RequiredGas blake2F input =
     Return (if length input \<noteq> 213 then 0 else word_of_nat (be_nat (take 4 input)))"

definition precompile_Run ::
  "'t vm_env \<Rightarrow> PrecompiledContract \<Rightarrow> bytes \<Rightarrow> (ret_slice \<times> vm_error option) outcome" where
  "precompile_Run env p input =
     (case p of
        dataCopy \<Rightarrow> Return (InputSlice input, None)
      | bigModExp _ \<Rightarrow> obind (bigModExp_Run input) (\<lambda>b. Return (Fresh b, None))
      | _ \<Rightarrow> (case ve_crypto env p input of (b, err) \<Rightarrow> Return (Fresh b, err)))"

definition RunPrecompiledContract ::
  "'t vm_env \<Rightarrow> PrecompiledContract \<Rightarrow> bytes \<Rightarrow> u64 \<Rightarrow> (ret_slice \<times> u64 \<times> vm_error option) outcome" where
  "RunPrecompiledContract env p input suppliedGas =
     obind (RequiredGas p input) (\<lambda>gasCost.
       if suppliedGas < gasCost then Return (Fresh [], 0, Some ErrOutOfGas)
       else obind (precompile_Run env p input) (\<lambda>(output, err). Return (output, suppliedGas - gasCost, err)))"

definition PrecompiledContractsHomestead :: "address \<Rightarrow> PrecompiledContract option" where
  "PrecompiledContractsHomestead = [1 \<mapsto> ecrecover, 2 \<mapsto> sha256hash, 3 \<mapsto> ripemd160hash, 4 \<mapsto> dataCopy]"

definition PrecompiledContractsByzantium :: "address \<Rightarrow> PrecompiledContract option" where
  "PrecompiledContractsByzantium =
     [1 \<mapsto> ecrecover, 2 \<mapsto> sha256hash, 3 \<mapsto> ripemd160hash, 4 \<mapsto> dataCopy, 5 \<mapsto> bigModExp False,
      6 \<mapsto> bn256AddByzantium, 7 \<mapsto> bn256ScalarMulByzantium, 8 \<mapsto> bn256PairingByzantium]"

definition PrecompiledContractsIstanbul :: "address \<Rightarrow> PrecompiledContract option" where
  "PrecompiledContractsIstanbul =
     [1 \<mapsto> ecrecover, 2 \<mapsto> sha256hash, 3 \<mapsto> ripemd160hash, 4 \<mapsto> dataCopy, 5 \<mapsto> bigModExp False,
      6 \<mapsto> bn256AddIstanbul, 7 \<mapsto> bn256ScalarMulIstanbul, 8 \<mapsto> bn256PairingIstanbul, 9 \<mapsto> blake2F]"

definition PrecompiledContractsYoloV3 :: "address \<Rightarrow> PrecompiledContract option" where
  "PrecompiledContractsYoloV3 =
     [1 \<mapsto> ecrecover, 2 \<mapsto> sha256hash, 3 \<mapsto> ripemd160hash, 4 \<mapsto> dataCopy, 5 \<mapsto> bigModExp True,
      6 \<mapsto> bn256AddIstanbul, 7 \<mapsto> bn256ScalarMulIstanbul, 8 \<mapsto> bn256PairingIstanbul, 9 \<mapsto> blake2F]"

definition evm_precompile :: "Rules \<Rightarrow> address \<Rightarrow> PrecompiledContract option" where
  "evm_precompile rules addr =
     (if rIsYoloV3 rules then PrecompiledContractsYoloV3 addr
      else if rIsIstanbul rules then PrecompiledContractsIstanbul addr
      else if rIsByzantium rules then PrecompiledContractsByzantium addr
      else PrecompiledContractsHomestead addr)"

section \<open>The addresses of the precompiled contracts\<close>

text \<open>
  \<^verbatim>\<open>init\<close> ranges over the four maps. The order of a range is not fixed: the lists of keys are arguments.
\<close>

record precompiled_addresses =
  PrecompiledAddressesYoloV3 :: "address list"
  PrecompiledAddressesIstanbul :: "address list"
  PrecompiledAddressesByzantium :: "address list"
  PrecompiledAddressesHomestead :: "address list"

definition precompiles_init :: "address list \<Rightarrow> address list \<Rightarrow> address list \<Rightarrow> address list \<Rightarrow> precompiled_addresses" where
  "precompiles_init homestead byzantium istanbul yoloV3 =
     (let a = \<lparr>PrecompiledAddressesYoloV3 = [], PrecompiledAddressesIstanbul = [], PrecompiledAddressesByzantium = [],
               PrecompiledAddressesHomestead = []\<rparr>;
          a = fold (\<lambda>k a. a\<lparr>PrecompiledAddressesHomestead := PrecompiledAddressesHomestead a @ [k]\<rparr>) homestead a;
          a = fold (\<lambda>k a. a\<lparr>PrecompiledAddressesHomestead := PrecompiledAddressesByzantium a @ [k]\<rparr>) byzantium a;
          a = fold (\<lambda>k a. a\<lparr>PrecompiledAddressesIstanbul := PrecompiledAddressesIstanbul a @ [k]\<rparr>) istanbul a
      in fold (\<lambda>k a. a\<lparr>PrecompiledAddressesYoloV3 := PrecompiledAddressesYoloV3 a @ [k]\<rparr>) yoloV3 a)"

definition ActivePrecompiles :: "precompiled_addresses \<Rightarrow> Rules \<Rightarrow> address list" where
  "ActivePrecompiles a rules =
     (if rIsYoloV3 rules then PrecompiledAddressesYoloV3 a
      else if rIsIstanbul rules then PrecompiledAddressesIstanbul a
      else if rIsByzantium rules then PrecompiledAddressesByzantium a
      else PrecompiledAddressesHomestead a)"

end
