(* ===== verification/VM_Interpreter.thy ===== *)
theory VM_Interpreter
  imports VM_Tables VM_Precompiles
begin

text \<open>
  The interpreter and the calls: \<^verbatim>\<open>core/vm/interpreter.go\<close>, \<^verbatim>\<open>core/vm/evm.go\<close> and the address functions of \<^verbatim>\<open>crypto/crypto.go\<close>.

  The loop of \<^verbatim>\<open>Run\<close> and the calls it makes recurse on fuel: each iteration, and each frame, is given one less. The
  calls are functions of the loop that runs their frames. \<^verbatim>\<open>evm.interpreters\<close> holds the one interpreter, which can
  run all code. The tables have no extra EIPs.
\<close>

section \<open>A step of the interpreter\<close>

datatype 't step_result = Continue "'t vm" | Stop bytes "vm_error option" "'t vm"

definition jump_table :: "Rules \<Rightarrow> 't JumpTable" where
  "jump_table rules =
     (if rIsYoloV3 rules then newYoloV3InstructionSet
      else if rIsIstanbul rules then newIstanbulInstructionSet
      else if rIsConstantinople rules then newConstantinopleInstructionSet
      else if rIsByzantium rules then newByzantiumInstructionSet
      else if rIsEIP158 rules then newSpuriousDragonInstructionSet
      else if rIsEIP150 rules then newTangerineWhistleInstructionSet
      else if rIsHomestead rules then newHomesteadInstructionSet
      else newFrontierInstructionSet)"

text \<open>Whether the read-only mode forbids the operation.\<close>

definition write_protected :: "'t vm_env \<Rightarrow> byte \<Rightarrow> 't operation \<Rightarrow> 't vm \<Rightarrow> bool outcome" where
  "write_protected env b op vm =
     (if in_readOnly (vm_evm vm) \<and> rIsByzantium (ve_rules env)
      then if op_writes op then Return True
           else if b = OP_CALL then obind (Back (vm_stack vm) 2) (\<lambda>v. Return (U_Sign (ve_u env) v \<noteq> 0))
           else Return False
      else Return False)"

text \<open>The size that the memory must have, in whole words, or nothing if it overflows.\<close>

definition memory_size :: "'t vm_env \<Rightarrow> 't operation \<Rightarrow> 't vm \<Rightarrow> u64 option outcome" where
  "memory_size env op vm =
     (case op_memorySize op of
        None \<Rightarrow> Return (Some 0)
      | Some f \<Rightarrow>
          obind (f (ve_u env) (vm_stack vm)) (\<lambda>(memSize, overflow).
            if overflow then Return None
            else case SafeMul (toWordSize memSize) 32 of (n, overflow) \<Rightarrow> Return (if overflow then None else Some n)))"

definition vm_UseGas :: "'t vm \<Rightarrow> u64 \<Rightarrow> bool \<times> 't vm" where
  "vm_UseGas vm gas = (case UseGas (vm_contract vm) gas of (ok, c) \<Rightarrow> (ok, vm\<lparr>vm_contract := c\<rparr>))"

text \<open>The dynamic price, paid: whether it could be.\<close>

definition pay_dynamic :: "'t vm_env \<Rightarrow> 't operation \<Rightarrow> 't vm \<Rightarrow> u64 \<Rightarrow> (bool \<times> 't vm) outcome" where
  "pay_dynamic env op vm memorySize =
     (case op_dynamicGas op of
        None \<Rightarrow> Return (True, vm)
      | Some f \<Rightarrow>
          obind (f env vm memorySize) (\<lambda>(r, vm).
            case r of Inl e \<Rightarrow> Return (False, vm) | Inr dynamicCost \<Rightarrow> Return (vm_UseGas vm dynamicCost)))"

definition execute_op :: "'t vm_env \<Rightarrow> 't vm_calls \<Rightarrow> 't operation \<Rightarrow> 't vm \<Rightarrow> 't step_result outcome" where
  "execute_op env calls op vm =
     obind (op_execute op env calls vm) (\<lambda>((res, err), vm).
       let vm = (if op_returns op then vm\<lparr>vm_evm := (vm_evm vm)\<lparr>in_returnData := res\<rparr>\<rparr> else vm)
       in Return
            (case err of
               Some e \<Rightarrow> Stop [] (Some e) vm
             | None \<Rightarrow>
                 if op_reverts op then Stop res (Some ErrExecutionReverted) vm
                 else if op_halts op then Stop res None vm
                 else Continue (if \<not> op_jumps op then vm\<lparr>vm_pc := vm_pc vm + 1\<rparr> else vm)))"

definition exec_op :: "'t vm_env \<Rightarrow> 't vm_calls \<Rightarrow> byte \<Rightarrow> 't operation \<Rightarrow> 't vm \<Rightarrow> 't step_result outcome" where
  "exec_op env calls b op vm =
     (let sLen = int (length (vm_stack vm)) in
      if sLen < op_minStack op then Return (Stop [] (Some (ErrStackUnderflow sLen (op_minStack op))) vm)
      else if sLen > op_maxStack op then Return (Stop [] (Some (ErrStackOverflow sLen (op_maxStack op))) vm)
      else obind (write_protected env b op vm) (\<lambda>protected.
        if protected then Return (Stop [] (Some ErrWriteProtection) vm)
        else case vm_UseGas vm (op_constantGas op) of
          (ok, vm) \<Rightarrow>
            if \<not> ok then Return (Stop [] (Some ErrOutOfGas) vm)
            else obind (memory_size env op vm) (\<lambda>sz.
              case sz of
                None \<Rightarrow> Return (Stop [] (Some ErrGasUintOverflow) vm)
              | Some memorySize \<Rightarrow>
                  obind (pay_dynamic env op vm memorySize) (\<lambda>(ok, vm).
                    if \<not> ok then Return (Stop [] (Some ErrOutOfGas) vm)
                    else execute_op env calls op
                           (if memorySize > 0 then vm\<lparr>vm_mem := mem_Resize (vm_mem vm) memorySize\<rparr> else vm)))))"

definition step :: "'t vm_env \<Rightarrow> 't vm_calls \<Rightarrow> 't vm \<Rightarrow> 't step_result outcome" where
  "step env calls vm =
     (let b = GetOp (vm_contract vm) (vm_pc vm) in
      case jump_table (ve_rules env) b of
        None \<Rightarrow> Return (Stop [] (Some (ErrInvalidOpCode b)) vm)
      | Some op \<Rightarrow> exec_op env calls b op vm)"

section \<open>Running a contract\<close>

type_synonym 't run_loop = "'t vm \<Rightarrow> (bytes \<times> vm_error option \<times> 't vm) outcome"

definition Run ::
  "'t run_loop \<Rightarrow> Contract \<Rightarrow> bytes \<Rightarrow> bool \<Rightarrow> 't EVM \<Rightarrow> ((bytes \<times> vm_error option) \<times> Contract \<times> 't EVM) outcome" where
  "Run loop contract input readOnly evm =
     (let inner = evm\<lparr>evm_depth := evm_depth evm + 1, in_readOnly := in_readOnly evm \<or> readOnly, in_returnData := []\<rparr>;
          outer = (\<lambda>e. e\<lparr>evm_depth := evm_depth e - 1,
                          in_readOnly := (if readOnly \<and> \<not> in_readOnly evm then False else in_readOnly e)\<rparr>)
      in if length (c_Code contract) = 0 then Return (([], None), contract, outer inner)
         else obind (loop \<lparr>vm_pc = 0, vm_stack = [], vm_rstack = [], vm_mem = NewMemory,
                           vm_contract = contract\<lparr>c_Input := input\<rparr>, vm_evm = inner\<rparr>)
                (\<lambda>(ret, err, vm). Return ((ret, err), vm_contract vm, outer (vm_evm vm))))"

text \<open>The end of a call: an error undoes what the call did to the state, and only a revert gives gas back.\<close>

definition end_call ::
  "'t vm_env \<Rightarrow> int \<Rightarrow> ret_slice \<times> u64 \<times> vm_error option \<Rightarrow> 't EVM \<Rightarrow> 't call_result" where
  "end_call env snapshot r evm =
     (case r of
        (ret, gas, None) \<Rightarrow> Return ((ret, gas, None), evm)
      | (ret, gas, Some err) \<Rightarrow>
          obind (or_panic InvalidRevision (RevertToSnapshot (ve_db env) (evm_StateDB evm) snapshot)) (\<lambda>s.
            Return ((ret, if err \<noteq> ErrExecutionReverted then 0 else gas, Some err), evm\<lparr>evm_StateDB := s\<rparr>)))"

text \<open>Running the code of a contract, whose gas is what is left.\<close>

definition run_code ::
  "'t run_loop \<Rightarrow> Contract \<Rightarrow> jumpdests \<Rightarrow> bytes \<Rightarrow> bool \<Rightarrow> 't EVM \<Rightarrow>
   ((ret_slice \<times> u64 \<times> vm_error option) \<times> 't EVM) outcome" where
  "run_code loop contract jd input readOnly evm =
     obind (Run loop contract input readOnly (evm\<lparr>evm_jumpdests := jd\<rparr>)) (\<lambda>((ret, err), c, evm).
       Return ((Fresh ret, c_Gas c, err), evm))"

definition run_precompile ::
  "'t vm_env \<Rightarrow> PrecompiledContract \<Rightarrow> bytes \<Rightarrow> u64 \<Rightarrow> 't EVM \<Rightarrow>
   ((ret_slice \<times> u64 \<times> vm_error option) \<times> 't EVM) outcome" where
  "run_precompile env p input gas evm = obind (RunPrecompiledContract env p input gas) (\<lambda>r. Return (r, evm))"

definition evm_Call ::
  "'t vm_env \<Rightarrow> 't run_loop \<Rightarrow> ContractRef \<Rightarrow> address \<Rightarrow> bytes \<Rightarrow> u64 \<Rightarrow> int \<Rightarrow> 't EVM \<Rightarrow> 't call_result" where
  "evm_Call env loop caller addr input gas value evm =
     (if ve_NoRecursion env \<and> evm_depth evm > 0 then Return ((Fresh [], gas, None), evm)
      else if evm_depth evm > 1024 then Return ((Fresh [], gas, Some ErrDepth), evm)
      else let (can, s) = (if sgn value \<noteq> 0
                           then bc_CanTransfer (ve_Context env) (evm_StateDB evm) (ref_Address caller) value
                           else (True, evm_StateDB evm))
      in if \<not> can then Return ((Fresh [], gas, Some ErrInsufficientBalance), evm\<lparr>evm_StateDB := s\<rparr>)
         else let (snapshot, s) = Snapshot s;
                  p = evm_precompile (ve_rules env) addr;
                  (exist, s) = Exist (ve_db env) s addr
         in if \<not> exist \<and> p = None \<and> rIsEIP158 (ve_rules env) \<and> sgn value = 0
            then Return ((Fresh [], gas, None), evm\<lparr>evm_StateDB := s\<rparr>)
            else let s = (if \<not> exist then CreateAccount (ve_db env) s addr else s);
                     s = bc_Transfer (ve_Context env) s (ref_Address caller) addr value
            in obind
                 (case p of
                    Some p \<Rightarrow> run_precompile env p input gas (evm\<lparr>evm_StateDB := s\<rparr>)
                  | None \<Rightarrow>
                      (let (code, s) = GetCode (ve_db env) s addr in
                       if length (code_bytes code) = 0 then Return ((Fresh [], gas, None), evm\<lparr>evm_StateDB := s\<rparr>)
                       else let (c, jd) = NewContract caller addr value gas (evm_jumpdests evm);
                                (h, s) = GetCodeHash (ve_db env) s addr
                            in run_code loop (SetCallCode c (Some addr) h (code_bytes code)) jd input False
                                 (evm\<lparr>evm_StateDB := s\<rparr>)))
                 (\<lambda>(r, evm). end_call env snapshot r evm))"

text \<open>The code of another address, run in the context of the caller or of that address.\<close>

definition run_other ::
  "'t vm_env \<Rightarrow> 't run_loop \<Rightarrow> Contract \<times> jumpdests \<Rightarrow> address \<Rightarrow> bytes \<Rightarrow> bool \<Rightarrow> 't EVM \<Rightarrow>
   ((ret_slice \<times> u64 \<times> vm_error option) \<times> 't EVM) outcome" where
  "run_other env loop cj addr input readOnly evm =
     (let (h, s) = GetCodeHash (ve_db env) (evm_StateDB evm) addr;
          (code, s) = GetCode (ve_db env) s addr
      in run_code loop (SetCallCode (fst cj) (Some addr) h (code_bytes code)) (snd cj) input readOnly
           (evm\<lparr>evm_StateDB := s\<rparr>))"

definition evm_CallCode ::
  "'t vm_env \<Rightarrow> 't run_loop \<Rightarrow> ContractRef \<Rightarrow> address \<Rightarrow> bytes \<Rightarrow> u64 \<Rightarrow> int \<Rightarrow> 't EVM \<Rightarrow> 't call_result" where
  "evm_CallCode env loop caller addr input gas value evm =
     (if ve_NoRecursion env \<and> evm_depth evm > 0 then Return ((Fresh [], gas, None), evm)
      else if evm_depth evm > 1024 then Return ((Fresh [], gas, Some ErrDepth), evm)
      else let (can, s) = bc_CanTransfer (ve_Context env) (evm_StateDB evm) (ref_Address caller) value
      in if \<not> can then Return ((Fresh [], gas, Some ErrInsufficientBalance), evm\<lparr>evm_StateDB := s\<rparr>)
         else let (snapshot, s) = Snapshot s
         in obind
              (case evm_precompile (ve_rules env) addr of
                 Some p \<Rightarrow> run_precompile env p input gas (evm\<lparr>evm_StateDB := s\<rparr>)
               | None \<Rightarrow>
                   run_other env loop (NewContract caller (ref_Address caller) value gas (evm_jumpdests evm)) addr input False
                     (evm\<lparr>evm_StateDB := s\<rparr>))
              (\<lambda>(r, evm). end_call env snapshot r evm))"

definition evm_DelegateCall ::
  "'t vm_env \<Rightarrow> 't run_loop \<Rightarrow> ContractRef \<Rightarrow> address \<Rightarrow> bytes \<Rightarrow> u64 \<Rightarrow> 't EVM \<Rightarrow> 't call_result" where
  "evm_DelegateCall env loop caller addr input gas evm =
     (if ve_NoRecursion env \<and> evm_depth evm > 0 then Return ((Fresh [], gas, None), evm)
      else if evm_depth evm > 1024 then Return ((Fresh [], gas, Some ErrDepth), evm)
      else let (snapshot, s) = Snapshot (evm_StateDB evm)
      in obind
           (case evm_precompile (ve_rules env) addr of
              Some p \<Rightarrow> run_precompile env p input gas (evm\<lparr>evm_StateDB := s\<rparr>)
            | None \<Rightarrow>
                (let (c, jd) = NewContract caller (ref_Address caller) 0 gas (evm_jumpdests evm) in
                 obind (AsDelegate caller c) (\<lambda>c.
                   run_other env loop (c, jd) addr input False (evm\<lparr>evm_StateDB := s\<rparr>))))
           (\<lambda>(r, evm). end_call env snapshot r evm))"

definition evm_StaticCall ::
  "'t vm_env \<Rightarrow> 't run_loop \<Rightarrow> ContractRef \<Rightarrow> address \<Rightarrow> bytes \<Rightarrow> u64 \<Rightarrow> 't EVM \<Rightarrow> 't call_result" where
  "evm_StaticCall env loop caller addr input gas evm =
     (if ve_NoRecursion env \<and> evm_depth evm > 0 then Return ((Fresh [], gas, None), evm)
      else if evm_depth evm > 1024 then Return ((Fresh [], gas, Some ErrDepth), evm)
      else let (snapshot, s) = Snapshot (evm_StateDB evm);
               s = AddBalance (ve_db env) s addr 0
      in obind
           (case evm_precompile (ve_rules env) addr of
              Some p \<Rightarrow> run_precompile env p input gas (evm\<lparr>evm_StateDB := s\<rparr>)
            | None \<Rightarrow>
                run_other env loop (NewContract caller addr 0 gas (evm_jumpdests evm)) addr input True
                  (evm\<lparr>evm_StateDB := s\<rparr>))
           (\<lambda>(r, evm). end_call env snapshot r evm))"

section \<open>Creating a contract\<close>

text \<open>
  The end of a creation: the returned code is stored if it is paid for and not too long. The code is
  \<^verbatim>\<open>nil\<close> exactly if it is empty.
\<close>

definition end_create ::
  "'t vm_env \<Rightarrow> int \<Rightarrow> address \<Rightarrow> (bytes \<times> vm_error option) \<times> Contract \<times> 't EVM \<Rightarrow> 't create_result" where
  "end_create env snapshot address r =
     (let ((ret, err), contract, evm) = r;
          maxCodeSizeExceeded = (rIsEIP158 (ve_rules env) \<and> length ret > 24576);
          (err, contract, s) =
            (if err = None \<and> \<not> maxCodeSizeExceeded
             then case UseGas contract (go_len ret * 200) of
                    (True, c) \<Rightarrow> (None, c, SetCode (ve_db env) (evm_StateDB evm) address (if ret = [] then None else Some ret))
                  | (False, c) \<Rightarrow> (Some ErrCodeStoreOutOfGas, c, evm_StateDB evm)
             else (err, contract, evm_StateDB evm))
      in obind
           (if maxCodeSizeExceeded \<or> (err \<noteq> None \<and> (rIsHomestead (ve_rules env) \<or> err \<noteq> Some ErrCodeStoreOutOfGas))
            then obind (or_panic InvalidRevision (RevertToSnapshot (ve_db env) s snapshot)) (\<lambda>s.
                   Return (if err \<noteq> Some ErrExecutionReverted then snd (UseGas contract (c_Gas contract)) else contract, s))
            else Return (contract, s))
           (\<lambda>(contract, s).
              let err = (if maxCodeSizeExceeded \<and> err = None then Some ErrMaxCodeSizeExceeded else err)
              in Return ((ret, address, c_Gas contract, err), evm\<lparr>evm_StateDB := s\<rparr>)))"

definition evm_create ::
  "'t vm_env \<Rightarrow> 't run_loop \<Rightarrow> ContractRef \<Rightarrow> bytes \<times> hash \<Rightarrow> u64 \<Rightarrow> int \<Rightarrow> address \<Rightarrow> 't EVM \<Rightarrow> 't create_result" where
  "evm_create env loop caller codeAndHash gas value address evm =
     (if evm_depth evm > 1024 then Return (([], 0, gas, Some ErrDepth), evm)
      else let (can, s) = bc_CanTransfer (ve_Context env) (evm_StateDB evm) (ref_Address caller) value
      in if \<not> can then Return (([], 0, gas, Some ErrInsufficientBalance), evm\<lparr>evm_StateDB := s\<rparr>)
         else let (nonce, s) = GetNonce (ve_db env) s (ref_Address caller);
                  s = SetNonce (ve_db env) s (ref_Address caller) (nonce + 1);
                  s = (if rIsYoloV3 (ve_rules env) then AddAddressToAccessList s address else s);
                  (contractHash, s) = GetCodeHash (ve_db env) s address;
                  (n, s) = GetNonce (ve_db env) s address
         in if n \<noteq> 0 \<or> (contractHash \<noteq> 0 \<and> contractHash \<noteq> se_keccak (ve_db env) [])
            then Return (([], 0, 0, Some ErrContractAddressCollision), evm\<lparr>evm_StateDB := s\<rparr>)
            else let (snapshot, s) = Snapshot s;
                     s = CreateAccount (ve_db env) s address;
                     s = (if rIsEIP158 (ve_rules env) then SetNonce (ve_db env) s address 1 else s);
                     s = bc_Transfer (ve_Context env) s (ref_Address caller) address value;
                     (c, jd) = NewContract caller address value gas (evm_jumpdests evm);
                     contract = SetCodeOptionalHash c (Some address) codeAndHash
            in if ve_NoRecursion env \<and> evm_depth evm > 0
               then Return (([], address, gas, None), evm\<lparr>evm_StateDB := s\<rparr>)
               else obind (Run loop contract [] False (evm\<lparr>evm_StateDB := s, evm_jumpdests := jd\<rparr>))
                      (end_create env snapshot address))"

definition CreateAddress :: "keccak \<Rightarrow> address \<Rightarrow> u64 \<Rightarrow> address" where
  "CreateAddress keccak b nonce =
     (case EncodeToBytes (VSlice False [VInterface (VByteArray (addr_Bytes b)), VInterface (VUint nonce)]) of
        Some (Inr data) \<Rightarrow> ucast (keccak data)
      | _ \<Rightarrow> ucast (keccak []))"

definition CreateAddress2 :: "keccak \<Rightarrow> address \<Rightarrow> hash \<Rightarrow> bytes \<Rightarrow> address" where
  "CreateAddress2 keccak b salt inithash = ucast (keccak (0xff # addr_Bytes b @ hash_Bytes salt @ inithash))"

definition evm_Create ::
  "'t vm_env \<Rightarrow> 't run_loop \<Rightarrow> ContractRef \<Rightarrow> bytes \<Rightarrow> u64 \<Rightarrow> int \<Rightarrow> 't EVM \<Rightarrow> 't create_result" where
  "evm_Create env loop caller code gas value evm =
     (let (nonce, s) = GetNonce (ve_db env) (evm_StateDB evm) (ref_Address caller)
      in evm_create env loop caller (code, 0) gas value (CreateAddress (se_keccak (ve_db env)) (ref_Address caller) nonce)
           (evm\<lparr>evm_StateDB := s\<rparr>))"

definition evm_Create2 ::
  "'t vm_env \<Rightarrow> 't run_loop \<Rightarrow> ContractRef \<Rightarrow> bytes \<Rightarrow> u64 \<Rightarrow> int \<Rightarrow> u256 \<Rightarrow> 't EVM \<Rightarrow> 't create_result" where
  "evm_Create2 env loop caller code gas endowment salt evm =
     (let h = se_keccak (ve_db env) code
      in evm_create env loop caller (code, h) gas endowment
           (CreateAddress2 (se_keccak (ve_db env)) (ref_Address caller) (U_Bytes32 (ve_u env) salt) (hash_Bytes h)) evm)"

definition evm_calls :: "'t vm_env \<Rightarrow> 't run_loop \<Rightarrow> 't vm_calls" where
  "evm_calls env loop =
     \<lparr>call_Call = evm_Call env loop, call_CallCode = evm_CallCode env loop, call_DelegateCall = evm_DelegateCall env loop,
      call_StaticCall = evm_StaticCall env loop, call_Create = evm_Create env loop, call_Create2 = evm_Create2 env loop\<rparr>"

primrec run_loop :: "nat \<Rightarrow> 't vm_env \<Rightarrow> 't run_loop" where
  "run_loop 0 env vm = NoFuel"
| "run_loop (Suc n) env vm =
     obind (step env (evm_calls env (run_loop n env)) vm) (\<lambda>r.
       case r of Continue vm \<Rightarrow> run_loop n env vm | Stop ret err vm \<Rightarrow> Return (ret, err, vm))"

end
