(* ===== verification/VM_Logic.thy ===== *)
theory VM_Logic
  imports VM_Interpreter State_Properties
begin

text \<open>
  The logic for the virtual machine: what holds of an outcome, how the operations on the state chain, what a
  frame guarantees and what the instructions may rely on.

  \<open>post E Q x\<close> says that \<open>x\<close> is a result with \<open>Q\<close> or a panic that \<open>E\<close> allows; it is false when the fuel ran out, so
  it also states termination.
\<close>

section \<open>Outcomes\<close>

definition post :: "(vm_panic \<Rightarrow> bool) \<Rightarrow> ('a \<Rightarrow> bool) \<Rightarrow> 'a outcome \<Rightarrow> bool" where
  "post E Q x = (case x of Return y \<Rightarrow> Q y | Panic p \<Rightarrow> E p | NoFuel \<Rightarrow> False)"

lemma post_simps [simp]:
  "post E Q (Return y) = Q y" "post E Q (Panic p) = E p" "post E Q NoFuel = False"
  by (simp_all add: post_def)

lemma post_obind [simp]: "post E Q (obind x f) = post E (\<lambda>y. post E Q (f y)) x"
  by (cases x) simp_all

lemma post_mono: "post E Q x \<Longrightarrow> (\<And>y. Q y \<Longrightarrow> R y) \<Longrightarrow> post E R x"
  by (cases x) simp_all

lemma post_if [simp]: "post E Q (if b then x else y) = (if b then post E Q x else post E Q y)"
  by simp

section \<open>Chains of operations on the state\<close>

text \<open>
  The operations that a static call may do: they read, add to the access list, record preimages, or touch an account
  without changing it.
\<close>

fun harmless :: "'t state_env \<Rightarrow> state_op \<Rightarrow> 't StateDB \<Rightarrow> bool" where
  "harmless env (OpCreateAccount a) s = (\<not> fst (Exist env s a))"
| "harmless env (OpAddBalance a v) s = (v = 0)"
| "harmless env (OpSubBalance a v) s = (v = 0)"
| "harmless env (OpSetBalance a v) s = False"
| "harmless env (OpSetNonce a n) s = False"
| "harmless env (OpSetCode a c) s = False"
| "harmless env (OpSetState a k v) s = False"
| "harmless env (OpSuicide a) s = False"
| "harmless env (OpAddLog l) s = False"
| "harmless env (OpAddRefund g) s = False"
| "harmless env (OpSubRefund g) s = False"
| "harmless env _ s = True"

text \<open>Operations that go back to no snapshot before \<open>rid\<close>, all of them harmless if \<open>ro\<close>.\<close>

inductive chain :: "'t state_env \<Rightarrow> bool \<Rightarrow> int \<Rightarrow> 't StateDB \<Rightarrow> 't StateDB \<Rightarrow> bool" for env ro rid s where
  chain_refl: "chain env ro rid s s"
| chain_step: "chain env ro rid s t \<Longrightarrow> run_op env op t = Some (r, u) \<Longrightarrow> (ro \<Longrightarrow> harmless env op t)
    \<Longrightarrow> (\<And>j. op = OpRevertToSnapshot j \<Longrightarrow> rid \<le> j) \<Longrightarrow> chain env ro rid s u"

lemma chain_trans: "chain env ro rid t u \<Longrightarrow> chain env ro rid s t \<Longrightarrow> chain env ro rid s u"
  by (induction rule: chain.induct) (auto intro: chain.intros)

lemma chain_mono:
  assumes "chain env ro rid s t" "rid' \<le> rid" "ro' \<Longrightarrow> ro"
  shows "chain env ro' rid' s t"
  using assms by (induction rule: chain.induct) (auto intro: chain_refl chain_step order_trans)

lemma run_op_next:
  assumes "addr_inj env" "state_inv env s" "run_op env op s = Some (r, t)"
  shows "sdb_nextRevisionId s \<le> sdb_nextRevisionId t"
proof -
  consider j where "op = OpRevertToSnapshot j" | "op = OpSnapshot"
    | "op \<noteq> OpSnapshot" "\<And>j. op \<noteq> OpRevertToSnapshot j" by blast
  then show ?thesis
  proof cases
    case 1
    then obtain k u where "journal_revert env s k = Some u" "sdb_nextRevisionId t = sdb_nextRevisionId u"
      using assms(3) by (fastforce simp: RevertToSnapshot_def Let_def split: if_splits)
    then show ?thesis
      using revert_loop_frame [of env _ s] by (auto simp: journal_revert_def Let_def same_revisions_def split: option.splits if_splits)
  next
    case 2
    then show ?thesis using assms(3) by (auto simp: Snapshot_def Let_def)
  next
    case 3
    have "state_ok env s" using assms(2) undo_ok_state_ok by (auto simp: state_inv_def)
    then show ?thesis using jsteps_revisions [OF run_op_jsteps [OF _ assms(3) 3]] by (simp add: same_revisions_def)
  qed
qed

lemma chain_inv:
  assumes "chain env ro rid s t" "addr_inj env" "state_inv env s"
  shows "state_inv env t \<and> sdb_nextRevisionId s \<le> sdb_nextRevisionId t"
  using assms(1)
proof induction
  case (chain_step t op r u)
  then show ?case using run_op_state_inv [OF assms(2)] run_op_next [OF assms(2)] order_trans by blast
qed (use assms(3) in simp)

text \<open>The relation between the states before and after a part of the execution.\<close>

definition sstep :: "'t state_env \<Rightarrow> bool \<Rightarrow> 't StateDB \<Rightarrow> 't StateDB \<Rightarrow> bool" where
  "sstep env ro s t = (addr_inj env \<and> state_inv env s \<and> chain env ro (sdb_nextRevisionId s) s t)"

lemma sstep_inv: "sstep env ro s t \<Longrightarrow> state_inv env t \<and> sdb_nextRevisionId s \<le> sdb_nextRevisionId t"
  using chain_inv [of env ro "sdb_nextRevisionId s" s t] by (auto simp: sstep_def)

lemma sstep_refl: "addr_inj env \<Longrightarrow> state_inv env s \<Longrightarrow> sstep env ro s s"
  by (simp add: sstep_def chain_refl)

lemma sstep_trans: "sstep env ro s t \<Longrightarrow> sstep env ro t u \<Longrightarrow> sstep env ro s u"
  using sstep_inv [of env ro s t] chain_trans chain_mono [of env ro "sdb_nextRevisionId t" t u "sdb_nextRevisionId s" ro]
  unfolding sstep_def by blast

lemma sstep_weaken: "sstep env True s t \<Longrightarrow> sstep env ro s t"
  by (auto simp: sstep_def intro: chain_mono)

lemma sstep_op:
  assumes "sstep env ro s t" "run_op env op t = Some (r, u)" "ro \<Longrightarrow> harmless env op t"
    "\<And>j. op = OpRevertToSnapshot j \<Longrightarrow> sdb_nextRevisionId s \<le> j"
  shows "sstep env ro s u"
  using assms chain_step [of env ro _ s t op r u] by (simp add: sstep_def)

text \<open>A chain after a snapshot can be undone.\<close>

lemma chain_run_inv:
  assumes "chain env ro rid t u" "addr_inj env" "run_inv env s i t" "i < rid"
  shows "run_inv env s i u"
  using assms(1)
proof induction
  case (chain_step t op r u)
  then show ?case using run_inv_op [OF assms(2) chain_step(5) chain_step(2)] assms(4) by fastforce
qed (use assms(3) in simp)

lemma sstep_reads:
  assumes "sstep env ro s t"
  shows "sstep env ro s (snd (GetBalance env t a))" "sstep env ro s (snd (GetNonce env t a))"
    "sstep env ro s (snd (GetCodeHash env t a))" "sstep env ro s (snd (GetCode env t a))"
    "sstep env ro s (snd (GetCodeSize env t a))" "sstep env ro s (snd (GetState env t a k))"
    "sstep env ro s (snd (GetCommittedState env t a k))" "sstep env ro s (snd (Exist env t a))"
    "sstep env ro s (snd (Empty env t a))" "sstep env ro s (snd (HasSuicided env t a))"
proof -
  have *: "sstep env ro s (snd x)" if "run_op env op t = Some (map_prod f (\<lambda>s. s) x)" "harmless env op t"
      "\<And>j. op \<noteq> OpRevertToSnapshot j" for op x and f :: "'b \<Rightarrow> op_result"
    by (rule sstep_op [OF assms, of op "f (fst x)"]) (use that in \<open>simp_all add: map_prod_def split_beta\<close>)
  show "sstep env ro s (snd (GetBalance env t a))" by (rule * [of "OpGetBalance a" RInt]) simp_all
  show "sstep env ro s (snd (GetNonce env t a))" by (rule * [of "OpGetNonce a"]) simp_all
  show "sstep env ro s (snd (GetCodeHash env t a))" by (rule * [of "OpGetCodeHash a"]) simp_all
  show "sstep env ro s (snd (GetCode env t a))" by (rule * [of "OpGetCode a"]) simp_all
  show "sstep env ro s (snd (GetCodeSize env t a))" by (rule * [of "OpGetCodeSize a"]) simp_all
  show "sstep env ro s (snd (GetState env t a k))" by (rule * [of "OpGetState a k"]) simp_all
  show "sstep env ro s (snd (GetCommittedState env t a k))" by (rule * [of "OpGetCommittedState a k"]) simp_all
  show "sstep env ro s (snd (Exist env t a))" by (rule * [of "OpExist a"]) simp_all
  show "sstep env ro s (snd (Empty env t a))" by (rule * [of "OpEmpty a"]) simp_all
  show "sstep env ro s (snd (HasSuicided env t a))" by (rule * [of "OpHasSuicided a"]) simp_all
qed

lemma sstep_writes:
  assumes "sstep env ro s t" "\<not> ro"
  shows "sstep env ro s (SetNonce env t a n)" "sstep env ro s (SetCode env t a c)" "sstep env ro s (SetState env t a k v)"
    "sstep env ro s (snd (Suicide env t a))" "sstep env ro s (AddLog t l)" "sstep env ro s (AddRefund t g)"
    "SubRefund t g = Some u \<Longrightarrow> sstep env ro s u"
proof -
  have *: "sstep env ro s w" if "run_op env op t = Some (r, w)" "\<And>j. op \<noteq> OpRevertToSnapshot j" for op r w
    by (rule sstep_op [OF assms(1) that(1)]) (use that assms(2) in auto)
  show "sstep env ro s (SetNonce env t a n)" by (rule * [of "OpSetNonce a n"]) simp_all
  show "sstep env ro s (SetCode env t a c)" by (rule * [of "OpSetCode a c"]) simp_all
  show "sstep env ro s (SetState env t a k v)" by (rule * [of "OpSetState a k v"]) simp_all
  show "sstep env ro s (snd (Suicide env t a))"
    by (rule * [of "OpSuicide a" "RBool (fst (Suicide env t a))"]) (simp_all add: map_prod_def split_beta)
  show "sstep env ro s (AddLog t l)" by (rule * [of "OpAddLog l"]) simp_all
  show "sstep env ro s (AddRefund t g)" by (rule * [of "OpAddRefund g"]) simp_all
  show "sstep env ro s u" if "SubRefund t g = Some u" by (rule * [of "OpSubRefund g"]) (simp_all add: that)
qed

lemma sstep_touches:
  assumes "sstep env ro s t"
  shows "sstep env ro s (AddPreimage t h b)" "sstep env ro s (AddAddressToAccessList t a)"
    "(ro \<Longrightarrow> v = 0) \<Longrightarrow> sstep env ro s (AddBalance env t a v)" "(ro \<Longrightarrow> v = 0) \<Longrightarrow> sstep env ro s (SubBalance env t a v)"
    "(ro \<Longrightarrow> \<not> fst (Exist env t a)) \<Longrightarrow> sstep env ro s (CreateAccount env t a)"
    "AddSlotToAccessList t a k = Some u \<Longrightarrow> sstep env ro s u" "sstep env ro s (snd (Snapshot t))"
proof -
  have *: "sstep env ro s w" if "run_op env op t = Some (r, w)" "ro \<Longrightarrow> harmless env op t" "\<And>j. op \<noteq> OpRevertToSnapshot j"
    for op r w by (rule sstep_op [OF assms that(1)]) (use that in auto)
  show "sstep env ro s (AddPreimage t h b)" by (rule * [of "OpAddPreimage h b"]) simp_all
  show "sstep env ro s (AddAddressToAccessList t a)" by (rule * [of "OpAddAddress a"]) simp_all
  show "sstep env ro s (AddBalance env t a v)" if "ro \<Longrightarrow> v = 0" by (rule * [of "OpAddBalance a v"]) (use that in simp_all)
  show "sstep env ro s (SubBalance env t a v)" if "ro \<Longrightarrow> v = 0" by (rule * [of "OpSubBalance a v"]) (use that in simp_all)
  show "sstep env ro s (CreateAccount env t a)" if "ro \<Longrightarrow> \<not> fst (Exist env t a)"
    by (rule * [of "OpCreateAccount a"]) (use that in simp_all)
  show "sstep env ro s u" if "AddSlotToAccessList t a k = Some u" by (rule * [of "OpAddSlot a k"]) (simp_all add: that)
  show "sstep env ro s (snd (Snapshot t))"
    by (rule * [of OpSnapshot "RInt (fst (Snapshot t))"]) (simp_all add: map_prod_def split_beta)
qed

text \<open>The operations on the access list do not panic.\<close>

lemma access_list_total:
  assumes "sstep env ro s t"
  shows "AddSlotToAccessList t a k \<noteq> None" "SlotInAccessList t a k \<noteq> None"
proof -
  have "addr_inj env" "state_inv env t" using assms sstep_inv by (auto simp: sstep_def)
  note * = run_op_total [OF this]
  show "AddSlotToAccessList t a k \<noteq> None" "SlotInAccessList t a k \<noteq> None"
    using * [of "OpAddSlot a k"] * [of "OpSlotInAccessList a k"] by auto
qed

section \<open>Frames\<close>

text \<open>What the machine relies on of its environment.\<close>

definition env_ok :: "'t vm_env \<Rightarrow> bool" where
  "env_ok env =
     (uint256 (ve_u env) \<and> addr_inj (ve_db env) \<and> bc_CanTransfer (ve_Context env) = CanTransfer (ve_db env)
      \<and> bc_Transfer (ve_Context env) = Transfer (ve_db env))"

text \<open>
  The panics that are not excluded: a slice that Go cannot have, an analysis that a code with the same hash left,
  the refund counter below zero and, under YoloV3, a contract that was not put on the access list.
\<close>

definition vm_panics :: "Rules \<Rightarrow> vm_panic \<Rightarrow> bool" where
  "vm_panics rules p =
     (p = SliceTooLong \<or> p = AnalysisIndex
      \<or> p = RefundBelowZero \<and> (rIsConstantinople rules \<or> rIsIstanbul rules \<or> rIsYoloV3 rules)
      \<or> p = NotInAccessList \<and> rIsYoloV3 rules)"

abbreviation vm_post :: "'t vm_env \<Rightarrow> ('a \<Rightarrow> bool) \<Rightarrow> 'a outcome \<Rightarrow> bool" where
  "vm_post env \<equiv> post (vm_panics (ve_rules env))"

definition static :: "'t vm_env \<Rightarrow> 't EVM \<Rightarrow> bool" where
  "static env evm = (in_readOnly evm \<and> rIsByzantium (ve_rules env))"

text \<open>What a part of the execution keeps of the \<^verbatim>\<open>EVM\<close>, and its change of the state.\<close>

definition evm_step :: "'t vm_env \<Rightarrow> 't EVM \<Rightarrow> 't EVM \<Rightarrow> bool" where
  "evm_step env e f =
     (sstep (ve_db env) (static env e) (evm_StateDB e) (evm_StateDB f) \<and> evm_depth f = evm_depth e \<and> in_readOnly f = in_readOnly e)"

definition mem_limit :: nat where
  "mem_limit = 0x1FFFFFFFE0"

definition gas_limit :: nat where
  "gas_limit = 2 ^ 61"

definition frame_ok :: "'t vm \<Rightarrow> bool" where
  "frame_ok vm = (length (vm_stack vm) \<le> 1024 \<and> length (mem_store (vm_mem vm)) \<le> mem_limit)"

abbreviation keeps :: "'t vm_env \<Rightarrow> 't vm \<Rightarrow> 't vm \<Rightarrow> bool" where
  "keeps env vm vm' \<equiv> evm_step env (vm_evm vm) (vm_evm vm')"

lemma evm_step_trans: "evm_step env e f \<Longrightarrow> evm_step env f g \<Longrightarrow> evm_step env e g"
  using sstep_trans by (auto simp: evm_step_def static_def)

lemma evm_step_refl: "env_ok env \<Longrightarrow> state_inv (ve_db env) (evm_StateDB e) \<Longrightarrow> evm_step env e e"
  by (simp add: evm_step_def env_ok_def sstep_refl)

lemma evm_step_static: "evm_step env e f \<Longrightarrow> static env f = static env e"
  by (simp add: evm_step_def static_def)

lemma evm_step_updates [simp]:
  "evm_step env e (f\<lparr>evm_callGasTemp := g\<rparr>) = evm_step env e f"
  "evm_step env e (f\<lparr>evm_jumpdests := jd\<rparr>) = evm_step env e f"
  "evm_step env e (f\<lparr>in_returnData := b\<rparr>) = evm_step env e f"
  by (simp_all add: evm_step_def)

lemma evm_step_db:
  "evm_step env e f \<Longrightarrow> sstep (ve_db env) (static env e) (evm_StateDB f) s \<Longrightarrow> evm_step env e (f\<lparr>evm_StateDB := s\<rparr>)"
  using sstep_trans by (auto simp: evm_step_def)

end
