(* ===== verification/VM_Gas_Safety.thy ===== *)
theory VM_Gas_Safety
  imports VM_Logic
begin

text \<open>
  The price functions: they change nothing of a frame but the state, which they change as the operations on it
  allow, the gas and the memory that is paid for, and the price covers what the instruction hands to a callee.
\<close>

section \<open>What is known of an opcode\<close>

text \<open>The stack items that the price of an instruction reads.\<close>

definition need :: "byte \<Rightarrow> nat" where
  "need b =
     (if b \<in> {OP_CALL, OP_CALLCODE} then 7
      else if b \<in> {OP_DELEGATECALL, OP_STATICCALL} then 6
      else if b \<in> {OP_EXTCODECOPY, OP_CREATE2} then 4
      else if b \<in> {OP_CALLDATACOPY, OP_CODECOPY, OP_RETURNDATACOPY, OP_CREATE} then 3
      else if b \<in> {OP_SHA3, OP_EXP, OP_SSTORE, OP_MSTORE, OP_MSTORE8, OP_RETURN, OP_REVERT, 0xa0, 0xa1, 0xa2, 0xa3, 0xa4} then 2
      else if b \<in> {OP_SLOAD, OP_BALANCE, OP_EXTCODEHASH, OP_EXTCODESIZE, OP_MLOAD, OP_SELFDESTRUCT} then 1
      else 0)"

definition uses_memory :: "byte \<Rightarrow> bool" where
  "uses_memory b =
     (b \<in> {OP_SHA3, OP_CALLDATACOPY, OP_CODECOPY, OP_EXTCODECOPY, OP_RETURNDATACOPY, OP_MLOAD, OP_MSTORE, OP_MSTORE8,
            0xa0, 0xa1, 0xa2, 0xa3, 0xa4, OP_CREATE, OP_CREATE2, OP_CALL, OP_CALLCODE, OP_DELEGATECALL, OP_STATICCALL,
            OP_RETURN, OP_REVERT})"

text \<open>The gas that the instruction hands to a callee and that is paid already, with the stipend.\<close>

definition reserve :: "byte \<Rightarrow> 't vm \<Rightarrow> nat" where
  "reserve b vm =
     (if b \<in> {OP_CALL, OP_CALLCODE}
      then unat (evm_callGasTemp (vm_evm vm)) + (if vm_stack vm ! 2 \<noteq> 0 then 2300 else 0)
      else if b \<in> {OP_DELEGATECALL, OP_STATICCALL} then unat (evm_callGasTemp (vm_evm vm))
      else 0)"

section \<open>Price functions\<close>

definition priced :: "'t vm_env \<Rightarrow> 't vm \<Rightarrow> 't vm \<Rightarrow> bool" where
  "priced env vm vm' =
     (vm_stack vm' = vm_stack vm \<and> mem_store (vm_mem vm') = mem_store (vm_mem vm) \<and> vm_gas vm' = vm_gas vm \<and> keeps env vm vm')"

definition price_ok :: "'t vm_env \<Rightarrow> 't vm \<Rightarrow> (u64 \<Rightarrow> 't vm \<Rightarrow> bool) \<Rightarrow> 't gas_result \<Rightarrow> bool" where
  "price_ok env vm P = vm_post env (\<lambda>(r, vm'). priced env vm vm' \<and> (\<forall>g. r = Inr g \<longrightarrow> P g vm'))"

lemma price_ok_Return [simp]:
  "price_ok env vm P (Return (r, vm')) = (priced env vm vm' \<and> (\<forall>g. r = Inr g \<longrightarrow> P g vm'))"
  by (simp add: price_ok_def)

lemma price_ok_Panic [simp]: "price_ok env vm P (Panic p) = vm_panics (ve_rules env) p"
  by (simp add: price_ok_def)

lemma price_ok_obind [simp]: "price_ok env vm P (obind x f) = vm_post env (\<lambda>y. price_ok env vm P (f y)) x"
  by (simp add: price_ok_def)

lemma price_ok_if: "(b \<Longrightarrow> price_ok env vm P x) \<Longrightarrow> (\<not> b \<Longrightarrow> price_ok env vm P y) \<Longrightarrow> price_ok env vm P (if b then x else y)"
  by simp

lemma priced_mem: "priced env v vm \<Longrightarrow> mem_store m = mem_store (vm_mem vm) \<Longrightarrow> priced env v (vm\<lparr>vm_mem := m\<rparr>)"
  by (simp add: priced_def)

lemma priced_temp: "priced env v vm \<Longrightarrow> priced env v (vm\<lparr>vm_evm := (vm_evm vm)\<lparr>evm_callGasTemp := g\<rparr>\<rparr>)"
  by (simp add: priced_def)

lemma priced_db:
  "priced env v vm \<Longrightarrow> sstep (ve_db env) (static env (vm_evm v)) (vm_db v) s \<Longrightarrow> priced env v (set_db vm s)"
  by (simp add: priced_def set_db_def evm_step_def vm_db_def)

lemma priced_sstep: "priced env v vm \<Longrightarrow> sstep (ve_db env) (static env (vm_evm v)) (vm_db v) (vm_db vm)"
  by (simp add: priced_def evm_step_def vm_db_def)

lemma priced_refund: "priced env v vm \<Longrightarrow> \<not> static env (vm_evm v) \<Longrightarrow> priced env v (vm_AddRefund vm g)"
  unfolding vm_AddRefund_def by (rule priced_db, assumption, rule sstep_writes(6) [OF priced_sstep])

lemma price_ok_read:
  assumes "priced env v vm" "\<And>t. sstep (ve_db env) (static env (vm_evm v)) (vm_db v) t \<Longrightarrow>
      sstep (ve_db env) (static env (vm_evm v)) (vm_db v) (snd (f t))"
    "\<And>r vm'. priced env v vm' \<Longrightarrow> vm_self vm' = vm_self vm \<Longrightarrow> price_ok env v P (g r vm')"
  shows "price_ok env v P (read_db vm f g)"
proof -
  obtain r s where f: "f (vm_db vm) = (r, s)" by fastforce
  have "priced env v (set_db vm s)" using priced_db [OF assms(1) assms(2) [OF priced_sstep [OF assms(1)]]] f by simp
  then show ?thesis using assms(3) f by (simp add: read_db_def set_db_def)
qed

lemma memoryGasCost_mem: "memoryGasCost m sz = (r, m') \<Longrightarrow> mem_store m' = mem_store m"
  by (auto simp: memoryGasCost_def Let_def split: if_splits)

lemma memoryGasCost_limit: "memoryGasCost m sz = (Inr g, m') \<Longrightarrow> unat sz \<le> mem_limit"
  by (auto simp: memoryGasCost_def mem_limit_def word_le_nat_alt not_less split: if_splits)

lemma price_ok_memory:
  assumes "priced env v vm" "\<And>gas vm'. unat ms \<le> mem_limit \<Longrightarrow> priced env v vm' \<Longrightarrow> price_ok env v P (f gas vm')"
  shows "price_ok env v P (with_memory_gas vm ms f)"
proof (cases "memoryGasCost (vm_mem vm) ms")
  case (Pair r m)
  have "priced env v (vm\<lparr>vm_mem := m\<rparr>)" by (rule priced_mem [OF assms(1) memoryGasCost_mem [OF Pair]])
  then show ?thesis
    using assms(2) memoryGasCost_limit Pair by (cases r) (auto simp: with_memory_gas_def)
qed

lemma gas_results:
  "gas_add x y = Inr z \<longleftrightarrow> z = x + y \<and> unat z = unat x + unat y"
  "gas_mul x y = Inr z \<longleftrightarrow> z = x * y \<and> unat z = unat x * unat y"
  "gas_bind r f = Inr z \<longleftrightarrow> (\<exists>g. r = Inr g \<and> f g = Inr z)"
  using SafeAdd_unat [of x y z] SafeMul_unat [of x y z]
  by (auto simp: gas_add_def gas_mul_def gas_bind_def SafeAdd_def SafeMul_def split: sum.splits)

text \<open>
  A price function of an opcode: what is left after the price, with what is reserved for the callee, is less than
  before by \<open>d\<close>, and the memory it pays for has a bounded size.
\<close>

definition pays :: "'t vm_env \<Rightarrow> byte \<Rightarrow> nat \<Rightarrow> u64 \<Rightarrow> 't vm \<Rightarrow> vm_error + u64 \<Rightarrow> 't vm \<Rightarrow> bool" where
  "pays env b d ms vm r vm' =
     (vm_stack vm' = vm_stack vm \<and> mem_store (vm_mem vm') = mem_store (vm_mem vm) \<and> keeps env vm vm'
      \<and> unat (vm_gas vm') \<le> unat (vm_gas vm)
      \<and> (\<forall>g. r = Inr g \<longrightarrow> (uses_memory b \<longrightarrow> unat ms \<le> mem_limit)
            \<and> (unat g \<le> unat (vm_gas vm') \<longrightarrow> unat (vm_gas vm') - unat g + reserve b vm' + d \<le> unat (vm_gas vm))))"

definition dyn_ok :: "'t vm_env \<Rightarrow> byte \<Rightarrow> nat \<Rightarrow> 't gasFunc \<Rightarrow> bool" where
  "dyn_ok env b d f =
     (\<forall>vm ms. state_inv (ve_db env) (vm_db vm) \<longrightarrow> need b \<le> length (vm_stack vm)
        \<longrightarrow> (static env (vm_evm vm) \<longrightarrow> b \<notin> {OP_SSTORE, OP_SELFDESTRUCT})
        \<longrightarrow> vm_post env (\<lambda>(r, vm'). pays env b d ms vm r vm') (f env vm ms))"

lemma priced_refl: "env_ok env \<Longrightarrow> state_inv (ve_db env) (vm_db vm) \<Longrightarrow> priced env vm vm"
  by (simp add: priced_def vm_db_def evm_step_refl)

lemma dyn_okI:
  assumes "env_ok env" "b \<notin> {OP_CALL, OP_CALLCODE, OP_DELEGATECALL, OP_STATICCALL}"
    "\<And>vm ms. priced env vm vm \<Longrightarrow> need b \<le> length (vm_stack vm) \<Longrightarrow> (static env (vm_evm vm) \<Longrightarrow> b \<notin> {OP_SSTORE, OP_SELFDESTRUCT})
      \<Longrightarrow> price_ok env vm (\<lambda>g vm'. d \<le> unat g \<and> (uses_memory b \<longrightarrow> unat ms \<le> mem_limit)) (f env vm ms)"
  shows "dyn_ok env b d f"
  unfolding dyn_ok_def
proof (intro allI impI)
  fix vm ms
  assume *: "state_inv (ve_db env) (vm_db vm)" "need b \<le> length (vm_stack vm)"
    "static env (vm_evm vm) \<longrightarrow> b \<notin> {OP_SSTORE, OP_SELFDESTRUCT}"
  have "price_ok env vm (\<lambda>g vm'. d \<le> unat g \<and> (uses_memory b \<longrightarrow> unat ms \<le> mem_limit)) (f env vm ms)"
    by (rule assms(3) [OF priced_refl [OF assms(1) *(1)] *(2)]) (use *(3) in blast)
  moreover have "reserve b v = 0" for v :: "'a vm" using assms(2) by (simp add: reserve_def)
  ultimately show "vm_post env (\<lambda>(r, vm'). pays env b d ms vm r vm') (f env vm ms)"
    unfolding price_ok_def by (elim post_mono) (auto simp: pays_def priced_def)
qed

lemma memoryCopierGas_ok:
  assumes "priced env v vm" "n < length (vm_stack v)"
  shows "price_ok env v (\<lambda>g vm'. unat ms \<le> mem_limit) (memoryCopierGas n env vm ms)"
  unfolding memoryCopierGas_def
  by (rule price_ok_memory [OF assms(1)]) (use assms(2) in \<open>auto simp: priced_def\<close>)

lemma word_gas_ok:
  assumes "priced env v vm" "n < length (vm_stack v)"
  shows "price_ok env v (\<lambda>g vm'. unat ms \<le> mem_limit) (word_gas n env vm ms)"
  unfolding word_gas_def
  by (rule price_ok_memory [OF assms(1)]) (use assms(2) in \<open>auto simp: priced_def\<close>)

lemma pureMemoryGascost_ok:
  "priced env v vm \<Longrightarrow> price_ok env v (\<lambda>g vm'. unat ms \<le> mem_limit) (pureMemoryGascost env vm ms)"
  unfolding pureMemoryGascost_def by (rule price_ok_memory) auto

lemma exp_gas_ok:
  assumes "priced env v vm" "1 < length (vm_stack v)"
  shows "price_ok env v (\<lambda>g vm'. 1 \<le> unat g) (exp_gas n env vm ms)"
  using assms by (auto simp: exp_gas_def priced_def gas_results)

lemma makeGasLog_ok:
  assumes "priced env v vm" "1 < length (vm_stack v)"
  shows "price_ok env v (\<lambda>g vm'. 1 \<le> unat g \<and> unat ms \<le> mem_limit) (makeGasLog n env vm ms)"
proof -
  have "vm_stack vm = vm_stack v" using assms(1) by (simp add: priced_def)
  then show ?thesis
    using assms unfolding makeGasLog_def
    by (auto intro!: price_ok_memory simp: gas_results split: sum.split)
qed

lemma dirty_refunds_ok:
  assumes "priced env v vm" "\<not> static env (vm_evm v)" "vm_panics (ve_rules env) RefundBelowZero"
  shows "vm_post env (priced env v) (dirty_refunds c rc r original current value vm)"
proof -
  have sub: "vm_post env (priced env v) (vm_SubRefund vm c)"
  proof (cases "SubRefund (vm_db vm) c")
    case (Some s)
    then show ?thesis
      using priced_db [OF assms(1) sstep_writes(7) [OF priced_sstep [OF assms(1)] assms(2)]] by (simp add: vm_SubRefund_def)
  qed (use assms(3) in \<open>simp add: vm_SubRefund_def\<close>)
  have "vm_post env (priced env v)
     (if original \<noteq> 0
      then if current = 0 then vm_SubRefund vm c else Return (if value = 0 then vm_AddRefund vm c else vm)
      else Return vm)"
    using sub assms(1) priced_refund [OF assms(1,2)] by simp
  then show ?thesis
    unfolding dirty_refunds_def post_obind by (rule post_mono) (use priced_refund [OF _ assms(2)] in auto)
qed

lemma gasSStore_ok:
  assumes "env_ok env"
  shows "dyn_ok env OP_SSTORE 1 gasSStore"
proof (rule dyn_okI [OF assms], simp)
  fix vm :: "'a vm" and ms
  assume p: "priced env vm vm" and n: "need OP_SSTORE \<le> length (vm_stack vm)"
    and st: "static env (vm_evm vm) \<Longrightarrow> OP_SSTORE \<notin> {OP_SSTORE, OP_SELFDESTRUCT}"
  have st: "\<not> static env (vm_evm vm)" using st by blast
  have n: "1 < length (vm_stack vm)" "0 < length (vm_stack vm)" using n by (auto simp: need_def)
  have panic: "vm_panics (ve_rules env) RefundBelowZero" if "rIsConstantinople (ve_rules env)"
    using that by (simp add: vm_panics_def)
  show "price_ok env vm (\<lambda>g vm'. 1 \<le> unat g \<and> (uses_memory OP_SSTORE \<longrightarrow> unat ms \<le> mem_limit)) (gasSStore env vm ms)"
    unfolding gasSStore_def Let_def Back_in [OF n(1)] Back_in [OF n(2)] obind.simps
    apply (rule price_ok_read [OF p sstep_reads(6)], assumption)
    apply (rule price_ok_if)
     apply (use priced_refund [OF _ st] in \<open>auto simp: uses_memory_def\<close>) [1]
    apply (rule price_ok_if)
     apply (simp add: uses_memory_def)
    apply (rule price_ok_read [OF _ sstep_reads(7)], assumption, assumption)
    apply (rule price_ok_if)
     apply (use priced_refund [OF _ st] in \<open>auto simp: uses_memory_def\<close>) [1]
    unfolding price_ok_obind
    apply (rule post_mono [OF dirty_refunds_ok [OF _ st panic]])
    apply (auto simp: uses_memory_def)
    done
qed

text \<open>A price of the storage instructions, whatever is read.\<close>

lemma sstore_price_ok:
  assumes st: "\<not> static env (vm_evm v)" and panic: "vm_panics (ve_rules env) RefundBelowZero" and p: "priced env v vm"
    and pos: "1 \<le> unat noop" "1 \<le> unat new" "1 \<le> unat reset" "1 \<le> unat dirty"
  shows "price_ok env v (\<lambda>g vm'. 1 \<le> unat g)
    (if current = value then Return (Inr noop, vm)
     else read_db vm (\<lambda>s. GetCommittedState (ve_db env) s a k) (\<lambda>original vm.
       if original = current
       then if original = 0 then Return (Inr new, vm)
            else Return (Inr reset, if value = 0 then vm_AddRefund vm c else vm)
       else obind (dirty_refunds c rc r original current value vm) (\<lambda>vm. Return (Inr dirty, vm))))"
  apply (rule price_ok_if)
   apply (use p pos in simp)
  apply (rule price_ok_read [OF p sstep_reads(7)], assumption)
  apply (rule price_ok_if)
   apply (use priced_refund [OF _ st] pos in auto) [1]
  unfolding price_ok_obind
  apply (rule post_mono [OF dirty_refunds_ok [OF _ st panic]])
   apply (use pos in auto)
  done

lemma gasSStoreEIP2200_ok:
  assumes "env_ok env" "rIsIstanbul (ve_rules env) \<or> rIsYoloV3 (ve_rules env)"
  shows "dyn_ok env OP_SSTORE 1 gasSStoreEIP2200"
proof (rule dyn_okI [OF assms(1)], simp)
  fix vm :: "'a vm" and ms
  assume p: "priced env vm vm" and n: "need OP_SSTORE \<le> length (vm_stack vm)"
    and st: "static env (vm_evm vm) \<Longrightarrow> OP_SSTORE \<notin> {OP_SSTORE, OP_SELFDESTRUCT}"
  have st: "\<not> static env (vm_evm vm)" using st by blast
  have n: "1 < length (vm_stack vm)" "0 < length (vm_stack vm)" using n by (auto simp: need_def)
  have panic: "vm_panics (ve_rules env) RefundBelowZero" using assms(2) by (simp add: vm_panics_def)
  have m: "uses_memory OP_SSTORE = False" by (simp add: uses_memory_def)
  show "price_ok env vm (\<lambda>g vm'. 1 \<le> unat g \<and> (uses_memory OP_SSTORE \<longrightarrow> unat ms \<le> mem_limit)) (gasSStoreEIP2200 env vm ms)"
    unfolding gasSStoreEIP2200_def Let_def Back_in [OF n(1)] Back_in [OF n(2)] obind.simps simp_thms m
    apply (rule price_ok_if)
     apply (use p in simp)
    apply (rule price_ok_read [OF p sstep_reads(6)], assumption)
    apply (rule sstore_price_ok [OF st panic])
        apply simp_all
    done
qed

text \<open>Putting a slot on the access list.\<close>

lemma AddSlot_priced:
  assumes "priced env v vm"
  shows "vm_post env (\<lambda>vm'. priced env v vm' \<and> vm_self vm' = vm_self vm) (vm_AddSlotToAccessList vm a k)"
proof -
  obtain s where "AddSlotToAccessList (vm_db vm) a k = Some s" using access_list_total [OF priced_sstep [OF assms]] by blast
  then show ?thesis
    using priced_db [OF assms sstep_touches(6) [OF priced_sstep [OF assms]]]
    by (simp add: vm_AddSlotToAccessList_def set_db_def)
qed

lemma SlotInAccessList_returns:
  assumes "priced env v vm"
  obtains x y where "vm_SlotInAccessList vm a k = Return (x, y)"
  using access_list_total(2) [OF priced_sstep [OF assms], of a k] by (auto simp: vm_SlotInAccessList_def)

lemma gasSStoreEIP2929_ok:
  assumes "env_ok env" "rIsYoloV3 (ve_rules env)"
  shows "dyn_ok env OP_SSTORE 1 gasSStoreEIP2929"
proof (rule dyn_okI [OF assms(1)], simp)
  fix vm :: "'a vm" and ms
  assume p: "priced env vm vm" and n: "need OP_SSTORE \<le> length (vm_stack vm)"
    and st: "static env (vm_evm vm) \<Longrightarrow> OP_SSTORE \<notin> {OP_SSTORE, OP_SELFDESTRUCT}"
  have st: "\<not> static env (vm_evm vm)" using st by blast
  have n: "1 < length (vm_stack vm)" "0 < length (vm_stack vm)" using n by (auto simp: need_def)
  have panic: "vm_panics (ve_rules env) RefundBelowZero" "vm_panics (ve_rules env) NotInAccessList"
    using assms(2) by (simp_all add: vm_panics_def)
  have m: "uses_memory OP_SSTORE = False" by (simp add: uses_memory_def)
  have cost: "1 \<le> unat (c + WarmStorageReadCostEIP2929)" "1 \<le> unat (c + SstoreSetGasEIP2200)"
    "1 \<le> unat (c + (SstoreResetGasEIP2200 - ColdSloadCostEIP2929))" if "c = 0 \<or> c = ColdSloadCostEIP2929" for c
    using that by auto
  have rest: "price_ok env vm (\<lambda>g vm'. 1 \<le> unat g)
      (if current = value then Return (Inr (c + WarmStorageReadCostEIP2929), w)
       else read_db w (\<lambda>s. GetCommittedState (ve_db env) s a k) (\<lambda>original w.
         if original = current
         then if original = 0 then Return (Inr (c + SstoreSetGasEIP2200), w)
              else Return (Inr (c + (SstoreResetGasEIP2200 - ColdSloadCostEIP2929)), if value = 0 then vm_AddRefund w x else w)
         else obind (dirty_refunds x y z original current value w) (\<lambda>w. Return (Inr (c + WarmStorageReadCostEIP2929), w))))"
    if "priced env vm w" "c = 0 \<or> c = ColdSloadCostEIP2929" for w c current "value" a k x y z
    by (rule sstore_price_ok [OF st panic(1) that(1) cost [OF that(2)] cost(1) [OF that(2)]])
  show "price_ok env vm (\<lambda>g vm'. 1 \<le> unat g \<and> (uses_memory OP_SSTORE \<longrightarrow> unat ms \<le> mem_limit)) (gasSStoreEIP2929 env vm ms)"
    unfolding gasSStoreEIP2929_def Let_def Back_in [OF n(1)] Back_in [OF n(2)] obind.simps simp_thms m
    apply (rule price_ok_if)
     apply (use p in simp)
    apply (rule price_ok_read [OF p sstep_reads(6)], assumption)
    subgoal premises q for current w
    proof -
      obtain x y where xy: "vm_SlotInAccessList w (vm_self w) (U_Bytes32 (ve_u env) (vm_stack vm ! 0)) = Return (x, y)"
        by (rule SlotInAccessList_returns [OF q(2)])
      show ?thesis
      proof (cases y)
        case True
        show ?thesis
          by (simp only: xy obind.simps split_conv True simp_thms if_False) (rule rest [OF q(2)], simp)
      next
        case False
        show ?thesis
          by (simp only: xy obind.simps split_conv False simp_thms if_True price_ok_obind post_obind)
            (rule post_mono [OF AddSlot_priced [OF q(2)]], cases x,
             simp_all only: simp_thms if_False if_True post_simps split_conv panic, rule rest, simp_all)
      qed
    qed
    done
qed

lemma gasSLoadEIP2929_ok:
  assumes "env_ok env"
  shows "dyn_ok env OP_SLOAD 1 gasSLoadEIP2929"
proof (rule dyn_okI [OF assms(1)], simp)
  fix vm :: "'a vm" and ms
  assume p: "priced env vm vm" and n: "need OP_SLOAD \<le> length (vm_stack vm)"
  have n: "0 < length (vm_stack vm)" using n by (auto simp: need_def)
  obtain x y where xy: "vm_SlotInAccessList vm (vm_self vm) (U_Bytes32 (ve_u env) (vm_stack vm ! 0)) = Return (x, y)"
    by (rule SlotInAccessList_returns [OF p])
  show "price_ok env vm (\<lambda>g vm'. 1 \<le> unat g \<and> (uses_memory OP_SLOAD \<longrightarrow> unat ms \<le> mem_limit)) (gasSLoadEIP2929 env vm ms)"
    using p post_mono [OF AddSlot_priced [OF p, of "vm_self vm" "U_Bytes32 (ve_u env) (vm_stack vm ! 0)"]]
    by (simp add: gasSLoadEIP2929_def Let_def Back_in [OF n] xy uses_memory_def)
qed

lemma gasEip2929AccountCheck_ok:
  assumes "env_ok env" "b \<in> {OP_BALANCE, OP_EXTCODEHASH, OP_EXTCODESIZE}"
  shows "dyn_ok env b 0 gasEip2929AccountCheck"
proof (rule dyn_okI [OF assms(1)])
  fix vm :: "'a vm" and ms
  assume p: "priced env vm vm" and "need b \<le> length (vm_stack vm)"
  then have n: "0 < length (vm_stack vm)" using assms(2) by (auto simp: need_def)
  have "priced env vm (vm_AddAddressToAccessList vm a)" for a
    unfolding vm_AddAddressToAccessList_def by (rule priced_db [OF p sstep_touches(2) [OF priced_sstep [OF p]]])
  then show "price_ok env vm (\<lambda>g vm'. 0 \<le> unat g \<and> (uses_memory b \<longrightarrow> unat ms \<le> mem_limit)) (gasEip2929AccountCheck env vm ms)"
    using p assms(2) by (auto simp: gasEip2929AccountCheck_def Let_def Back_in [OF n] uses_memory_def)
qed (use assms(2) in auto)

lemma gasExtCodeCopyEIP2929_ok:
  assumes "env_ok env"
  shows "dyn_ok env OP_EXTCODECOPY 0 gasExtCodeCopyEIP2929"
proof (rule dyn_okI [OF assms], simp)
  fix vm :: "'a vm" and ms
  assume p: "priced env vm vm" and "need OP_EXTCODECOPY \<le> length (vm_stack vm)"
  then have n: "3 < length (vm_stack vm)" by (simp add: need_def)
  have add: "priced env vm (vm_AddAddressToAccessList w a)" if "priced env vm w" for w a
    unfolding vm_AddAddressToAccessList_def by (rule priced_db [OF that sstep_touches(2) [OF priced_sstep [OF that]]])
  have st: "0 < length (vm_stack w)" if "priced env vm w" for w using that n by (auto simp: priced_def)
  show "price_ok env vm (\<lambda>g vm'. 0 \<le> unat g \<and> (uses_memory OP_EXTCODECOPY \<longrightarrow> unat ms \<le> mem_limit))
    (gasExtCodeCopyEIP2929 env vm ms)"
    unfolding gasExtCodeCopyEIP2929_def gasExtCodeCopy_def price_ok_obind
    using memoryCopierGas_ok [OF p n, of ms] unfolding price_ok_def
    by (elim post_mono) (auto simp: Let_def add Back_in [OF st] split: sum.split)
qed

lemma suicide_refund_ok:
  assumes "priced env v vm" "\<not> static env (vm_evm v)" "P g"
  shows "price_ok env v (\<lambda>g vm'. P g) (suicide_refund env g vm)"
  unfolding suicide_refund_def
  by (rule price_ok_read [OF assms(1) sstep_reads(10)], assumption) (use priced_refund [OF _ assms(2)] assms(3) in auto)

lemma new_by_suicide_ok:
  assumes "priced env v vm" "\<And>new vm'. priced env v vm' \<Longrightarrow> price_ok env v P (f new vm')"
  shows "price_ok env v P (new_by_suicide env a vm f)"
  unfolding new_by_suicide_def
  apply (rule price_ok_read [OF assms(1) sstep_reads(9)], assumption)
  apply (rule price_ok_if)
   apply (rule price_ok_read [OF _ sstep_reads(1)], assumption, assumption)
   apply (rule assms(2), assumption)+
  done

lemma selfdestruct_ok:
  assumes "env_ok env"
  shows "dyn_ok env OP_SELFDESTRUCT 0 gasSelfdestruct" "dyn_ok env OP_SELFDESTRUCT 0 gasSelfdestructEIP2929"
proof -
  have m: "(uses_memory OP_SELFDESTRUCT \<longrightarrow> x) = True" for x by (simp add: uses_memory_def)
  show "dyn_ok env OP_SELFDESTRUCT 0 gasSelfdestruct"
  proof (rule dyn_okI [OF assms], simp)
    fix vm :: "'a vm" and ms
    assume p: "priced env vm vm" and n: "need OP_SELFDESTRUCT \<le> length (vm_stack vm)"
      and st: "static env (vm_evm vm) \<Longrightarrow> OP_SELFDESTRUCT \<notin> {OP_SSTORE, OP_SELFDESTRUCT}"
    have st: "\<not> static env (vm_evm vm)" using st by blast
    have n: "0 < length (vm_stack vm)" using n by (auto simp: need_def)
    note refund = suicide_refund_ok [OF _ st]
    show "price_ok env vm (\<lambda>g vm'. 0 \<le> unat g \<and> (uses_memory OP_SELFDESTRUCT \<longrightarrow> unat ms \<le> mem_limit)) (gasSelfdestruct env vm ms)"
      unfolding gasSelfdestruct_def Let_def Back_in [OF n] obind.simps m simp_thms
      apply (rule price_ok_if)+
        apply (rule new_by_suicide_ok [OF p], rule refund, assumption, simp)
       apply (rule price_ok_read [OF p sstep_reads(8)], assumption, rule refund, assumption, simp)
      apply (rule refund [OF p], simp)
      done
  qed
  show "dyn_ok env OP_SELFDESTRUCT 0 gasSelfdestructEIP2929"
  proof (rule dyn_okI [OF assms], simp)
    fix vm :: "'a vm" and ms
    assume p: "priced env vm vm" and n: "need OP_SELFDESTRUCT \<le> length (vm_stack vm)"
      and st: "static env (vm_evm vm) \<Longrightarrow> OP_SELFDESTRUCT \<notin> {OP_SSTORE, OP_SELFDESTRUCT}"
    have st: "\<not> static env (vm_evm vm)" using st by blast
    have n: "0 < length (vm_stack vm)" using n by (auto simp: need_def)
    have a: "priced env vm (vm_AddAddressToAccessList vm a)" for a
      unfolding vm_AddAddressToAccessList_def by (rule priced_db [OF p sstep_touches(2) [OF priced_sstep [OF p]]])
    show "price_ok env vm (\<lambda>g vm'. 0 \<le> unat g \<and> (uses_memory OP_SELFDESTRUCT \<longrightarrow> unat ms \<le> mem_limit))
      (gasSelfdestructEIP2929 env vm ms)"
      unfolding gasSelfdestructEIP2929_def Let_def Back_in [OF n] obind.simps m simp_thms
      by (auto simp: split_beta intro!: new_by_suicide_ok suicide_refund_ok st a p)
  qed
qed

section \<open>The price of calls\<close>

text \<open>The price of a call covers the gas of the callee and the price of the transfer.\<close>

definition covers :: "u256 \<Rightarrow> u64 \<Rightarrow> 't vm \<Rightarrow> bool" where
  "covers v g vm = (unat (evm_callGasTemp (vm_evm vm)) + (if v \<noteq> 0 then 9000 else 0) \<le> unat g)"

lemma finish_call_gas_ok:
  assumes "priced env v vm" "0 < length (vm_stack v)" "x \<noteq> 0 \<Longrightarrow> 9000 \<le> unat gas"
  shows "price_ok env v (\<lambda>g vm'. covers x g vm') (finish_call_gas env gas vm)"
proof -
  have n: "0 < length (vm_stack vm)" using assms(1,2) by (simp add: priced_def)
  show ?thesis
    using assms(3) priced_temp [OF assms(1)]
    by (auto simp: finish_call_gas_def Back_in [OF n] gas_results covers_def split: sum.split)
qed

lemma sgn_sint_eq_0 [simp]: "sgn (sint (x :: u256)) = 0 \<longleftrightarrow> x = 0"
  by (simp add: sgn_0_0 signed_eq_0_iff)

lemma price_ok_sum:
  assumes "\<And>e. r = Inl e \<Longrightarrow> priced env v vm" "\<And>g. r = Inr g \<Longrightarrow> price_ok env v P (f g)"
  shows "price_ok env v P (case r of Inl e \<Rightarrow> Return (Inl e, vm) | Inr g \<Rightarrow> f g)"
  using assms by (cases r) simp_all

lemma price_ok_mono: "price_ok env v P x \<Longrightarrow> (\<And>g vm'. P g vm' \<Longrightarrow> Q g vm') \<Longrightarrow> price_ok env v Q x"
  unfolding price_ok_def by (elim post_mono) auto

lemma gasDelegateCall_ok:
  assumes "priced env v vm" "0 < length (vm_stack v)"
  shows "price_ok env v (\<lambda>g vm'. unat ms \<le> mem_limit \<and> covers 0 g vm') (gasDelegateCall env vm ms)"
  unfolding gasDelegateCall_def
  by (rule price_ok_memory [OF assms(1)]) (rule price_ok_mono [OF finish_call_gas_ok], use assms(2) in auto)

lemma gasStaticCall_eq: "gasStaticCall = gasDelegateCall"
  by (simp add: fun_eq_iff gasStaticCall_def gasDelegateCall_def)

lemma gasCallCode_ok:
  assumes "uint256 (ve_u env)" "priced env v vm" "2 < length (vm_stack v)"
  shows "price_ok env v (\<lambda>g vm'. unat ms \<le> mem_limit \<and> covers (vm_stack v ! 2) g vm') (gasCallCode env vm ms)"
  unfolding gasCallCode_def
proof (rule price_ok_memory [OF assms(2)])
  fix memoryGas and w :: "'a vm"
  assume ms: "unat ms \<le> mem_limit" and w: "priced env v w"
  have n: "2 < length (vm_stack w)" and st: "vm_stack w = vm_stack v" using w assms(3) by (simp_all add: priced_def)
  have "0 < length (vm_stack v)" using assms(3) by linarith
  note fin = finish_call_gas_ok [OF w this]
  show "price_ok env v (\<lambda>g vm'. unat ms \<le> mem_limit \<and> covers (vm_stack v ! 2) g vm')
     (obind (Back (vm_stack w) 2) (\<lambda>x.
        case gas_add (if U_Sign (ve_u env) x \<noteq> 0 then CallValueTransferGas else 0) memoryGas of
          Inl e \<Rightarrow> Return (Inl e, w) | Inr gas \<Rightarrow> finish_call_gas env gas w))"
    unfolding Back_in [OF n] obind.simps
    by (rule price_ok_sum [OF w], rule price_ok_mono [OF fin])
      (auto simp: gas_results uint256.Sign [OF assms(1)] st ms split: if_splits)
qed

lemma gasCall_ok:
  assumes "uint256 (ve_u env)" "priced env v vm" "2 < length (vm_stack v)"
  shows "price_ok env v (\<lambda>g vm'. unat ms \<le> mem_limit \<and> covers (vm_stack v ! 2) g vm') (gasCall env vm ms)"
proof -
  have st: "vm_stack vm = vm_stack v" using assms(2) by (simp add: priced_def)
  have n: "2 < length (vm_stack v)" "1 < length (vm_stack v)" "0 < length (vm_stack v)" using assms(3) by auto
  let ?x = "vm_stack v ! 2"
  have rest: "price_ok env v (\<lambda>g vm'. unat ms \<le> mem_limit \<and> covers ?x g vm')
      (with_memory_gas w ms (\<lambda>memoryGas w.
         case gas_add (if \<not> U_IsZero (ve_u env) ?x then gas + CallValueTransferGas else gas) memoryGas of
           Inl e \<Rightarrow> Return (Inl e, w) | Inr gas \<Rightarrow> finish_call_gas env gas w))"
    if "priced env v w" "gas = 0 \<or> gas = CallNewAccountGas" for w gas
  proof (rule price_ok_memory [OF that(1)])
    fix memoryGas and w :: "'a vm"
    assume ms: "unat ms \<le> mem_limit" and w: "priced env v w"
    show "price_ok env v (\<lambda>g vm'. unat ms \<le> mem_limit \<and> covers ?x g vm')
      (case gas_add (if \<not> U_IsZero (ve_u env) ?x then gas + CallValueTransferGas else gas) memoryGas of
         Inl e \<Rightarrow> Return (Inl e, w) | Inr gas \<Rightarrow> finish_call_gas env gas w)"
      by (rule price_ok_sum [OF w], rule price_ok_mono [OF finish_call_gas_ok [OF w n(3)]])
        (use that(2) in \<open>auto simp: gas_results uint256.IsZero [OF assms(1)] ms split: if_splits\<close>)
  qed
  show ?thesis
    unfolding gasCall_def Let_def st Back_in [OF n(1)] Back_in [OF n(2)] obind.simps
    apply (rule price_ok_if)+
      apply (rule price_ok_read [OF assms(2) sstep_reads(9)], assumption, rule rest, assumption, simp)
     apply (rule rest [OF assms(2)], simp)
    apply (rule price_ok_read [OF assms(2) sstep_reads(8)], assumption, rule rest, assumption, simp)
    done
qed

text \<open>The opcodes of the calls, with the value that is transferred.\<close>

definition call_value :: "byte \<Rightarrow> Stack \<Rightarrow> u256" where
  "call_value b st = (if b \<in> {OP_CALL, OP_CALLCODE} then st ! 2 else 0)"

lemma reserve_call:
  "b \<in> {OP_CALL, OP_CALLCODE, OP_DELEGATECALL, OP_STATICCALL} \<Longrightarrow>
   reserve b vm = unat (evm_callGasTemp (vm_evm vm)) + (if call_value b (vm_stack vm) \<noteq> 0 then 2300 else 0)"
  by (auto simp: reserve_def call_value_def)

lemma covers_pays:
  assumes "price_ok env vm (\<lambda>g vm'. unat ms \<le> mem_limit \<and> covers (call_value b (vm_stack vm)) g vm') x"
    "b \<in> {OP_CALL, OP_CALLCODE, OP_DELEGATECALL, OP_STATICCALL}"
  shows "vm_post env (\<lambda>(r, vm'). pays env b 0 ms vm r vm') x"
  using assms(1) unfolding price_ok_def
  by (elim post_mono) (auto simp: pays_def priced_def reserve_call [OF assms(2)] covers_def)

definition call_gas_ok :: "'t vm_env \<Rightarrow> byte \<Rightarrow> 't gasFunc \<Rightarrow> bool" where
  "call_gas_ok env b f =
     (\<forall>vm ms. priced env vm vm \<longrightarrow> need b \<le> length (vm_stack vm) \<longrightarrow>
        price_ok env vm (\<lambda>g vm'. unat ms \<le> mem_limit \<and> covers (call_value b (vm_stack vm)) g vm') (f env vm ms))"

lemma call_functions_ok:
  assumes "env_ok env"
  shows "call_gas_ok env OP_CALL gasCall" "call_gas_ok env OP_CALLCODE gasCallCode"
    "call_gas_ok env OP_DELEGATECALL gasDelegateCall" "call_gas_ok env OP_STATICCALL gasStaticCall"
proof -
  have U: "uint256 (ve_u env)" using assms by (simp add: env_ok_def)
  show "call_gas_ok env OP_CALL gasCall" "call_gas_ok env OP_CALLCODE gasCallCode"
    using gasCall_ok [OF U] gasCallCode_ok [OF U] by (simp_all add: call_gas_ok_def need_def call_value_def)
  show "call_gas_ok env OP_DELEGATECALL gasDelegateCall" "call_gas_ok env OP_STATICCALL gasStaticCall"
    unfolding call_gas_ok_def gasStaticCall_eq
    by (intro allI impI, use gasDelegateCall_ok in \<open>force simp: need_def call_value_def\<close>)+
qed

lemma call_gas_dyn_ok:
  assumes "env_ok env" "call_gas_ok env b f" "b \<in> {OP_CALL, OP_CALLCODE, OP_DELEGATECALL, OP_STATICCALL}"
  shows "dyn_ok env b 0 f"
  unfolding dyn_ok_def
  using assms(2) by (intro allI impI covers_pays [OF _ assms(3)]) (simp add: call_gas_ok_def priced_refl [OF assms(1)])

lemma call_variant_ok:
  assumes "env_ok env" "call_gas_ok env b f" "b \<in> {OP_CALL, OP_CALLCODE, OP_DELEGATECALL, OP_STATICCALL}"
  shows "dyn_ok env b 0 (makeCallVariantGasCallEIP2929 f)"
  unfolding dyn_ok_def
proof (intro allI impI)
  fix vm :: "'a vm" and ms
  assume inv: "state_inv (ve_db env) (vm_db vm)" and need: "need b \<le> length (vm_stack vm)"
    and st: "static env (vm_evm vm) \<longrightarrow> b \<notin> {OP_SSTORE, OP_SELFDESTRUCT}"
  have n: "1 < length (vm_stack vm)" using need assms(3) by (auto simp: need_def)
  note p = priced_refl [OF assms(1) inv]
  note old = call_gas_dyn_ok [OF assms, unfolded dyn_ok_def, rule_format]
  let ?a = "U_Bytes20 (ve_u env) (vm_stack vm ! 1)"
  let ?v = "vm_AddAddressToAccessList vm ?a"
  let ?c = "(vm_contract vm)\<lparr>c_Gas := vm_gas vm - 2500\<rparr>"
  let ?w = "?v\<lparr>vm_contract := ?c\<rparr>"
  have v: "priced env vm ?v"
    unfolding vm_AddAddressToAccessList_def by (rule priced_db [OF p sstep_touches(2) [OF priced_sstep [OF p]]])
  have [simp]: "vm_contract (vm_AddAddressToAccessList vm a) = vm_contract vm" for a
    by (simp add: vm_AddAddressToAccessList_def set_db_def)
  have "vm_post env (\<lambda>(r, vm'). pays env b 0 ms vm r vm') (f env ?w ms)" if gas: "2500 \<le> vm_gas vm"
  proof -
    have s: "vm_stack ?w = vm_stack vm" "mem_store (vm_mem ?w) = mem_store (vm_mem vm)" "keeps env vm ?w"
      using v by (simp_all add: priced_def)
    have inv': "state_inv (ve_db env) (vm_db ?w)"
      using s(3) sstep_inv by (auto simp: evm_step_def vm_db_def)
    have le: "unat (vm_gas ?w) \<le> unat (vm_gas vm)" using gas by (simp add: word_le_nat_alt unat_sub)
    have "vm_post env (\<lambda>(r, vm'). pays env b 0 ms ?w r vm') (f env ?w ms)"
      by (rule old [OF inv']) (use need st assms(3) s in auto)
    then show ?thesis
      by (rule post_mono)
        (use s le evm_step_trans [of env "vm_evm vm" "vm_evm ?w"] in \<open>fastforce simp: pays_def\<close>)
  qed
  moreover have "vm_post env (\<lambda>(r, vm'). pays env b 0 ms vm r vm') (f env vm ms)" by (rule old [OF inv need]) (use st in auto)
  moreover have "pays env b 0 ms vm (Inl e) (?v\<lparr>vm_contract := vm_contract vm\<rparr>)" for e using v by (simp add: pays_def priced_def)
  ultimately show "vm_post env (\<lambda>(r, vm'). pays env b 0 ms vm r vm') (makeCallVariantGasCallEIP2929 f env vm ms)"
    unfolding makeCallVariantGasCallEIP2929_def Back_in [OF n] obind.simps
    by (auto simp: Let_def UseGas_def not_less)
qed

text \<open>What an operation of a table pays, and that it pays something if the execution goes on.\<close>

definition gas_ok :: "'t vm_env \<Rightarrow> byte \<Rightarrow> 't operation \<Rightarrow> bool" where
  "gas_ok env b op =
     (case op_dynamicGas op of
        None \<Rightarrow> \<not> uses_memory b \<and> b \<notin> {OP_CALL, OP_CALLCODE, OP_DELEGATECALL, OP_STATICCALL}
          \<and> (op_halts op \<or> op_reverts op \<or> op_constantGas op \<noteq> 0)
      | Some f \<Rightarrow> \<exists>d. dyn_ok env b d f \<and> (op_halts op \<or> op_reverts op \<or> 0 < d + unat (op_constantGas op)))"

end
