(* ===== verification/VM_Exec_Safety.thy ===== *)
theory VM_Exec_Safety
  imports VM_Gas_Safety
begin

text \<open>
  The instructions: with the stack items and the memory that the interpreter has ensured, an instruction does not
  panic, keeps the stack and the memory within their bounds, and changes the state only by operations on it.
\<close>

section \<open>Regions of the memory\<close>

definition region_ok :: "Memory \<Rightarrow> u256 \<Rightarrow> u256 \<Rightarrow> bool" where
  "region_ok m off n = (unat n < 2 ^ 64 \<and> (n = 0 \<or> unat off + unat n \<le> length (mem_store m)))"

lemma sint_small:
  assumes "unat (w :: u64) < 2 ^ 63"
  shows "sint w = int (unat w)"
proof -
  have "uint w < 2 ^ 63" using assms uint_less_unat [of w 63] by blast
  moreover have "- (2 ^ 63) \<le> uint w" by (rule order_trans [OF _ unsigned_greater_eq]) simp
  ultimately have "signed_take_bit 63 (uint w) = uint w" by (intro signed_take_bit_int_eq_self)
  then show ?thesis by (simp add: sint_uint)
qed

lemma calcMemSize64WithUint_region:
  assumes "uint256 U" "calcMemSize64WithUint U off n = (m, False)" "unat m \<le> len"
  shows "n = 0 \<or> unat off + unat n \<le> len \<and> unat off < 2 ^ 64"
proof (cases "n = 0")
  case False
  then have u: "unat off < 2 ^ 64" "m = ucast off + n" "\<not> m < ucast off"
    using assms(2) uint_less_unat [of off 64]
    by (auto simp: calcMemSize64WithUint_def uint256.Uint64WithOverflow [OF assms(1)] Let_def split: if_splits)
  have "unat m = unat (ucast off :: u64) + unat n"
    using u(2,3) unat_plus_simple [of "ucast off" n] by (simp add: not_less)
  then show ?thesis using assms(3) u(1) unat_ucast_64 [OF u(1)] by simp
qed simp

lemma calcMemSize64_region:
  assumes "uint256 U" "calcMemSize64 U off n = (m, False)" "unat m \<le> length (mem_store mem)"
  shows "region_ok mem off n"
proof -
  have n: "unat n < 2 ^ 64" and c: "calcMemSize64WithUint U off (ucast n) = (m, False)"
    using assms(2) uint_less_unat [of n 64]
    by (auto simp: calcMemSize64_def uint256.IsUint64 [OF assms(1)] uint256.Uint64 [OF assms(1)] split: if_splits)
  have "(ucast n :: u64) = 0 \<longleftrightarrow> n = 0" using unat_ucast_64 [OF n] by (metis unat_eq_zero)
  then show ?thesis using calcMemSize64WithUint_region [OF assms(1) c assms(3)] n unat_ucast_64 [OF n] by (auto simp: region_ok_def)
qed

lemma region_get:
  assumes "region_ok m off n" "length (mem_store m) \<le> mem_limit"
  shows "mem_GetPtr m (sint (ucast off :: u64)) (sint (ucast n :: u64)) = Return (take (unat n) (drop (unat off) (mem_store m)))"
    "mem_GetCopy m (sint (ucast off :: u64)) (sint (ucast n :: u64)) = Return (take (unat n) (drop (unat off) (mem_store m)))"
proof -
  have n: "unat (ucast n :: u64) = unat n" using assms(1) unat_ucast_64 by (simp add: region_ok_def)
  consider "n = 0" | "n \<noteq> 0" "unat off + unat n \<le> length (mem_store m)" using assms(1) by (auto simp: region_ok_def)
  then have "mem_GetPtr m (sint (ucast off :: u64)) (sint (ucast n :: u64)) = Return (take (unat n) (drop (unat off) (mem_store m)))
    \<and> mem_GetCopy m (sint (ucast off :: u64)) (sint (ucast n :: u64)) = Return (take (unat n) (drop (unat off) (mem_store m)))"
  proof cases
    case 2
    have "unat off + unat n \<le> mem_limit" "unat n \<noteq> 0" using 2 assms(2) unat_eq_zero [of n] by auto
    then have u: "unat off < 2 ^ 63" "unat n < 2 ^ 63" by (simp_all add: mem_limit_def)
    then have o: "unat (ucast off :: u64) = unat off" using unat_ucast_64 [of off] by simp
    have "sint (ucast off :: u64) = int (unat off)" "sint (ucast n :: u64) = int (unat n)"
      using sint_small [of "ucast off"] sint_small [of "ucast n"] u n o by simp_all
    moreover have "int (unat off) + int (unat n) \<le> int (length (mem_store m))" "0 < int (unat n)"
      using 2(2) \<open>unat n \<noteq> 0\<close> by linarith+
    ultimately show ?thesis using 2(1) by (simp add: mem_GetPtr_def mem_GetCopy_def)
  qed (simp add: mem_GetPtr_def mem_GetCopy_def)
  then show "mem_GetPtr m (sint (ucast off :: u64)) (sint (ucast n :: u64)) = Return (take (unat n) (drop (unat off) (mem_store m)))"
    "mem_GetCopy m (sint (ucast off :: u64)) (sint (ucast n :: u64)) = Return (take (unat n) (drop (unat off) (mem_store m)))"
    by blast+
qed

lemma length_copy_into: "off + n \<le> length dst \<Longrightarrow> length (copy_into dst off n v) = length dst"
  by (auto simp: copy_into_def Let_def min_def)

lemma unat_go_len: "length xs < 2 ^ 64 \<Longrightarrow> unat (go_len xs) = length xs"
  by (simp add: go_len_def unat_of_nat)

lemma region_set:
  assumes "region_ok m off n" "length (mem_store m) \<le> mem_limit"
  shows "\<exists>m'. mem_Set m (ucast off) (ucast n) v = Return m' \<and> length (mem_store m') = length (mem_store m)"
proof -
  have n: "unat (ucast n :: u64) = unat n" using assms(1) unat_ucast_64 by (simp add: region_ok_def)
  consider "n = 0" | "n \<noteq> 0" "unat off + unat n \<le> length (mem_store m)" using assms(1) by (auto simp: region_ok_def)
  then show ?thesis
  proof cases
    case 2
    have len: "length (mem_store m) < 2 ^ 63" using assms(2) by (simp add: mem_limit_def)
    then have o: "unat (ucast off :: u64) = unat off" using unat_ucast_64 [of off] 2 by simp
    have sum: "unat (ucast off + ucast n :: u64) = unat off + unat n"
      using 2 len o n unat_add_lem [of "ucast off :: u64" "ucast n"] by simp
    then have "\<not> ucast off + ucast n > go_len (mem_store m)" "\<not> ucast off + ucast n < (ucast off :: u64)"
      using 2 len unat_go_len [of "mem_store m"] o by (simp_all add: word_less_nat_alt)
    then show ?thesis using 2 o n by (simp add: mem_Set_def length_copy_into)
  qed (simp add: mem_Set_def)
qed

section \<open>What instructions rely on and what they ensure\<close>

text \<open>
  The calls that an instruction makes: with less gas than \<open>G\<close> they return, give back no more gas than they got, and
  change the state only by operations on it.
\<close>

definition call_ok :: "'t vm_env \<Rightarrow> u64 \<Rightarrow> 't EVM \<Rightarrow> 't call_result \<Rightarrow> bool" where
  "call_ok env gas evm = vm_post env (\<lambda>((ret, g, err), evm'). unat g \<le> unat gas \<and> evm_step env evm evm')"

definition create_ok :: "'t vm_env \<Rightarrow> u64 \<Rightarrow> 't EVM \<Rightarrow> 't create_result \<Rightarrow> bool" where
  "create_ok env gas evm = vm_post env (\<lambda>((ret, addr, g, err), evm'). unat g \<le> unat gas \<and> evm_step env evm evm')"

definition calls_ok :: "'t vm_env \<Rightarrow> nat \<Rightarrow> 't vm_calls \<Rightarrow> bool" where
  "calls_ok env G calls =
     (\<forall>c addr input gas v evm. unat gas < G \<longrightarrow> state_inv (ve_db env) (evm_StateDB evm) \<longrightarrow>
        ((static env evm \<longrightarrow> v = 0) \<longrightarrow> call_ok env gas evm (call_Call calls (ContractPtr c) addr input gas v evm))
        \<and> call_ok env gas evm (call_CallCode calls (ContractPtr c) addr input gas v evm)
        \<and> call_ok env gas evm (call_DelegateCall calls (ContractPtr c) addr input gas evm)
        \<and> call_ok env gas evm (call_StaticCall calls (ContractPtr c) addr input gas evm)
        \<and> (\<not> static env evm \<longrightarrow> create_ok env gas evm (call_Create calls (ContractPtr c) input gas v evm)
             \<and> (\<forall>salt. create_ok env gas evm (call_Create2 calls (ContractPtr c) input gas v salt evm))))"

definition mem_ready :: "'t vm_env \<Rightarrow> (uint256_lib \<Rightarrow> Stack \<Rightarrow> (u64 \<times> bool) outcome) option \<Rightarrow> 't vm \<Rightarrow> bool" where
  "mem_ready env memf vm =
     (\<forall>f. memf = Some f \<longrightarrow>
        (\<exists>m. f (ve_u env) (vm_stack vm) = Return (m, False) \<and> unat m \<le> length (mem_store (vm_mem vm))))"

definition exec_post :: "'t vm_env \<Rightarrow> byte \<Rightarrow> 't vm \<Rightarrow> 't vm \<Rightarrow> bool" where
  "exec_post env b vm vm' =
     (length (vm_stack vm') \<le> 1024 \<and> length (mem_store (vm_mem vm')) = length (mem_store (vm_mem vm))
      \<and> unat (vm_gas vm') \<le> unat (vm_gas vm) + reserve b vm \<and> keeps env vm vm')"

text \<open>
  The execution function of an opcode, between the least and the greatest stack that the table allows, with the
  memory function of the table, which may write or not, and go on or not.
\<close>

definition ex_ok ::
  "'t vm_env \<Rightarrow> byte \<Rightarrow> 't executionFunc \<Rightarrow> int \<Rightarrow> int \<Rightarrow> (uint256_lib \<Rightarrow> Stack \<Rightarrow> (u64 \<times> bool) outcome) option \<Rightarrow> bool \<Rightarrow> bool
   \<Rightarrow> bool" where
  "ex_ok env b ex mn mx memf wr cont =
     (\<forall>G calls vm. frame_ok vm \<longrightarrow> state_inv (ve_db env) (vm_db vm) \<longrightarrow>
        mn \<le> int (length (vm_stack vm)) \<longrightarrow> int (length (vm_stack vm)) \<le> mx \<longrightarrow> mem_ready env memf vm \<longrightarrow>
        calls_ok env G calls \<longrightarrow> (cont \<longrightarrow> unat (vm_gas vm) + reserve b vm < G) \<longrightarrow> G \<le> 2 ^ 64 \<longrightarrow>
        (static env (vm_evm vm) \<longrightarrow> \<not> wr \<and> (b = OP_CALL \<longrightarrow> vm_stack vm ! 2 = 0)) \<longrightarrow>
        vm_post env (\<lambda>(r, vm'). exec_post env b vm vm') (ex env calls vm))"

text \<open>An instruction that makes no calls.\<close>

definition plain :: "'t vm_env \<Rightarrow> 't vm \<Rightarrow> 't exec_result \<Rightarrow> bool" where
  "plain env vm = vm_post env (\<lambda>(r, vm'). length (vm_stack vm') \<le> 1024
     \<and> length (mem_store (vm_mem vm')) = length (mem_store (vm_mem vm)) \<and> vm_gas vm' = vm_gas vm \<and> keeps env vm vm')"

lemma plain_simps [simp]:
  "plain env vm (Return (r, vm')) = (length (vm_stack vm') \<le> 1024
     \<and> length (mem_store (vm_mem vm')) = length (mem_store (vm_mem vm)) \<and> vm_gas vm' = vm_gas vm \<and> keeps env vm vm')"
  "plain env vm (Panic p) = vm_panics (ve_rules env) p"
  "plain env vm (obind x f) = vm_post env (\<lambda>y. plain env vm (f y)) x"
  by (simp_all add: plain_def)

lemma ex_okI:
  assumes "env_ok env"
    "\<And>calls vm. keeps env vm vm \<Longrightarrow> length (mem_store (vm_mem vm)) \<le> mem_limit \<Longrightarrow> mn \<le> int (length (vm_stack vm)) \<Longrightarrow>
       int (length (vm_stack vm)) \<le> mx \<Longrightarrow> length (vm_stack vm) \<le> 1024 \<Longrightarrow> mem_ready env memf vm \<Longrightarrow> (wr \<Longrightarrow> \<not> static env (vm_evm vm))
       \<Longrightarrow> plain env vm (ex env calls vm)"
  shows "ex_ok env b ex mn mx memf wr cont"
  unfolding ex_ok_def
proof (intro allI impI)
  fix G and calls :: "'a vm_calls" and vm :: "'a vm"
  assume *: "frame_ok vm" "state_inv (ve_db env) (vm_db vm)" "mn \<le> int (length (vm_stack vm))"
    "int (length (vm_stack vm)) \<le> mx" "mem_ready env memf vm"
    "static env (vm_evm vm) \<longrightarrow> \<not> wr \<and> (b = OP_CALL \<longrightarrow> vm_stack vm ! 2 = 0)"
  have "plain env vm (ex env calls vm)"
    by (rule assms(2)) (use * assms(1) in \<open>auto simp: frame_ok_def vm_db_def evm_step_refl\<close>)
  then show "vm_post env (\<lambda>(r, vm'). exec_post env b vm vm') (ex env calls vm)"
    unfolding plain_def by (elim post_mono) (auto simp: exec_post_def)
qed

lemma stack_cases:
  "n \<le> length st \<Longrightarrow> n = Suc m \<Longrightarrow> \<exists>x r. st = x # r \<and> m \<le> length r"
  by (cases st) auto

lemma stack_ops_ok:
  assumes "env_ok env"
  shows "ex_ok env b (un_op f1) (minStack 1 1) (maxStack 1 1) None wr cont"
    "ex_ok env b (bin_op f2) (minStack 2 1) (maxStack 2 1) None wr cont"
    "ex_ok env b (tern_op f3) (minStack 3 1) (maxStack 3 1) None wr cont"
    "ex_ok env b (push_op f0) (minStack 0 1) (maxStack 0 1) None wr cont"
  by (rule ex_okI [OF assms], auto simp: stack_limits un_op_def bin_op_def tern_op_def push_op_def split: list.split)+

section \<open>The environment and the state\<close>

lemma keeps_sstep: "keeps env v vm \<Longrightarrow> sstep (ve_db env) (static env (vm_evm v)) (vm_db v) (vm_db vm)"
  by (simp add: evm_step_def vm_db_def)

lemma keeps_set_db:
  "keeps env v vm \<Longrightarrow> sstep (ve_db env) (static env (vm_evm v)) (vm_db v) s \<Longrightarrow> keeps env v (set_db vm s)"
  by (simp add: set_db_def evm_step_def vm_db_def)

lemma set_db_sel [simp]:
  "vm_stack (set_db vm s) = vm_stack vm" "vm_mem (set_db vm s) = vm_mem vm" "vm_contract (set_db vm s) = vm_contract vm"
  "vm_pc (set_db vm s) = vm_pc vm" "vm_rstack (set_db vm s) = vm_rstack vm" "vm_db (set_db vm s) = s"
  by (simp_all add: set_db_def vm_db_def)

lemma plain_read:
  assumes "keeps env v vm" "\<And>t. sstep (ve_db env) (static env (vm_evm v)) (vm_db v) t \<Longrightarrow>
      sstep (ve_db env) (static env (vm_evm v)) (vm_db v) (snd (f t))"
    "\<And>r s. keeps env v (set_db vm s) \<Longrightarrow> plain env v (g r (set_db vm s))"
  shows "plain env v (read_db vm f g)"
proof -
  obtain r s where f: "f (vm_db vm) = (r, s)" by fastforce
  have "keeps env v (set_db vm s)" using keeps_set_db [OF assms(1) assms(2) [OF keeps_sstep [OF assms(1)]]] f by simp
  then show ?thesis using assms(3) f by (simp add: read_db_def)
qed

lemma getData_ok: "vm_post env (\<lambda>_. True) (getData data start n) \<or> unat n > mem_limit"
proof (cases "length data < 2 ^ 63 \<and> unat n \<le> mem_limit")
  case True
  have len: "unat (go_len data) = length data" using True by (simp add: unat_go_len)
  let ?s = "if start > go_len data then go_len data else start"
  have s: "unat ?s < 2 ^ 63" using True len by (auto simp: word_less_nat_alt)
  have "unat (?s + n) = unat ?s + unat n"
    using s True unat_add_lem [of ?s n] by (simp add: mem_limit_def)
  then have "\<not> ?s + n < ?s" by (simp add: word_less_nat_alt)
  moreover have "?s \<le> go_len data" by auto
  ultimately show ?thesis by (auto simp: getData_def Let_def not_le vm_panics_def)
qed (auto simp: getData_def vm_panics_def)

lemma regions:
  assumes "uint256 (ve_u env)" "mem_ready env (Some f) vm"
  shows "f \<in> {memorySha3, memoryReturn, memoryRevert, memoryLog} \<Longrightarrow> vm_stack vm = x # y # r \<Longrightarrow> region_ok (vm_mem vm) x y"
    "f \<in> {memoryCallDataCopy, memoryCodeCopy, memoryReturnDataCopy} \<Longrightarrow> vm_stack vm = x # y # z # r \<Longrightarrow> region_ok (vm_mem vm) x z"
    "f = memoryExtCodeCopy \<Longrightarrow> vm_stack vm = w # x # y # z # r \<Longrightarrow> region_ok (vm_mem vm) x z"
    "f \<in> {memoryCreate, memoryCreate2} \<Longrightarrow> vm_stack vm = w # x # y # r \<Longrightarrow> region_ok (vm_mem vm) x y"
  using assms(2) calcMemSize64_region [OF assms(1)]
  by (auto simp: mem_ready_def mem_back_def memory_size_defs Back_def)

lemma env_ok_u256: "env_ok env \<Longrightarrow> uint256 (ve_u env)"
  by (simp add: env_ok_def)

lemma state_reads_ok:
  assumes "env_ok env"
  shows "ex_ok env b opBalance (minStack 1 1) (maxStack 1 1) None wr cont"
    "ex_ok env b opExtCodeSize (minStack 1 1) (maxStack 1 1) None wr cont"
    "ex_ok env b opExtCodeHash (minStack 1 1) (maxStack 1 1) None wr cont"
    "ex_ok env b opSload (minStack 1 1) (maxStack 1 1) None wr cont"
    "ex_ok env b opSelfBalance (minStack 0 1) (maxStack 0 1) None wr cont"
  by (rule ex_okI [OF assms],
      auto simp: stack_limits opBalance_def opExtCodeSize_def opExtCodeHash_def opSload_def opSelfBalance_def Let_def
        intro!: plain_read sstep_reads split: list.split)+

lemma opCallDataLoad_ok:
  assumes "env_ok env"
  shows "ex_ok env b opCallDataLoad (minStack 1 1) (maxStack 1 1) None wr cont"
proof (rule ex_okI [OF assms])
  fix calls :: "'a vm_calls" and vm :: "'a vm"
  assume *: "keeps env vm vm" "minStack 1 1 \<le> int (length (vm_stack vm))" "length (vm_stack vm) \<le> 1024"
  have "vm_post env (\<lambda>_. True) (getData d st 32)" for d st
    using getData_ok [of env d st 32] by (simp add: mem_limit_def)
  then have "plain env vm (obind (getData d st 32) (\<lambda>data. finish (vm\<lparr>vm_stack := f data # r\<rparr>)))"
    if "vm_stack vm = x # r" for d st f x r
    unfolding plain_simps by (rule post_mono) (use * that in simp_all)
  then show "plain env vm (opCallDataLoad env calls vm)"
    using * by (auto simp: opCallDataLoad_def stack_limits Let_def split: list.split prod.split)
qed

lemma opBlockhash_ok:
  assumes "env_ok env"
  shows "ex_ok env b opBlockhash (minStack 1 1) (maxStack 1 1) None wr cont"
  by (rule ex_okI [OF assms]) (auto simp: stack_limits opBlockhash_def Let_def split: list.split prod.split)

section \<open>The memory\<close>

lemma copy_data_ok:
  assumes "env_ok env" "region_ok (vm_mem vm) off n" "length (mem_store (vm_mem vm)) \<le> mem_limit"
    "keeps env v vm" "length (vm_stack vm) \<le> 1024" "vm_mem vm = vm_mem v" "vm_gas vm = vm_gas v"
  shows "plain env v (copy_data env vm off dataOff n data)"
proof -
  have n: "unat (ucast n :: u64) \<le> mem_limit"
    using assms(2,3) unat_ucast_64 [of n] by (auto simp: region_ok_def)
  obtain m where m: "mem_Set (vm_mem vm) (ucast off) (ucast n) d = Return (m d)"
    "length (mem_store (m d)) = length (mem_store (vm_mem vm))" for d
    using region_set [OF assms(2,3)] by metis
  have "vm_post env (\<lambda>_. True) (getData data st (ucast n))" for st using getData_ok [of env data st "ucast n"] n by simp
  then show ?thesis
    unfolding copy_data_def Let_def uint256.Uint64 [OF env_ok_u256 [OF assms(1)]] plain_simps
    by (rule post_mono) (use m assms(4-7) in simp)
qed

lemma copies_ok:
  assumes "env_ok env"
  shows "ex_ok env b opCallDataCopy (minStack 3 0) (maxStack 3 0) (Some memoryCallDataCopy) wr cont"
    "ex_ok env b opCodeCopy (minStack 3 0) (maxStack 3 0) (Some memoryCodeCopy) wr cont"
    "ex_ok env b opExtCodeCopy (minStack 4 0) (maxStack 4 0) (Some memoryExtCodeCopy) wr cont"
proof -
  note region = regions [OF env_ok_u256 [OF assms]]
  show "ex_ok env b opCallDataCopy (minStack 3 0) (maxStack 3 0) (Some memoryCallDataCopy) wr cont"
    by (rule ex_okI [OF assms])
      (auto simp: opCallDataCopy_def stack_limits intro!: copy_data_ok [OF assms] intro: region(2) split: list.split)
  show "ex_ok env b opCodeCopy (minStack 3 0) (maxStack 3 0) (Some memoryCodeCopy) wr cont"
    by (rule ex_okI [OF assms])
      (auto simp: opCodeCopy_def stack_limits intro!: copy_data_ok [OF assms] intro: region(2) split: list.split)
  show "ex_ok env b opExtCodeCopy (minStack 4 0) (maxStack 4 0) (Some memoryExtCodeCopy) wr cont"
    by (rule ex_okI [OF assms])
      (auto simp: opExtCodeCopy_def stack_limits
         intro!: plain_read sstep_reads copy_data_ok [OF assms] intro: region(3) split: list.split)
qed

lemma opReturnDataCopy_ok:
  assumes "env_ok env"
  shows "ex_ok env b opReturnDataCopy (minStack 3 0) (maxStack 3 0) (Some memoryReturnDataCopy) wr cont"
proof (rule ex_okI [OF assms])
  fix calls :: "'a vm_calls" and vm :: "'a vm"
  assume k: "keeps env vm vm" and lim: "length (mem_store (vm_mem vm)) \<le> mem_limit" and len: "length (vm_stack vm) \<le> 1024"
    and rdy: "mem_ready env (Some memoryReturnDataCopy) vm" and mn: "minStack 3 0 \<le> int (length (vm_stack vm))"
  note U = env_ok_u256 [OF assms]
  obtain off dat n r where st: "vm_stack vm = off # dat # n # r" using mn by (auto simp: stack_limits Suc_le_length_iff numeral_eq_Suc)
  have reg: "region_ok (vm_mem vm) off n" using regions(2) [OF U rdy _ st] by simp
  obtain m where m: "mem_Set (vm_mem vm) (ucast off) (ucast n) d = Return (m d)"
    "length (mem_store (m d)) = length (mem_store (vm_mem vm))" for d
    using region_set [OF reg lim] by metis
  have "\<not> (ucast (dat + n) :: u64) < ucast dat" if "uint dat < 2 ^ 64" "uint (dat + n) < 2 ^ 64"
  proof -
    have u: "unat dat < 2 ^ 64" "unat (dat + n) < 2 ^ 64" "unat n < 2 ^ 64"
      using that uint_less_unat [of dat 64] uint_less_unat [of "dat + n" 64] reg by (auto simp: region_ok_def)
    then have "unat (dat + n) = unat dat + unat n" using unat_add_lem [of dat n] by simp
    then show ?thesis using u unat_ucast_64 [of dat] unat_ucast_64 [of "dat + n"] by (simp add: word_less_nat_alt)
  qed
  then show "plain env vm (opReturnDataCopy env calls vm)"
    using k len m by (auto simp: opReturnDataCopy_def st Let_def uint256.Uint64WithOverflow [OF U] uint256.Uint64 [OF U] uint256.Add [OF U])
qed

lemma memory_reads_ok:
  assumes "env_ok env"
  shows "ex_ok env b opSha3 (minStack 2 1) (maxStack 2 1) (Some memorySha3) wr cont"
    "ex_ok env b opReturn (minStack 2 0) (maxStack 2 0) (Some memoryReturn) wr cont"
    "ex_ok env b opRevert (minStack 2 0) (maxStack 2 0) (Some memoryRevert) wr cont"
    "ex_ok env b (makeLog n) (minStack (int n + 2) 0) (maxStack (int n + 2) 0) (Some memoryLog) True cont"
proof -
  note U = env_ok_u256 [OF assms]
  note get = region_get [OF regions(1) [OF U]]
  have st: "\<exists>x y r. vm_stack vm = x # y # r \<and> k \<le> length r" if "minStack (int k + 2) j \<le> int (length (vm_stack vm))" for vm :: "'a vm" and k j
    using that stack_cases [of "Suc (Suc k)" "vm_stack vm" "Suc k"] stack_cases [of "Suc k" _ k] by (fastforce simp: stack_limits)
  have pre: "keeps env v (set_db v (AddPreimage (vm_db v) h d))" if "keeps env v v" for v :: "'a vm" and h d
    by (rule keeps_set_db [OF that sstep_touches(1) [OF keeps_sstep [OF that]]])
  show "ex_ok env b opSha3 (minStack 2 1) (maxStack 2 1) (Some memorySha3) wr cont"
    by (rule ex_okI [OF assms])
      (use st [of 0] in \<open>force simp: opSha3_def Let_def get uint256.Uint64 [OF U] pre\<close>)
  show "ex_ok env b opReturn (minStack 2 0) (maxStack 2 0) (Some memoryReturn) wr cont"
    "ex_ok env b opRevert (minStack 2 0) (maxStack 2 0) (Some memoryRevert) wr cont"
    by (rule ex_okI [OF assms], use st [of 0] in \<open>force simp: opReturn_def opRevert_def Let_def get uint256.Uint64 [OF U]\<close>)+
  have log: "keeps env v (set_db (v\<lparr>vm_stack := r\<rparr>) (AddLog (vm_db v) l))" if "keeps env v v" "\<not> static env (vm_evm v)"
    for v :: "'a vm" and r l
    using keeps_set_db [OF that(1) sstep_writes(5) [OF keeps_sstep [OF that(1)] that(2)]] by (simp add: set_db_def)
  show "ex_ok env b (makeLog n) (minStack (int n + 2) 0) (maxStack (int n + 2) 0) (Some memoryLog) True cont"
    by (rule ex_okI [OF assms])
      (use st [of n] in \<open>force simp: makeLog_def Let_def get uint256.Uint64 [OF U] log\<close>)
qed

lemma word_region:
  assumes "env_ok env" "mem_ready env (Some f) vm" "f (ve_u env) (vm_stack vm) = mem_back_uint (ve_u env) (vm_stack vm) 0 n"
    "vm_stack vm = x # r" "n \<noteq> 0" "length (mem_store (vm_mem vm)) \<le> mem_limit"
  shows "unat x + unat n \<le> length (mem_store (vm_mem vm))" "unat (ucast x :: u64) = unat x" "unat x < 2 ^ 63"
proof -
  show *: "unat x + unat n \<le> length (mem_store (vm_mem vm))" "unat (ucast x :: u64) = unat x"
    using assms calcMemSize64WithUint_region [OF env_ok_u256 [OF assms(1)], of x n] unat_ucast_64 [of x]
    by (fastforce simp: mem_ready_def mem_back_uint_def Back_def)+
  show "unat x < 2 ^ 63" using * assms(6) by (simp add: mem_limit_def)
qed

lemma opMload_ok:
  assumes "env_ok env"
  shows "ex_ok env b opMload (minStack 1 1) (maxStack 1 1) (Some memoryMLoad) wr cont"
proof (rule ex_okI [OF assms])
  fix calls :: "'a vm_calls" and vm :: "'a vm"
  assume *: "keeps env vm vm" "length (mem_store (vm_mem vm)) \<le> mem_limit" "length (vm_stack vm) \<le> 1024"
    "mem_ready env (Some memoryMLoad) vm" "minStack 1 1 \<le> int (length (vm_stack vm))"
  obtain x r where st: "vm_stack vm = x # r" using *(5) by (cases "vm_stack vm") (auto simp: stack_limits)
  have w: "unat x + 32 \<le> length (mem_store (vm_mem vm))" "unat (ucast x :: u64) = unat x" "unat x < 2 ^ 63"
    using word_region [OF assms *(4) _ st _ *(2), of 32] by (auto simp: memoryMLoad_def)
  have "sint (ucast x :: u64) = int (unat x)" using sint_small [of "ucast x"] w by simp
  moreover have "int (unat x) + 32 \<le> int (length (mem_store (vm_mem vm)))" using w(1) by linarith
  ultimately have "\<exists>d. mem_GetPtr (vm_mem vm) (sint (ucast x :: u64)) 32 = Return d" by (simp add: mem_GetPtr_def)
  then show "plain env vm (opMload env calls vm)"
    using * by (auto simp: opMload_def Let_def uint256.Uint64 [OF env_ok_u256 [OF assms]] st)
qed

lemma opMstore_ok:
  assumes "env_ok env"
  shows "ex_ok env b opMstore (minStack 2 0) (maxStack 2 0) (Some memoryMStore) wr cont"
proof (rule ex_okI [OF assms])
  fix calls :: "'a vm_calls" and vm :: "'a vm"
  assume *: "keeps env vm vm" "length (mem_store (vm_mem vm)) \<le> mem_limit" "length (vm_stack vm) \<le> 1024"
    "mem_ready env (Some memoryMStore) vm" "minStack 2 0 \<le> int (length (vm_stack vm))"
  note U = env_ok_u256 [OF assms]
  obtain x y r where st: "vm_stack vm = x # y # r"
    using *(5) stack_cases [of 2 "vm_stack vm" 1] stack_cases [of 1 _ 0] by (fastforce simp: stack_limits)
  have w: "unat x + 32 \<le> length (mem_store (vm_mem vm))" "unat (ucast x :: u64) = unat x" "unat x < 2 ^ 63"
    using word_region [OF assms *(4) _ st _ *(2), of 32] by (auto simp: memoryMStore_def)
  have sum: "unat (ucast x + 32 :: u64) = unat x + 32"
    using w unat_add_lem [of "ucast x :: u64" 32] by simp
  have len: "unat (go_len (mem_store (vm_mem vm))) = length (mem_store (vm_mem vm))"
    using *(2) by (intro unat_go_len) (simp add: mem_limit_def)
  have "\<not> go_len (mem_store (vm_mem vm)) < ucast x + 32" "\<not> (ucast x + 32 :: u64) < ucast x"
    using sum w len by (simp_all add: word_less_nat_alt)
  then have "\<exists>m. mem_Set32 (ve_u env) (vm_mem vm) (ucast x) y = Return m \<and> length (mem_store m) = length (mem_store (vm_mem vm))"
    using w length_copy_into [of "unat x" 32 "mem_store (vm_mem vm)"]
    by (simp add: mem_Set32_def Let_def uint256.WriteToSlice [OF U])
  then show "plain env vm (opMstore env calls vm)"
    using * by (auto simp: opMstore_def Let_def uint256.Uint64 [OF U] st)
qed

lemma opMstore8_ok:
  assumes "env_ok env"
  shows "ex_ok env b opMstore8 (minStack 2 0) (maxStack 2 0) (Some memoryMStore8) wr cont"
proof (rule ex_okI [OF assms])
  fix calls :: "'a vm_calls" and vm :: "'a vm"
  assume *: "keeps env vm vm" "length (mem_store (vm_mem vm)) \<le> mem_limit" "length (vm_stack vm) \<le> 1024"
    "mem_ready env (Some memoryMStore8) vm" "minStack 2 0 \<le> int (length (vm_stack vm))"
  obtain x y r where st: "vm_stack vm = x # y # r"
    using *(5) stack_cases [of 2 "vm_stack vm" 1] stack_cases [of 1 _ 0] by (fastforce simp: stack_limits)
  have "unat x + 1 \<le> length (mem_store (vm_mem vm))" "unat (ucast x :: u64) = unat x"
    using word_region [OF assms *(4) _ st _ *(2), of 1] by (auto simp: memoryMStore8_def)
  then show "plain env vm (opMstore8 env calls vm)"
    using * by (auto simp: opMstore8_def Let_def uint256.Uint64 [OF env_ok_u256 [OF assms]] st mem_set_byte_def)
qed

section \<open>Stack, storage and jumps\<close>

lemma isCode_post: "vm_post env (\<lambda>(v, c', jd'). c_Gas c' = c_Gas c) (isCode c jd d)"
proof -
  have seg: "vm_post env (\<lambda>r. True) (codeSegment a n)" for a n
    by (simp add: codeSegment_def vm_panics_def)
  obtain bits where "codeBitmap (c_Code c) = Return bits" using codeBitmap_spec by blast
  then show ?thesis
    by (auto simp: isCode_def seg split: option.split)
qed

lemma valid_post:
  "vm_post env (\<lambda>(v, c', jd'). c_Gas c' = c_Gas c) (validJumpdest U c jd x)"
  "vm_post env (\<lambda>(v, c', jd'). c_Gas c' = c_Gas c) (validJumpSubdest c jd d)"
  using isCode_post by (auto simp: validJumpdest_def validJumpSubdest_def split: prod.split)

lemma jump_to_ok:
  assumes "keeps env v vm" "length (vm_stack vm) \<le> 1024" "vm_mem vm = vm_mem v" "vm_gas vm = vm_gas v"
  shows "plain env v (jump_to env vm pos)"
  unfolding jump_to_def plain_simps
  by (rule post_mono [OF valid_post(1)]) (use assms in \<open>auto simp: Let_def set_analysis_def\<close>)

lemma jumps_ok:
  assumes "env_ok env"
  shows "ex_ok env b opJump (minStack 1 0) (maxStack 1 0) None wr cont"
    "ex_ok env b opJumpi (minStack 2 0) (maxStack 2 0) None wr cont"
    "ex_ok env b opJumpdest (minStack 0 0) (maxStack 0 0) None wr cont"
    "ex_ok env b opBeginSub (minStack 0 0) (maxStack 0 0) None wr cont"
    "ex_ok env b opReturnSub (minStack 0 0) (maxStack 0 0) None wr cont"
    "ex_ok env b opStop (minStack 0 0) (maxStack 0 0) None wr cont"
    "ex_ok env b opPop (minStack 1 0) (maxStack 1 0) None wr cont"
    "ex_ok env b opPush1 (minStack 0 1) (maxStack 0 1) None wr cont"
    "ex_ok env b (makePush k l) (minStack 0 1) (maxStack 0 1) None wr cont"
  by (rule ex_okI [OF assms],
      auto simp: stack_limits opJump_def opJumpi_def opJumpdest_def opBeginSub_def opReturnSub_def opStop_def opPop_def
        opPush1_def makePush_def Let_def vm_panics_def intro!: jump_to_ok split: list.split)+

lemma opJumpSub_ok:
  assumes "env_ok env"
  shows "ex_ok env b opJumpSub (minStack 1 0) (maxStack 1 0) None wr cont"
proof (rule ex_okI [OF assms])
  fix calls :: "'a vm_calls" and vm :: "'a vm"
  assume *: "keeps env vm vm" "length (vm_stack vm) \<le> 1024" "minStack 1 0 \<le> int (length (vm_stack vm))"
  obtain x r where st: "vm_stack vm = x # r" using *(3) by (cases "vm_stack vm") (auto simp: stack_limits)
  have "plain env vm (obind (validJumpSubdest (vm_contract vm) (evm_jumpdests (vm_evm vm)) p) (\<lambda>(valid, c, jd).
      let vm = set_analysis (vm\<lparr>vm_stack := r\<rparr>) c jd
      in if \<not> valid then fails ErrInvalidJump vm
         else finish (vm\<lparr>vm_rstack := ucast (vm_pc vm) # vm_rstack vm, vm_pc := p + 1\<rparr>)))" for p
    unfolding plain_simps by (rule post_mono [OF valid_post(2)]) (use * st in \<open>auto simp: Let_def set_analysis_def\<close>)
  then show "plain env vm (opJumpSub env calls vm)"
    using * st by (simp add: opJumpSub_def Let_def)
qed

lemma stack_moves_ok:
  assumes "env_ok env" "0 < n"
  shows "ex_ok env b (makeDup n) (minDupStack (int n)) (maxDupStack (int n)) None wr cont"
    "ex_ok env b (makeSwap n) (minSwapStack (int n + 1)) (maxSwapStack (int n + 1)) None wr cont"
  by (rule ex_okI [OF assms(1)], use assms(2) in \<open>simp add: stack_limits makeDup_def makeSwap_def st_dup_def st_swap_def\<close>)+

lemma state_writes_ok:
  assumes "env_ok env"
  shows "ex_ok env b opSstore (minStack 2 0) (maxStack 2 0) None True cont"
    "ex_ok env b opSuicide (minStack 1 0) (maxStack 1 0) None True cont"
proof -
  have st: "keeps env v (set_db (v\<lparr>vm_stack := r\<rparr>) (SetState (ve_db env) (vm_db v) a k x))"
    if "keeps env v v" "\<not> static env (vm_evm v)" for v :: "'a vm" and r a k x
    using keeps_set_db [OF that(1) sstep_writes(3) [OF keeps_sstep [OF that(1)] that(2)]] by (simp add: set_db_def)
  show "ex_ok env b opSstore (minStack 2 0) (maxStack 2 0) None True cont"
    by (rule ex_okI [OF assms]) (auto simp: stack_limits opSstore_def Let_def st split: list.split)
  have su: "keeps env v (set_db w (snd (Suicide (ve_db env) (AddBalance (ve_db env) s x y) a)))"
    if "keeps env v w" "\<not> static env (vm_evm v)" "vm_db w = s" for v w :: "'a vm" and s x y a
    unfolding that(3) [symmetric]
    by (rule keeps_set_db [OF that(1) sstep_writes(4) [OF sstep_touches(3) [OF keeps_sstep [OF that(1)]]]]) (use that in auto)
  show "ex_ok env b opSuicide (minStack 1 0) (maxStack 1 0) None True cont"
    by (rule ex_okI [OF assms])
      (auto simp: stack_limits opSuicide_def Let_def intro!: plain_read sstep_reads su split: list.split)
qed

section \<open>Calls\<close>

lemma mem_larger_ok:
  assumes "mem_larger a b = Return (m, False)"
  obtains x y where "a = Return (x, False)" "b = Return (y, False)" "x \<le> m" "y \<le> m"
  using assms by (cases a; cases b) (auto simp: mem_larger_def split: if_splits)

lemma mem_larger_region:
  assumes "uint256 U" "mem_larger (mem_back U st i j) (mem_back U st k l) = Return (m, False)" "unat m \<le> length (mem_store mem)"
    "i < length st" "j < length st" "k < length st" "l < length st"
  shows "region_ok mem (st ! i) (st ! j)" "region_ok mem (st ! k) (st ! l)"
proof -
  obtain x y where xy: "mem_back U st i j = Return (x, False)" "mem_back U st k l = Return (y, False)" "x \<le> m" "y \<le> m"
    by (rule mem_larger_ok [OF assms(2)])
  have "unat x \<le> length (mem_store mem)" "unat y \<le> length (mem_store mem)"
    using xy(3,4) assms(3) by (simp_all add: word_le_nat_alt)
  then show "region_ok mem (st ! i) (st ! j)" "region_ok mem (st ! k) (st ! l)"
    using xy(1,2) assms(4-7) calcMemSize64_region [OF assms(1)] by (auto simp: mem_back_def)
qed

lemma call_regions:
  assumes "uint256 (ve_u env)" "mem_ready env (Some f) vm"
  shows "f = memoryCall \<Longrightarrow> vm_stack vm = g # a # v # x # y # z # w # r \<Longrightarrow>
      region_ok (vm_mem vm) x y \<and> region_ok (vm_mem vm) z w"
    "f \<in> {memoryDelegateCall, memoryStaticCall} \<Longrightarrow> vm_stack vm = g # a # x # y # z # w # r \<Longrightarrow>
      region_ok (vm_mem vm) x y \<and> region_ok (vm_mem vm) z w"
proof -
  obtain m where m: "f (ve_u env) (vm_stack vm) = Return (m, False)" "unat m \<le> length (mem_store (vm_mem vm))"
    using assms(2) by (auto simp: mem_ready_def)
  show "region_ok (vm_mem vm) x y \<and> region_ok (vm_mem vm) z w"
    if "f = memoryCall" "vm_stack vm = g # a # v # x # y # z # w # r"
    using mem_larger_region [OF assms(1) _ m(2), of "vm_stack vm" 5 6 3 4] m(1) that by (simp add: memoryCall_def)
  show "region_ok (vm_mem vm) x y \<and> region_ok (vm_mem vm) z w"
    if "f \<in> {memoryDelegateCall, memoryStaticCall}" "vm_stack vm = g # a # x # y # z # w # r"
    using mem_larger_region [OF assms(1) _ m(2), of "vm_stack vm" 4 5 2 3] m(1) that
    by (auto simp: memoryDelegateCall_def memoryStaticCall_def)
qed

lemma after_call_ok:
  assumes "env_ok env" "call_ok env g (vm_evm vm) res" "region_ok (vm_mem vm) io is" "region_ok (vm_mem vm) ro rs"
    "length (mem_store (vm_mem vm)) \<le> mem_limit" "length (vm_stack vm) \<le> 1023" "unat (vm_gas vm) + unat g < 2 ^ 64"
  shows "vm_post env (\<lambda>(r, vm'). length (vm_stack vm') \<le> 1024 \<and> length (mem_store (vm_mem vm')) = length (mem_store (vm_mem vm))
     \<and> unat (vm_gas vm') \<le> unat (vm_gas vm) + unat g \<and> keeps env vm vm') (after_call env vm io is ro rs res)"
proof -
  note U64 = uint256.Uint64 [OF env_ok_u256 [OF assms(1)]]
  obtain set where set: "mem_Set (vm_mem vm) (ucast ro) (ucast rs) d = Return (set d)"
    "length (mem_store (set d)) = length (mem_store (vm_mem vm))" for d
    using region_set [OF assms(4,5)] by metis
  have get: "\<exists>d. mem_GetPtr m (sint (ucast io :: u64)) (sint (ucast is :: u64)) = Return d"
    if "length (mem_store m) = length (mem_store (vm_mem vm))" for m
    using region_get(1) [of m io "is"] assms(3,5) that by (simp add: region_ok_def)
  have gas: "unat (vm_gas vm + x) \<le> unat (vm_gas vm) + unat g" if "unat x \<le> unat g" for x
    using that assms(7) unat_add_lem [of "vm_gas vm" x] by simp
  show ?thesis
  proof (cases res)
    case (Return q)
    obtain ret x err evm where q: "q = ((ret, x, err), evm)" by (cases q) auto
    have x: "unat x \<le> unat g" and k: "evm_step env (vm_evm vm) evm" using assms(2) Return q by (simp_all add: call_ok_def)
    obtain m where m: "(if err = None \<or> err = Some ErrExecutionReverted
        then mem_Set (vm_mem vm) (ucast ro) (ucast rs) (ret_bytes ret) else Return (vm_mem vm)) = Return m"
      "length (mem_store m) = length (mem_store (vm_mem vm))"
      by (rule that [of "if err = None \<or> err = Some ErrExecutionReverted then set (ret_bytes ret) else vm_mem vm"])
        (simp_all add: set)
    obtain d where d: "mem_GetPtr m (sint (ucast io :: u64)) (sint (ucast is :: u64)) = Return d" using get [OF m(2)] by blast
    have "after_call env vm io is ro rs res = Return ((case ret of Fresh b \<Rightarrow> b | InputSlice _ \<Rightarrow> d, None),
        set_gas (vm\<lparr>vm_stack := (if err \<noteq> None then U_Clear (ve_u env) else U_SetOne (ve_u env)) # vm_stack vm,
          vm_evm := evm, vm_mem := m\<rparr>) (vm_gas vm + x))"
      using m(1) d by (cases ret) (auto simp: after_call_def Let_def Return q U64 set_gas_def split: if_splits)
    then show ?thesis using m(2) k gas [OF x] assms(6) by (simp add: set_gas_def)
  qed (use assms(2) in \<open>simp_all add: after_call_def Let_def call_ok_def\<close>)
qed

lemma stack_cases6: "6 \<le> length st \<Longrightarrow> \<exists>a b c d e f r. st = a # b # c # d # e # f # r"
  by (auto simp: Suc_le_length_iff numeral_eq_Suc)

lemma stack_cases7: "7 \<le> length st \<Longrightarrow> \<exists>a b c d e f g r. st = a # b # c # d # e # f # g # r"
  by (auto simp: Suc_le_length_iff numeral_eq_Suc)

lemma call_gas_stack [simp]: "call_gas env (vm\<lparr>vm_stack := r\<rparr>) v = call_gas env vm v"
  by (simp add: call_gas_def)

lemma call_gas_unat:
  assumes "env_ok env" "unat (evm_callGasTemp (vm_evm vm)) + 2300 < 2 ^ 64 \<or> v = 0"
  shows "unat (call_gas env vm v) = unat (evm_callGasTemp (vm_evm vm)) + (if v \<noteq> 0 then 2300 else 0)"
  using assms(2) unat_add_lem [of "evm_callGasTemp (vm_evm vm)" "2300 :: u64"]
  by (auto simp: call_gas_def uint256.IsZero [OF env_ok_u256 [OF assms(1)]])

text \<open>The common part of the four calls: the arguments are read, the callee is run, the result is written.\<close>

lemma call_instruction_ok:
  assumes "env_ok env" "frame_ok vm" "length (vm_stack vm) = length r + Suc n" "region_ok (vm_mem vm) io is"
    "region_ok (vm_mem vm) ro rs" "unat g = reserve b vm" "unat (vm_gas vm) + reserve b vm < G" "G \<le> 2 ^ 64"
    "\<And>args. call_ok env g (vm_evm vm) (call args)"
  shows "vm_post env (\<lambda>(x, vm'). exec_post env b vm vm')
    (obind (call_args env (vm\<lparr>vm_stack := r\<rparr>) io is) (\<lambda>args. after_call env (vm\<lparr>vm_stack := r\<rparr>) io is ro rs (call args)))"
proof -
  have lim: "length (mem_store (vm_mem vm)) \<le> mem_limit" "length r \<le> 1023" using assms(2,3) by (auto simp: frame_ok_def)
  have "\<exists>d. call_args env (vm\<lparr>vm_stack := r\<rparr>) io is = Return d"
    using region_get(1) [OF assms(4) lim(1)] by (simp add: call_args_def uint256.Uint64 [OF env_ok_u256 [OF assms(1)]])
  then obtain d where d: "call_args env (vm\<lparr>vm_stack := r\<rparr>) io is = Return d" by blast
  show ?thesis
    unfolding d obind.simps
    by (rule post_mono [OF after_call_ok [of env g _ _ io "is" ro rs]])
      (use assms lim in \<open>auto simp: exec_post_def\<close>)
qed

lemma opCall_ok:
  assumes "env_ok env"
  shows "ex_ok env OP_CALL opCall (minStack 7 1) (maxStack 7 1) (Some memoryCall) wr True"
  unfolding ex_ok_def
proof (intro allI impI)
  fix G and calls :: "'a vm_calls" and vm :: "'a vm"
  assume *: "frame_ok vm" "state_inv (ve_db env) (vm_db vm)" "minStack 7 1 \<le> int (length (vm_stack vm))"
    "mem_ready env (Some memoryCall) vm" "calls_ok env G calls" "True \<longrightarrow> unat (vm_gas vm) + reserve OP_CALL vm < G" "G \<le> 2 ^ 64"
    "static env (vm_evm vm) \<longrightarrow> \<not> wr \<and> (OP_CALL = OP_CALL \<longrightarrow> vm_stack vm ! 2 = 0)"
  note U = env_ok_u256 [OF assms]
  obtain t a v io "is" ro rs r where st: "vm_stack vm = t # a # v # io # is # ro # rs # r"
    using stack_cases7 [of "vm_stack vm"] *(3) by (auto simp: stack_limits)
  have G: "unat (vm_gas vm) + reserve OP_CALL vm < G" using *(6) by simp
  have g: "unat (call_gas env vm v) = reserve OP_CALL vm"
    using call_gas_unat [OF assms, of vm v] G *(7) by (simp add: reserve_def st split: if_splits)
  have reg: "region_ok (vm_mem vm) io is" "region_ok (vm_mem vm) ro rs" using call_regions(1) [OF U *(4) _ st] by simp_all
  have "call_ok env (call_gas env vm v) (vm_evm vm)
      (call_Call calls (ContractPtr c) addr args (call_gas env vm v) (big_value (ve_u env) v) (vm_evm vm))" for c addr args
    using *(2,5,8) g G st by (simp add: calls_ok_def vm_db_def big_value_def uint256.IsZero [OF U])
  then show "vm_post env (\<lambda>(x, vm'). exec_post env OP_CALL vm vm') (opCall env calls vm)"
    using call_instruction_ok [OF assms *(1) _ reg g G *(7), of r 6] st
    by (simp add: opCall_def Let_def vm_caller_def)
qed

lemma opCallCode_ok:
  assumes "env_ok env"
  shows "ex_ok env OP_CALLCODE opCallCode (minStack 7 1) (maxStack 7 1) (Some memoryCall) wr True"
  unfolding ex_ok_def
proof (intro allI impI)
  fix G and calls :: "'a vm_calls" and vm :: "'a vm"
  assume *: "frame_ok vm" "state_inv (ve_db env) (vm_db vm)" "minStack 7 1 \<le> int (length (vm_stack vm))"
    "mem_ready env (Some memoryCall) vm" "calls_ok env G calls" "True \<longrightarrow> unat (vm_gas vm) + reserve OP_CALLCODE vm < G" "G \<le> 2 ^ 64"
  note U = env_ok_u256 [OF assms]
  obtain t a v io "is" ro rs r where st: "vm_stack vm = t # a # v # io # is # ro # rs # r"
    using stack_cases7 [of "vm_stack vm"] *(3) by (auto simp: stack_limits)
  have G: "unat (vm_gas vm) + reserve OP_CALLCODE vm < G" using *(6) by simp
  have g: "unat (call_gas env vm v) = reserve OP_CALLCODE vm"
    using call_gas_unat [OF assms, of vm v] G *(7) by (simp add: reserve_def st split: if_splits)
  have reg: "region_ok (vm_mem vm) io is" "region_ok (vm_mem vm) ro rs" using call_regions(1) [OF U *(4) _ st] by simp_all
  have "call_ok env (call_gas env vm v) (vm_evm vm)
      (call_CallCode calls (ContractPtr c) addr args (call_gas env vm v) (big_value (ve_u env) v) (vm_evm vm))" for c addr args
    using *(2,5) g G by (simp add: calls_ok_def vm_db_def)
  then show "vm_post env (\<lambda>(x, vm'). exec_post env OP_CALLCODE vm vm') (opCallCode env calls vm)"
    using call_instruction_ok [OF assms *(1) _ reg g G *(7), of r 6] st
    by (simp add: opCallCode_def Let_def vm_caller_def)
qed

lemma delegate_static_ok:
  assumes "env_ok env"
  shows "ex_ok env OP_DELEGATECALL opDelegateCall (minStack 6 1) (maxStack 6 1) (Some memoryDelegateCall) wr True"
    "ex_ok env OP_STATICCALL opStaticCall (minStack 6 1) (maxStack 6 1) (Some memoryStaticCall) wr True"
proof -
  note U = env_ok_u256 [OF assms]
  have stack: "\<exists>t a io is ro rs r. vm_stack vm = t # a # io # is # ro # rs # r \<and> region_ok (vm_mem vm) io is \<and> region_ok (vm_mem vm) ro rs"
    if "minStack 6 1 \<le> int (length (vm_stack vm))" "mem_ready env (Some f) vm" "f \<in> {memoryDelegateCall, memoryStaticCall}"
    for vm :: "'a vm" and f
    using stack_cases6 [of "vm_stack vm"] that(1) call_regions(2) [OF U that(2,3)] by (fastforce simp: stack_limits)
  have temp: "unat (evm_callGasTemp (vm_evm vm)) = reserve b vm" if "b \<in> {OP_DELEGATECALL, OP_STATICCALL}" for b and vm :: "'a vm"
    using that by (auto simp: reserve_def)
  show "ex_ok env OP_DELEGATECALL opDelegateCall (minStack 6 1) (maxStack 6 1) (Some memoryDelegateCall) wr True"
    unfolding ex_ok_def
  proof (intro allI impI)
    fix G and calls :: "'a vm_calls" and vm :: "'a vm"
    assume *: "frame_ok vm" "state_inv (ve_db env) (vm_db vm)" "minStack 6 1 \<le> int (length (vm_stack vm))"
      "mem_ready env (Some memoryDelegateCall) vm" "calls_ok env G calls"
      "True \<longrightarrow> unat (vm_gas vm) + reserve OP_DELEGATECALL vm < G" "G \<le> 2 ^ 64"
    obtain t a io "is" ro rs r where st: "vm_stack vm = t # a # io # is # ro # rs # r"
      "region_ok (vm_mem vm) io is" "region_ok (vm_mem vm) ro rs" using stack [OF *(3,4)] by auto
    have g: "unat (evm_callGasTemp (vm_evm vm)) = reserve OP_DELEGATECALL vm" by (rule temp) simp
    show "vm_post env (\<lambda>(x, vm'). exec_post env OP_DELEGATECALL vm vm') (opDelegateCall env calls vm)"
      using call_instruction_ok [OF assms *(1) _ st(2,3) g _ *(7), of r 5] *(2,5,6) st(1) g
      by (simp add: opDelegateCall_def Let_def vm_caller_def calls_ok_def vm_db_def)
  qed
  show "ex_ok env OP_STATICCALL opStaticCall (minStack 6 1) (maxStack 6 1) (Some memoryStaticCall) wr True"
    unfolding ex_ok_def
  proof (intro allI impI)
    fix G and calls :: "'a vm_calls" and vm :: "'a vm"
    assume *: "frame_ok vm" "state_inv (ve_db env) (vm_db vm)" "minStack 6 1 \<le> int (length (vm_stack vm))"
      "mem_ready env (Some memoryStaticCall) vm" "calls_ok env G calls"
      "True \<longrightarrow> unat (vm_gas vm) + reserve OP_STATICCALL vm < G" "G \<le> 2 ^ 64"
    obtain t a io "is" ro rs r where st: "vm_stack vm = t # a # io # is # ro # rs # r"
      "region_ok (vm_mem vm) io is" "region_ok (vm_mem vm) ro rs" using stack [OF *(3,4)] by auto
    have g: "unat (evm_callGasTemp (vm_evm vm)) = reserve OP_STATICCALL vm" by (rule temp) simp
    show "vm_post env (\<lambda>(x, vm'). exec_post env OP_STATICCALL vm vm') (opStaticCall env calls vm)"
      using call_instruction_ok [OF assms *(1) _ st(2,3) g _ *(7), of r 5] *(2,5,6) st(1) g
      by (simp add: opStaticCall_def Let_def vm_caller_def calls_ok_def vm_db_def)
  qed
qed

section \<open>Creations\<close>

lemma after_create_ok:
  assumes "create_ok env g (vm_evm vm) res" "length (vm_stack vm) \<le> 1023" "unat (vm_gas vm) + unat g < 2 ^ 64"
  shows "vm_post env (\<lambda>(r, vm'). length (vm_stack vm') \<le> 1024 \<and> mem_store (vm_mem vm') = mem_store (vm_mem vm)
     \<and> unat (vm_gas vm') \<le> unat (vm_gas vm) + unat g \<and> keeps env vm vm') (after_create env failed vm res)"
proof -
  have gas: "unat (vm_gas vm + x) \<le> unat (vm_gas vm) + unat g" if "unat x \<le> unat g" for x
    using that assms(3) unat_add_lem [of "vm_gas vm" x] by simp
  show ?thesis
    using assms(1,2) gas unfolding create_ok_def after_create_def post_obind
    by (elim post_mono) (auto simp: Let_def set_gas_def)
qed

lemma create_instruction_ok:
  assumes "frame_ok vm" "length (vm_stack vm) = length r + Suc n" "unat g \<le> unat (vm_gas vm)"
    "create_ok env g (vm_evm vm) res" "reserve b vm = 0"
  shows "vm_post env (\<lambda>(x, vm'). exec_post env b vm vm')
    (after_create env failed (vm\<lparr>vm_stack := r, vm_contract := snd (UseGas (vm_contract vm) g)\<rparr>) res)"
proof -
  let ?vm = "vm\<lparr>vm_stack := r, vm_contract := snd (UseGas (vm_contract vm) g)\<rparr>"
  have gas: "unat (vm_gas ?vm) + unat g = unat (vm_gas vm)"
    using assms(3) by (auto simp: UseGas_def word_less_nat_alt word_le_nat_alt unat_sub)
  have "unat (vm_gas vm) < 2 ^ 64" using unsigned_less [of "vm_gas vm"] by simp
  then show ?thesis
    by (intro post_mono [OF after_create_ok [of env g]]) (use assms gas in \<open>auto simp: exec_post_def frame_ok_def\<close>)
qed

lemma sub_div_le: "unat ((g :: u64) - g div 64) \<le> unat g"
proof -
  have "unat (g div 64) \<le> unat g" by (simp add: unat_div)
  then show ?thesis by (simp add: unat_sub word_le_nat_alt)
qed

lemma creates_ok:
  assumes "env_ok env"
  shows "ex_ok env OP_CREATE opCreate (minStack 3 1) (maxStack 3 1) (Some memoryCreate) True True"
    "ex_ok env OP_CREATE2 opCreate2 (minStack 4 1) (maxStack 4 1) (Some memoryCreate2) True True"
proof -
  note U = env_ok_u256 [OF assms]
  note get = region_get(2) [OF regions(4) [OF U]]
  have res: "reserve OP_CREATE vm = 0" "reserve OP_CREATE2 vm = 0" for vm :: "'a vm" by (simp_all add: reserve_def)
  show "ex_ok env OP_CREATE opCreate (minStack 3 1) (maxStack 3 1) (Some memoryCreate) True True"
    unfolding ex_ok_def
  proof (intro allI impI)
    fix G and calls :: "'a vm_calls" and vm :: "'a vm"
    assume *: "frame_ok vm" "state_inv (ve_db env) (vm_db vm)" "minStack 3 1 \<le> int (length (vm_stack vm))"
      "mem_ready env (Some memoryCreate) vm" "calls_ok env G calls" "True \<longrightarrow> unat (vm_gas vm) + reserve OP_CREATE vm < G"
      "static env (vm_evm vm) \<longrightarrow> \<not> True \<and> (OP_CREATE = OP_CALL \<longrightarrow> vm_stack vm ! 2 = 0)"
    obtain v off n r where st: "vm_stack vm = v # off # n # r"
      using *(3) by (auto simp: stack_limits Suc_le_length_iff numeral_eq_Suc)
    let ?g = "if rIsEIP150 (ve_rules env) then vm_gas vm - vm_gas vm div 64 else vm_gas vm"
    have g: "unat ?g \<le> unat (vm_gas vm)" using sub_div_le by auto
    have "create_ok env ?g (vm_evm vm) (call_Create calls (ContractPtr c) i ?g x (vm_evm vm))" for c i x
      using *(2,5,6,7) g by (auto simp: calls_ok_def vm_db_def)
    then show "vm_post env (\<lambda>(x, vm'). exec_post env OP_CREATE vm vm') (opCreate env calls vm)"
      using create_instruction_ok [OF *(1) _ g _ res(1), of r 2] get [OF *(4) _ st] *(1) st
      by (simp add: opCreate_def Let_def uint256.Uint64 [OF U] vm_caller_def frame_ok_def)
  qed
  show "ex_ok env OP_CREATE2 opCreate2 (minStack 4 1) (maxStack 4 1) (Some memoryCreate2) True True"
    unfolding ex_ok_def
  proof (intro allI impI)
    fix G and calls :: "'a vm_calls" and vm :: "'a vm"
    assume *: "frame_ok vm" "state_inv (ve_db env) (vm_db vm)" "minStack 4 1 \<le> int (length (vm_stack vm))"
      "mem_ready env (Some memoryCreate2) vm" "calls_ok env G calls" "True \<longrightarrow> unat (vm_gas vm) + reserve OP_CREATE2 vm < G"
      "static env (vm_evm vm) \<longrightarrow> \<not> True \<and> (OP_CREATE2 = OP_CALL \<longrightarrow> vm_stack vm ! 2 = 0)"
    obtain v off n salt r where st: "vm_stack vm = v # off # n # salt # r"
      using *(3) by (auto simp: stack_limits Suc_le_length_iff numeral_eq_Suc)
    let ?g = "vm_gas vm - vm_gas vm div 64"
    have "create_ok env ?g (vm_evm vm) (call_Create2 calls (ContractPtr c) i ?g x salt (vm_evm vm))" for c i x
      using *(2,5,6,7) sub_div_le [of "vm_gas vm"] by (auto simp: calls_ok_def vm_db_def)
    then show "vm_post env (\<lambda>(x, vm'). exec_post env OP_CREATE2 vm vm') (opCreate2 env calls vm)"
      using create_instruction_ok [OF *(1) _ sub_div_le _ res(2), of r 3] get [OF *(4) _ st] *(1) st
      by (simp add: opCreate2_def Let_def uint256.Uint64 [OF U] vm_caller_def frame_ok_def)
  qed
qed

end
