(* ===== verification/VM_Table_Safety.thy ===== *)
theory VM_Table_Safety
  imports VM_Exec_Safety
begin

text \<open>
  The tables: every operation of every instruction set has the stack limits, the memory function and the price that
  its execution function relies on, and pays for going on.
\<close>

section \<open>Operations\<close>

abbreviation call_opcodes :: "byte set" where
  "call_opcodes \<equiv> {OP_CALL, OP_CALLCODE, OP_DELEGATECALL, OP_STATICCALL}"

definition exec_ok :: "'t vm_env \<Rightarrow> byte \<Rightarrow> 't operation \<Rightarrow> bool" where
  "exec_ok env b op =
     (ex_ok env b (op_execute op) (op_minStack op) (op_maxStack op) (op_memorySize op) (op_writes op)
        (\<not> op_halts op \<and> \<not> op_reverts op)
      \<and> int (need b) \<le> op_minStack op \<and> (b \<in> {OP_SSTORE, OP_SELFDESTRUCT} \<longrightarrow> op_writes op)
      \<and> (\<forall>f. op_memorySize op = Some f \<longrightarrow> uses_memory b \<and> (\<forall>st. need b \<le> length st \<longrightarrow> (\<exists>r. f (ve_u env) st = Return r))))"

definition op_ok :: "'t vm_env \<Rightarrow> byte \<Rightarrow> 't operation \<Rightarrow> bool" where
  "op_ok env b op = (exec_ok env b op \<and> gas_ok env b op)"

definition table_exec :: "'t vm_env \<Rightarrow> 't JumpTable \<Rightarrow> bool" where
  "table_exec env jt = (\<forall>b op. jt b = Some op \<longrightarrow> exec_ok env b op)"

definition table_gas :: "'t vm_env \<Rightarrow> 't JumpTable \<Rightarrow> bool" where
  "table_gas env jt = (\<forall>b op. jt b = Some op \<longrightarrow> gas_ok env b op)"

lemma table_exec_updates:
  assumes "table_exec env jt"
  shows "table_exec env (set_constantGas b g jt)" "table_exec env (set_dynamicGas b f jt)"
    "exec_ok env b op \<Longrightarrow> table_exec env (jt(b \<mapsto> op))"
  using assms by (auto simp: table_exec_def set_constantGas_def set_dynamicGas_def exec_ok_def split: if_splits)

lemma gas_ok_updates:
  "gas_ok env b op \<Longrightarrow> g \<noteq> 0 \<Longrightarrow> gas_ok env b (op\<lparr>op_constantGas := g\<rparr>)"
  "dyn_ok env b d f \<Longrightarrow> 0 < d + unat g \<Longrightarrow> gas_ok env b (op\<lparr>op_constantGas := g, op_dynamicGas := Some f\<rparr>)"
  "dyn_ok env b d f \<Longrightarrow> 0 < d \<Longrightarrow> gas_ok env b (op\<lparr>op_dynamicGas := Some f\<rparr>)"
  by (cases "op_dynamicGas op"; use unat_gt_0 [of g] in \<open>auto simp: gas_ok_def\<close>)+

lemma table_gas_updates:
  assumes "table_gas env jt"
  shows "g \<noteq> 0 \<Longrightarrow> table_gas env (set_constantGas b g jt)"
    "gas_ok env b op \<Longrightarrow> table_gas env (jt(b \<mapsto> op))"
    "dyn_ok env b d f \<Longrightarrow> 0 < d + unat g \<Longrightarrow> table_gas env (set_dynamicGas b f (set_constantGas b g jt))"
    "dyn_ok env b d f \<Longrightarrow> 0 < d \<Longrightarrow> table_gas env (set_dynamicGas b f jt)"
  using assms
  by (auto simp: table_gas_def set_constantGas_def set_dynamicGas_def
    intro: gas_ok_updates(1) gas_ok_updates(2) [of env b d] gas_ok_updates(3) split: if_splits)

lemma table_map_of:
  "list_all (\<lambda>(b, op). op_ok env b op) xs \<Longrightarrow> table_exec env (map_of xs) \<and> table_gas env (map_of xs)"
  by (auto simp: table_exec_def table_gas_def list_all_iff op_ok_def dest!: map_of_SomeD)

text \<open>An operation with a constant price only.\<close>

lemma new_op_ok:
  assumes "ex_ok env b ex mn mx None False True" "int (need b) \<le> mn" "g \<noteq> 0"
    "b \<notin> {OP_SSTORE, OP_SELFDESTRUCT}" "\<not> uses_memory b" "b \<notin> call_opcodes"
  shows "op_ok env b (new_op ex g mn mx)"
  using assms by (simp add: op_ok_def exec_ok_def gas_ok_def new_op_def)

lemma jump_op_ok:
  assumes "ex_ok env b ex mn mx None False True" "int (need b) \<le> mn" "g \<noteq> 0"
    "b \<notin> {OP_SSTORE, OP_SELFDESTRUCT}" "\<not> uses_memory b" "b \<notin> call_opcodes"
  shows "op_ok env b ((new_op ex g mn mx)\<lparr>op_jumps := True\<rparr>)"
  using assms by (simp add: op_ok_def exec_ok_def gas_ok_def new_op_def)

text \<open>An operation with a dynamic price and a memory function.\<close>

lemma memory_op_ok:
  assumes "ex_ok env b (op_execute op) (op_minStack op) (op_maxStack op) (Some mf) (op_writes op) (\<not> op_halts op \<and> \<not> op_reverts op)"
    "op_memorySize op = Some mf" "op_dynamicGas op = Some f" "dyn_ok env b d f"
    "op_halts op \<or> op_reverts op \<or> 0 < d + unat (op_constantGas op)" "int (need b) \<le> op_minStack op"
    "b \<notin> {OP_SSTORE, OP_SELFDESTRUCT}" "uses_memory b" "\<And>st. need b \<le> length st \<Longrightarrow> \<exists>r. mf (ve_u env) st = Return r"
  shows "op_ok env b op"
  using assms by (auto simp: op_ok_def exec_ok_def gas_ok_def)

text \<open>An operation with a dynamic price and no memory function, or that halts.\<close>

lemma priced_op_ok:
  assumes "ex_ok env b (op_execute op) (op_minStack op) (op_maxStack op) None (op_writes op) (\<not> op_halts op \<and> \<not> op_reverts op)"
    "op_memorySize op = None" "op_dynamicGas op = Some f" "dyn_ok env b d f"
    "op_halts op \<or> op_reverts op \<or> 0 < d + unat (op_constantGas op)" "int (need b) \<le> op_minStack op"
    "b \<in> {OP_SSTORE, OP_SELFDESTRUCT} \<longrightarrow> op_writes op"
  shows "op_ok env b op"
  using assms by (auto simp: op_ok_def exec_ok_def gas_ok_def)

lemma new_op_sel [simp]:
  "op_execute (new_op ex g mn mx) = ex" "op_constantGas (new_op ex g mn mx) = g" "op_dynamicGas (new_op ex g mn mx) = None"
  "op_minStack (new_op ex g mn mx) = mn" "op_maxStack (new_op ex g mn mx) = mx" "op_memorySize (new_op ex g mn mx) = None"
  "\<not> op_halts (new_op ex g mn mx)" "\<not> op_jumps (new_op ex g mn mx)" "\<not> op_writes (new_op ex g mn mx)"
  "\<not> op_reverts (new_op ex g mn mx)" "\<not> op_returns (new_op ex g mn mx)"
  by (simp_all add: new_op_def)

lemma halt_op_ok:
  assumes "ex_ok env b ex mn mx None False False" "int (need b) \<le> mn"
    "b \<notin> {OP_SSTORE, OP_SELFDESTRUCT}" "\<not> uses_memory b" "b \<notin> call_opcodes"
  shows "op_ok env b ((new_op ex g mn mx)\<lparr>op_halts := True\<rparr>)"
  using assms by (simp add: op_ok_def exec_ok_def gas_ok_def new_op_def)

lemma memory_functions_total:
  "2 \<le> length st \<Longrightarrow> \<exists>x y. memorySha3 U st = Return (x, y)"
  "2 \<le> length st \<Longrightarrow> \<exists>x y. memoryReturn U st = Return (x, y)"
  "2 \<le> length st \<Longrightarrow> \<exists>x y. memoryRevert U st = Return (x, y)"
  "2 \<le> length st \<Longrightarrow> \<exists>x y. memoryLog U st = Return (x, y)"
  "3 \<le> length st \<Longrightarrow> \<exists>x y. memoryCallDataCopy U st = Return (x, y)"
  "3 \<le> length st \<Longrightarrow> \<exists>x y. memoryCodeCopy U st = Return (x, y)"
  "3 \<le> length st \<Longrightarrow> \<exists>x y. memoryReturnDataCopy U st = Return (x, y)"
  "3 \<le> length st \<Longrightarrow> \<exists>x y. memoryCreate U st = Return (x, y)"
  "4 \<le> length st \<Longrightarrow> \<exists>x y. memoryCreate2 U st = Return (x, y)"
  "4 \<le> length st \<Longrightarrow> \<exists>x y. memoryExtCodeCopy U st = Return (x, y)"
  "Suc 0 \<le> length st \<Longrightarrow> \<exists>x y. memoryMLoad U st = Return (x, y)"
  "2 \<le> length st \<Longrightarrow> \<exists>x y. memoryMStore U st = Return (x, y)"
  "2 \<le> length st \<Longrightarrow> \<exists>x y. memoryMStore8 U st = Return (x, y)"
  "6 \<le> length st \<Longrightarrow> \<exists>x y. memoryDelegateCall U st = Return (x, y)"
  "6 \<le> length st \<Longrightarrow> \<exists>x y. memoryStaticCall U st = Return (x, y)"
  "7 \<le> length st \<Longrightarrow> \<exists>x y. memoryCall U st = Return (x, y)"
  by (auto simp: memory_size_defs mem_back_def mem_back_uint_def mem_larger_def Back_def split_beta)

section \<open>The instruction sets\<close>

lemmas opcode_simps = need_def uses_memory_def stack_limits

lemmas stack_op_defs = opAdd_def opSub_def opMul_def opDiv_def opSdiv_def opMod_def opSmod_def opExp_def opSignExtend_def
  opNot_def opLt_def opGt_def opSlt_def opSgt_def opEq_def opIszero_def opAnd_def opOr_def opXor_def opByte_def opAddmod_def
  opMulmod_def opSHL_def opSHR_def opSAR_def opAddress_def opOrigin_def opCaller_def opCallValue_def opCallDataSize_def
  opReturnDataSize_def opCodeSize_def opGasprice_def opCoinbase_def opTimestamp_def opNumber_def opDifficulty_def
  opGasLimit_def opChainID_def opPc_def opMsize_def opGas_def

lemma exp_dyn_ok: "env_ok env \<Longrightarrow> dyn_ok env OP_EXP 1 gasExpFrontier" "env_ok env \<Longrightarrow> dyn_ok env OP_EXP 1 gasExpEIP158"
  unfolding gasExpFrontier_def gasExpEIP158_def
  by (rule dyn_okI; use exp_gas_ok in \<open>force simp: opcode_simps\<close>)+

lemma frontier_arithmetic_ok:
  assumes "env_ok env"
  shows "list_all (\<lambda>(b, op). op_ok env b op) frontier_arithmetic"
proof -
  have e: "op_ok env OP_EXP ((new_op opExp 0 (minStack 2 1) (maxStack 2 1))\<lparr>op_dynamicGas := Some gasExpFrontier\<rparr>)"
    by (rule priced_op_ok [OF _ _ _ exp_dyn_ok(1) [OF assms]], simp add: opExp_def stack_ops_ok [OF assms])
      (simp_all add: opcode_simps)
  have h: "op_ok env OP_STOP ((new_op opStop 0 (minStack 0 0) (maxStack 0 0))\<lparr>op_halts := True\<rparr>)"
    by (rule halt_op_ok, rule jumps_ok [OF assms]) (simp_all add: opcode_simps)
  show ?thesis
    unfolding frontier_arithmetic_def list.pred_inject split_conv stack_op_defs
    by (intro conjI; (rule h e [unfolded stack_op_defs] | rule list.pred_inject | (rule new_op_ok, rule stack_ops_ok [OF assms], simp_all add: opcode_simps)))
qed

lemma copy_dyn_ok:
  assumes "env_ok env"
  shows "dyn_ok env OP_CALLDATACOPY 0 gasCallDataCopy" "dyn_ok env OP_CODECOPY 0 gasCodeCopy"
    "dyn_ok env OP_RETURNDATACOPY 0 gasReturnDataCopy" "dyn_ok env OP_EXTCODECOPY 0 gasExtCodeCopy"
  unfolding gasCallDataCopy_def gasCodeCopy_def gasReturnDataCopy_def gasExtCodeCopy_def
  by (rule dyn_okI [OF assms]; (simp; fail | rule price_ok_mono [OF memoryCopierGas_ok], simp_all add: opcode_simps))+

lemma word_dyn_ok:
  assumes "env_ok env"
  shows "dyn_ok env OP_SHA3 0 gasSha3" "dyn_ok env OP_CREATE2 0 gasCreate2"
  unfolding gasSha3_def gasCreate2_def
  by (rule dyn_okI [OF assms]; (simp; fail | rule price_ok_mono [OF word_gas_ok], simp_all add: opcode_simps))+

lemma memory_dyn_ok:
  assumes "env_ok env" "b \<notin> call_opcodes"
  shows "dyn_ok env b 0 pureMemoryGascost"
  by (rule dyn_okI [OF assms]; (rule price_ok_mono [OF pureMemoryGascost_ok], simp_all))

lemma log_dyn_ok:
  assumes "env_ok env" "b \<in> {0xa0, 0xa1, 0xa2, 0xa3, 0xa4}"
  shows "dyn_ok env b 1 (makeGasLog n)"
  by (intro dyn_okI [OF assms(1)])
    (use assms(2) in force, rule price_ok_mono [OF makeGasLog_ok], use assms(2) in \<open>auto simp: opcode_simps\<close>)

lemmas dyn_oks = exp_dyn_ok copy_dyn_ok word_dyn_ok memory_dyn_ok log_dyn_ok gasSStore_ok

text \<open>The entries that use the memory.\<close>

lemma memory_entry_ok:
  assumes "ex_ok env b ex mn mx (Some mf) False True" "dyn_ok env b d f" "g \<noteq> 0" "int (need b) \<le> mn"
    "b \<notin> {OP_SSTORE, OP_SELFDESTRUCT}" "uses_memory b" "\<And>st. need b \<le> length st \<Longrightarrow> \<exists>r. mf (ve_u env) st = Return r"
  shows "op_ok env b ((new_op ex g mn mx)\<lparr>op_dynamicGas := Some f, op_memorySize := Some mf\<rparr>)"
    "op_ok env b ((new_op ex g mn mx)\<lparr>op_dynamicGas := Some f, op_memorySize := Some mf, op_returns := True\<rparr>)"
proof -
  show "op_ok env b ((new_op ex g mn mx)\<lparr>op_dynamicGas := Some f, op_memorySize := Some mf\<rparr>)"
    by (rule memory_op_ok [OF _ _ _ assms(2)]) (use assms in \<open>simp_all add: unat_gt_0\<close>)
  show "op_ok env b ((new_op ex g mn mx)\<lparr>op_dynamicGas := Some f, op_memorySize := Some mf, op_returns := True\<rparr>)"
    by (rule memory_op_ok [OF _ _ _ assms(2)]) (use assms in \<open>simp_all add: unat_gt_0\<close>)
qed

lemma frontier_environment_ok:
  assumes "env_ok env"
  shows "list_all (\<lambda>(b, op). op_ok env b op) frontier_environment"
  unfolding frontier_environment_def list.pred_inject split_conv stack_op_defs
  by (intro conjI; (rule list.pred_inject
    | (rule new_op_ok, rule stack_ops_ok [OF assms] state_reads_ok [OF assms] opCallDataLoad_ok [OF assms] opBlockhash_ok [OF assms],
       simp_all add: opcode_simps; fail)
    | (rule memory_entry_ok, rule copies_ok [OF assms] memory_reads_ok [OF assms],
       rule copy_dyn_ok [OF assms] word_dyn_ok [OF assms], simp_all add: opcode_simps memory_functions_total)))

lemma frontier_memory_ok:
  assumes "env_ok env"
  shows "list_all (\<lambda>(b, op). op_ok env b op) frontier_memory"
proof -
  have s: "op_ok env OP_SSTORE ((new_op opSstore 0 (minStack 2 0) (maxStack 2 0))\<lparr>op_dynamicGas := Some gasSStore, op_writes := True\<rparr>)"
    by (rule priced_op_ok [OF _ _ _ gasSStore_ok [OF assms]], simp add: state_writes_ok [OF assms]) (simp_all add: opcode_simps)
  show ?thesis
    unfolding frontier_memory_def list.pred_inject split_conv stack_op_defs
    by (intro conjI; (rule list.pred_inject s
      | (rule new_op_ok jump_op_ok, rule stack_ops_ok [OF assms] state_reads_ok [OF assms] jumps_ok [OF assms],
         simp_all add: opcode_simps; fail)
      | (rule memory_entry_ok, rule opMload_ok [OF assms] opMstore_ok [OF assms] opMstore8_ok [OF assms],
         rule memory_dyn_ok [OF assms], simp_all add: opcode_simps memory_functions_total)))
qed

lemma list_all_range: "(\<And>n. i \<le> n \<Longrightarrow> n < j \<Longrightarrow> P (f n)) \<Longrightarrow> list_all P (map f [i..<j])"
  by (auto simp: list_all_iff)

definition plain_opcode :: "byte \<Rightarrow> bool" where
  "plain_opcode b = (need b = 0 \<and> \<not> uses_memory b \<and> b \<notin> call_opcodes \<and> b \<notin> {OP_SSTORE, OP_SELFDESTRUCT})"

lemma plain_range: "0x60 \<le> b \<Longrightarrow> b \<le> 0x9f \<Longrightarrow> plain_opcode b"
  by (auto simp: plain_opcode_def need_def uses_memory_def)

lemma opcode_ranges:
  "2 \<le> n \<Longrightarrow> n < 33 \<Longrightarrow> plain_opcode (OP_PUSH n)" "1 \<le> n \<Longrightarrow> n < 17 \<Longrightarrow> plain_opcode (OP_DUP n)"
  "1 \<le> n \<Longrightarrow> n < 17 \<Longrightarrow> plain_opcode (OP_SWAP n)"
  by (rule plain_range; simp add: word_le_nat_alt unat_word_ariths unat_of_nat)+

lemma log_opcodes: "n < 5 \<Longrightarrow> OP_LOG n \<in> {0xa0, 0xa1, 0xa2, 0xa3, 0xa4}"
  by (auto simp: less_Suc_eq numeral_eq_Suc)

lemma frontier_moves_ok:
  assumes "env_ok env"
  shows "list_all (\<lambda>(b, op). op_ok env b op) frontier_push" "list_all (\<lambda>(b, op). op_ok env b op) frontier_dup"
    "list_all (\<lambda>(b, op). op_ok env b op) frontier_swap"
proof -
  have *: "op_ok env b (new_op ex GasFastestStep mn mx)" if "plain_opcode b" "ex_ok env b ex mn mx None False True" "0 \<le> mn" for b ex mn mx
    by (rule new_op_ok) (use that in \<open>simp_all add: plain_opcode_def\<close>)
  show "list_all (\<lambda>(b, op). op_ok env b op) frontier_push"
    unfolding frontier_push_def
    by (rule list_all_range, unfold split_conv, rule *, erule (1) opcode_ranges, rule jumps_ok [OF assms], simp add: stack_limits)
  show "list_all (\<lambda>(b, op). op_ok env b op) frontier_dup"
    unfolding frontier_dup_def
    by (rule list_all_range, unfold split_conv, rule *, erule (1) opcode_ranges, rule stack_moves_ok [OF assms]) (simp_all add: stack_limits)
  show "list_all (\<lambda>(b, op). op_ok env b op) frontier_swap"
    unfolding frontier_swap_def
    by (rule list_all_range, unfold split_conv, rule *, erule (1) opcode_ranges, rule stack_moves_ok [OF assms]) (simp_all add: stack_limits)
qed

lemma frontier_log_ok:
  assumes "env_ok env"
  shows "list_all (\<lambda>(b, op). op_ok env b op) frontier_log"
proof -
  have "op_ok env (OP_LOG n) ((new_op (makeLog n) 0 (minStack (int n + 2) 0) (maxStack (int n + 2) 0))
       \<lparr>op_dynamicGas := Some (makeGasLog (word_of_nat n)), op_memorySize := Some memoryLog, op_writes := True\<rparr>)"
    if "n < 5" for n
    by (rule memory_op_ok [OF _ _ _ log_dyn_ok [OF assms log_opcodes [OF that]]],
        use memory_reads_ok(4) [OF assms, of "OP_LOG n" n] in simp)
      (use log_opcodes [OF that] in \<open>auto simp: opcode_simps memory_functions_total\<close>)
  then show ?thesis unfolding frontier_log_def by (intro list_all_range) (unfold split_conv)
qed

lemma call_dyn_oks:
  assumes "env_ok env"
  shows "dyn_ok env OP_CALL 0 gasCall" "dyn_ok env OP_CALLCODE 0 gasCallCode" "dyn_ok env OP_DELEGATECALL 0 gasDelegateCall"
    "dyn_ok env OP_STATICCALL 0 gasStaticCall" "dyn_ok env OP_CALL 0 gasCallEIP2929" "dyn_ok env OP_CALLCODE 0 gasCallCodeEIP2929"
    "dyn_ok env OP_DELEGATECALL 0 gasDelegateCallEIP2929" "dyn_ok env OP_STATICCALL 0 gasStaticCallEIP2929"
  unfolding gasCallEIP2929_def gasCallCodeEIP2929_def gasDelegateCallEIP2929_def gasStaticCallEIP2929_def
  by (rule call_gas_dyn_ok [OF assms] call_variant_ok [OF assms]; (rule call_functions_ok [OF assms] | simp))+

lemma frontier_closures_ok:
  assumes "env_ok env"
  shows "list_all (\<lambda>(b, op). op_ok env b op) frontier_closures"
proof -
  note dyn = call_dyn_oks [OF assms]
  have create: "op_ok env OP_CREATE ((new_op opCreate CreateGas (minStack 3 1) (maxStack 3 1))
      \<lparr>op_dynamicGas := Some gasCreate, op_memorySize := Some memoryCreate, op_writes := True, op_returns := True\<rparr>)"
    by (rule memory_op_ok [OF _ _ _ memory_dyn_ok [OF assms]], use creates_ok [OF assms] in simp)
      (simp_all add: opcode_simps memory_functions_total)
  have return: "op_ok env OP_RETURN ((new_op opReturn 0 (minStack 2 0) (maxStack 2 0))
      \<lparr>op_dynamicGas := Some gasReturn, op_memorySize := Some memoryReturn, op_halts := True\<rparr>)"
    by (rule memory_op_ok [OF _ _ _ memory_dyn_ok [OF assms]], use memory_reads_ok [OF assms] in simp)
      (use memory_functions_total(2) in \<open>auto simp: opcode_simps\<close>)
  have suicide: "op_ok env OP_SELFDESTRUCT ((new_op opSuicide 0 (minStack 1 0) (maxStack 1 0))
      \<lparr>op_dynamicGas := Some gasSelfdestruct, op_halts := True, op_writes := True\<rparr>)"
    by (rule priced_op_ok [OF _ _ _ selfdestruct_ok(1) [OF assms]], use state_writes_ok [OF assms] in simp)
      (simp_all add: opcode_simps)
  show ?thesis
    unfolding frontier_closures_def list.pred_inject split_conv
    by (intro conjI; (rule list.pred_inject create return suicide
      | (rule memory_entry_ok, rule opCall_ok [OF assms] opCallCode_ok [OF assms], rule dyn,
         simp_all add: opcode_simps memory_functions_total)))
qed

text \<open>The tables of the forks.\<close>

lemma newFrontier_ok:
  assumes "env_ok env"
  shows "table_exec env newFrontierInstructionSet \<and> table_gas env newFrontierInstructionSet"
  unfolding newFrontierInstructionSet_def
  by (rule table_map_of)
    (simp only: list_all_append frontier_arithmetic_ok [OF assms] frontier_environment_ok [OF assms] frontier_memory_ok [OF assms]
       frontier_moves_ok [OF assms] frontier_log_ok [OF assms] frontier_closures_ok [OF assms] simp_thms)

lemma op_ok_updates:
  assumes "table_exec env jt \<and> table_gas env jt"
  shows "op_ok env b op \<Longrightarrow> table_exec env (jt(b \<mapsto> op)) \<and> table_gas env (jt(b \<mapsto> op))"
    "g \<noteq> 0 \<Longrightarrow> table_exec env (set_constantGas b g jt) \<and> table_gas env (set_constantGas b g jt)"
    "dyn_ok env b d f \<Longrightarrow> 0 < d + unat g \<Longrightarrow>
       table_exec env (set_dynamicGas b f (set_constantGas b g jt)) \<and> table_gas env (set_dynamicGas b f (set_constantGas b g jt))"
    "dyn_ok env b d f \<Longrightarrow> 0 < d \<Longrightarrow> table_exec env (set_dynamicGas b f jt) \<and> table_gas env (set_dynamicGas b f jt)"
  using assms
  by (auto simp: op_ok_def intro: table_exec_updates table_gas_updates(1,2) table_gas_updates(3) [of env jt b d]
    table_gas_updates(4) [of env jt b d])

abbreviation table_ok :: "'t vm_env \<Rightarrow> 't JumpTable \<Rightarrow> bool" where
  "table_ok env jt \<equiv> table_exec env jt \<and> table_gas env jt"

lemma newHomestead_ok: "env_ok env \<Longrightarrow> table_ok env newHomesteadInstructionSet"
  unfolding newHomesteadInstructionSet_def
  by (rule op_ok_updates(1) [OF newFrontier_ok], assumption, rule memory_entry_ok, erule delegate_static_ok, erule call_dyn_oks)
    (simp_all add: opcode_simps memory_functions_total)

lemma newTangerineWhistle_ok: "env_ok env \<Longrightarrow> table_ok env newTangerineWhistleInstructionSet"
  unfolding newTangerineWhistleInstructionSet_def
  by (rule op_ok_updates(2))+ (simp_all add: newHomestead_ok)

lemma newSpuriousDragon_ok: "env_ok env \<Longrightarrow> table_ok env newSpuriousDragonInstructionSet"
  unfolding newSpuriousDragonInstructionSet_def
  by (rule op_ok_updates(4) [OF newTangerineWhistle_ok exp_dyn_ok(2)]) simp_all

lemma newByzantium_ok:
  assumes "env_ok env"
  shows "table_ok env newByzantiumInstructionSet"
proof -
  have revert: "op_ok env OP_REVERT ((new_op opRevert 0 (minStack 2 0) (maxStack 2 0))
      \<lparr>op_dynamicGas := Some gasRevert, op_memorySize := Some memoryRevert, op_reverts := True, op_returns := True\<rparr>)"
    by (rule memory_op_ok [OF _ _ _ memory_dyn_ok [OF assms]], use memory_reads_ok [OF assms] in simp)
      (use memory_functions_total(3) in \<open>auto simp: opcode_simps\<close>)
  have static: "op_ok env OP_STATICCALL ((new_op opStaticCall CallGasEIP150 (minStack 6 1) (maxStack 6 1))
      \<lparr>op_dynamicGas := Some gasStaticCall, op_memorySize := Some memoryStaticCall, op_returns := True\<rparr>)"
    by (rule memory_entry_ok, rule delegate_static_ok [OF assms], rule call_dyn_oks [OF assms])
      (simp_all add: opcode_simps memory_functions_total)
  have size: "op_ok env OP_RETURNDATASIZE (new_op opReturnDataSize GasQuickStep (minStack 0 1) (maxStack 0 1))"
    unfolding opReturnDataSize_def by (rule new_op_ok, rule stack_ops_ok [OF assms]) (simp_all add: opcode_simps)
  have copy: "op_ok env OP_RETURNDATACOPY ((new_op opReturnDataCopy GasFastestStep (minStack 3 0) (maxStack 3 0))
      \<lparr>op_dynamicGas := Some gasReturnDataCopy, op_memorySize := Some memoryReturnDataCopy\<rparr>)"
    by (rule memory_entry_ok, rule opReturnDataCopy_ok [OF assms], rule copy_dyn_ok [OF assms])
      (simp_all add: opcode_simps memory_functions_total)
  show ?thesis
    unfolding newByzantiumInstructionSet_def
    by (intro op_ok_updates(1) revert static size copy newSpuriousDragon_ok assms)
qed

lemma newConstantinople_ok:
  assumes "env_ok env"
  shows "table_ok env newConstantinopleInstructionSet"
proof -
  have shift: "op_ok env b (new_op (bin_op f) GasFastestStep (minStack 2 1) (maxStack 2 1))" if "b \<in> {OP_SHL, OP_SHR, OP_SAR}" for b f
    using that by (intro new_op_ok stack_ops_ok [OF assms]) (auto simp: opcode_simps)
  have codehash: "op_ok env OP_EXTCODEHASH (new_op opExtCodeHash ExtcodeHashGasConstantinople (minStack 1 1) (maxStack 1 1))"
    by (rule new_op_ok, rule state_reads_ok [OF assms]) (simp_all add: opcode_simps)
  have create2: "op_ok env OP_CREATE2 ((new_op opCreate2 Create2Gas (minStack 4 1) (maxStack 4 1))
      \<lparr>op_dynamicGas := Some gasCreate2, op_memorySize := Some memoryCreate2, op_writes := True, op_returns := True\<rparr>)"
    by (rule memory_op_ok [OF _ _ _ word_dyn_ok(2) [OF assms]], use creates_ok [OF assms] in simp)
      (simp_all add: opcode_simps memory_functions_total)
  show ?thesis
    unfolding newConstantinopleInstructionSet_def opSHL_def opSHR_def opSAR_def
    by (intro op_ok_updates(1) shift codehash create2 newByzantium_ok assms) simp_all
qed

lemma newIstanbul_ok:
  assumes "env_ok env" "rIsIstanbul (ve_rules env) \<or> rIsYoloV3 (ve_rules env)"
  shows "table_ok env newIstanbulInstructionSet"
proof -
  have self: "op_ok env OP_SELFBALANCE (new_op opSelfBalance GasFastStep (minStack 0 1) (maxStack 0 1))"
    by (rule new_op_ok, rule state_reads_ok [OF assms(1)]) (simp_all add: opcode_simps)
  have chain: "op_ok env OP_CHAINID (new_op opChainID GasQuickStep (minStack 0 1) (maxStack 0 1))"
    unfolding opChainID_def by (rule new_op_ok, rule stack_ops_ok [OF assms(1)]) (simp_all add: opcode_simps)
  have "table_ok env (enable1884 (enable1344 newConstantinopleInstructionSet))"
    unfolding enable1884_def enable1344_def
    by (intro op_ok_updates(1,2) self chain newConstantinople_ok assms(1)) simp_all
  then show ?thesis
    unfolding newIstanbulInstructionSet_def enable2200_def
    by (intro op_ok_updates(4) [OF _ gasSStoreEIP2200_ok [OF assms]] op_ok_updates(2)) simp_all
qed

lemma newYoloV3_ok:
  assumes "env_ok env" "rIsYoloV3 (ve_rules env)"
  shows "table_ok env newYoloV3InstructionSet"
proof -
  have begin_sub: "op_ok env OP_BEGINSUB (new_op opBeginSub GasQuickStep (minStack 0 0) (maxStack 0 0))"
    by (rule new_op_ok, rule jumps_ok [OF assms(1)]) (simp_all add: opcode_simps)
  have jump_sub: "op_ok env OP_JUMPSUB ((new_op opJumpSub GasSlowStep (minStack 1 0) (maxStack 1 0))\<lparr>op_jumps := True\<rparr>)"
    by (rule jump_op_ok, rule opJumpSub_ok [OF assms(1)]) (simp_all add: opcode_simps)
  have return_sub: "op_ok env OP_RETURNSUB ((new_op opReturnSub GasFastStep (minStack 0 0) (maxStack 0 0))\<lparr>op_jumps := True\<rparr>)"
    by (rule jump_op_ok, rule jumps_ok [OF assms(1)]) (simp_all add: opcode_simps)
  have "table_ok env (enable2315 newIstanbulInstructionSet)"
    unfolding enable2315_def
    by (intro op_ok_updates(1) begin_sub jump_sub return_sub newIstanbul_ok assms(1) disjI2 assms(2))
  then have sstore: "table_ok env (set_dynamicGas OP_SSTORE gasSStoreEIP2929 (enable2315 newIstanbulInstructionSet))"
    by (intro op_ok_updates(4) [OF _ gasSStoreEIP2929_ok [OF assms]]) simp_all
  note set = op_ok_updates(3) and acc = gasEip2929AccountCheck_ok [OF assms(1)] and calls = call_dyn_oks [OF assms(1)]
  have warm: "0 < 0 + unat WarmStorageReadCostEIP2929" "0 < 0 + unat SelfdestructGasEIP150" "0 < 1 + unat (0 :: u64)" by simp_all
  show ?thesis
    unfolding newYoloV3InstructionSet_def enable2929_def
    by (rule set [OF _ selfdestruct_ok(2) [OF assms(1)] warm(2)] set [OF _ calls(7) warm(1)] set [OF _ calls(8) warm(1)]
        set [OF _ calls(6) warm(1)] set [OF _ calls(5) warm(1)] set [OF _ acc warm(1)]
        set [OF _ gasExtCodeCopyEIP2929_ok [OF assms(1)] warm(1)] set [OF _ gasSLoadEIP2929_ok [OF assms(1)] warm(3)] sstore | simp)+
qed

lemma jump_table_ok: "env_ok env \<Longrightarrow> table_ok env (jump_table (ve_rules env))"
  by (simp add: jump_table_def newYoloV3_ok newIstanbul_ok newConstantinople_ok newByzantium_ok newSpuriousDragon_ok
    newTangerineWhistle_ok newHomestead_ok newFrontier_ok)

end
