(* ===== verification/VM_Step_Safety.thy ===== *)
theory VM_Step_Safety
  imports VM_Table_Safety
begin

text \<open>
  A step of the interpreter: the checks that it makes before an instruction are what the instruction relies on, so a
  step ends a frame or goes on with less gas, within the bounds of the stack and of the memory.
\<close>

text \<open>What a step from a frame ensures, where \<open>G\<close> is the gas before it.\<close>

definition step_post :: "'t vm_env \<Rightarrow> nat \<Rightarrow> 't vm \<Rightarrow> 't step_result \<Rightarrow> bool" where
  "step_post env G vm r =
     (case r of
        Continue vm' \<Rightarrow> frame_ok vm' \<and> unat (vm_gas vm') < G \<and> keeps env vm vm'
      | Stop ret err vm' \<Rightarrow> unat (vm_gas vm') \<le> G \<and> keeps env vm vm')"

lemma step_post_trans: "keeps env v vm \<Longrightarrow> step_post env G vm r \<Longrightarrow> step_post env G v r"
  using evm_step_trans by (fastforce simp: step_post_def split: step_result.splits)

lemma write_protected_ok:
  assumes "env_ok env" "exec_ok env b op" "op_minStack op \<le> int (length (vm_stack vm))"
  obtains p where "write_protected env b op vm = Return p"
    "\<not> p \<Longrightarrow> static env (vm_evm vm) \<Longrightarrow> \<not> op_writes op \<and> (b = OP_CALL \<longrightarrow> vm_stack vm ! 2 = 0)"
proof -
  have n: "2 < length (vm_stack vm)" if "b = OP_CALL" using assms(2,3) that by (simp add: exec_ok_def need_def)
  show ?thesis
  proof (cases "static env (vm_evm vm) \<and> \<not> op_writes op \<and> b = OP_CALL")
    case True
    then show ?thesis
      using that [of "vm_stack vm ! 2 \<noteq> 0"] n uint256.Sign [OF env_ok_u256 [OF assms(1)]]
      by (auto simp: write_protected_def static_def)
  next
    case False
    then have "write_protected env b op vm = Return (static env (vm_evm vm) \<and> op_writes op)"
      by (auto simp: write_protected_def static_def)
    then show ?thesis using that False by blast
  qed
qed

lemma toWordSize_covers:
  assumes "SafeMul (toWordSize m) 32 = (n, False)"
  shows "unat m \<le> unat n"
proof -
  have n: "unat n = unat (toWordSize m) * 32" using conjunct2 [OF iffD1 [OF SafeMul_unat assms]] by simp
  show ?thesis
  proof (cases "0xFFFFFFFFFFFFFFFF - 31 < m")
    case True
    then show ?thesis using n unsigned_less [of n, where ?'a = nat] by (simp add: toWordSize_def)
  next
    case False
    then have "unat m \<le> 0xFFFFFFFFFFFFFFE0" by (simp add: word_less_nat_alt)
    then have "unat (m + 31) = unat m + 31" using unat_add_lem [of m 31] by simp
    then show ?thesis using n False by (simp add: toWordSize_def unat_div)
  qed
qed

lemma memory_size_ok:
  assumes "exec_ok env b op" "op_minStack op \<le> int (length (vm_stack vm))"
  obtains sz where "memory_size env op vm = Return sz"
    "\<And>n f. sz = Some n \<Longrightarrow> op_memorySize op = Some f \<Longrightarrow> \<exists>m. f (ve_u env) (vm_stack vm) = Return (m, False) \<and> unat m \<le> unat n"
    "\<And>n. sz = Some n \<Longrightarrow> op_memorySize op = None \<Longrightarrow> n = 0"
proof (cases "op_memorySize op")
  case (Some f)
  have "need b \<le> length (vm_stack vm)" using assms by (simp add: exec_ok_def)
  then obtain m ov where m: "f (ve_u env) (vm_stack vm) = Return (m, ov)" using assms(1) Some by (fastforce simp: exec_ok_def)
  obtain n ov' where s: "SafeMul (toWordSize m) 32 = (n, ov')" by fastforce
  show ?thesis
    using that [of "if ov \<or> ov' then None else Some n"] m s toWordSize_covers [of m n] Some
    by (cases ov; cases ov') (auto simp: memory_size_def)
qed (auto simp: memory_size_def)

definition paid :: "'t vm_env \<Rightarrow> 't operation \<Rightarrow> byte \<Rightarrow> u64 \<Rightarrow> 't vm \<Rightarrow> bool \<times> 't vm \<Rightarrow> bool" where
  "paid env op b ms vm r =
     (case r of
        (ok, vm') \<Rightarrow>
          vm_stack vm' = vm_stack vm \<and> mem_store (vm_mem vm') = mem_store (vm_mem vm) \<and> keeps env vm vm'
          \<and> unat (vm_gas vm') \<le> unat (vm_gas vm)
          \<and> (ok \<longrightarrow> (uses_memory b \<longrightarrow> unat ms \<le> mem_limit) \<and> unat (vm_gas vm') + reserve b vm' \<le> unat (vm_gas vm)
              \<and> (op_halts op \<or> op_reverts op \<or> op_constantGas op \<noteq> 0 \<or> unat (vm_gas vm') + reserve b vm' < unat (vm_gas vm))))"

lemma vm_UseGas_cases:
  obtains "vm_UseGas vm g = (False, vm)" "unat (vm_gas vm) < unat g"
  | vm' where "vm_UseGas vm g = (True, vm')" "unat (vm_gas vm') + unat g = unat (vm_gas vm)" "vm_stack vm' = vm_stack vm"
      "vm_mem vm' = vm_mem vm" "vm_evm vm' = vm_evm vm" "reserve b vm' = reserve b vm"
  by (cases "vm_gas vm < g")
    (auto simp: vm_UseGas_def UseGas_def reserve_def word_less_nat_alt word_le_nat_alt unat_sub)

lemma pay_dynamic_ok:
  assumes "env_ok env" "gas_ok env b op" "state_inv (ve_db env) (vm_db vm)" "need b \<le> length (vm_stack vm)"
    "static env (vm_evm vm) \<Longrightarrow> b \<notin> {OP_SSTORE, OP_SELFDESTRUCT}"
  shows "vm_post env (paid env op b ms vm) (pay_dynamic env op vm ms)"
proof (cases "op_dynamicGas op")
  case None
  then have "reserve b vm = 0" "\<not> uses_memory b" "op_halts op \<or> op_reverts op \<or> op_constantGas op \<noteq> 0"
    using assms(2) by (auto simp: gas_ok_def reserve_def)
  then show ?thesis
    using None evm_step_refl [OF assms(1)] assms(3) by (auto simp: pay_dynamic_def paid_def vm_db_def)
next
  case (Some f)
  then obtain d where d: "dyn_ok env b d f" "op_halts op \<or> op_reverts op \<or> 0 < d + unat (op_constantGas op)"
    using assms(2) by (auto simp: gas_ok_def)
  have use: "paid env op b ms vm (vm_UseGas vm' g)" if "pays env b d ms vm (Inr g) vm'" for g vm'
    by (rule vm_UseGas_cases [where vm = vm' and g = g and b = b]) (use that d(2) in \<open>auto simp: pays_def paid_def unat_gt_0\<close>)
  have fail: "paid env op b ms vm (False, vm')" if "pays env b d ms vm (Inl e) vm'" for e vm'
    using that by (simp add: pays_def paid_def)
  have "vm_post env (\<lambda>(r, vm'). pays env b d ms vm r vm') (f env vm ms)"
    using d(1) assms(3,4,5) unfolding dyn_ok_def by blast
  then show ?thesis
    unfolding pay_dynamic_def Some option.case post_obind
  proof (rule post_mono)
    fix y assume "(\<lambda>(r, vm'). pays env b d ms vm r vm') y"
    then show "vm_post env (paid env op b ms vm)
        (case y of (r, vm) \<Rightarrow> case r of Inl e \<Rightarrow> Return (False, vm) | Inr dynamicCost \<Rightarrow> Return (vm_UseGas vm dynamicCost))"
      using use fail by (cases y; cases "fst y") simp_all
  qed
qed

text \<open>The execution of an instruction that has been paid for.\<close>

lemma execute_op_ok:
  assumes "exec_ok env b op" "frame_ok vm" "state_inv (ve_db env) (vm_db vm)"
    "op_minStack op \<le> int (length (vm_stack vm))" "int (length (vm_stack vm)) \<le> op_maxStack op" "mem_ready env (op_memorySize op) vm"
    "calls_ok env G calls" "\<not> op_halts op \<Longrightarrow> \<not> op_reverts op \<Longrightarrow> unat (vm_gas vm) + reserve b vm < G"
    "unat (vm_gas vm) + reserve b vm \<le> G" "G \<le> 2 ^ 64"
    "static env (vm_evm vm) \<Longrightarrow> \<not> op_writes op \<and> (b = OP_CALL \<longrightarrow> vm_stack vm ! 2 = 0)"
  shows "vm_post env (step_post env G vm) (execute_op env calls op vm)"
proof -
  have *: "ex_ok env b (op_execute op) (op_minStack op) (op_maxStack op) (op_memorySize op) (op_writes op)
      (\<not> op_halts op \<and> \<not> op_reverts op)" using assms(1) by (simp add: exec_ok_def)
  have "vm_post env (\<lambda>(r, vm'). exec_post env b vm vm') (op_execute op env calls vm)"
    using * [unfolded ex_ok_def, rule_format, OF assms(2-7) _ assms(10)] assms(8,11) by blast
  then show ?thesis
    unfolding execute_op_def post_obind
    by (rule post_mono)
      (use assms(2,8,9) in \<open>auto simp: exec_post_def step_post_def frame_ok_def Let_def split: option.split\<close>)
qed

lemma resize_ok:
  assumes "frame_ok vm" "n = 0 \<or> unat n \<le> mem_limit" "vm' = (if n > 0 then vm\<lparr>vm_mem := mem_Resize (vm_mem vm) n\<rparr> else vm)"
  shows "frame_ok vm'" "unat n \<le> length (mem_store (vm_mem vm'))" "vm_stack vm' = vm_stack vm" "vm_evm vm' = vm_evm vm"
    "vm_gas vm' = vm_gas vm" "reserve b vm' = reserve b vm" "vm_db vm' = vm_db vm"
proof -
  have l: "unat (go_len (mem_store (vm_mem vm))) = length (mem_store (vm_mem vm))"
    using assms(1) unat_go_len [of "mem_store (vm_mem vm)"] by (simp add: frame_ok_def mem_limit_def)
  then have "length (mem_store (mem_Resize (vm_mem vm) n)) = max (length (mem_store (vm_mem vm))) (unat n)"
    by (auto simp: mem_Resize_def word_less_nat_alt unat_sub word_le_nat_alt)
  then show "frame_ok vm'" "unat n \<le> length (mem_store (vm_mem vm'))"
    using assms by (auto simp: frame_ok_def word_gt_0)
qed (use assms(3) in \<open>simp_all add: reserve_def vm_db_def\<close>)

text \<open>What follows the constant price.\<close>

lemma dynamic_ok:
  assumes "env_ok env" "op_ok env b op" "frame_ok vm" "state_inv (ve_db env) (vm_db vm)" "calls_ok env G calls" "G \<le> 2 ^ 64"
    "op_minStack op \<le> int (length (vm_stack vm))" "int (length (vm_stack vm)) \<le> op_maxStack op"
    "unat (vm_gas vm) + unat (op_constantGas op) = G" "op_memorySize op = None \<Longrightarrow> ms = 0"
    "\<And>f. op_memorySize op = Some f \<Longrightarrow> \<exists>m. f (ve_u env) (vm_stack vm) = Return (m, False) \<and> unat m \<le> unat ms"
    "static env (vm_evm vm) \<Longrightarrow> \<not> op_writes op \<and> (b = OP_CALL \<longrightarrow> vm_stack vm ! 2 = 0)"
  shows "vm_post env (step_post env G vm) (obind (pay_dynamic env op vm ms) (\<lambda>(ok, vm).
      if \<not> ok then Return (Stop [] (Some ErrOutOfGas) vm)
      else execute_op env calls op (if ms > 0 then vm\<lparr>vm_mem := mem_Resize (vm_mem vm) ms\<rparr> else vm)))"
proof -
  have ex: "exec_ok env b op" and gs: "gas_ok env b op" using assms(2) by (simp_all add: op_ok_def)
  have run: "vm_post env (step_post env G vm)
      (execute_op env calls op (if ms > 0 then vm'\<lparr>vm_mem := mem_Resize (vm_mem vm') ms\<rparr> else vm'))"
    if p: "paid env op b ms vm (True, vm')" for vm'
  proof -
    define w where "w = (if ms > 0 then vm'\<lparr>vm_mem := mem_Resize (vm_mem vm') ms\<rparr> else vm')"
    have k: "keeps env vm vm'" "vm_stack vm' = vm_stack vm" "mem_store (vm_mem vm') = mem_store (vm_mem vm)"
      using p by (simp_all add: paid_def)
    have ms: "ms = 0 \<or> unat ms \<le> mem_limit" using p assms(10) ex by (cases "op_memorySize op") (simp_all add: paid_def exec_ok_def)
    have "frame_ok vm'" using assms(3) k by (simp add: frame_ok_def)
    note w = resize_ok [OF this ms w_def]
    have "vm_post env (step_post env G w) (execute_op env calls op w)"
    proof (rule execute_op_ok [OF ex w(1) _ _ _ _ assms(5) _ _ assms(6)])
      show "state_inv (ve_db env) (vm_db w)" using sstep_inv k(1) unfolding evm_step_def vm_db_def w(4) by blast
      show "mem_ready env (op_memorySize op) w"
        using assms(11) w(2) k(2) by (fastforce simp: mem_ready_def w(3))
      show "unat (vm_gas w) + reserve b w < G" if "\<not> op_halts op" "\<not> op_reverts op"
        using p that assms(9) unat_gt_0 [of "op_constantGas op"] by (auto simp: paid_def w(5,6))
      show "unat (vm_gas w) + reserve b w \<le> G" using p assms(9) by (simp add: paid_def w(5,6))
      show "\<not> op_writes op \<and> (b = OP_CALL \<longrightarrow> vm_stack w ! 2 = 0)" if "static env (vm_evm w)"
        using assms(12) that evm_step_static [OF k(1)] by (simp add: w(3,4) k(2))
    qed (use assms(7,8) in \<open>simp_all add: w(3) k(2)\<close>)
    then show ?thesis
      unfolding w_def [symmetric] by (rule post_mono) (use step_post_trans k(1) w(4) in metis)
  qed
  have fail: "step_post env G vm (Stop [] e vm')" if "paid env op b ms vm (False, vm')" for e vm'
    using that assms(9) by (simp add: paid_def step_post_def)
  have "vm_post env (paid env op b ms vm) (pay_dynamic env op vm ms)"
    by (rule pay_dynamic_ok [OF assms(1) gs assms(4)]) (use ex assms(7,12) in \<open>auto simp: exec_ok_def\<close>)
  then show ?thesis
    unfolding post_obind by (rule post_mono) (use run fail in auto)
qed

lemma exec_op_ok:
  assumes "env_ok env" "op_ok env b op" "frame_ok vm" "state_inv (ve_db env) (vm_db vm)" "calls_ok env (unat (vm_gas vm)) calls"
  shows "vm_post env (step_post env (unat (vm_gas vm)) vm) (exec_op env calls b op vm)"
proof -
  let ?G = "unat (vm_gas vm)"
  have ex: "exec_ok env b op" using assms(2) by (simp add: op_ok_def)
  have G: "?G \<le> 2 ^ 64" using unsigned_less [of "vm_gas vm", where ?'a = nat] by simp
  have r: "keeps env vm vm" using evm_step_refl assms(1,4) by (simp add: vm_db_def)
  have stop: "step_post env ?G vm (Stop ret err vm')" if "vm_evm vm' = vm_evm vm" "unat (vm_gas vm') \<le> ?G" for ret err vm'
    using r that by (simp add: step_post_def)
  show ?thesis
  proof (cases "op_minStack op \<le> int (length (vm_stack vm)) \<and> int (length (vm_stack vm)) \<le> op_maxStack op")
    case st: True
    obtain p where p: "write_protected env b op vm = Return p"
      "\<not> p \<Longrightarrow> static env (vm_evm vm) \<Longrightarrow> \<not> op_writes op \<and> (b = OP_CALL \<longrightarrow> vm_stack vm ! 2 = 0)"
      using write_protected_ok [OF assms(1) ex conjunct1 [OF st]] by blast
    show ?thesis
    proof (rule vm_UseGas_cases [where vm = vm and g = "op_constantGas op" and b = b])
      fix vm1
      assume u: "vm_UseGas vm (op_constantGas op) = (True, vm1)" "unat (vm_gas vm1) + unat (op_constantGas op) = ?G"
        "vm_stack vm1 = vm_stack vm" "vm_mem vm1 = vm_mem vm" "vm_evm vm1 = vm_evm vm"
      have "op_minStack op \<le> int (length (vm_stack vm1))" using st u(3) by simp
      then obtain sz where sz: "memory_size env op vm1 = Return sz"
        "\<And>n f. sz = Some n \<Longrightarrow> op_memorySize op = Some f \<Longrightarrow> \<exists>m. f (ve_u env) (vm_stack vm1) = Return (m, False) \<and> unat m \<le> unat n"
        "\<And>n. sz = Some n \<Longrightarrow> op_memorySize op = None \<Longrightarrow> n = 0"
        using memory_size_ok [OF ex] by metis
      have dyn: "vm_post env (step_post env ?G vm1) (obind (pay_dynamic env op vm1 n) (\<lambda>(ok, vm).
          if \<not> ok then Return (Stop [] (Some ErrOutOfGas) vm)
          else execute_op env calls op (if n > 0 then vm\<lparr>vm_mem := mem_Resize (vm_mem vm) n\<rparr> else vm)))"
        if "\<not> p" "sz = Some n" for n
        by (rule dynamic_ok [OF assms(1,2) _ _ assms(5) G])
          (use assms(3,4) st u p(2) sz(2,3) that in \<open>auto simp: frame_ok_def vm_db_def\<close>)
      have eq: "step_post env ?G vm1 = step_post env ?G vm" using u(5) by (simp add: fun_eq_iff step_post_def split: step_result.split)
      show ?thesis
        using st p(1) sz(1) stop u dyn by (cases p; cases sz) (simp_all add: exec_op_def eq del: post_obind)
    qed (use st p stop in \<open>simp add: exec_op_def\<close>)
  qed (use stop in \<open>auto simp: exec_op_def Let_def\<close>)
qed

lemma step_ok:
  assumes "env_ok env" "frame_ok vm" "state_inv (ve_db env) (vm_db vm)" "calls_ok env (unat (vm_gas vm)) calls"
  shows "vm_post env (step_post env (unat (vm_gas vm)) vm) (step env calls vm)"
proof (cases "jump_table (ve_rules env) (GetOp (vm_contract vm) (vm_pc vm)) :: 'a operation option")
  case None
  then show ?thesis using evm_step_refl assms(1,3) by (simp add: step_def step_post_def vm_db_def)
next
  case (Some op)
  then have "op_ok env (GetOp (vm_contract vm) (vm_pc vm)) op"
    using jump_table_ok [OF assms(1)] by (simp add: table_exec_def table_gas_def op_ok_def)
  then show ?thesis using exec_op_ok assms Some by (simp add: step_def)
qed

end
