(* ===== verification/VM_Precompile_Safety.thy ===== *)
theory VM_Precompile_Safety
  imports VM_Step_Safety
begin

text \<open>
  The precompiled contracts: with less gas than \<open>2 ^ 61\<close> they do not panic and give back no more gas than they got; with
  more gas the modular exponentiation can panic.
\<close>

section \<open>Lengths\<close>

text \<open>The panic for a slice that Go cannot have.\<close>

definition too_long :: "bytes \<Rightarrow> vm_panic \<Rightarrow> bool" where
  "too_long input p = (p = SliceTooLong \<and> 2 ^ 63 \<le> length input)"

lemma too_long_rest: "too_long (modexp_rest input) p \<Longrightarrow> too_long input p"
  by (auto simp: too_long_def modexp_rest_def split: if_splits)

lemma modexp_data_ok:
  assumes "unat sz \<le> 2 ^ 63"
  shows "post (too_long input) (\<lambda>x. 0 \<le> x) (modexp_data input start sz)"
proof (cases "2 ^ 63 \<le> length input")
  case True
  then show ?thesis by (simp add: modexp_data_def getData_def too_long_def)
next
  case False
  define st where "st = (if go_len input < start then go_len input else start)"
  have "unat (go_len input) < 2 ^ 63" using False unat_go_len [of input] by simp
  then have st: "unat st < 2 ^ 63" "st \<le> go_len input" by (auto simp: st_def word_less_nat_alt not_less word_le_nat_alt)
  have "unat (st + sz) = unat st + unat sz" using st(1) assms by (subst unat_add_lem [symmetric]) simp
  then have "\<not> (if go_len input < st + sz then go_len input else st + sz) < st"
    using st(2) by (auto simp: word_less_nat_alt word_le_nat_alt)
  then show ?thesis using False by (auto simp: modexp_data_def getData_def Let_def st_def [symmetric] split: if_splits)
qed

lemma modexpMultComplexity_ge:
  assumes "0 \<le> x"
  shows "x * x div 16 \<le> modexpMultComplexity x" "1 \<le> x \<Longrightarrow> 1 \<le> modexpMultComplexity x"
proof -
  have q: "0 \<le> x * x" by simp
  then have "x * x div 16 \<le> x * x" "x * x div 16 \<le> x * x div 4" "0 \<le> x * x div 16" "0 \<le> x * x div 4" by linarith+
  then show "x * x div 16 \<le> modexpMultComplexity x" by (simp add: modexpMultComplexity_def)
  assume "1 \<le> x"
  then have "1 * 1 \<le> x * x" by (intro mult_mono) simp_all
  then show "1 \<le> modexpMultComplexity x"
    using \<open>0 \<le> x * x div 16\<close> \<open>0 \<le> x * x div 4\<close> by (simp add: modexpMultComplexity_def)
qed

lemma price_value:
  assumes "0 \<le> g" "unat (if 64 < bit_len (nat g) then 0xFFFFFFFFFFFFFFFF else big_Uint64 g) < 2 ^ 61"
  shows "g < 2 ^ 61"
proof -
  have "\<not> 64 < bit_len (nat g)" using assms(2) by (auto split: if_splits)
  then have "g < 2 ^ 64" using assms(1) bit_len_le [of "nat g" 64] by (simp add: nat_less_iff)
  then have "uint (big_Uint64 g) = g" using assms(1) by simp
  then show ?thesis using assms(2) \<open>\<not> 64 < bit_len (nat g)\<close> uint_less_unat [of "big_Uint64 g" 61] by simp
qed

text \<open>A price below \<open>2 ^ 61\<close> bounds the lengths.\<close>

lemma quotient_bound:
  assumes "(c :: int) * a div d < 2 ^ 61" "0 \<le> c" "1 \<le> a" "0 < d" "d \<le> 20"
  shows "c < 2 ^ 66" "1 \<le> c \<Longrightarrow> a < 2 ^ 61 * 20"
proof -
  have "(c * a div d + 1) * d \<le> 2 ^ 61 * d" using assms(1,4) by (intro mult_right_mono) simp_all
  moreover have "c * a < (c * a div d + 1) * d"
    using div_mult_mod_eq [of "c * a" d] pos_mod_bound [OF assms(4), of "c * a"] unfolding distrib_right by linarith
  ultimately have "c * a < 2 ^ 61 * d" by linarith
  also have "\<dots> \<le> 2 ^ 61 * 20" using assms(5) by simp
  finally have *: "c * a < 2 ^ 61 * 20" .
  have "c * 1 \<le> c * a" using assms(2,3) by (intro mult_left_mono) simp_all
  then show "c < 2 ^ 66" using * by simp
  assume "1 \<le> c"
  then have "1 * a \<le> c * a" using assms(3) by (intro mult_right_mono) simp_all
  then show "a < 2 ^ 61 * 20" using * by simp
qed

lemma square_bound:
  assumes "(x :: int) * x < 2 ^ 124" "0 \<le> x"
  shows "x < 2 ^ 63"
proof (rule ccontr)
  assume "\<not> x < 2 ^ 63"
  then have "(2 ^ 63) * (2 ^ 63) \<le> x * x" by (intro mult_mono) simp_all
  then show False using assms(1) by simp
qed

lemma modexp_price_bounds:
  assumes "0 \<le> baseLen" "0 \<le> modLen" "unat (modexp_price e baseLen expLen modLen expHead) < 2 ^ 61"
  shows "baseLen < 2 ^ 63 \<and> modLen < 2 ^ 63 \<and> (expLen < 2 ^ 63 \<or> baseLen = 0 \<and> modLen = 0)"
proof -
  define x where "x = max modLen baseLen"
  define adj where "adj = (if expLen > 32 then 8 * (expLen - 32) else 0)
    + (if bit_len (nat expHead) > 0 then int (bit_len (nat expHead)) - 1 else 0)"
  define a where "a = max adj 1"
  have x: "0 \<le> x" using assms(1) by (simp add: x_def)
  have a: "1 \<le> a" "expLen > 32 \<Longrightarrow> 8 * (expLen - 32) \<le> a" by (auto simp: a_def adj_def)
  have "x < 2 ^ 63 \<and> (1 \<le> x \<longrightarrow> a < 2 ^ 61 * 20)"
  proof (cases e)
    case True
    define c where "c = (x + 7) div 8 * ((x + 7) div 8)"
    have "0 \<le> c" by (simp add: c_def)
    then have "0 \<le> c * a" using a(1) by (intro mult_nonneg_nonneg) simp_all
    then have "0 \<le> c * a div 3" by simp
    moreover have "unat (if 64 < bit_len (nat (c * a div 3)) then 0xFFFFFFFFFFFFFFFF else big_Uint64 (c * a div 3)) < 2 ^ 61"
      using assms(3) True
      by (auto simp: modexp_price_def Let_def x_def [symmetric] adj_def [symmetric] a_def [symmetric] c_def [symmetric]
          word_less_nat_alt split: if_splits)
    ultimately have "c * a div 3 < 2 ^ 61" by (rule price_value)
    then have b: "c < 2 ^ 66" "1 \<le> c \<Longrightarrow> a < 2 ^ 61 * 20" using quotient_bound [of c a 3] \<open>0 \<le> c\<close> a(1) by simp_all
    have "x \<le> 8 * ((x + 7) div 8)" by linarith
    then have "x * x \<le> (8 * ((x + 7) div 8)) * (8 * ((x + 7) div 8))" using x by (intro mult_mono) simp_all
    then have "x * x \<le> 64 * c" by (simp add: c_def)
    then have "x < 2 ^ 63" using b(1) x by (intro square_bound) simp_all
    moreover have "1 \<le> c" if "1 \<le> x"
    proof -
      have "1 \<le> (x + 7) div 8" using that by linarith
      then have "1 * 1 \<le> c" unfolding c_def by (intro mult_mono) simp_all
      then show ?thesis by simp
    qed
    ultimately show ?thesis using b(2) by blast
  next
    case False
    define c where "c = modexpMultComplexity x"
    note c = modexpMultComplexity_ge [OF x, folded c_def]
    have "0 \<le> x * x" by simp
    then have "0 \<le> x * x div 16" by linarith
    then have "0 \<le> c" using c(1) by linarith
    then have "0 \<le> c * a" using a(1) by (intro mult_nonneg_nonneg) simp_all
    then have "0 \<le> c * a div 20" by simp
    moreover have "unat (if 64 < bit_len (nat (c * a div 20)) then 0xFFFFFFFFFFFFFFFF else big_Uint64 (c * a div 20)) < 2 ^ 61"
      using assms(3) unfolding modexp_price_def Let_def c_def a_def adj_def x_def if_not_P [OF False] .
    ultimately have "c * a div 20 < 2 ^ 61" by (rule price_value)
    then have b: "c < 2 ^ 66" "1 \<le> c \<Longrightarrow> a < 2 ^ 61 * 20" using quotient_bound [of c a 20] \<open>0 \<le> c\<close> a(1) by simp_all
    have "x * x div 16 < 2 ^ 66" using b(1) c(1) by linarith
    then have "x * x < 2 ^ 124" by simp
    then have "x < 2 ^ 63" using x by (rule square_bound)
    then show ?thesis using b(2) c(2) by blast
  qed
  then show ?thesis using a(2) assms(1,2) by (auto simp: x_def)
qed

lemma modexp_data_nonneg: "modexp_data input start sz = Return x \<Longrightarrow> 0 \<le> x"
  by (auto simp: modexp_data_def split: outcome.splits vm_panic.splits)

lemma obind_eq_Return: "obind x f = Return y \<longleftrightarrow> (\<exists>z. x = Return z \<and> f z = Return y)"
  by (cases x) simp_all

lemma bigModExp_Run_ok:
  assumes "bigModExp_RequiredGas e input = Return g" "unat g < 2 ^ 61"
  shows "post (too_long input) (\<lambda>x. True) (bigModExp_Run input)"
proof -
  obtain b x m where *: "modexp_data input 0 32 = Return b" "modexp_data input 32 32 = Return x" "modexp_data input 64 32 = Return m"
    using assms(1) by (cases "modexp_data input 0 32"; cases "modexp_data input 32 32"; cases "modexp_data input 64 32")
      (simp_all add: bigModExp_RequiredGas_def)
  note pos = *[THEN modexp_data_nonneg]
  obtain h where "modexp_price e b x m h = g"
    using assms(1) * by (auto simp: bigModExp_RequiredGas_def Let_def obind_eq_Return split: if_splits)
  then have bounds: "b < 2 ^ 63" "m < 2 ^ 63" "x < 2 ^ 63 \<or> b = 0 \<and> m = 0"
    using modexp_price_bounds [OF pos(1,3), of e x h] assms(2) by blast+
  have small: "unat (big_Uint64 y) \<le> 2 ^ 63" if "0 \<le> y" "y < 2 ^ 63" for y
    using that uint_less_unat [of "big_Uint64 y" 63] by simp
  have any: "post (too_long input) (\<lambda>x. P) (modexp_data i s z) = (P \<or> \<not> (\<exists>y. modexp_data i s z = Return y))"
    if "unat z \<le> 2 ^ 63" "i = input \<or> i = modexp_rest input" for P i s z
    using modexp_data_ok [OF that(1), of i s] that(2) by (cases "modexp_data i s z") (auto intro: too_long_rest)
  show ?thesis
  proof (cases "b = 0 \<and> m = 0")
    case True
    then show ?thesis using * by (simp add: bigModExp_Run_def big_Uint64_def)
  next
    case False
    then have "unat (big_Uint64 b) \<le> 2 ^ 63" "unat (big_Uint64 x) \<le> 2 ^ 63" "unat (big_Uint64 m) \<le> 2 ^ 63"
      using bounds pos small by blast+
    then show ?thesis using * by (simp add: bigModExp_Run_def Let_def any)
  qed
qed

lemma bigModExp_RequiredGas_ok: "post (too_long input) (\<lambda>x. True) (bigModExp_RequiredGas e input)"
proof -
  have *: "post (too_long input) (\<lambda>x. 0 \<le> x) (modexp_data i s z)"
    if "unat z \<le> 32" "i = input \<or> i = modexp_rest input" for i s z
    using modexp_data_ok [of z i s] that by (cases "modexp_data i s z") (auto intro: too_long_rest)
  have "unat (big_Uint64 x) \<le> 32" if "0 \<le> x" "\<not> 32 < x" for x
    using that by (auto simp: nat_uint_eq [symmetric] simp del: nat_uint_eq)
  then show ?thesis
    unfolding bigModExp_RequiredGas_def post_obind Let_def
    by (intro post_mono [OF *]) (auto intro!: post_mono [OF *])
qed

lemma RunPrecompiledContract_ok:
  assumes "unat gas < gas_limit"
  shows "post (too_long input) (\<lambda>(ret, g, err). unat g \<le> unat gas) (RunPrecompiledContract env p input gas)"
proof -
  have sub: "unat (gas - c) \<le> unat gas" if "\<not> gas < c" for c
    using that by (simp add: unat_sub not_less word_le_nat_alt)
  show ?thesis
  proof (cases "\<exists>e. p = bigModExp e")
    case True
    then obtain e where p: "p = bigModExp e" by blast
    show ?thesis
    proof (cases "bigModExp_RequiredGas e input")
      case (Return g)
      have "post (too_long input) (\<lambda>x. True) (bigModExp_Run input)" if "\<not> gas < g"
        by (rule bigModExp_Run_ok [OF Return]) (use that assms in \<open>simp add: gas_limit_def word_less_nat_alt\<close>)
      then show ?thesis
        using p Return sub by (auto simp: RunPrecompiledContract_def precompile_Run_def elim!: post_mono)
    qed (use p bigModExp_RequiredGas_ok [of input e] in \<open>simp_all add: RunPrecompiledContract_def\<close>)
  next
    case False
    then obtain g where "RequiredGas p input = Return g" by (cases p) auto
    moreover obtain r where "precompile_Run env p input = Return r"
      using False by (cases p; cases "ve_crypto env p input") (auto simp: precompile_Run_def)
    ultimately show ?thesis using sub by (cases r) (simp add: RunPrecompiledContract_def)
  qed
qed

section \<open>The exponentiation that panics\<close>

text \<open>The lengths are 1, \<open>2 ^ 64 - 1\<close> and 1, and one byte follows.\<close>

definition wrap_input :: bytes where
  "wrap_input = replicate 31 0 @ [1] @ replicate 24 0 @ [0xff, 0xff, 0xff, 0xff, 0xff, 0xff, 0xff, 0xff] @ replicate 31 0 @ [1, 1]"

lemma wrap_lengths:
  "modexp_data wrap_input 0 32 = Return 1" "modexp_data wrap_input 32 32 = Return 0xFFFFFFFFFFFFFFFF"
  "modexp_data wrap_input 64 32 = Return 1" "modexp_rest wrap_input = [1]"
proof -
  have n: "length wrap_input = 97" by (simp add: wrap_input_def)
  have g: "go_len wrap_input = 97" by (simp add: go_len_def n)
  have z: "be_nat (replicate k 0 @ bs) = be_nat bs" for k bs by (induction k) simp_all
  note eval = wrap_input_def RightPadBytes_def z
  show "modexp_data wrap_input 0 32 = Return 1"
    by (simp add: modexp_data_def getData_def n g) (simp add: eval)
  show "modexp_data wrap_input 32 32 = Return 0xFFFFFFFFFFFFFFFF"
    by (simp add: modexp_data_def getData_def n g) (simp add: eval)
  show "modexp_data wrap_input 64 32 = Return 1"
    by (simp add: modexp_data_def getData_def n g) (simp add: eval)
  show "modexp_rest wrap_input = [1]" unfolding modexp_rest_def n by (simp add: wrap_input_def)
qed

lemma wrap_price: "modexp_price False 1 0xFFFFFFFFFFFFFFFF 1 0 = 7378697629483820633"
  by (simp add: modexp_price_def modexpMultComplexity_def bit_len.simps Let_def) (simp add: big_Uint64_def)

section \<open>A machine over a database without accounts\<close>

definition bare_rules :: Rules where
  "bare_rules =
     \<lparr>rChainID = 329, rIsHomestead = True, rIsEIP150 = True, rIsEIP155 = True, rIsEIP158 = True, rIsByzantium = True,
      rIsConstantinople = True, rIsPetersburg = True, rIsIstanbul = True, rIsYoloV3 = False\<rparr>"

definition bare_vm_env :: "unit vm_env" where
  "bare_vm_env =
     \<lparr>ve_u = word_uint256, ve_db = bare_env,
      ve_Context = NewEVMBlockContext bare_env zero_header (\<lambda>_. 0) (\<lambda>_. 0) None,
      ve_Tx = \<lparr>tc_Origin = 7, tc_GasPrice = 1\<rparr>, ve_ChainID = 329, ve_rules = bare_rules, ve_NoRecursion = False,
      ve_EnablePreimageRecording = False, ve_crypto = (\<lambda>_ _. ([], None))\<rparr>"

lemma bare_vm_env_ok: "env_ok bare_vm_env"
  using word_u256.uint256_axioms bare_addr_inj by (simp add: env_ok_def bare_vm_env_def NewEVMBlockContext_def)

section \<open>Lists of addresses\<close>

lemma address_folds:
  "fold (\<lambda>k a. a\<lparr>PrecompiledAddressesHomestead := PrecompiledAddressesHomestead a @ [k]\<rparr>) ks r =
     r\<lparr>PrecompiledAddressesHomestead := PrecompiledAddressesHomestead r @ ks\<rparr>"
  "fold (\<lambda>k a. a\<lparr>PrecompiledAddressesIstanbul := PrecompiledAddressesIstanbul a @ [k]\<rparr>) ks r =
     r\<lparr>PrecompiledAddressesIstanbul := PrecompiledAddressesIstanbul r @ ks\<rparr>"
  "fold (\<lambda>k a. a\<lparr>PrecompiledAddressesYoloV3 := PrecompiledAddressesYoloV3 a @ [k]\<rparr>) ks r =
     r\<lparr>PrecompiledAddressesYoloV3 := PrecompiledAddressesYoloV3 r @ ks\<rparr>"
  "fold (\<lambda>k a. a\<lparr>PrecompiledAddressesHomestead := PrecompiledAddressesByzantium a @ [k]\<rparr>) ks r =
     (if ks = [] then r else r\<lparr>PrecompiledAddressesHomestead := PrecompiledAddressesByzantium r @ [last ks]\<rparr>)"
  by (induction ks arbitrary: r; simp)+

section \<open>Properties\<close>



text \<open>
  With \<open>2 ^ 63 - 1\<close> gas, the modular exponentiation of before EIP-2565 panics on an input of 97 bytes: an exponent of
  length \<open>2 ^ 64 - 1\<close> is paid for, and the end of its range wraps around to a position before its start.
\<close>

theorem bigModExp_wraps:
  "RunPrecompiledContract env (bigModExp False) wrap_input 0x7FFFFFFFFFFFFFFF = Panic ModExpBounds"
proof -
  have b: "bigModExp_RequiredGas False wrap_input = Return 7378697629483820633"
    by (simp add: bigModExp_RequiredGas_def wrap_lengths wrap_price)
  have "modexp_data [1] 0 1 = Return 1" "modexp_data [1] 1 0xFFFFFFFFFFFFFFFF = Panic ModExpBounds"
    by (simp_all add: modexp_data_def getData_def go_len_def Let_def RightPadBytes_def word_less_nat_alt)
  then have "bigModExp_Run wrap_input = Panic ModExpBounds"
    by (simp add: bigModExp_Run_def wrap_lengths big_Uint64_def)
  then show ?thesis using b by (simp add: RunPrecompiledContract_def precompile_Run_def)
qed

text \<open>
  Whatever the order in which the maps are ranged over, the list of the precompiled addresses of Byzantium is empty after
  \<^verbatim>\<open>init\<close>, and the list of Homestead has only one address, one of Byzantium: the loop over the contracts of Byzantium
  assigns to the wrong list.
\<close>

theorem precompiles_init_Byzantium_empty:
  assumes "set homestead = dom PrecompiledContractsHomestead" "set byzantium = dom PrecompiledContractsByzantium"
    "rIsByzantium rules" "\<not> rIsIstanbul rules" "\<not> rIsYoloV3 rules"
  shows "ActivePrecompiles (precompiles_init homestead byzantium istanbul yoloV3) rules = []
    \<and> PrecompiledAddressesHomestead (precompiles_init homestead byzantium istanbul yoloV3) = [last byzantium]
    \<and> last byzantium \<in> dom PrecompiledContractsByzantium"
proof -
  have "byzantium \<noteq> []" using assms(2) by (auto simp: PrecompiledContractsByzantium_def)
  then have "last byzantium \<in> dom PrecompiledContractsByzantium" using last_in_set assms(2) by blast
  then show ?thesis
    using \<open>byzantium \<noteq> []\<close> assms(3-5) by (simp add: precompiles_init_def ActivePrecompiles_def address_folds Let_def)
qed

theorem precompiles_init_Byzantium_empty_witness:
  "ActivePrecompiles (precompiles_init [1, 2, 3, 4] [8, 1, 2, 3, 4, 5, 6, 7] [] []) (bare_rules\<lparr>rIsIstanbul := False\<rparr>) = []
    \<and> PrecompiledAddressesHomestead (precompiles_init [1, 2, 3, 4] [8, 1, 2, 3, 4, 5, 6, 7] [] []) = [7]"
proof -
  have "set [1, 2, 3, 4] = dom PrecompiledContractsHomestead" "set [8, 1, 2, 3, 4, 5, 6, 7] = dom PrecompiledContractsByzantium"
    by (auto simp: PrecompiledContractsHomestead_def PrecompiledContractsByzantium_def split: if_splits)
  from precompiles_init_Byzantium_empty [OF this, of "bare_rules\<lparr>rIsIstanbul := False\<rparr>" "[]" "[]"]
  show ?thesis by (simp add: bare_rules_def)
qed

end
