(* ===== verification/VM_Call_Safety.thy ===== *)
theory VM_Call_Safety
  imports VM_Precompile_Safety
begin

text \<open>
  The calls: with a loop that is safe on less gas, a call returns, gives back no more gas than it got, changes the state
  only by operations on it and, if it fails, leaves the state as it was.
\<close>

section \<open>Running a contract\<close>

definition loop_ok :: "'t vm_env \<Rightarrow> nat \<Rightarrow> 't run_loop \<Rightarrow> bool" where
  "loop_ok env G loop =
     (\<forall>vm. frame_ok vm \<longrightarrow> state_inv (ve_db env) (vm_db vm) \<longrightarrow> unat (vm_gas vm) < G \<longrightarrow>
        vm_post env (\<lambda>(ret, err, vm'). unat (vm_gas vm') \<le> unat (vm_gas vm) \<and> keeps env vm vm') (loop vm))"

text \<open>
  What happens between two moments of a call: the state goes from \<open>s\<close> by operations, all of them harmless if \<open>ro\<close>, and
  the depth and the flag are those of \<open>evm\<close>.
\<close>

definition within :: "'t vm_env \<Rightarrow> bool \<Rightarrow> 't StateDB \<Rightarrow> 't EVM \<Rightarrow> 't EVM \<Rightarrow> bool" where
  "within env ro s evm evm' =
     (sstep (ve_db env) ro s (evm_StateDB evm') \<and> evm_depth evm' = evm_depth evm \<and> in_readOnly evm' = in_readOnly evm)"

lemma sstep_mono: "sstep env ro s t \<Longrightarrow> (ro' \<Longrightarrow> ro) \<Longrightarrow> sstep env ro' s t"
  by (auto simp: sstep_def intro: chain_mono)

lemma within_trans: "sstep (ve_db env) ro s t \<Longrightarrow> within env ro t evm evm' \<Longrightarrow> within env ro s evm evm'"
  using sstep_trans by (auto simp: within_def)

lemma within_db [simp]:
  "within env ro s (evm\<lparr>evm_StateDB := t\<rparr>) evm' = within env ro s evm evm'"
  "within env ro s (evm\<lparr>evm_jumpdests := jd\<rparr>) evm' = within env ro s evm evm'"
  "within env ro s evm (evm'\<lparr>evm_jumpdests := jd\<rparr>) = within env ro s evm evm'"
  by (simp_all add: within_def)

lemma Run_ok:
  assumes "env_ok env" "loop_ok env G loop" "unat (c_Gas c) < G" "state_inv (ve_db env) (evm_StateDB evm)"
    "ro \<Longrightarrow> static env evm \<or> readOnly \<and> rIsByzantium (ve_rules env)"
  shows "vm_post env (\<lambda>((ret, err), c', evm'). unat (c_Gas c') \<le> unat (c_Gas c) \<and> within env ro (evm_StateDB evm) evm evm')
    (Run loop c input readOnly evm)"
proof -
  define inner where "inner = evm\<lparr>evm_depth := evm_depth evm + 1, in_readOnly := in_readOnly evm \<or> readOnly, in_returnData := []\<rparr>"
  define outer where "outer = (\<lambda>e :: 'a EVM. e\<lparr>evm_depth := evm_depth e - 1,
    in_readOnly := (if readOnly \<and> \<not> in_readOnly evm then False else in_readOnly e)\<rparr>)"
  define vm where "vm = \<lparr>vm_pc = 0, vm_stack = [], vm_rstack = [], vm_mem = NewMemory, vm_contract = c\<lparr>c_Input := input\<rparr>, vm_evm = inner\<rparr>"
  have st: "ro \<Longrightarrow> static env inner" using assms(5) by (auto simp: inner_def static_def)
  have out: "within env ro (evm_StateDB evm) evm (outer e)" if "evm_step env inner e" for e
  proof -
    have "sstep (ve_db env) (static env inner) (evm_StateDB evm) (evm_StateDB e)" using that by (simp add: evm_step_def inner_def)
    then show ?thesis
      using that sstep_mono [OF _ st] by (auto simp: within_def outer_def evm_step_def inner_def)
  qed
  have run: "Run loop c input readOnly evm =
      (if length (c_Code c) = 0 then Return (([], None), c, outer inner)
       else obind (loop vm) (\<lambda>(ret, err, vm). Return ((ret, err), vm_contract vm, outer (vm_evm vm))))"
    by (simp add: Run_def Let_def inner_def outer_def vm_def)
  have "frame_ok vm" "state_inv (ve_db env) (vm_db vm)" "vm_gas vm = c_Gas c" "vm_evm vm = inner"
    using assms(4) by (simp_all add: vm_def frame_ok_def NewMemory_def vm_db_def inner_def)
  then have "vm_post env (\<lambda>(ret, err, vm'). unat (vm_gas vm') \<le> unat (c_Gas c) \<and> evm_step env inner (vm_evm vm')) (loop vm)"
    using assms(2) [unfolded loop_ok_def, rule_format, of vm] assms(3) by simp
  then have "vm_post env (\<lambda>((ret, err), c', evm'). unat (c_Gas c') \<le> unat (c_Gas c) \<and> within env ro (evm_StateDB evm) evm evm')
      (obind (loop vm) (\<lambda>(ret, err, vm). Return ((ret, err), vm_contract vm, outer (vm_evm vm))))"
    unfolding post_obind by (rule post_mono) (auto intro: out)
  moreover have "evm_step env inner inner" by (rule evm_step_refl [OF assms(1)]) (use assms(4) in \<open>simp add: inner_def\<close>)
  ultimately show ?thesis using out by (simp add: run)
qed

text \<open>What the body of a call ensures.\<close>

abbreviation body_post ::
  "'t vm_env \<Rightarrow> bool \<Rightarrow> 't StateDB \<Rightarrow> 't EVM \<Rightarrow> u64 \<Rightarrow> (ret_slice \<times> u64 \<times> vm_error option) \<times> 't EVM \<Rightarrow> bool" where
  "body_post env ro s evm gas \<equiv> \<lambda>((ret, g, err), evm'). unat g \<le> unat gas \<and> within env ro s evm evm'"

lemma run_code_ok:
  assumes "env_ok env" "loop_ok env G loop" "unat (c_Gas c) < G" "sstep (ve_db env) ro s (evm_StateDB evm)"
    "ro \<Longrightarrow> static env evm \<or> readOnly \<and> rIsByzantium (ve_rules env)"
  shows "vm_post env (body_post env ro s evm (c_Gas c)) (run_code loop c jd input readOnly evm)"
proof -
  have "vm_post env (\<lambda>((ret, err), c', evm'). unat (c_Gas c') \<le> unat (c_Gas c) \<and> within env ro (evm_StateDB evm) evm evm')
    (Run loop c input readOnly (evm\<lparr>evm_jumpdests := jd\<rparr>))"
    using Run_ok [OF assms(1-3), of "evm\<lparr>evm_jumpdests := jd\<rparr>" ro readOnly input] assms(5) sstep_inv [OF assms(4)]
    by (simp add: static_def)
  then show ?thesis
    unfolding run_code_def post_obind by (rule post_mono) (auto intro: within_trans [OF assms(4)])
qed

lemma run_precompile_ok:
  assumes "unat gas < gas_limit" "sstep (ve_db env) ro s (evm_StateDB evm)"
  shows "vm_post env (body_post env ro s evm gas) (run_precompile env p input gas evm)"
proof -
  have "vm_post env (\<lambda>(ret, g, err). unat g \<le> unat gas) (RunPrecompiledContract env p input gas)"
    using RunPrecompiledContract_ok [OF assms(1), of input env p]
    by (cases "RunPrecompiledContract env p input gas") (auto simp: too_long_def vm_panics_def)
  then show ?thesis
    unfolding run_precompile_def post_obind by (rule post_mono) (use assms(2) in \<open>auto simp: within_def\<close>)
qed

lemma run_other_ok:
  assumes "env_ok env" "loop_ok env G loop" "unat (c_Gas (fst cj)) < G" "sstep (ve_db env) ro s (evm_StateDB evm)"
    "ro \<Longrightarrow> static env evm \<or> readOnly \<and> rIsByzantium (ve_rules env)"
  shows "vm_post env (body_post env ro s evm (c_Gas (fst cj))) (run_other env loop cj addr input readOnly evm)"
proof -
  obtain h t where h: "GetCodeHash (ve_db env) (evm_StateDB evm) addr = (h, t)" by fastforce
  obtain code u where u: "GetCode (ve_db env) t addr = (code, u)" by fastforce
  have "sstep (ve_db env) ro s t" using sstep_reads(3) [OF assms(4), of addr] h by simp
  then have "sstep (ve_db env) ro s u" using sstep_reads(4) [of "ve_db env" ro s t addr] u by simp
  then show ?thesis
    using run_code_ok [OF assms(1,2), of "SetCallCode (fst cj) (Some addr) h (code_bytes code)" ro s "evm\<lparr>evm_StateDB := u\<rparr>" readOnly]
      assms(3,5) h u by (simp add: run_other_def SetCallCode_def static_def)
qed

section \<open>Calls\<close>

text \<open>What a call ensures: if it fails, the state is as before.\<close>

definition call_post :: "'t vm_env \<Rightarrow> bool \<Rightarrow> 't EVM \<Rightarrow> u64 \<Rightarrow> (ret_slice \<times> u64 \<times> vm_error option) \<times> 't EVM \<Rightarrow> bool" where
  "call_post env ro evm gas r =
     (case r of
        ((ret, g, err), evm') \<Rightarrow>
          unat g \<le> unat gas \<and> within env ro (evm_StateDB evm) evm evm'
          \<and> (err \<noteq> None \<longrightarrow> sdb_eq (ve_db env) (evm_StateDB evm') (evm_StateDB evm)))"

lemma back_to_snapshot:
  assumes "sstep env ro s0 s1" "Snapshot s1 = (i, s2)" "sstep env ro' s2 s3" "ro \<Longrightarrow> ro'"
  obtains s4 where "RevertToSnapshot env s3 i = Some s4" "sdb_eq env s4 s1" "sstep env ro s0 s4"
proof -
  have inj: "addr_inj env" and inv: "state_inv env s1" and le: "sdb_nextRevisionId s0 \<le> sdb_nextRevisionId s1"
    using assms(1) sstep_inv [OF assms(1)] by (simp_all add: sstep_def)
  note snap = Snapshot_state_inv [OF inj inv assms(2)]
  have "run_inv env s1 i s3"
    using chain_run_inv [OF _ inj Snapshot_run_inv [OF inj inv assms(2)]] assms(3) snap(5) by (auto simp: sstep_def)
  then obtain s4 where s4: "RevertToSnapshot env s3 i = Some s4" "sdb_eq env s4 s1"
    by (rule run_inv_back [OF inj inv]) blast
  have "sstep env ro s0 s2" using sstep_touches(7) [OF assms(1)] assms(2) by simp
  then have "sstep env ro s0 s3" using sstep_trans sstep_mono [OF assms(3,4)] by blast
  then have "sstep env ro s0 s4"
    using sstep_op [of env ro s0 s3 "OpRevertToSnapshot i" Done s4] s4(1) le snap(4) by simp
  then show ?thesis using that s4 by blast
qed

lemma guarded_ok:
  assumes "sstep (ve_db env) ro (evm_StateDB evm) s1" "sdb_eq (ve_db env) s1 (evm_StateDB evm)" "Snapshot s1 = (i, s2)"
    "vm_post env (body_post env ro s2 evm gas) x"
  shows "vm_post env (call_post env ro evm gas) (obind x (\<lambda>(r, evm). end_call env i r evm))"
  unfolding post_obind using assms(4)
proof (rule post_mono)
  fix y assume y: "body_post env ro s2 evm gas y"
  obtain ret g err e where [simp]: "y = ((ret, g, err), e)" by (metis prod.exhaust)
  have w: "sstep (ve_db env) ro s2 (evm_StateDB e)" "unat g \<le> unat gas"
    "evm_depth e = evm_depth evm" "in_readOnly e = in_readOnly evm" using y by (simp_all add: within_def)
  show "vm_post env (call_post env ro evm gas) (case y of (r, evm) \<Rightarrow> end_call env i r evm)"
  proof (cases err)
    case None
    have "sstep (ve_db env) ro (evm_StateDB evm) s2" using sstep_touches(7) [OF assms(1)] assms(3) by simp
    then show ?thesis using sstep_trans [OF _ w(1)] w None by (simp add: end_call_def call_post_def within_def)
  next
    case (Some x)
    obtain s4 where "RevertToSnapshot (ve_db env) (evm_StateDB e) i = Some s4" "sdb_eq (ve_db env) s4 s1"
      "sstep (ve_db env) ro (evm_StateDB evm) s4" by (rule back_to_snapshot [OF assms(1,3) w(1)])
    then show ?thesis
      using w Some sdb_eq_trans [OF _ assms(2)] by (simp add: end_call_def call_post_def within_def)
  qed
qed

lemma early_ok:
  assumes "env_ok env" "state_inv (ve_db env) (evm_StateDB evm)"
  shows "call_post env ro evm gas ((ret, gas, err), evm)"
  using assms by (simp add: call_post_def within_def env_ok_def sstep_refl)

lemma CanTransfer_ok:
  assumes "env_ok env" "state_inv (ve_db env) s" "bc_CanTransfer (ve_Context env) s a v = (b, t)"
  shows "sstep (ve_db env) ro s t" "sdb_eq (ve_db env) t s"
proof -
  have "sstep (ve_db env) ro s s" using assms(1,2) by (simp add: env_ok_def sstep_refl)
  from sstep_reads(1) [OF this, of a] show "sstep (ve_db env) ro s t"
    using assms(1,3) by (auto simp: env_ok_def CanTransfer_def Let_def split: prod.splits)
  obtain r u where g: "getStateObject (ve_db env) s a = (r, u)" by fastforce
  then have "u = t" using assms(1,3) by (auto simp: env_ok_def CanTransfer_def GetBalance_def Let_def split: prod.splits option.splits)
  then show "sdb_eq (ve_db env) t s" using cached_eq [OF getStateObject_cached(1) [OF g]] by simp
qed

lemma Transfer_ok:
  assumes "env_ok env" "sstep (ve_db env) ro s t" "ro \<Longrightarrow> v = 0"
  shows "sstep (ve_db env) ro s (bc_Transfer (ve_Context env) t a b v)"
  using assms sstep_touches(3) [OF sstep_touches(4) [OF assms(2,3)], of v] by (simp add: env_ok_def Transfer_def Let_def)

lemma Exist_again: "fst (Exist env (snd (Exist env s a)) b) = fst (Exist env s b)"
proof -
  obtain r t where g: "getStateObject env s a = (r, t)" by fastforce
  have "live_object env t b = live_object env s b"
    using getStateObject_cached(1) [OF g] by (simp add: cached_def live_object_def)
  then show ?thesis using g getStateObject_fst [of env t b] getStateObject_fst [of env s b]
    by (simp add: Exist_def split_beta)
qed

lemma fresh_snapshot:
  assumes "env_ok env" "state_inv (ve_db env) s" "Snapshot s = (i, t)"
  shows "sstep (ve_db env) ro t t"
  using assms Snapshot_state_inv(1) [of "ve_db env" s i t] by (simp add: env_ok_def sstep_refl)

lemma NewContract_gas: "c_Gas (fst (NewContract caller self v gas jd)) = gas"
  by (simp add: NewContract_def)

text \<open>The body of the calls that run the code of another address after a change \<open>s\<close> of the state.\<close>

lemma other_body_ok:
  assumes "env_ok env" "loop_ok env G loop" "unat gas < G" "G \<le> gas_limit" "sstep (ve_db env) ro s2 s"
    "ro \<Longrightarrow> static env evm \<or> readOnly \<and> rIsByzantium (ve_rules env)" "c_Gas (fst cj) = gas"
  shows "vm_post env (body_post env ro s2 evm gas)
    (case evm_precompile (ve_rules env) addr of
       Some p \<Rightarrow> run_precompile env p input gas (evm\<lparr>evm_StateDB := s\<rparr>)
     | None \<Rightarrow> run_other env loop cj addr input readOnly (evm\<lparr>evm_StateDB := s\<rparr>))"
proof (cases "evm_precompile (ve_rules env) addr")
  case None
  then show ?thesis
    using run_other_ok [OF assms(1,2), of cj ro s2 "evm\<lparr>evm_StateDB := s\<rparr>" readOnly addr input] assms(3,5-7)
    by (simp add: static_def)
next
  case (Some p)
  then show ?thesis
    using run_precompile_ok [of gas env ro s2 "evm\<lparr>evm_StateDB := s\<rparr>" p input] assms(3-5) by simp
qed

lemma evm_CallCode_ok:
  assumes "env_ok env" "loop_ok env G loop" "unat gas < G" "G \<le> gas_limit" "state_inv (ve_db env) (evm_StateDB evm)"
    "ro \<Longrightarrow> static env evm"
  shows "vm_post env (call_post env ro evm gas) (evm_CallCode env loop caller addr input gas v evm)"
proof -
  note early = early_ok [OF assms(1,5)]
  obtain can s1 where can: "bc_CanTransfer (ve_Context env) (evm_StateDB evm) (ref_Address caller) v = (can, s1)" by fastforce
  note ct = CanTransfer_ok [OF assms(1,5) can]
  obtain i s2 where snap: "Snapshot s1 = (i, s2)" by fastforce
  have s2: "sstep (ve_db env) ro s2 s2" using fresh_snapshot [OF assms(1) _ snap] sstep_inv [OF ct(1)] by blast
  have fail: "call_post env ro evm gas ((ret, gas, err), evm\<lparr>evm_StateDB := s1\<rparr>)" for ret err
    using ct by (simp add: call_post_def within_def)
  have body: "vm_post env (body_post env ro s2 evm gas)
      (case evm_precompile (ve_rules env) addr of
         Some p \<Rightarrow> run_precompile env p input gas (evm\<lparr>evm_StateDB := s2\<rparr>)
       | None \<Rightarrow> run_other env loop (NewContract caller (ref_Address caller) v gas (evm_jumpdests evm)) addr input False
                  (evm\<lparr>evm_StateDB := s2\<rparr>))"
    by (rule other_body_ok [OF assms(1-4) s2]) (use assms(6) in \<open>simp_all add: NewContract_gas\<close>)
  show ?thesis
    unfolding evm_CallCode_def using early fail guarded_ok [OF ct(1,2) snap body] by (simp add: can snap)
qed

lemma evm_DelegateCall_ok:
  assumes "env_ok env" "loop_ok env G loop" "unat gas < G" "G \<le> gas_limit" "state_inv (ve_db env) (evm_StateDB evm)"
    "ro \<Longrightarrow> static env evm"
  shows "vm_post env (call_post env ro evm gas) (evm_DelegateCall env loop (ContractPtr c) addr input gas evm)"
proof -
  note early = early_ok [OF assms(1,5)]
  have s1: "sstep (ve_db env) ro (evm_StateDB evm) (evm_StateDB evm)" using assms(1,5) by (simp add: env_ok_def sstep_refl)
  obtain i s2 where snap: "Snapshot (evm_StateDB evm) = (i, s2)" by fastforce
  define cj where "cj = NewContract (ContractPtr c) (c_self c) 0 gas (evm_jumpdests evm)"
  define d where "d = (fst cj)\<lparr>c_CallerAddress := c_CallerAddress c, c_value := c_value c\<rparr>"
  have body: "vm_post env (body_post env ro s2 evm gas)
      (case evm_precompile (ve_rules env) addr of
         Some p \<Rightarrow> run_precompile env p input gas (evm\<lparr>evm_StateDB := s2\<rparr>)
       | None \<Rightarrow> run_other env loop (d, snd cj) addr input False (evm\<lparr>evm_StateDB := s2\<rparr>))"
    by (rule other_body_ok [OF assms(1-4) fresh_snapshot [OF assms(1,5) snap]])
      (use assms(6) in \<open>simp_all add: NewContract_gas d_def cj_def\<close>)
  have "AsDelegate (ContractPtr c) (fst cj) = Return d" by (simp add: AsDelegate_def d_def)
  then have "evm_DelegateCall env loop (ContractPtr c) addr input gas evm =
      (if ve_NoRecursion env \<and> evm_depth evm > 0 then Return ((Fresh [], gas, None), evm)
       else if evm_depth evm > 1024 then Return ((Fresh [], gas, Some ErrDepth), evm)
       else obind (case evm_precompile (ve_rules env) addr of
               Some p \<Rightarrow> run_precompile env p input gas (evm\<lparr>evm_StateDB := s2\<rparr>)
             | None \<Rightarrow> run_other env loop (d, snd cj) addr input False (evm\<lparr>evm_StateDB := s2\<rparr>))
           (\<lambda>(r, evm). end_call env i r evm))"
    by (cases cj) (simp add: evm_DelegateCall_def snap cj_def Let_def cong: option.case_cong)
  then show ?thesis using early guarded_ok [OF s1 sdb_eq_refl snap body] by simp
qed

lemma evm_StaticCall_ok:
  assumes "env_ok env" "loop_ok env G loop" "unat gas < G" "G \<le> gas_limit" "state_inv (ve_db env) (evm_StateDB evm)"
    "ro \<Longrightarrow> rIsByzantium (ve_rules env)"
  shows "vm_post env (call_post env ro evm gas) (evm_StaticCall env loop caller addr input gas evm)"
proof -
  note early = early_ok [OF assms(1,5)]
  have s1: "sstep (ve_db env) ro (evm_StateDB evm) (evm_StateDB evm)" using assms(1,5) by (simp add: env_ok_def sstep_refl)
  obtain i s2 where snap: "Snapshot (evm_StateDB evm) = (i, s2)" by fastforce
  define s where "s = AddBalance (ve_db env) s2 addr 0"
  have s: "sstep (ve_db env) ro s2 s" unfolding s_def by (rule sstep_touches(3) [OF fresh_snapshot [OF assms(1,5) snap]]) simp
  have body: "vm_post env (body_post env ro s2 evm gas)
      (case evm_precompile (ve_rules env) addr of
         Some p \<Rightarrow> run_precompile env p input gas (evm\<lparr>evm_StateDB := s\<rparr>)
       | None \<Rightarrow> run_other env loop (NewContract caller addr 0 gas (evm_jumpdests evm)) addr input True (evm\<lparr>evm_StateDB := s\<rparr>))"
    by (rule other_body_ok [OF assms(1-4) s]) (use assms(6) in \<open>simp_all add: NewContract_gas\<close>)
  show ?thesis
    using early guarded_ok [OF s1 sdb_eq_refl snap body]
    unfolding evm_StaticCall_def snap Let_def split_conv s_def [symmetric] post_if by simp
qed

text \<open>The part of \<^verbatim>\<open>Call\<close> that follows the transfer.\<close>

lemma call_body_ok:
  assumes "env_ok env" "loop_ok env G loop" "unat gas < G" "G \<le> gas_limit" "sstep (ve_db env) ro s2 s" "ro \<Longrightarrow> static env evm"
  shows "vm_post env (body_post env ro s2 evm gas)
    (case evm_precompile (ve_rules env) addr of
       Some p \<Rightarrow> run_precompile env p input gas (evm\<lparr>evm_StateDB := s\<rparr>)
     | None \<Rightarrow>
         (let (code, s) = GetCode (ve_db env) s addr in
          if length (code_bytes code) = 0 then Return ((Fresh [], gas, None), evm\<lparr>evm_StateDB := s\<rparr>)
          else let (c, jd) = NewContract caller addr v gas (evm_jumpdests evm);
                   (h, s) = GetCodeHash (ve_db env) s addr
               in run_code loop (SetCallCode c (Some addr) h (code_bytes code)) jd input False (evm\<lparr>evm_StateDB := s\<rparr>)))"
proof (cases "evm_precompile (ve_rules env) addr")
  case None
  obtain code t where t: "GetCode (ve_db env) s addr = (code, t)" by fastforce
  obtain h u where u: "GetCodeHash (ve_db env) t addr = (h, u)" by fastforce
  obtain c jd where c: "NewContract caller addr v gas (evm_jumpdests evm) = (c, jd)" by fastforce
  have st: "sstep (ve_db env) ro s2 t" using sstep_reads(4) [OF assms(5), of addr] t by simp
  have su: "sstep (ve_db env) ro s2 u" using sstep_reads(3) [OF st, of addr] u by simp
  have "c_Gas c = gas" using NewContract_gas [of caller addr v gas "evm_jumpdests evm"] c by simp
  then show ?thesis
    using None t u c assms(3,6) st su
      run_code_ok [OF assms(1,2), of "SetCallCode c (Some addr) h (code_bytes code)" ro s2 "evm\<lparr>evm_StateDB := u\<rparr>" False jd input]
    by (simp add: SetCallCode_def static_def within_def)
next
  case (Some p)
  then show ?thesis
    using run_precompile_ok [of gas env ro s2 "evm\<lparr>evm_StateDB := s\<rparr>" p input] assms(3-5) by simp
qed

lemma evm_Call_ok:
  assumes "env_ok env" "loop_ok env G loop" "unat gas < G" "G \<le> gas_limit" "state_inv (ve_db env) (evm_StateDB evm)"
    "ro \<Longrightarrow> static env evm \<and> v = 0"
  shows "vm_post env (call_post env ro evm gas) (evm_Call env loop caller addr input gas v evm)"
proof -
  note early = early_ok [OF assms(1,5)]
  obtain can s1 where can: "(if sgn v \<noteq> 0 then bc_CanTransfer (ve_Context env) (evm_StateDB evm) (ref_Address caller) v
      else (True, evm_StateDB evm)) = (can, s1)" by fastforce
  have ct: "sstep (ve_db env) ro (evm_StateDB evm) s1" "sdb_eq (ve_db env) s1 (evm_StateDB evm)"
    using can CanTransfer_ok [OF assms(1,5)] assms(1,5) by (auto simp: env_ok_def sstep_refl split: if_splits)
  obtain i s2 where snap: "Snapshot s1 = (i, s2)" by fastforce
  have s2: "sstep (ve_db env) ro s2 s2" using fresh_snapshot [OF assms(1) _ snap] sstep_inv [OF ct(1)] by blast
  obtain exist s3 where ex: "Exist (ve_db env) s2 addr = (exist, s3)" by fastforce
  have s3: "sstep (ve_db env) ro s2 s3" using sstep_reads(8) [OF s2, of addr] ex by simp
  define s4 where "s4 = (if \<not> exist then CreateAccount (ve_db env) s3 addr else s3)"
  have s4: "sstep (ve_db env) ro s2 s4"
    using s3 sstep_touches(5) [OF s3, of addr] Exist_again [of "ve_db env" s2 addr addr] ex by (simp add: s4_def)
  define s5 where "s5 = bc_Transfer (ve_Context env) s4 (ref_Address caller) addr v"
  have s5: "sstep (ve_db env) ro s2 s5" unfolding s5_def by (rule Transfer_ok [OF assms(1) s4]) (use assms(6) in blast)
  have fail: "call_post env ro evm gas ((ret, gas, err), evm\<lparr>evm_StateDB := s1\<rparr>)" for ret err
    using ct by (simp add: call_post_def within_def)
  have "sstep (ve_db env) ro (evm_StateDB evm) s3"
    using sstep_trans [OF sstep_touches(7) [OF ct(1)]] s3 snap by simp
  then have skip: "call_post env ro evm gas ((ret, gas, None), evm\<lparr>evm_StateDB := s3\<rparr>)" for ret
    by (simp add: call_post_def within_def)
  have "vm_post env (body_post env ro s2 evm gas)
    (case evm_precompile (ve_rules env) addr of
       Some p \<Rightarrow> run_precompile env p input gas (evm\<lparr>evm_StateDB := s5\<rparr>)
     | None \<Rightarrow>
         (let (code, s) = GetCode (ve_db env) s5 addr in
          if length (code_bytes code) = 0 then Return ((Fresh [], gas, None), evm\<lparr>evm_StateDB := s\<rparr>)
          else let (c, jd) = NewContract caller addr v gas (evm_jumpdests evm);
                   (h, s) = GetCodeHash (ve_db env) s addr
               in run_code loop (SetCallCode c (Some addr) h (code_bytes code)) jd input False (evm\<lparr>evm_StateDB := s\<rparr>)))"
    by (rule call_body_ok [OF assms(1-4) s5]) (use assms(6) in blast)
  from guarded_ok [OF ct snap this] show ?thesis
    using early fail skip
    unfolding evm_Call_def can snap ex Let_def split_conv s4_def [symmetric] s5_def [symmetric] post_if by simp
qed

section \<open>Creations\<close>

definition create_post :: "'t vm_env \<Rightarrow> 't EVM \<Rightarrow> u64 \<Rightarrow> (bytes \<times> address \<times> u64 \<times> vm_error option) \<times> 't EVM \<Rightarrow> bool" where
  "create_post env evm gas r =
     (case r of ((ret, addr, g, err), evm') \<Rightarrow> unat g \<le> unat gas \<and> within env False (evm_StateDB evm) evm evm')"

lemma UseGas_le: "UseGas c g = (ok, c') \<Longrightarrow> unat (c_Gas c') \<le> unat (c_Gas c)"
  by (auto simp: UseGas_def unat_sub not_less word_le_nat_alt split: if_splits)

lemma end_create_ok:
  assumes "sstep (ve_db env) False (evm_StateDB evm) s1" "Snapshot s1 = (i, s2)" "unat (c_Gas c) \<le> unat gas"
    "within env False s2 evm e"
  shows "vm_post env (create_post env evm gas) (end_create env i addr ((ret, err), c, e))"
proof -
  let ?long = "rIsEIP158 (ve_rules env) \<and> length ret > 24576"
  obtain err' c' s where r: "(if err = None \<and> \<not> ?long
      then case UseGas c (go_len ret * 200) of
             (True, c) \<Rightarrow> (None, c, SetCode (ve_db env) (evm_StateDB e) addr (if ret = [] then None else Some ret))
           | (False, c) \<Rightarrow> (Some ErrCodeStoreOutOfGas, c, evm_StateDB e)
      else (err, c, evm_StateDB e)) = (err', c', s)" by (rule prod_cases3)
  have e: "sstep (ve_db env) False s2 (evm_StateDB e)" "evm_depth e = evm_depth evm" "in_readOnly e = in_readOnly evm"
    using assms(4) by (simp_all add: within_def)
  have c': "unat (c_Gas c') \<le> unat gas" using r assms(3) UseGas_le [of c "go_len ret * 200"]
    by (fastforce split: if_splits prod.splits bool.splits)
  have s: "sstep (ve_db env) False s2 s" using r e(1) sstep_writes(2) [OF e(1)] by (auto split: if_splits prod.splits bool.splits)
  obtain s4 where s4: "RevertToSnapshot (ve_db env) s i = Some s4" "sstep (ve_db env) False (evm_StateDB evm) s4"
    by (rule back_to_snapshot [OF assms(1,2) s])
  have "sstep (ve_db env) False (evm_StateDB evm) s2" using sstep_touches(7) [OF assms(1)] assms(2) by simp
  then have s': "sstep (ve_db env) False (evm_StateDB evm) s" using sstep_trans [OF _ s] by blast
  have "unat (c_Gas (snd (UseGas c' g))) \<le> unat gas" for g
    using c' UseGas_le [of c' g] by (cases "UseGas c' g") (fastforce intro: order_trans)
  then show ?thesis
    using s4 s' c' e(2,3) unfolding end_create_def Let_def split_conv r by (simp add: create_post_def within_def)
qed

lemma evm_create_ok:
  assumes "env_ok env" "loop_ok env G loop" "unat gas < G" "state_inv (ve_db env) (evm_StateDB evm)" "\<not> static env evm"
  shows "vm_post env (create_post env evm gas) (evm_create env loop caller ch gas v addr evm)"
proof -
  let ?db = "ve_db env" and ?s0 = "evm_StateDB evm" and ?a = "ref_Address caller"
  have s0: "sstep ?db False ?s0 ?s0" using assms(1,4) by (simp add: env_ok_def sstep_refl)
  obtain can s1 where can: "bc_CanTransfer (ve_Context env) ?s0 ?a v = (can, s1)" by fastforce
  note s1 = CanTransfer_ok(1) [OF assms(1,4) can, of False]
  obtain nonce s2 where s2: "GetNonce ?db s1 ?a = (nonce, s2)" by fastforce
  have "sstep ?db False ?s0 s2" using sstep_reads(2) [OF s1, of ?a] s2 by simp
  define s3 where "s3 = (if rIsYoloV3 (ve_rules env) then AddAddressToAccessList (SetNonce ?db s2 ?a (nonce + 1)) addr
    else SetNonce ?db s2 ?a (nonce + 1))"
  have s3: "sstep ?db False ?s0 s3"
    using sstep_writes(1) [OF \<open>sstep ?db False ?s0 s2\<close>, of ?a "nonce + 1"] by (simp add: s3_def sstep_touches(2))
  obtain h s4 where h: "GetCodeHash ?db s3 addr = (h, s4)" by fastforce
  have s4: "sstep ?db False ?s0 s4" using sstep_reads(3) [OF s3, of addr] h by simp
  obtain n s5 where n: "GetNonce ?db s4 addr = (n, s5)" by fastforce
  have s5: "sstep ?db False ?s0 s5" using sstep_reads(2) [OF s4, of addr] n by simp
  obtain i s6 where snap: "Snapshot s5 = (i, s6)" by fastforce
  have s6: "sstep ?db False s6 s6" using fresh_snapshot [OF assms(1) _ snap] sstep_inv [OF s5] by blast
  define s7 where "s7 = (if rIsEIP158 (ve_rules env) then SetNonce ?db (CreateAccount ?db s6 addr) addr 1 else CreateAccount ?db s6 addr)"
  have s7: "sstep ?db False s6 s7"
    using sstep_touches(5) [OF s6, of addr] sstep_writes(1) [of ?db False s6 "CreateAccount ?db s6 addr" addr 1] by (simp add: s7_def)
  define s8 where "s8 = bc_Transfer (ve_Context env) s7 ?a addr v"
  have s8: "sstep ?db False s6 s8" unfolding s8_def by (rule Transfer_ok [OF assms(1) s7]) simp
  obtain c jd where c: "NewContract caller addr v gas (evm_jumpdests evm) = (c, jd)" by fastforce
  define k where "k = SetCodeOptionalHash c (Some addr) ch"
  have k: "c_Gas k = gas"
    using NewContract_gas [of caller addr v gas "evm_jumpdests evm"] c by (simp add: k_def SetCodeOptionalHash_def)
  have stop: "create_post env evm gas ((ret, x, g, err), evm\<lparr>evm_StateDB := t\<rparr>)"
    if "sstep ?db False ?s0 t" "unat g \<le> unat gas" for ret x g err t using that by (simp add: create_post_def within_def)
  have s08: "sstep ?db False ?s0 s8" using sstep_trans [OF sstep_touches(7) [OF s5]] s8 snap by simp
  have "vm_post env (\<lambda>((ret, err), c', evm'). unat (c_Gas c') \<le> unat gas \<and> within env False s8 evm evm')
    (Run loop k [] False (evm\<lparr>evm_StateDB := s8, evm_jumpdests := jd\<rparr>))"
    using Run_ok [OF assms(1,2), of k "evm\<lparr>evm_StateDB := s8, evm_jumpdests := jd\<rparr>" False False "[]"] k assms(3) sstep_inv [OF s8]
    by simp
  then have "vm_post env (create_post env evm gas) (obind (Run loop k [] False (evm\<lparr>evm_StateDB := s8, evm_jumpdests := jd\<rparr>))
      (end_create env i addr))"
    unfolding post_obind
    by (rule post_mono) (auto intro!: end_create_ok [OF s5 snap] elim: within_trans [OF s8])
  moreover have "create_post env evm gas ((ret, x, gas, err), evm)" for ret x err using s0 by (simp add: create_post_def within_def)
  ultimately show ?thesis
    using stop [OF s1] stop [OF s5] stop [OF s08]
    unfolding evm_create_def can s2 h n snap c Let_def split_conv s3_def [symmetric] s7_def [symmetric] s8_def [symmetric] k_def [symmetric] post_if
    by (simp add: h n snap s7_def [symmetric] s8_def [symmetric])
qed

section \<open>All calls\<close>

lemma call_post_ok:
  assumes "vm_post env (call_post env (static env evm) evm gas) x"
  shows "call_ok env gas evm x"
  unfolding call_ok_def using assms by (rule post_mono) (auto simp: call_post_def within_def evm_step_def)

lemma create_post_ok:
  assumes "vm_post env (create_post env evm gas) x" "\<not> static env evm"
  shows "create_ok env gas evm x"
  unfolding create_ok_def using assms(1) by (rule post_mono) (use assms(2) in \<open>auto simp: create_post_def within_def evm_step_def\<close>)

lemma evm_Create_ok:
  assumes "env_ok env" "loop_ok env G loop" "unat gas < G" "state_inv (ve_db env) (evm_StateDB evm)" "\<not> static env evm"
  shows "vm_post env (create_post env evm gas) (evm_Create env loop caller code gas v evm)"
proof -
  obtain n s where n: "GetNonce (ve_db env) (evm_StateDB evm) (ref_Address caller) = (n, s)" by fastforce
  have "sstep (ve_db env) False (evm_StateDB evm) (evm_StateDB evm)" using assms(1,4) by (simp add: env_ok_def sstep_refl)
  from sstep_reads(2) [OF this] have s: "sstep (ve_db env) False (evm_StateDB evm) s" using n by (metis snd_conv)
  let ?e = "evm\<lparr>evm_StateDB := s\<rparr>"
  have "vm_post env (create_post env ?e gas) (evm_create env loop caller (code, 0) gas v
      (CreateAddress (se_keccak (ve_db env)) (ref_Address caller) n) ?e)"
    by (rule evm_create_ok [OF assms(1-3)]) (use assms(5) sstep_inv [OF s] in \<open>simp_all add: static_def\<close>)
  then have "vm_post env (create_post env evm gas) (evm_create env loop caller (code, 0) gas v
      (CreateAddress (se_keccak (ve_db env)) (ref_Address caller) n) ?e)"
    by (rule post_mono) (auto simp: create_post_def intro: within_trans [OF s])
  then show ?thesis by (simp add: evm_Create_def n)
qed

lemma evm_Create2_ok:
  assumes "env_ok env" "loop_ok env G loop" "unat gas < G" "state_inv (ve_db env) (evm_StateDB evm)" "\<not> static env evm"
  shows "vm_post env (create_post env evm gas) (evm_Create2 env loop caller code gas v salt evm)"
  unfolding evm_Create2_def Let_def by (rule evm_create_ok [OF assms])

lemma evm_calls_ok:
  assumes "env_ok env" "loop_ok env G loop" "G \<le> gas_limit"
  shows "calls_ok env G (evm_calls env loop)"
  unfolding calls_ok_def
proof (intro allI impI conjI; simp add: evm_calls_def)
  fix c addr input v salt and gas :: u64 and evm :: "'a EVM"
  assume *: "unat gas < G" "state_inv (ve_db env) (evm_StateDB evm)"
  show "call_ok env gas evm (evm_Call env loop (ContractPtr c) addr input gas v evm)" if "static env evm \<longrightarrow> v = 0"
    by (rule call_post_ok [OF evm_Call_ok [OF assms(1,2) *(1) assms(3) *(2)]]) (use that in blast)
  show "call_ok env gas evm (evm_CallCode env loop (ContractPtr c) addr input gas v evm)"
    by (rule call_post_ok [OF evm_CallCode_ok [OF assms(1,2) *(1) assms(3) *(2)]])
  show "call_ok env gas evm (evm_DelegateCall env loop (ContractPtr c) addr input gas evm)"
    by (rule call_post_ok [OF evm_DelegateCall_ok [OF assms(1,2) *(1) assms(3) *(2)]])
  show "call_ok env gas evm (evm_StaticCall env loop (ContractPtr c) addr input gas evm)"
    by (rule call_post_ok [OF evm_StaticCall_ok [OF assms(1,2) *(1) assms(3) *(2)]]) (simp add: static_def)
  assume "\<not> static env evm"
  then show "create_ok env gas evm (evm_Create env loop (ContractPtr c) input gas v evm)"
    "create_ok env gas evm (evm_Create2 env loop (ContractPtr c) input gas v salt evm)"
    using create_post_ok evm_Create_ok [OF assms(1,2) *] evm_Create2_ok [OF assms(1,2) *] by blast+
qed

section \<open>The loop\<close>

lemma calls_ok_less: "calls_ok env G calls \<Longrightarrow> H \<le> G \<Longrightarrow> calls_ok env H calls"
  unfolding calls_ok_def by (intro allI impI) (drule order_less_le_trans, assumption, blast)

text \<open>Each iteration and each frame uses gas: fuel above the gas is enough.\<close>

lemma run_loop_ok:
  assumes "env_ok env"
  shows "loop_ok env (min n gas_limit) (run_loop n env)"
proof (induction n)
  case (Suc n)
  show ?case
    unfolding loop_ok_def
  proof (intro allI impI)
    fix vm :: "'a vm"
    assume vm: "frame_ok vm" "state_inv (ve_db env) (vm_db vm)" "unat (vm_gas vm) < min (Suc n) gas_limit"
    have "calls_ok env (unat (vm_gas vm)) (evm_calls env (run_loop n env))"
      by (rule calls_ok_less [OF evm_calls_ok [OF assms Suc]]) (use vm(3) in simp_all)
    note st = step_ok [OF assms vm(1,2) this]
    have next_ok: "vm_post env (\<lambda>(ret, err, vm''). unat (vm_gas vm'') \<le> unat (vm_gas vm) \<and> keeps env vm vm'') (run_loop n env vm')"
      if "frame_ok vm'" "unat (vm_gas vm') < unat (vm_gas vm)" "keeps env vm vm'" for vm'
    proof -
      have "state_inv (ve_db env) (vm_db vm')" using that(3) sstep_inv unfolding evm_step_def vm_db_def by blast
      then have "vm_post env (\<lambda>(ret, err, vm''). unat (vm_gas vm'') \<le> unat (vm_gas vm') \<and> keeps env vm' vm'') (run_loop n env vm')"
        using Suc that(1,2) vm(3) by (auto simp: loop_ok_def)
      then show ?thesis
        by (rule post_mono) (use that(2,3) evm_step_trans in fastforce)
    qed
    show "vm_post env (\<lambda>(ret, err, vm'). unat (vm_gas vm') \<le> unat (vm_gas vm) \<and> keeps env vm vm') (run_loop (Suc n) env vm)"
      unfolding run_loop.simps post_obind using st
    proof (rule post_mono)
      fix r assume "step_post env (unat (vm_gas vm)) vm r"
      then show "vm_post env (\<lambda>(ret, err, vm'). unat (vm_gas vm') \<le> unat (vm_gas vm) \<and> keeps env vm vm')
          (case r of Continue vm \<Rightarrow> run_loop n env vm | Stop ret err vm \<Rightarrow> Return (ret, err, vm))"
        using next_ok by (cases r) (auto simp: step_post_def)
    qed
  qed
qed (simp add: loop_ok_def)

end
