(* ===== verification/VM_Safety.thy ===== *)
theory VM_Safety
  imports VM_Call_Safety
begin

text \<open>
  What the virtual machine guarantees: a call returns within a bounded number of steps and does not panic but for the
  listed causes, it gives back no more gas than it got, a call that fails leaves the world as it was, and a static call
  leaves every account, the logs and the refund counter as they were.
\<close>

section \<open>Static calls\<close>

text \<open>
  Worlds in which every account reads the same, with the same refund counter and logs. An account that does not exist
  reads as an empty one.
\<close>

definition same_world :: "keccak \<Rightarrow> world \<Rightarrow> world \<Rightarrow> bool" where
  "same_world k v w =
     ((\<forall>a. get_account k w a = get_account k v a) \<and> w_refund w = w_refund v \<and> w_logs w = w_logs v \<and> w_logSize w = w_logSize v)"

lemma same_world_refl: "same_world k w w"
  by (simp add: same_world_def)

lemma same_world_trans: "same_world k u v \<Longrightarrow> same_world k v w \<Longrightarrow> same_world k u w"
  by (simp add: same_world_def)

lemma same_world_put: "get_account k w a = x \<Longrightarrow> same_world k w (put_account w a x)"
  by (auto simp: same_world_def get_account_def put_account_def)

lemma harmless_world_op:
  assumes "harmless env op s" "w = world_of env s" "world_op k op w = Some (r, w')"
  shows "same_world k w w'"
proof (cases op)
  case (OpCreateAccount a)
  then have "live_object env s a = None"
    using assms(1) getStateObject_fst [of env s a] by (auto simp: Exist_def split: prod.splits)
  then have "w_accounts w a = None" using assms(2) by (simp add: world_of_def)
  then show ?thesis
    using assms(3) OpCreateAccount same_world_put [of k w a] by (auto simp: get_account_def read_account_def)
next
  case (OpAddBalance a v)
  then show ?thesis using assms(1,3) same_world_put [of k w a] by (auto simp: Let_def)
next
  case (OpSubBalance a v)
  then show ?thesis using assms(1,3) same_world_put [of k w a] by (auto simp: Let_def)
qed (use assms in \<open>auto simp: same_world_def get_account_def split: if_splits\<close>)

lemma machine_op_world:
  "op \<noteq> OpSnapshot \<Longrightarrow> (\<And>i. op \<noteq> OpRevertToSnapshot i) \<Longrightarrow>
    machine_op k op m = map_option (\<lambda>(r, w). (r, m\<lparr>m_world := w\<rparr>)) (world_op k op (m_world m))"
  by (cases op) (simp_all, metis)

text \<open>The saved worlds that can be gone back to are the same, too.\<close>

lemma chain_same_world:
  assumes "chain env True rid s t" "db_ok env tr sn" "simulates env tr sn s m" "\<And>i w. (i, w) \<in> set (m_saved m) \<Longrightarrow> i < rid"
  shows "\<exists>n. simulates env tr sn t n \<and> same_world (se_keccak env) (m_world m) (m_world n)
    \<and> (\<forall>(i, w) \<in> set (m_saved n). rid \<le> i \<longrightarrow> same_world (se_keccak env) (m_world m) w)"
  using assms(1)
proof induction
  case chain_refl
  have "\<not> rid \<le> i" if "(i, w) \<in> set (m_saved m)" for i w using assms(4) [OF that] by simp
  then show ?case using assms(3) same_world_refl by fastforce
next
  case (chain_step t op r u)
  let ?k = "se_keccak env"
  obtain n where n: "simulates env tr sn t n" "same_world ?k (m_world m) (m_world n)"
    "\<And>i w. (i, w) \<in> set (m_saved n) \<Longrightarrow> rid \<le> i \<Longrightarrow> same_world ?k (m_world m) w"
    using chain_step.IH by fastforce
  obtain n' where n': "machine_op ?k op n = Some (r, n')" "simulates env tr sn u n'"
    using simulates_op [OF assms(2) n(1), of op] chain_step(2) by (auto simp: option_rel_Some1)
  have "same_world ?k (m_world m) (m_world n') \<and> (\<forall>(i, w) \<in> set (m_saved n'). rid \<le> i \<longrightarrow> same_world ?k (m_world m) w)"
  proof -
    consider "op = OpSnapshot" | j where "op = OpRevertToSnapshot j"
      | w' where "world_op ?k op (m_world n) = Some (r, w')" "n' = n\<lparr>m_world := w'\<rparr>"
      using n'(1) machine_op_world [of op ?k n] by (cases "world_op ?k op (m_world n)") fastforce+
    then show ?thesis
    proof cases
      case 1
      then show ?thesis using n'(1) n(2,3) by auto
    next
      case (2 j)
      then have "rid \<le> j" using chain_step(4) by blast
      obtain w where w: "map_of (m_saved n) j = Some w" "m_world n' = w" "set (m_saved n') \<subseteq> set (m_saved n)"
        using n'(1) 2 set_takeWhileD by (fastforce split: option.splits)
      have "same_world ?k (m_world m) w" using n(3) map_of_SomeD [OF w(1)] \<open>rid \<le> j\<close> by blast
      then show ?thesis using n(3) w(2,3) by blast
    next
      case (3 w')
      have "same_world ?k (m_world n) w'"
        using harmless_world_op [OF chain_step(3) _ 3(1)] n(1) by (simp add: simulates_def)
      then show ?thesis using 3(2) n(2,3) same_world_trans by auto
    qed
  qed
  then show ?case using n'(2) by blast
qed

lemma sstep_same_world:
  assumes "sstep env True s t" "db_ok env tr sn" "run_ops env ops (New env root tr sn) = Some (rs, s)"
  shows "same_world (se_keccak env) (world_of env s) (world_of env t)"
proof -
  obtain m where m: "simulates env tr sn s m"
    using simulates_ops [OF assms(2) simulates_New [OF assms(2)], of ops root] assms(3) by (auto simp: option_rel_Some1)
  have new: "i < sdb_nextRevisionId s" if mem: "(i, w) \<in> set (m_saved m)" for i w
  proof -
    have "list_all2 (\<lambda>r q. fst q = fst r) (sdb_validRevisions s) (m_saved m)"
      using m by (auto simp: simulates_def saved_worlds_def elim: list_all2_mono)
    moreover obtain x where "x < length (m_saved m)" "m_saved m ! x = (i, w)" using mem by (auto simp: in_set_conv_nth)
    ultimately have "sdb_validRevisions s ! x \<in> set (sdb_validRevisions s)" "fst (sdb_validRevisions s ! x) = i"
      by (auto simp: list_all2_conv_all_nth)
    then show ?thesis using m by (auto simp: simulates_def state_inv_def revisions_ok_def)
  qed
  have "chain env True (sdb_nextRevisionId s) s t" using assms(1) by (simp add: sstep_def)
  then obtain n where "simulates env tr sn t n" "same_world (se_keccak env) (m_world m) (m_world n)"
    using chain_same_world [of env _ s t tr sn m] assms(2) m new by blast
  then show ?thesis using m by (simp add: simulates_def)
qed

section \<open>A machine in its first call\<close>

definition bare_evm :: "unit EVM" where
  "bare_evm =
     \<lparr>evm_StateDB = New bare_env 0 () None, evm_depth = 0, evm_callGasTemp = 0, evm_jumpdests = (\<lambda>_. None),
      in_readOnly = False, in_returnData = []\<rparr>"

definition bare_vm :: "unit vm" where
  "bare_vm =
     \<lparr>vm_pc = 0, vm_stack = [1, 2], vm_rstack = [], vm_mem = NewMemory,
      vm_contract = \<lparr>c_CallerAddress = 7, c_self = 9, c_analysis = None, c_Code = [0x01, 0x00], c_CodeHash = 5, c_CodeAddr = Some 9,
                     c_Input = [], c_Gas = 50000, c_value = 0\<rparr>,
      vm_evm = bare_evm\<rparr>"

lemma bare_vm_simps [simp]:
  "ve_db bare_vm_env = bare_env" "evm_StateDB bare_evm = New bare_env 0 () None" "in_readOnly bare_evm = False"
  "vm_evm bare_vm = bare_evm" "length (vm_stack bare_vm) = 2" "mem_store (vm_mem bare_vm) = []" "vm_gas bare_vm = 50000"
  "rIsByzantium (ve_rules bare_vm_env)"
  by (simp_all add: bare_vm_env_def bare_evm_def bare_vm_def bare_rules_def NewMemory_def)

lemma bare_state_inv: "state_inv bare_env (New bare_env 0 () None)"
  by (rule New_state_inv) simp

section \<open>Properties\<close>

lemma loop_within: "env_ok env \<Longrightarrow> unat gas < 2 ^ 61 \<Longrightarrow> unat gas < fuel \<Longrightarrow> \<exists>G. loop_ok env G (run_loop fuel env) \<and> unat gas < G \<and> G \<le> gas_limit"
  using run_loop_ok [of env fuel] by (intro exI [of _ "min fuel gas_limit"]) (auto simp: gas_limit_def)

text \<open>
  C37. A step of the interpreter, from a frame with less than \<open>2 ^ 61\<close> gas, at most 1024 stack items and at most 0x1FFFFFFFE0
  bytes of memory on a well-formed state, with at least as much fuel for the calls below it as it has gas, returns or panics
  for one of the causes in \<open>vm_panics\<close>: a slice longer than Go can have, an analysis left by other code with the same hash,
  the refund counter below zero (from Constantinople on) and, under YoloV3, a contract that is not on the access list. If it
  goes on, the next frame is within the same bounds and has strictly less gas; if it ends the frame, the gas has not grown.
  The state stays well-formed, and if the frame goes on the depth and the read-only flag are as before. The environment is
  one whose 256-bit integers and hash of addresses behave as documented and that transfers value as the block context of
  this repository does.
\<close>

theorem step_safe:
  assumes "env_ok env" "state_inv (ve_db env) (evm_StateDB (vm_evm vm))"
    "length (vm_stack vm) \<le> 1024" "length (mem_store (vm_mem vm)) \<le> 0x1FFFFFFFE0" "unat (vm_gas vm) < 2 ^ 61" "unat (vm_gas vm) \<le> fuel"
  shows "vm_post env (\<lambda>r. case r of
      Continue vm' \<Rightarrow>
        length (vm_stack vm') \<le> 1024 \<and> length (mem_store (vm_mem vm')) \<le> 0x1FFFFFFFE0 \<and> unat (vm_gas vm') < unat (vm_gas vm)
        \<and> state_inv (ve_db env) (evm_StateDB (vm_evm vm')) \<and> evm_depth (vm_evm vm') = evm_depth (vm_evm vm)
        \<and> in_readOnly (vm_evm vm') = in_readOnly (vm_evm vm)
    | Stop ret err vm' \<Rightarrow>
        unat (vm_gas vm') \<le> unat (vm_gas vm) \<and> state_inv (ve_db env) (evm_StateDB (vm_evm vm')))
    (step env (evm_calls env (run_loop fuel env)) vm)"
proof -
  have "calls_ok env (unat (vm_gas vm)) (evm_calls env (run_loop fuel env))"
    by (rule calls_ok_less [OF evm_calls_ok [OF assms(1) run_loop_ok [OF assms(1)]]]) (use assms(5,6) in \<open>simp_all add: gas_limit_def\<close>)
  then have "vm_post env (step_post env (unat (vm_gas vm)) vm) (step env (evm_calls env (run_loop fuel env)) vm)"
    by (rule step_ok [OF assms(1), rotated 2]) (use assms(2-4) in \<open>simp_all add: frame_ok_def mem_limit_def vm_db_def\<close>)
  then show ?thesis
    by (rule post_mono) (auto simp: step_post_def frame_ok_def mem_limit_def evm_step_def dest: sstep_inv split: step_result.split)
qed

theorem step_safe_witness:
  "vm_post bare_vm_env (\<lambda>r. case r of Continue vm' \<Rightarrow> unat (vm_gas vm') < 50000 | Stop ret err vm' \<Rightarrow> unat (vm_gas vm') \<le> 50000)
    (step bare_vm_env (evm_calls bare_vm_env (run_loop 50000 bare_vm_env)) bare_vm)"
  by (rule post_mono [OF step_safe [OF bare_vm_env_ok, of bare_vm 50000]]) (auto simp: bare_state_inv split: step_result.splits)

text \<open>
  C38. A call of any of the four kinds with less than \<open>2 ^ 61\<close> gas on a well-formed state ends: with more fuel than gas it
  returns, or panics for one of the causes in \<open>vm_panics\<close>. It gives back no more gas than it got and leaves the state
  well-formed, the depth and the read-only flag as they were. If it returns an error, the accounts, the refund counter, the
  logs, the preimages and the access list are as before the call.
\<close>

theorem evm_calls_safe:
  assumes "env_ok env" "state_inv (ve_db env) (evm_StateDB evm)" "unat gas < 2 ^ 61" "unat gas < fuel"
    "r \<in> {evm_Call env (run_loop fuel env) caller addr input gas v evm,
           evm_CallCode env (run_loop fuel env) caller addr input gas v evm,
           evm_DelegateCall env (run_loop fuel env) (ContractPtr c) addr input gas evm,
           evm_StaticCall env (run_loop fuel env) caller addr input gas evm}"
  shows "vm_post env (\<lambda>((ret, g, err), evm').
      unat g \<le> unat gas \<and> state_inv (ve_db env) (evm_StateDB evm') \<and> evm_depth evm' = evm_depth evm \<and> in_readOnly evm' = in_readOnly evm
      \<and> (err = None \<or> world_of (ve_db env) (evm_StateDB evm') = world_of (ve_db env) (evm_StateDB evm))) r"
proof -
  obtain G where G: "loop_ok env G (run_loop fuel env)" "unat gas < G" "G \<le> gas_limit" using loop_within assms(1,3,4) by blast
  note calls = evm_Call_ok [OF assms(1) G assms(2), of False] evm_CallCode_ok [OF assms(1) G assms(2), of False]
    evm_DelegateCall_ok [OF assms(1) G assms(2), of False] evm_StaticCall_ok [OF assms(1) G assms(2), of False]
  have "vm_post env (call_post env False evm gas) r" using assms(5) calls by fastforce
  then show ?thesis
    by (rule post_mono) (auto simp: call_post_def within_def dest: sstep_inv intro: world_of_eq)
qed

theorem evm_calls_safe_witness:
  "vm_post bare_vm_env (\<lambda>((ret, g, err), evm').
      unat g \<le> 90000 \<and> state_inv bare_env (evm_StateDB evm')
      \<and> (err = None \<or> world_of bare_env (evm_StateDB evm') = world_of bare_env (evm_StateDB bare_evm)))
    (evm_Call bare_vm_env (run_loop 90001 bare_vm_env) (AccountRef 7) 5 [1, 2] 90000 1 bare_evm)"
  by (rule post_mono [OF evm_calls_safe [OF bare_vm_env_ok, of bare_evm 90000 90001 _ "AccountRef 7" 5 "[1, 2]" 1]])
    (auto simp: bare_state_inv)

text \<open>
  C39. The creation of a contract, not within a static call, with less than \<open>2 ^ 61\<close> gas on a well-formed state ends in the
  same way: with more fuel than gas it returns, or panics for one of the causes in \<open>vm_panics\<close>, gives back no more gas than
  it got, and leaves the state well-formed, the depth and the read-only flag as they were, whatever the code does and
  whatever it returns.
\<close>

theorem evm_creates_safe:
  assumes "env_ok env" "state_inv (ve_db env) (evm_StateDB evm)" "unat gas < 2 ^ 61" "unat gas < fuel" "\<not> in_readOnly evm"
    "r \<in> {evm_Create env (run_loop fuel env) caller code gas v evm, evm_Create2 env (run_loop fuel env) caller code gas v salt evm}"
  shows "vm_post env (\<lambda>((ret, addr, g, err), evm').
      unat g \<le> unat gas \<and> state_inv (ve_db env) (evm_StateDB evm') \<and> evm_depth evm' = evm_depth evm \<and> in_readOnly evm' = in_readOnly evm) r"
proof -
  obtain G where G: "loop_ok env G (run_loop fuel env)" "unat gas < G" using loop_within assms(1,3,4) by blast
  have "\<not> static env evm" using assms(5) by (simp add: static_def)
  then have "vm_post env (create_post env evm gas) r"
    using assms(6) evm_Create_ok [OF assms(1) G assms(2)] evm_Create2_ok [OF assms(1) G assms(2)] by fastforce
  then show ?thesis by (rule post_mono) (auto simp: create_post_def within_def dest: sstep_inv)
qed

theorem evm_creates_safe_witness:
  "vm_post bare_vm_env (\<lambda>((ret, addr, g, err), evm'). unat g \<le> 90000 \<and> state_inv bare_env (evm_StateDB evm'))
    (evm_Create bare_vm_env (run_loop 90001 bare_vm_env) (AccountRef 7) [0x60, 0x00, 0x60, 0x00, 0xf3] 90000 0 bare_evm)"
  by (rule post_mono [OF evm_creates_safe
        [OF bare_vm_env_ok, of bare_evm 90000 90001 _ "AccountRef 7" "[0x60, 0x00, 0x60, 0x00, 0xf3]" 0]])
    (auto simp: bare_state_inv)

text \<open>
  C40. A static call with less than \<open>2 ^ 61\<close> gas, from Byzantium on, changes nothing that a contract can own: from a state
  that was opened on a database and then worked on in any way, after a call that returns the nonce, the balance, the code,
  the storage and the suicide mark of every account, the refund counter and the logs are as before, whatever code runs below
  the call. With more fuel than gas the call does return, or panics for one of the causes in \<open>vm_panics\<close>.
\<close>

theorem evm_StaticCall_pure:
  assumes "env_ok env" "db_ok (ve_db env) tr sn" "run_ops (ve_db env) ops (New (ve_db env) root tr sn) = Some (rs, evm_StateDB evm)"
    "rIsByzantium (ve_rules env)" "unat gas < 2 ^ 61" "unat gas < fuel"
  shows "vm_post env (\<lambda>(r, evm'). same_world (se_keccak (ve_db env)) (world_of (ve_db env) (evm_StateDB evm)) (world_of (ve_db env) (evm_StateDB evm')))
    (evm_StaticCall env (run_loop fuel env) caller addr input gas evm)"
proof -
  obtain G where G: "loop_ok env G (run_loop fuel env)" "unat gas < G" "G \<le> gas_limit" using loop_within assms(1,5,6) by blast
  have "accounts_ok (ve_db env) tr sn" using assms(2) by (simp add: db_ok_def accounts_ok_def)
  then have inv: "state_inv (ve_db env) (evm_StateDB evm)"
    using New_run_state_inv [OF _ _ assms(3)] assms(2) by (simp add: db_ok_def)
  have "vm_post env (call_post env True evm gas) (evm_StaticCall env (run_loop fuel env) caller addr input gas evm)"
    by (rule evm_StaticCall_ok [OF assms(1) G inv]) (rule assms(4))
  then show ?thesis
    by (rule post_mono) (auto simp: call_post_def within_def intro: sstep_same_world [OF _ assms(2,3)])
qed

theorem evm_StaticCall_pure_witness:
  "vm_post bare_vm_env (\<lambda>(r, evm'). same_world (se_keccak bare_env) (world_of bare_env (evm_StateDB bare_evm)) (world_of bare_env (evm_StateDB evm')))
    (evm_StaticCall bare_vm_env (run_loop 90001 bare_vm_env) (AccountRef 7) 5 [1, 2] 90000 bare_evm)"
  by (rule post_mono [OF evm_StaticCall_pure [OF bare_vm_env_ok, of "()" None "[]" 0 "[]" bare_evm 90000 90001 "AccountRef 7" 5 "[1, 2]"]])
    (auto simp: bare_ok)

end
