(* ===== verification/Spec2Isabelle.thy ===== *)
theory Spec2Isabelle
  imports Chain_Params RLP_Roundtrip Ethash_Sizes Ethash_Batch State_Properties VM_Safety
begin

text \<open>
  A verification library for the consensus core of go-virbicoin, a fork of go-ethereum: what a node computes to decide
  whether a block is valid, from the bytes of a header to the execution of contract code. File names below are relative to
  \<^verbatim>\<open>src/\<close>.

  \<^bold>\<open>The program.\<close> A node reads headers and accounts as RLP data (\<^verbatim>\<open>rlp\<close>), identifies a header by the hash of its encoding
  (\<^verbatim>\<open>core/types\<close>), verifies headers, uncles and seals with the proof-of-work engine (\<^verbatim>\<open>consensus/ethash\<close>) under the rules that
  the chain configuration (\<^verbatim>\<open>params\<close>) gives for the block number, and runs contracts in the virtual machine (\<^verbatim>\<open>core/vm\<close>) on a
  journaled world state (\<^verbatim>\<open>core/state\<close>) whose snapshots undo failed calls.

  \<^bold>\<open>How Go is represented.\<close> \<^verbatim>\<open>uint64\<close>, \<^verbatim>\<open>uint32\<close>, \<^verbatim>\<open>byte\<close>, \<^verbatim>\<open>common.Hash\<close> and \<^verbatim>\<open>common.Address\<close> are words of their width, which wrap
  around; a \<^verbatim>\<open>*big.Int\<close> is an integer, or an optional one where the code distinguishes \<^verbatim>\<open>nil\<close>; slices are lists, maps are partial
  functions. State is passed explicitly and returned. A panic is a value (\<^const>\<open>None\<close> or the constructor \<open>Panic\<close>), and so is
  an error. Where the order in which Go ranges over a map or runs goroutines is not specified, the order is an argument or
  a step relation and the theorems hold for every order. Packages outside the repository (hash functions, 256-bit integers,
  sets, curve arithmetic) and the interfaces to databases and tries are parameters; what is relied on of them is a locale or
  a named predicate, and each is shown to be satisfiable by an instance.

  \<^bold>\<open>Theories.\<close>
  \<^item> \<open>Go_Prelude\<close>: the types above and the shared lemmas on words, bytes and lists. \<open>U256_Lib\<close>: the operations of the package
    of 256-bit integers as a record, their documented results as the locale \<open>uint256\<close>, interpreted on 256-bit words.
  \<^item> \<open>Chain_Params\<close>: \<^verbatim>\<open>params/config.go\<close>. The fork schedule and its predicates, \<^verbatim>\<open>CheckCompatible\<close> (its loop terminates, and
    compatible configurations give imported blocks the same rules), \<^verbatim>\<open>CheckConfigForkOrder\<close> (accepted exactly for ordered
    schedules, whose forks are nested), and the networks.
  \<^item> \<open>RLP_Encode\<close>: \<^verbatim>\<open>rlp/encode.go\<close>. The encoder with its deferred list headers equals the recursive encoding \<open>enc_ref\<close>;
    \<^verbatim>\<open>Encode\<close> delivers it to every writer with the contract of \<^verbatim>\<open>io.Writer\<close> (locale \<open>io_writer\<close>). \<open>RLP_Raw\<close>: \<^verbatim>\<open>rlp/raw.go\<close> and
    \<^verbatim>\<open>rlp/iterator.go\<close>. \<open>RLP_Decode\<close>: the stream and the decoders of \<^verbatim>\<open>rlp/decode.go\<close>. \<open>RLP_Roundtrip\<close>: decoding terminates,
    accepts only canonical encodings and inverts the encoder exactly on the canonical values of a type.
  \<^item> \<open>Block_Header\<close>: \<^verbatim>\<open>core/types/block.go\<close>. Headers, blocks and their hashes; the hash of a header commits to all fields.
  \<^item> \<open>Ethash_Difficulty\<close>: the difficulty calculators on big integers (\<^verbatim>\<open>consensus.go\<close>) and on 256-bit integers
    (\<^verbatim>\<open>difficulty.go\<close>), with bounds, monotonicity and the exact formulas. \<open>Ethash_Algorithm\<close>, \<open>Ethash_Sizes\<close>: \<^verbatim>\<open>algorithm.go\<close>, the
    generation of caches and datasets by goroutines and the two forms of \<^verbatim>\<open>hashimoto\<close>, which agree; the search for sizes.
    \<open>Ethash_Engine\<close>: \<^verbatim>\<open>ethash.go\<close> and the seal. \<open>Ethash_Verify\<close>: \<^verbatim>\<open>verifyHeader\<close>, \<^verbatim>\<open>VerifyUncles\<close> (over the locale
    \<open>hash_set\<close> for the package of sets), \<^verbatim>\<open>Prepare\<close> and \<^verbatim>\<open>consensus/misc\<close>. \<open>Ethash_Batch\<close>: the workers of \<^verbatim>\<open>VerifyHeaders\<close> as an
    inductive step relation; results come in order, none is lost, and an accepted batch is a chain on the local one.
  \<^item> \<open>State_Access\<close>, \<open>State_Objects\<close>, \<open>State_DB\<close>: \<^verbatim>\<open>core/state/access_list.go\<close>, \<^verbatim>\<open>state_object.go\<close>, \<^verbatim>\<open>statedb.go\<close> and
    \<^verbatim>\<open>journal.go\<close>. \<open>State_Revert\<close> and \<open>State_Snapshots\<close>: every operation leaves a journal that undoes it. \<open>State_Refine\<close>: an
    abstract world whose snapshots save everything, and the simulation by the journaled state. \<open>State_Properties\<close>: the
    consequences for every sequence of operations.
  \<^item> \<open>VM_Memory\<close>, \<open>VM_Analysis\<close>: stack, memory and their size functions; contracts and jump destinations. \<open>VM_State\<close>,
    \<open>VM_Gas\<close>, \<open>VM_Instructions\<close>, \<open>VM_Tables\<close>, \<open>VM_Precompiles\<close>, \<open>VM_Interpreter\<close>: contexts, prices, instructions, the
    instruction sets of every fork, precompiled contracts, and the interpreter with calls and creations.
  \<^item> \<open>VM_Logic\<close> to \<open>VM_Safety\<close>: a logic of outcomes (\<open>post\<close>) and its application to prices, instructions, tables, a step,
    precompiled contracts and calls in turn. A call returns, does not panic but for the causes in \<open>vm_panics\<close>, gives
    back no more gas than it got and undoes its effects if it fails; a static call has none.

  \<^bold>\<open>Fuel and bounds.\<close> The decoders run on fuel \<open>dec_fuel\<close>, which the length of the input and the size of the type determine
  and which is proved to be enough. The interpreter runs on fuel that exceeds the gas: every step that goes on costs gas, so
  it is proved to be enough. Gas is below \<open>2 ^ 61\<close>, far above any block, because the price of a modular exponentiation with
  lengths near \<open>2 ^ 64\<close> can be paid from \<open>7 * 10 ^ 18\<close> gas on and then a slice expression panics. The memory of a frame stays
  below 0x1FFFFFFFE0 bytes, the limit in the code. Caches are below 4 GB and datasets below 16 GB, from where on the 32-bit
  index of the full lookup wraps around.

  \<^bold>\<open>Not modelled.\<close> Everything that writes to disk or network: \<^verbatim>\<open>Commit\<close> and the tries behind the state (parameters), the
  snapshot layers, the databases, the peer-to-peer layer, the RPC services, wallets and commands. \<^verbatim>\<open>New\<close> of the state starts
  from the trie that \<^verbatim>\<open>OpenTrie\<close> gave; if opening fails there is no state. The trie prefetcher, metrics, tracers and logging
  have no effect on results. Custom \<^verbatim>\<open>EncodeRLP\<close> and \<^verbatim>\<open>DecodeRLP\<close> methods, the type cache and the context added to decoding
  errors are left out of the RLP model, as are the pools that recycle buffers. The engine has no mining, no remote sealer
  and no least-recently-used lists of caches, and no block rewards beyond the header checks. The virtual machine has no
  EWASM interpreter, no extra EIPs and no cancellation; hash and curve precompiles are a parameter, and the BLS12-381
  contracts, which no instruction set enables, are left out. Clique, transactions and receipts, the transaction pool,
  transaction execution above the virtual machine and chain management are not part of the library.
\<close>

end
